(* ===== verification/Base64_JS.thy ===== *)
theory Base64_JS
  imports Main "HOL-Library.Word" "HOL-Library.Char_ord"
begin

text \<open>
  The one JavaScript file of the repository is the minified Swagger UI bundle that the server embeds
  for its API documentation (\<^verbatim>\<open>internal/server/api/docs/assets/swagger-ui-bundle.js\<close>, a licence line
  and one line of code). This theory models the self-contained module it opens with, \<^verbatim>\<open>67526\<close>
  (\<^verbatim>\<open>base64-js\<close>): \<^verbatim>\<open>getLens\<close>, \<^verbatim>\<open>byteLength\<close>, \<^verbatim>\<open>toByteArray\<close>, \<^verbatim>\<open>encodeChunk\<close>, \<^verbatim>\<open>fromByteArray\<close> and
  the two tables. The rest of the bundle is third-party code that nothing else here refers to.

  A string is its list of UTF-16 code units; a number under the bit operators is its 32-bit word (the
  values stay far below the sign bit, so \<^verbatim>\<open>>>\<close> is \<^const>\<open>drop_bit\<close>); an element read outside an
  array or a string is \<^verbatim>\<open>undefined\<close> or \<^verbatim>\<open>NaN\<close>, which the bit operators read as 0; a write outside
  a \<^verbatim>\<open>Uint8Array\<close> is ignored.
\<close>

unbundle bit_operations_syntax

section \<open>Definitions\<close>

type_synonym js_string = "16 word list"
type_synonym byte = "8 word"

definition js_code :: "char \<Rightarrow> 16 word" where
  "js_code c = word_of_nat (of_char c)"

definition alphabet :: js_string where
  "alphabet = map js_code
     ''ABCDEFGHIJKLMNOPQRSTUVWXYZabcdefghijklmnopqrstuvwxyz0123456789+/''"

definition pad :: "16 word" where "pad = js_code (CHR ''='')"

definition code_char :: "32 word \<Rightarrow> 16 word" where
  "code_char n = alphabet ! unat n"

definition revLookup :: "16 word \<Rightarrow> 32 word" where
  "revLookup c =
     (case map_of (zip alphabet [0..<64] @ [(js_code (CHR ''-''), 62), (js_code (CHR ''_''), 63)]) c of
        None \<Rightarrow> 0
      | Some n \<Rightarrow> word_of_nat n)"

datatype base64_error = InvalidLength | RangeError

text \<open>\<^verbatim>\<open>getLens\<close>: the length up to the first \<^verbatim>\<open>=\<close>, and the number of place holders.\<close>

definition index_of :: "js_string \<Rightarrow> 16 word \<Rightarrow> nat" where
  "index_of s c = length (takeWhile (\<lambda>x. x \<noteq> c) s)"

definition getLens :: "js_string \<Rightarrow> base64_error + nat \<times> nat" where
  "getLens s =
     (if length s mod 4 > 0 then Inl InvalidLength
      else let valid = index_of s pad
           in Inr (valid, if valid = length s then 0 else 4 - valid mod 4))"

definition byteLength :: "js_string \<Rightarrow> base64_error + int" where
  "byteLength s =
     (case getLens s of
        Inl err \<Rightarrow> Inl err
      | Inr (valid, holders) \<Rightarrow> Inr (int (3 * (valid + holders) div 4) - int holders))"

definition rev_at :: "js_string \<Rightarrow> nat \<Rightarrow> 32 word" where
  "rev_at s i = (if i < length s then revLookup (s ! i) else 0)"

definition low_byte :: "32 word \<Rightarrow> byte" where
  "low_byte o1 = ucast (255 AND o1)"

text \<open>The main loop of \<^verbatim>\<open>toByteArray\<close>, with the indices \<open>i\<close> and \<open>j\<close> and the array.\<close>

function decode_loop :: "js_string \<Rightarrow> int \<Rightarrow> nat \<Rightarrow> nat \<Rightarrow> byte list \<Rightarrow> nat \<times> nat \<times> byte list" where
  "decode_loop s l i j out =
     (if int i < l then
        let v = push_bit 18 (rev_at s i) OR push_bit 12 (rev_at s (i + 1)) OR
                push_bit 6 (rev_at s (i + 2)) OR rev_at s (i + 3)
        in decode_loop s l (i + 4) (j + 3)
             (out[j := low_byte (drop_bit 16 v), j + 1 := low_byte (drop_bit 8 v), j + 2 := low_byte v])
      else (i, j, out))"
  by auto
termination by (relation "measure (\<lambda>(s, l, i, j, out). nat (l - int i))") auto

declare decode_loop.simps [simp del]

definition toByteArray :: "js_string \<Rightarrow> base64_error + byte list" where
  "toByteArray s =
     (case getLens s of
        Inl err \<Rightarrow> Inl err
      | Inr (valid, holders) \<Rightarrow>
          let size = int (3 * (valid + holders) div 4) - int holders
          in if size < 0 then Inl RangeError
             else
               let l = (if holders > 0 then int valid - 4 else int valid);
                   (i, j, out) = decode_loop s l 0 0 (replicate (nat size) 0)
               in if holders = 2 then
                    let v = push_bit 2 (rev_at s i) OR drop_bit 4 (rev_at s (i + 1))
                    in Inr (out[j := low_byte v])
                  else if holders = 1 then
                    let v = push_bit 10 (rev_at s i) OR push_bit 4 (rev_at s (i + 1)) OR
                            drop_bit 2 (rev_at s (i + 2))
                    in Inr (out[j := low_byte (drop_bit 8 v), j + 1 := low_byte v])
                  else Inr out)"

definition byte_at :: "byte list \<Rightarrow> nat \<Rightarrow> 32 word" where
  "byte_at s i = (if i < length s then ucast (s ! i) else 0)"

definition tripletToBase64 :: "32 word \<Rightarrow> js_string" where
  "tripletToBase64 v =
     [code_char (drop_bit 18 v AND 63), code_char (drop_bit 12 v AND 63),
      code_char (drop_bit 6 v AND 63), code_char (63 AND v)]"

function encodeChunk :: "byte list \<Rightarrow> nat \<Rightarrow> nat \<Rightarrow> js_string" where
  "encodeChunk s x e =
     (if x < e then
        tripletToBase64 ((push_bit 16 (byte_at s x) AND 16711680) +
           (push_bit 8 (byte_at s (x + 1)) AND 65280) + (255 AND byte_at s (x + 2)))
          @ encodeChunk s (x + 3) e
      else [])"
  by auto
termination by (relation "measure (\<lambda>(s, x, e). e - x)") auto

declare encodeChunk.simps [simp del]

definition chunk_size :: nat where "chunk_size = 16383"

function encode_chunks :: "byte list \<Rightarrow> nat \<Rightarrow> nat \<Rightarrow> js_string" where
  "encode_chunks s x e =
     (if x < e then
        encodeChunk s x (if e < x + chunk_size then e else x + chunk_size)
          @ encode_chunks s (x + chunk_size) e
      else [])"
  by auto
termination by (relation "measure (\<lambda>(s, x, e). e - x)") (auto simp: chunk_size_def)

declare encode_chunks.simps [simp del]

definition fromByteArray :: "byte list \<Rightarrow> js_string" where
  "fromByteArray s =
     (let n = length s; extra = n mod 3; body = encode_chunks s 0 (n - extra)
      in if extra = 1 then
           let v = byte_at s (n - 1)
           in body @ [code_char (drop_bit 2 v), code_char (push_bit 4 v AND 63), pad, pad]
         else if extra = 2 then
           let v = push_bit 8 (byte_at s (n - 2)) + byte_at s (n - 1)
           in body @ [code_char (drop_bit 10 v), code_char (drop_bit 4 v AND 63),
                code_char (push_bit 2 v AND 63), pad]
         else body)"

section \<open>Lemmas\<close>

subsection \<open>The tables\<close>

lemma length_alphabet: "length alphabet = 64"
  by (simp add: alphabet_def)

lemma unat_js_code: "unat (js_code c) = of_char c"
proof -
  have "(of_char c :: nat) < 2 ^ 8" using nat_of_char_less_256 [of c] by simp
  also have "(2::nat) ^ 8 \<le> 2 ^ 16" by simp
  finally show ?thesis by (simp add: js_code_def unat_of_nat take_bit_nat_eq_self_iff)
qed

lemma unat_alphabet: "map unat alphabet = [65..<91] @ [97..<123] @ [48..<58] @ [43, 47]"
  by (simp add: alphabet_def unat_js_code upt_rec)

lemma distinct_alphabet: "distinct alphabet"
proof -
  have "distinct (map unat alphabet)" unfolding unat_alphabet by simp
  then show ?thesis by (simp add: distinct_map)
qed

lemma pad_not_in_alphabet: "pad \<notin> set alphabet"
proof
  assume "pad \<in> set alphabet"
  then have "unat pad \<in> set (map unat alphabet)" by simp
  then show False unfolding unat_alphabet by (simp add: pad_def unat_js_code)
qed

lemma alphabet_table: "n < 64 \<Longrightarrow> revLookup (alphabet ! n) = word_of_nat n \<and> alphabet ! n \<noteq> pad"
proof
  assume n: "n < 64"
  then have mem: "alphabet ! n \<in> set alphabet" by (simp add: length_alphabet)
  have "map_of (zip alphabet [0..<64]) (alphabet ! n) = Some n"
    using map_of_zip_nth [OF _ distinct_alphabet, of "[0..<64]" n] n by (simp add: length_alphabet)
  then show "revLookup (alphabet ! n) = word_of_nat n" by (simp add: revLookup_def map_add_def)
  show "alphabet ! n \<noteq> pad" using mem pad_not_in_alphabet by metis
qed

lemma revLookup_code: "v < 64 \<Longrightarrow> revLookup (code_char v) = v"
  using alphabet_table by (simp add: code_char_def word_less_nat_alt)

lemma code_not_pad: "v < 64 \<Longrightarrow> code_char v \<noteq> pad"
  using alphabet_table by (simp add: code_char_def word_less_nat_alt)

subsection \<open>Three bytes as four characters\<close>

definition group :: "byte \<Rightarrow> byte \<Rightarrow> byte \<Rightarrow> 32 word" where
  "group a b c = push_bit 16 (ucast a) OR push_bit 8 (ucast b) OR ucast c"

lemma masks:
  "(63 :: 32 word) = mask 6" "(255 :: 32 word) = mask 8"
  "(65280 :: 32 word) = push_bit 8 (mask 8)" "(16711680 :: 32 word) = push_bit 16 (mask 8)"
  by (simp_all add: mask_eq_exp_minus_1 push_bit_eq_mult)

lemma sextet_less: "drop_bit k v AND 63 < (64 :: 32 word)" "63 AND v < (64 :: 32 word)"
proof -
  have less: "x AND mask 6 < (64 :: 32 word)" for x
  proof -
    have "unat (take_bit 6 x) < 2 ^ 6" by (simp only: unsigned_take_bit_eq take_bit_nat_less_exp)
    moreover have "unat (64 :: 32 word) = 2 ^ 6" by simp
    ultimately show ?thesis unfolding word_less_nat_alt take_bit_eq_mask by (simp only:)
  qed
  show "drop_bit k v AND 63 < (64 :: 32 word)" "63 AND v < (64 :: 32 word)"
    unfolding masks(1) using less [of "drop_bit k v"] less [of v] by (simp_all add: and.commute)
qed

lemma byte_bit: "bit a k \<Longrightarrow> k < 8" for a :: byte
  using bit_imp_le_length [of a k] by simp

lemma triple_value:
  "(push_bit 16 (ucast a) AND 16711680) + (push_bit 8 (ucast b) AND 65280) + (255 AND ucast c) = group a b c"
  for a b c :: byte
proof -
  have a: "push_bit 16 (ucast a) AND 16711680 = (push_bit 16 (ucast a) :: 32 word)"
    and b: "push_bit 8 (ucast b) AND 65280 = (push_bit 8 (ucast b) :: 32 word)"
    and c: "255 AND ucast c = (ucast c :: 32 word)"
    unfolding masks by (auto simp: bit_eq_iff bit_simps dest: byte_bit)
  have "push_bit 16 (ucast a) + push_bit 8 (ucast b) = (push_bit 16 (ucast a) OR push_bit 8 (ucast b) :: 32 word)"
    by (rule disjunctive_add_eq_or) (auto simp: bit_eq_iff bit_simps dest: byte_bit)
  moreover have "(push_bit 16 (ucast a) OR push_bit 8 (ucast b)) + ucast c = group a b c"
    unfolding group_def or.assoc [symmetric]
    by (rule disjunctive_add_eq_or) (auto simp: bit_eq_iff bit_simps dest: byte_bit)
  ultimately show ?thesis unfolding a b c by simp
qed

lemma regroup:
  "push_bit 18 (drop_bit 18 v AND 63) OR push_bit 12 (drop_bit 12 v AND 63) OR
   push_bit 6 (drop_bit 6 v AND 63) OR (63 AND v) = take_bit 24 v" for v :: "32 word"
proof (rule bit_eqI)
  fix n :: nat
  consider "n < 6" | "6 \<le> n \<and> n < 12" | "12 \<le> n \<and> n < 18" | "18 \<le> n \<and> n < 24" | "24 \<le> n" by linarith
  then show "bit (push_bit 18 (drop_bit 18 v AND 63) OR push_bit 12 (drop_bit 12 v AND 63) OR
   push_bit 6 (drop_bit 6 v AND 63) OR (63 AND v)) n = bit (take_bit 24 v) n"
    unfolding masks by cases (auto simp: bit_simps dest: bit_imp_le_length)
qed

lemma low_bytes:
  "low_byte (drop_bit 16 (take_bit 24 (group a b c))) = a"
  "low_byte (drop_bit 8 (take_bit 24 (group a b c))) = b"
  "low_byte (take_bit 24 (group a b c)) = c"
  unfolding low_byte_def group_def masks by (auto simp: bit_eq_iff bit_simps dest: byte_bit)

subsection \<open>A reference encoder\<close>

text \<open>Three bytes at a time, with the rest padded: no index, no chunks.\<close>

fun enc :: "byte list \<Rightarrow> js_string" where
  "enc (a # b # c # bs) = tripletToBase64 (group a b c) @ enc bs"
| "enc [a, b] =
     (let v = group 0 a b in [code_char (drop_bit 10 v), code_char (drop_bit 4 v AND 63),
        code_char (push_bit 2 v AND 63), pad])"
| "enc [a] =
     (let v = ucast a in [code_char (drop_bit 2 v), code_char (push_bit 4 v AND 63), pad, pad])"
| "enc [] = []"

lemma length_triplet [simp]: "length (tripletToBase64 v) = 4"
  by (simp add: tripletToBase64_def)

lemma length_enc: "length (enc bs) = 4 * ((length bs + 2) div 3)"
proof (induction bs rule: enc.induct)
  case (1 a b c bs)
  have "(length (a # b # c # bs) + 2) div 3 = 1 + (length bs + 2) div 3" by simp
  with 1 show ?case by simp
qed (simp_all add: Let_def)

lemma enc_append: "3 dvd length xs \<Longrightarrow> enc (xs @ ys) = enc xs @ enc ys"
proof (induction xs rule: enc.induct)
  case (1 a b c bs)
  from "1.prems" have "3 dvd length bs" by simp presburger
  with "1.IH" show ?case by simp
qed (auto dest: dvd_imp_le)

lemma drop_3: "x + 3 \<le> length s \<Longrightarrow> drop x s = s ! x # s ! (x + 1) # s ! (x + 2) # drop (x + 3) s"
  by (simp add: Cons_nth_drop_Suc numeral_3_eq_3 add.commute)

lemma encodeChunk_enc:
  "e \<le> length s \<Longrightarrow> 3 dvd e - x \<Longrightarrow> encodeChunk s x e = enc (take (e - x) (drop x s))"
proof (induction s x e rule: encodeChunk.induct)
  case (1 s x e)
  show ?case
  proof (cases "x < e")
    case True
    with "1.prems" have e: "x + 3 \<le> e" by presburger
    have "encodeChunk s (x + 3) e = enc (take (e - (x + 3)) (drop (x + 3) s))"
      using True "1.prems" e by (intro "1.IH") presburger+
    moreover have "take (e - x) (drop x s) =
        s ! x # s ! (x + 1) # s ! (x + 2) # take (e - (x + 3)) (drop (x + 3) s)"
    proof -
      have "e - x = Suc (Suc (Suc (e - (x + 3))))" using e by simp
      then show ?thesis using drop_3 [of x s] e "1.prems"(1) by simp
    qed
    ultimately show ?thesis
      using True e "1.prems"(1)
      by (simp add: encodeChunk.simps [of s x e] byte_at_def triple_value)
  qed (simp add: encodeChunk.simps)
qed

lemma encode_chunks_enc:
  "e \<le> length s \<Longrightarrow> 3 dvd e - x \<Longrightarrow> encode_chunks s x e = enc (take (e - x) (drop x s))"
proof (induction s x e rule: encode_chunks.induct)
  case (1 s x e)
  have three: "3 dvd chunk_size" by (simp add: chunk_size_def)
  show ?case
  proof (cases "x < e")
    case True
    show ?thesis
    proof (cases "e < x + chunk_size")
      case less: True
      then show ?thesis
        using True "1.prems" encodeChunk_enc [of e s x]
        by (simp add: encode_chunks.simps [of s x e] encode_chunks.simps [of s "x + chunk_size" e])
    next
      case False
      have "3 dvd e - (x + chunk_size)"
        using "1.prems"(2) three False by (metis diff_diff_left dvd_diff_nat)
      with "1.IH" True "1.prems"(1) have
        "encode_chunks s (x + chunk_size) e = enc (take (e - (x + chunk_size)) (drop (x + chunk_size) s))"
        by blast
      moreover have "encodeChunk s x (x + chunk_size) = enc (take chunk_size (drop x s))"
        using encodeChunk_enc [of "x + chunk_size" s x] three False "1.prems"(1) by simp
      moreover have "take (e - x) (drop x s) =
          take chunk_size (drop x s) @ take (e - (x + chunk_size)) (drop (x + chunk_size) s)"
        using False by (metis add.commute diff_diff_left drop_drop le_add_diff_inverse not_less
            add_le_imp_le_diff take_add)
      moreover have "3 dvd length (take chunk_size (drop x s))"
        using three False "1.prems"(1) by (simp add: min_absorb2)
      ultimately show ?thesis
        using True False by (simp add: encode_chunks.simps [of s x e] enc_append)
    qed
  qed (simp add: encode_chunks.simps)
qed

lemma fromByteArray_enc: "fromByteArray bs = enc bs"
proof -
  let ?n = "length bs" and ?m = "length bs - length bs mod 3"
  have m: "3 dvd ?m" by (rule dvd_minus_mod)
  have body: "encode_chunks bs 0 ?m = enc (take ?m bs)"
    using encode_chunks_enc [of ?m bs 0] m by simp
  have split: "enc bs = enc (take ?m bs) @ enc (drop ?m bs)"
    using enc_append [of "take ?m bs" "drop ?m bs"] m by (simp add: min_absorb2)
  have len: "length (drop ?m bs) = ?n mod 3" by simp
  have nth: "drop ?m bs ! k = bs ! (?m + k)" for k by simp
  consider "?n mod 3 = 0" | "?n mod 3 = 1" | "?n mod 3 = 2" by linarith
  then show ?thesis
  proof cases
    case 1
    have "length (drop ?m bs) = 0" by (rule trans [OF len 1])
    then have "drop ?m bs = []" by (simp only: length_0_conv)
    moreover have "fromByteArray bs = enc (take ?m bs)"
      unfolding fromByteArray_def Let_def body using 1 by (simp only: if_False zero_neq_one zero_neq_numeral)
    ultimately show ?thesis by (subst split) (simp only: enc.simps append_Nil2)
  next
    case 2
    have "length (drop ?m bs) = Suc 0" using trans [OF len 2] by simp
    then obtain a where rest: "drop ?m bs = [a]" unfolding length_Suc_conv by blast
    have "bs ! (?n - 1) = a" using nth [of 0] 2 unfolding rest by simp
    moreover have "?n \<noteq> 0" using 2 by auto
    ultimately have "fromByteArray bs = enc (take ?m bs) @ enc [a]"
      unfolding fromByteArray_def Let_def body using 2 by (simp add: byte_at_def Let_def)
    then show ?thesis by (subst split) (simp only: rest)
  next
    case 3
    have "length (drop ?m bs) = Suc (Suc 0)" using trans [OF len 3] by simp
    then obtain a b where rest: "drop ?m bs = [a, b]" unfolding length_Suc_conv by blast
    have n2: "2 \<le> ?n" using 3 by (metis mod_less_eq_dividend)
    with 3 have "?m + 0 = ?n - 2" "?m + 1 = ?n - 1" by simp_all
    with nth [of 0] nth [of 1] have "bs ! (?n - 2) = a" "bs ! (?n - 1) = b" unfolding rest by simp_all
    moreover have "push_bit 8 (ucast a) + ucast b = group 0 a b"
      using triple_value [of 0 a b] unfolding group_def
      by (subst disjunctive_add_eq_or) (auto simp: bit_eq_iff bit_simps dest: byte_bit)
    ultimately have "fromByteArray bs = enc (take ?m bs) @ enc [a, b]"
      unfolding fromByteArray_def Let_def body using 3 n2 by (simp add: byte_at_def Let_def)
    then show ?thesis by (subst split) (simp only: rest)
  qed
qed

subsection \<open>Decoding what was encoded\<close>

lemma rev_at_append: "rev_at (p @ s) (length p + k) = rev_at s k"
  by (simp add: rev_at_def nth_append)

lemma rev_at_triplet:
  "rev_at (tripletToBase64 v @ s) 0 = drop_bit 18 v AND 63"
  "rev_at (tripletToBase64 v @ s) 1 = drop_bit 12 v AND 63"
  "rev_at (tripletToBase64 v @ s) 2 = drop_bit 6 v AND 63"
  "rev_at (tripletToBase64 v @ s) 3 = 63 AND v"
  by (simp_all add: rev_at_def tripletToBase64_def revLookup_code sextet_less)

lemma triple_suc: "n + 3 = Suc (Suc (Suc n))"
  by simp

lemma decode_loop_enc:
  "\<lbrakk>int (length p) + 4 * int (length bs div 3) - 4 < l; l \<le> int (length p) + 4 * int (length bs div 3);
    3 * (length bs div 3) \<le> length r\<rbrakk> \<Longrightarrow>
   decode_loop (p @ enc bs) l (length p) (length q) (q @ r) =
     (length p + 4 * (length bs div 3), length q + 3 * (length bs div 3),
      q @ take (3 * (length bs div 3)) bs @ drop (3 * (length bs div 3)) r)"
proof (induction bs arbitrary: p q r rule: enc.induct)
  case (1 a b c bs)
  let ?v = "group a b c" and ?k = "length bs div 3"
  have k: "length (a # b # c # bs) div 3 = Suc ?k" by simp
  from "1.prems"(3) obtain x y z r' where r: "r = x # y # z # r'" and r': "3 * ?k \<le> length r'"
    unfolding k by (cases r; cases "tl r"; cases "tl (tl r)") auto
  have s: "p @ enc (a # b # c # bs) = (p @ tripletToBase64 ?v) @ enc bs" by simp
  let ?s = "p @ enc (a # b # c # bs)"
  have at: "rev_at ?s (length p + n) = rev_at (tripletToBase64 ?v @ enc bs) n" for n
    by (simp add: rev_at_append)
  have v: "push_bit 18 (rev_at ?s (length p)) OR push_bit 12 (rev_at ?s (length p + 1)) OR
      push_bit 6 (rev_at ?s (length p + 2)) OR rev_at ?s (length p + 3) = take_bit 24 ?v"
    using at [of 0] unfolding at add_0_right by (simp only: rev_at_triplet regroup)
  have upd: "(q @ r)[length q := a, length q + 1 := b, length q + 2 := c] = (q @ [a, b, c]) @ r'"
    by (simp add: r list_update_append)
  have "decode_loop (p @ enc (a # b # c # bs)) l (length p) (length q) (q @ r) =
      decode_loop (p @ enc (a # b # c # bs)) l (length p + 4) (length q + 3)
        ((q @ r)[length q := a, length q + 1 := b, length q + 2 := c])"
    using "1.prems"(1) unfolding k
    by (subst decode_loop.simps) (simp only: Let_def v low_bytes if_True, simp)
  also have "\<dots> = decode_loop ((p @ tripletToBase64 ?v) @ enc bs) l (length (p @ tripletToBase64 ?v))
      (length (q @ [a, b, c])) ((q @ [a, b, c]) @ r')"
    unfolding s upd by (simp add: triple_suc)
  also have "\<dots> = (length (p @ tripletToBase64 ?v) + 4 * ?k, length (q @ [a, b, c]) + 3 * ?k,
      (q @ [a, b, c]) @ take (3 * ?k) bs @ drop (3 * ?k) r')"
    by (rule "1.IH") (use "1.prems" r' k in simp_all)
  moreover have "3 * Suc ?k = Suc (Suc (Suc (3 * ?k)))" by simp
  then have "take (3 * Suc ?k) (a # b # c # bs) = a # b # c # take (3 * ?k) bs"
    "drop (3 * Suc ?k) (x # y # z # r') = drop (3 * ?k) r'"
    by (simp_all only: take_Suc_Cons drop_Suc_Cons)
  ultimately show ?case unfolding k r by simp
qed (simp_all add: decode_loop.simps [of _ l])

lemma sextet_bits: "(\<And>n. bit v n \<Longrightarrow> n < 6) \<Longrightarrow> v < 64" for v :: "32 word"
proof -
  assume "\<And>n. bit v n \<Longrightarrow> n < 6"
  then have "63 AND v = v" unfolding masks(1) by (auto simp: bit_eq_iff bit_simps)
  with sextet_less(2) [of v] show "v < 64" by simp
qed

lemma high_sextets:
  "drop_bit 2 (ucast a) < (64 :: 32 word)" "drop_bit 10 (group 0 a b) < 64" for a b :: byte
  by (rule sextet_bits; auto simp: group_def bit_simps dest: byte_bit)+

lemma shifted_sextets: "push_bit k v AND 63 < (64 :: 32 word)"
  using sextet_less(2) [of "push_bit k v"] by (simp only: and.commute)

lemma index_of_enc:
  "index_of (enc bs) pad =
     (if length bs mod 3 = 0 then length (enc bs) else 4 * (length bs div 3) + length bs mod 3 + 1)"
proof (induction bs rule: enc.induct)
  case (1 a b c bs)
  have "index_of (enc (a # b # c # bs)) pad = 4 + index_of (enc bs) pad"
    by (simp add: index_of_def tripletToBase64_def code_not_pad sextet_less)
  moreover have "length (a # b # c # bs) div 3 = Suc (length bs div 3)" by simp
  moreover have "length (a # b # c # bs) mod 3 = length bs mod 3" by simp
  ultimately show ?case using 1 by (simp only: enc.simps length_append length_triplet) simp
qed (simp_all add: index_of_def Let_def code_not_pad high_sextets sextet_less shifted_sextets)

lemma low_one:
  "low_byte (push_bit 2 (drop_bit 2 (ucast a)) OR drop_bit 4 (push_bit 4 (ucast a) AND 63)) = a"
proof (rule bit_eqI)
  fix n :: nat
  consider "n < 2" | m where "n = m + 2" by (metis add.commute le_add_diff_inverse not_less)
  then show "bit (low_byte (push_bit 2 (drop_bit 2 (ucast a)) OR drop_bit 4 (push_bit 4 (ucast a) AND 63))) n = bit a n"
    unfolding low_byte_def masks by cases (auto simp: bit_simps dest: byte_bit)
qed

lemma low_two:
  "push_bit 10 (drop_bit 10 w) OR push_bit 4 (drop_bit 4 w AND 63) OR drop_bit 2 (push_bit 2 w AND 63) = w"
  for w :: "32 word"
proof (rule bit_eqI)
  fix n :: nat
  consider "n < 4" | "4 \<le> n \<and> n < 10" | "10 \<le> n" by linarith
  then show "bit (push_bit 10 (drop_bit 10 w) OR push_bit 4 (drop_bit 4 w AND 63) OR
      drop_bit 2 (push_bit 2 w AND 63)) n = bit w n"
    unfolding masks by cases (auto simp: bit_simps dest: bit_imp_le_length)
qed

lemma length_blocks: "3 * (n div 3) + n mod 3 = (n :: nat)"
  by simp

lemma getLens_enc:
  "getLens (enc bs) = Inr (index_of (enc bs) pad, (3 - length bs mod 3) mod 3)"
proof -
  let ?n = "length bs" and ?i = "index_of (enc bs) pad"
  have len: "\<not> length (enc bs) mod 4 > 0" by (simp add: length_enc)
  have "(if ?i = length (enc bs) then 0 else 4 - ?i mod 4) = (3 - ?n mod 3) mod 3"
  proof (cases "?n mod 3 = 0")
    case False
    then have i: "?i = 4 * (?n div 3) + ?n mod 3 + 1" by (simp add: index_of_enc)
    have "(4 * q + r) mod 4 = r" if "r < 4" for q r :: nat using that by simp
    then have mod: "?i mod 4 = ?n mod 3 + 1" unfolding i add.assoc by simp
    with len have "?i \<noteq> length (enc bs)" by auto
    moreover from False have "?n mod 3 = 1 \<or> ?n mod 3 = 2" by linarith
    then have "4 - ?i mod 4 = (3 - ?n mod 3) mod 3" unfolding mod by auto
    ultimately show ?thesis by simp
  qed (simp add: index_of_enc)
  with len show ?thesis by (simp only: getLens_def Let_def if_False)
qed

lemma toByteArray_enc: "toByteArray (enc bs) = Inr bs"
proof -
  let ?n = "length bs" and ?k = "length bs div 3"
  have loop: "decode_loop (enc bs) l 0 0 r = (4 * ?k, 3 * ?k, take (3 * ?k) bs @ drop (3 * ?k) r)"
    if "4 * int ?k - 4 < l" "l \<le> 4 * int ?k" "3 * ?k \<le> length r" for l r
    using decode_loop_enc [of "[]" bs l r "[]"] that by simp
  have at: "rev_at (enc bs) (4 * ?k + i) = rev_at (enc (drop (3 * ?k) bs)) i" for i
  proof -
    have three: "length (take (3 * ?k) bs) = 3 * ?k" by (simp add: min_absorb2)
    then have "enc bs = enc (take (3 * ?k) bs) @ enc (drop (3 * ?k) bs)"
      using enc_append [of "take (3 * ?k) bs" "drop (3 * ?k) bs"] by simp
    moreover have "length (enc (take (3 * ?k) bs)) = 4 * ?k" unfolding length_enc three by simp
    ultimately show ?thesis using rev_at_append [of "enc (take (3 * ?k) bs)"] by metis
  qed
  have len: "length (drop (3 * ?k) bs) = ?n mod 3" by (simp add: minus_mult_div_eq_mod)
  have whole: "take (3 * ?k) bs @ drop (3 * ?k) bs = bs" by simp
  have three: "length (take (3 * ?k) bs) = 3 * ?k" by (simp add: min_absorb2)
  consider "?n mod 3 = 0" | "?n mod 3 = 1" | "?n mod 3 = 2" by linarith
  then show ?thesis
  proof cases
    case 1
    then have n: "3 * ?k = ?n" using length_blocks [of ?n] by simp
    have "(3 * ?k + 2) div 3 = ?k" by simp
    then have "4 * ?k = length (enc bs)" unfolding length_enc n by simp
    moreover from this n have "3 * length (enc bs) div 4 = ?n" by linarith
    ultimately show ?thesis using 1 n loop [of "int (length (enc bs))" "replicate ?n 0"]
      by (simp add: toByteArray_def getLens_enc index_of_enc Let_def)
  next
    case 2
    then have n: "?n = 3 * ?k + 1" using length_blocks [of ?n] by simp
    have "length (drop (3 * ?k) bs) = Suc 0" using trans [OF len 2] by simp
    then obtain a where rest: "drop (3 * ?k) bs = [a]" unfolding length_Suc_conv by blast
    have "take (3 * ?k) bs @ drop (3 * ?k) (replicate ?n (0 :: byte)) = take (3 * ?k) bs @ [0]"
      using n by (metis add_diff_cancel_left' drop_replicate replicate_0 replicate_Suc One_nat_def)
    with loop [of "4 * int ?k - 2" "replicate ?n 0"] n have
      "decode_loop (enc bs) (4 * int ?k - 2) 0 0 (replicate ?n 0) = (4 * ?k, 3 * ?k, take (3 * ?k) bs @ [0])"
      by simp
    moreover have "rev_at (enc bs) (4 * ?k) = drop_bit 2 (ucast a)"
      "rev_at (enc bs) (4 * ?k + 1) = push_bit 4 (ucast a) AND 63"
      using at [of 0] at [of 1] unfolding rest
      by (simp_all add: Let_def rev_at_def revLookup_code high_sextets shifted_sextets)
    moreover have "(take (3 * ?k) bs @ [0])[3 * ?k := a] = bs"
      using whole rest three by (metis list_update_length)
    moreover have "nat (1 + 3 * int ?k) = ?n" using n by linarith
    moreover note low_one [of a]
    ultimately show ?thesis
      using 2 by (simp add: toByteArray_def getLens_enc index_of_enc Let_def)
  next
    case 3
    then have n: "?n = 3 * ?k + 2" using length_blocks [of ?n] by simp
    have "length (drop (3 * ?k) bs) = Suc (Suc 0)" using trans [OF len 3] by simp
    then obtain a b where rest: "drop (3 * ?k) bs = [a, b]" unfolding length_Suc_conv by blast
    have "take (3 * ?k) bs @ drop (3 * ?k) (replicate ?n (0 :: byte)) = take (3 * ?k) bs @ [0, 0]"
      using n by (metis add_diff_cancel_left' drop_replicate numeral_2_eq_2 replicate_0 replicate_Suc)
    with loop [of "4 * int ?k - 1" "replicate ?n 0"] n have
      "decode_loop (enc bs) (4 * int ?k - 1) 0 0 (replicate ?n 0) = (4 * ?k, 3 * ?k, take (3 * ?k) bs @ [0, 0])"
      by simp
    moreover have "rev_at (enc bs) (4 * ?k) = drop_bit 10 (group 0 a b)"
      "rev_at (enc bs) (4 * ?k + 1) = drop_bit 4 (group 0 a b) AND 63"
      "rev_at (enc bs) (4 * ?k + 2) = push_bit 2 (group 0 a b) AND 63"
      using at [of 0] at [of 1] at [of 2] unfolding rest
      by (simp_all add: Let_def rev_at_def revLookup_code high_sextets sextet_less shifted_sextets)
    moreover have "(take (3 * ?k) bs @ [0, 0])[3 * ?k := a, 3 * ?k + 1 := b] = bs"
      using whole rest three by (simp add: list_update_append)
    moreover have "take_bit 24 (group 0 a b) = group 0 a b"
      by (auto simp: bit_eq_iff group_def bit_simps dest: byte_bit)
    then have "low_byte (drop_bit 8 (push_bit 10 (drop_bit 10 (group 0 a b)) OR
          push_bit 4 (drop_bit 4 (group 0 a b) AND 63) OR drop_bit 2 (push_bit 2 (group 0 a b) AND 63))) = a"
      "low_byte (push_bit 10 (drop_bit 10 (group 0 a b)) OR
          push_bit 4 (drop_bit 4 (group 0 a b) AND 63) OR drop_bit 2 (push_bit 2 (group 0 a b) AND 63)) = b"
      unfolding low_two using low_bytes(2,3) [of 0 a b] by simp_all
    moreover have "nat (2 + 3 * int ?k) = ?n" using n by linarith
    ultimately show ?thesis
      using 3 by (simp add: toByteArray_def getLens_enc index_of_enc Let_def)
  qed
qed

lemma length_decode_loop: "decode_loop s l i j out = (i', j', out') \<Longrightarrow> length out' = length out"
proof (induction s l i j out rule: decode_loop.induct)
  case (1 s l i j out)
  then show ?case
    by (cases "int i < l") (simp_all add: decode_loop.simps [of s l i j out] Let_def)
qed

lemma index_of_zero: "index_of s c = 0 \<longleftrightarrow> s = [] \<or> hd s = c"
  by (cases s) (simp_all add: index_of_def)

lemma index_of_le: "index_of s c \<le> length s"
  by (simp add: index_of_def length_takeWhile_le)

lemma size_negative:
  "length s mod 4 = 0 \<Longrightarrow> getLens s = Inr (v, h) \<Longrightarrow>
     int (3 * (v + h) div 4) - int h < 0 \<longleftrightarrow> s \<noteq> [] \<and> hd s = pad"
proof -
  assume len: "length s mod 4 = 0" and "getLens s = Inr (v, h)"
  then have v: "v = index_of s pad" and h: "h = (if v = length s then 0 else 4 - v mod 4)"
    by (auto simp: getLens_def Let_def split: if_splits)
  have z: "v = 0 \<longleftrightarrow> s = [] \<or> hd s = pad" unfolding v by (rule index_of_zero)
  show ?thesis
  proof (cases "v = length s")
    case True
    with h have "\<not> int (3 * (v + h) div 4) - int h < 0" by simp
    moreover from True z have "s = [] \<or> hd s \<noteq> pad" by auto
    ultimately show ?thesis by auto
  next
    case False
    then have h': "h = 4 - v mod 4" using h by simp
    have "v + h = 4 * (v div 4 + 1)" unfolding h' by presburger
    then have "3 * (v + h) div 4 = 3 * (v div 4 + 1)" by simp
    moreover have "int h = 4 - int (v mod 4)" unfolding h' by (simp add: of_nat_diff less_imp_le)
    moreover have "v = 0 \<longleftrightarrow> int (v div 4) = 0 \<and> int (v mod 4) = 0" by (metis add_0 div_0 mod_0 mult_div_mod_eq mult_0_right of_nat_eq_0_iff)
    ultimately have "int (3 * (v + h) div 4) - int h < 0 \<longleftrightarrow> v = 0" by (auto simp: algebra_simps)
    moreover have "s \<noteq> []" using False v by (auto simp: index_of_def)
    ultimately show ?thesis using z by simp
  qed
qed

section \<open>Properties\<close>

text \<open>
  C17: encoding bytes and decoding the text gives the bytes back, for arrays of every length, and
  \<^verbatim>\<open>byteLength\<close> of the text is the number of bytes.
\<close>

theorem base64_roundtrip:
  "toByteArray (fromByteArray bs) = Inr bs \<and> byteLength (fromByteArray bs) = Inr (int (length bs))"
proof -
  let ?n = "length bs"
  have "byteLength (enc bs) = Inr (int ?n)"
  proof (cases "?n mod 3 = 0")
    case True
    then have "index_of (enc bs) pad = length (enc bs)" by (simp add: index_of_enc)
    moreover have "3 * length (enc bs) div 4 = ?n" using True unfolding length_enc by presburger
    ultimately show ?thesis using True by (simp add: byteLength_def getLens_enc)
  next
    case False
    then have i: "index_of (enc bs) pad = 4 * (?n div 3) + ?n mod 3 + 1" by (simp add: index_of_enc)
    from False have "?n mod 3 = 1 \<or> ?n mod 3 = 2" by linarith
    moreover have "int ?n = 3 * int (?n div 3) + int (?n mod 3)"
      by (metis length_blocks of_nat_add of_nat_mult of_nat_numeral)
    ultimately show ?thesis by (auto simp: byteLength_def getLens_enc i)
  qed
  then show ?thesis by (simp add: fromByteArray_enc toByteArray_enc)
qed

text \<open>
  The chunked encoder agrees with the reference encoder that takes three bytes at a time: where
  the chunks of 16383 bytes end makes no difference.
\<close>

lemma fromByteArray_reference: "fromByteArray bs = enc bs"
  by (rule fromByteArray_enc)

text \<open>
  What decoding answers on every text. A length that is not a multiple of four is refused; a
  text that begins with \<^verbatim>\<open>=\<close> makes the array size negative and throws; every other text is decoded
  into as many bytes as \<^verbatim>\<open>byteLength\<close> says.
\<close>

lemma toByteArray_branches:
  "(toByteArray s = Inl InvalidLength \<longleftrightarrow> length s mod 4 \<noteq> 0) \<and>
   (toByteArray s = Inl RangeError \<longleftrightarrow> length s mod 4 = 0 \<and> s \<noteq> [] \<and> hd s = pad) \<and>
   (\<forall>out. toByteArray s = Inr out \<longrightarrow> byteLength s = Inr (int (length out)))"
proof (cases "length s mod 4 = 0")
  case False
  then show ?thesis by (simp add: toByteArray_def getLens_def)
next
  case True
  then obtain v h where lens: "getLens s = Inr (v, h)" by (simp add: getLens_def Let_def)
  let ?size = "int (3 * (v + h) div 4) - int h"
  obtain i j out where loop:
    "decode_loop s (if h > 0 then int v - 4 else int v) 0 0 (replicate (nat ?size) 0) = (i, j, out)"
    by (metis prod_cases3)
  have len: "length out = nat ?size" using length_decode_loop [OF loop] by simp
  show ?thesis
  proof (cases "?size < 0")
    case neg: True
    then have "toByteArray s = Inl RangeError" by (simp add: toByteArray_def lens Let_def)
    moreover have "s \<noteq> [] \<and> hd s = pad" using size_negative [OF True lens] neg by blast
    ultimately show ?thesis using True by simp
  next
    case pos: False
    have "\<exists>out'. toByteArray s = Inr out' \<and> length out' = length out"
      unfolding toByteArray_def lens using pos loop by (simp add: Let_def)
    then obtain out' where "toByteArray s = Inr out'" "length out' = length out" by blast
    moreover have "byteLength s = Inr ?size" by (simp add: byteLength_def lens)
    moreover have "\<not> (s \<noteq> [] \<and> hd s = pad)" using size_negative [OF True lens] pos by blast
    ultimately show ?thesis using True pos len by auto
  qed
qed

lemma toByteArray_branches_example:
  "toByteArray [pad, pad, pad, pad] = Inl RangeError \<and> toByteArray [pad] = Inl InvalidLength"
  using toByteArray_branches [of "[pad, pad, pad, pad]"] toByteArray_branches [of "[pad]"] by simp

end
