(* ===== verification/LW_Prelude.thy ===== *)
theory LW_Prelude
  imports Main "HOL-Library.Word" "HOL-Library.Char_ord" "HOL-Library.List_Lexorder"
begin

text \<open>
  Shared vocabulary of the lanweave development: the result type of fallible Go code, the parts
  of Go's standard library on strings and decimal numbers that the sources use
  (\<^verbatim>\<open>strings.TrimSpace\<close>, \<^verbatim>\<open>strings.CutPrefix\<close>, \<^verbatim>\<open>strconv.ParseInt\<close>, \<^verbatim>\<open>strconv.FormatInt\<close> and the
  \<^verbatim>\<open>%d\<close> verb), the named theorem collections of the component theories, and the generic lemmas
  about lists, \<^verbatim>\<open>filter\<close> and \<^verbatim>\<open>distinct\<close> on which the table lemmas of the store rest.
  A Go \<^verbatim>\<open>string\<close> is its list of bytes (\<^typ>\<open>char\<close> is one byte), as \<^verbatim>\<open>len(s)\<close> counts them.
\<close>

named_theorems table_simps "queries over the tables of the store"
named_theorems table_ok "operations that keep the schema constraints"
named_theorems word_nat "transfer of 32-bit address arithmetic to natural numbers"
named_theorems frame_simps "parts of the state an operation leaves alone"

section \<open>Definitions\<close>

subsection \<open>Results\<close>

type_synonym ('e, 'a) result = "'e + 'a"

text \<open>The left-biased sequencing of Go's \<^verbatim>\<open>if err != nil { return err }\<close>.\<close>

definition bind_res :: "('e, 'a) result \<Rightarrow> ('a \<Rightarrow> ('e, 'b) result) \<Rightarrow> ('e, 'b) result" where
  "bind_res r f = (case r of Inl e \<Rightarrow> Inl e | Inr x \<Rightarrow> f x)"

subsection \<open>Strings\<close>

definition ascii_lower :: "char \<Rightarrow> char" where
  "ascii_lower c =
     (if 65 \<le> (of_char c :: nat) \<and> (of_char c :: nat) \<le> 90 then char_of ((of_char c :: nat) + 32)
      else c)"

text \<open>SQLite's \<^verbatim>\<open>NOCASE\<close> collation folds the 26 ASCII letters only.\<close>

definition nocase :: "string \<Rightarrow> string" where
  "nocase s = map ascii_lower s"

definition has_prefix :: "string \<Rightarrow> string \<Rightarrow> bool" where
  "has_prefix s p = (take (length p) s = p)"

definition has_suffix :: "string \<Rightarrow> string \<Rightarrow> bool" where
  "has_suffix s p = has_prefix (rev s) (rev p)"

definition cut_prefix :: "string \<Rightarrow> string \<Rightarrow> string option" where
  "cut_prefix s p = (if has_prefix s p then Some (drop (length p) s) else None)"

text \<open>The UTF-8 encodings of the code points of \<^verbatim>\<open>unicode.IsSpace\<close>.\<close>

definition bytes :: "nat list \<Rightarrow> string" where
  "bytes ns = map char_of ns"

definition space_runes :: "string list" where
  "space_runes =
     map (\<lambda>b. bytes [b]) [9, 10, 11, 12, 13, 32] @
     map bytes [[0xC2, 0x85], [0xC2, 0xA0], [0xE1, 0x9A, 0x80],
       [0xE2, 0x80, 0xA8], [0xE2, 0x80, 0xA9], [0xE2, 0x80, 0xAF], [0xE2, 0x81, 0x9F],
       [0xE3, 0x80, 0x80]] @
     map (\<lambda>b. bytes [0xE2, 0x80, b]) [0x80 ..< 0x8B]"

fun trim_left_fuel :: "nat \<Rightarrow> string list \<Rightarrow> string \<Rightarrow> string" where
  "trim_left_fuel 0 rs s = s"
| "trim_left_fuel (Suc n) rs s =
     (case find (has_prefix s) rs of
        None \<Rightarrow> s
      | Some r \<Rightarrow> trim_left_fuel n rs (drop (length r) s))"

definition TrimSpace :: "string \<Rightarrow> string" where
  "TrimSpace s =
     (let l = trim_left_fuel (length s) space_runes s
      in rev (trim_left_fuel (length l) (map rev space_runes) (rev l)))"

subsection \<open>Decimal numbers\<close>

definition digit_char :: "nat \<Rightarrow> char" where
  "digit_char d = char_of (48 + d)"

fun show_nat :: "nat \<Rightarrow> string" where
  "show_nat n = (if n < 10 then [digit_char n] else show_nat (n div 10) @ [digit_char (n mod 10)])"

declare show_nat.simps [simp del]

text \<open>\<^verbatim>\<open>strconv.FormatInt(i, 10)\<close> and the \<^verbatim>\<open>%d\<close> verb.\<close>

definition show_int :: "int \<Rightarrow> string" where
  "show_int i = (if i < 0 then ''-'' @ show_nat (nat (- i)) else show_nat (nat i))"

definition digit_val :: "char \<Rightarrow> nat option" where
  "digit_val c =
     (let v = (of_char c :: nat) in if 48 \<le> v \<and> v \<le> 57 then Some (v - 48) else None)"

fun parse_digits :: "nat \<Rightarrow> string \<Rightarrow> nat option" where
  "parse_digits acc [] = Some acc"
| "parse_digits acc (c # cs) =
     (case digit_val c of None \<Rightarrow> None | Some d \<Rightarrow> parse_digits (acc * 10 + d) cs)"

definition parse_nat :: "string \<Rightarrow> nat option" where
  "parse_nat s = (if s = [] then None else parse_digits 0 s)"

text \<open>
  \<^verbatim>\<open>strconv.ParseInt(s, 10, 64)\<close>: an optional sign, at least one digit, and a value within the
  64-bit range; anything else is an error (\<^term>\<open>None\<close>).
\<close>

definition int64_min :: int where "int64_min = - (2 ^ 63)"
definition int64_max :: int where "int64_max = 2 ^ 63 - 1"

definition parse_int64 :: "string \<Rightarrow> int option" where
  "parse_int64 s =
     (let neg = has_prefix s ''-'';
          body = (if neg \<or> has_prefix s ''+'' then drop 1 s else s)
      in case parse_nat body of
           None \<Rightarrow> None
         | Some n \<Rightarrow>
             (let v = (if neg then - int n else int n)
              in if int64_min \<le> v \<and> v \<le> int64_max then Some v else None))"

text \<open>A printable character other than the space.\<close>

definition graphic :: "char \<Rightarrow> bool" where
  "graphic c = (33 \<le> (of_char c :: nat) \<and> of_char c \<le> (126 :: nat))"

section \<open>Lemmas\<close>

subsection \<open>Results\<close>

lemma bind_res_simps [simp]:
  "bind_res (Inl e) f = Inl e"
  "bind_res (Inr x) f = f x"
  by (simp_all add: bind_res_def)

lemma bind_res_Inr_iff:
  "bind_res r f = Inr y \<longleftrightarrow> (\<exists>x. r = Inr x \<and> f x = Inr y)"
  by (cases r) auto

subsection \<open>Lists and projections\<close>

lemma distinct_map_filter [table_simps, simp]:
  "distinct (map f xs) \<Longrightarrow> distinct (map f (filter P xs))"
  by (induction xs) auto

lemma distinct_map_snoc [table_simps]:
  "distinct (map f (xs @ [x])) \<longleftrightarrow> distinct (map f xs) \<and> f x \<notin> f ` set xs"
  by auto

lemma distinct_map_eqD:
  "distinct (map f xs) \<Longrightarrow> x \<in> set xs \<Longrightarrow> y \<in> set xs \<Longrightarrow> f x = f y \<Longrightarrow> x = y"
  by (auto simp: distinct_map inj_on_def)

lemma find_Some_mem: "find P xs = Some x \<Longrightarrow> x \<in> set xs \<and> P x"
  by (induction xs) (auto split: if_splits)

lemma find_None_all: "find P xs = None \<longleftrightarrow> (\<forall>x \<in> set xs. \<not> P x)"
  by (induction xs) auto

lemma find_unique:
  assumes "x \<in> set xs" and "P x" and "\<And>y. y \<in> set xs \<Longrightarrow> P y \<Longrightarrow> y = x"
  shows "find P xs = Some x"
proof (cases "find P xs")
  case None
  with assms(1,2) show ?thesis by (auto simp: find_None_all)
next
  case (Some y)
  with assms(3) show ?thesis by (auto dest: find_Some_mem)
qed

lemma find_keyed:
  assumes "distinct (map f xs)" and "x \<in> set xs"
  shows "find (\<lambda>y. f y = f x) xs = Some x"
  using assms by (intro find_unique) (auto dest: distinct_map_eqD)

lemma distinct_map_update:
  assumes "distinct (map f xs)" and "\<And>x. f (g x) = f x"
  shows "distinct (map f (map g xs))"
  using assms by (simp add: comp_def)

lemma distinct_singleton: "distinct xs \<Longrightarrow> set xs = {v} \<Longrightarrow> xs = [v]"
  by (cases xs; cases "tl xs") auto

lemma length_filter_snoc:
  "length (filter P (xs @ [x])) = length (filter P xs) + (if P x then 1 else 0)"
  by simp

subsection \<open>Decimal numbers\<close>

lemma digit_val_char [simp]: "d < 10 \<Longrightarrow> digit_val (digit_char d) = Some d"
  by (simp add: digit_val_def digit_char_def)

lemma parse_digits_append:
  "parse_digits acc (xs @ ys) =
     (case parse_digits acc xs of None \<Rightarrow> None | Some a \<Rightarrow> parse_digits a ys)"
  by (induction xs arbitrary: acc) (auto split: option.splits)

lemma show_nat_nonempty: "show_nat n \<noteq> []"
  by (subst show_nat.simps) simp

lemma parse_digits_show_nat: "parse_digits 0 (show_nat n) = Some n"
proof (induction n rule: show_nat.induct)
  case (1 n)
  show ?case
  proof (cases "n < 10")
    case True
    then show ?thesis by (simp add: show_nat.simps [of n])
  next
    case False
    with 1 have "parse_digits 0 (show_nat (n div 10)) = Some (n div 10)" by simp
    with False show ?thesis
      by (simp add: show_nat.simps [of n] parse_digits_append)
  qed
qed

lemma parse_nat_show_nat [simp]: "parse_nat (show_nat n) = Some n"
  by (simp add: parse_nat_def show_nat_nonempty parse_digits_show_nat)

lemma show_nat_inj: "show_nat m = show_nat n \<Longrightarrow> m = n"
  by (metis option.inject parse_nat_show_nat)

lemma parse_digits_digits:
  "parse_digits acc s = Some n \<Longrightarrow> c \<in> set s \<Longrightarrow> digit_val c \<noteq> None"
  by (induction s arbitrary: acc) (auto split: option.splits)

lemma show_nat_digits: "c \<in> set (show_nat n) \<Longrightarrow> digit_val c \<noteq> None"
  by (rule parse_digits_digits [OF parse_digits_show_nat])

lemma has_prefix_single: "has_prefix s [c] \<longleftrightarrow> (\<exists>t. s = c # t)"
  by (cases s) (auto simp: has_prefix_def)

lemma show_nat_no_sign:
  "digit_val c = None \<Longrightarrow> \<not> has_prefix (show_nat n) [c]"
  using show_nat_digits [of c n] by (auto simp: has_prefix_single)

lemma sign_not_digit [simp]: "digit_val (CHR ''-'') = None" "digit_val (CHR ''+'') = None"
  "digit_val (CHR ''_'') = None"
  by (simp_all add: digit_val_def)

lemma show_int_inj: "show_int i = show_int j \<Longrightarrow> i = j"
proof -
  assume eq: "show_int i = show_int j"
  have neg: "show_int i \<noteq> show_int j" if "i < 0" "\<not> j < 0" for i j
    using that show_nat_no_sign [of "CHR ''-''" "nat j"]
    by (simp add: show_int_def has_prefix_single) metis
  show ?thesis
  proof (cases "i < 0 \<longleftrightarrow> j < 0")
    case True
    with eq show ?thesis
      by (auto simp: show_int_def split: if_splits dest!: show_nat_inj)
  next
    case False
    with eq neg show ?thesis by metis
  qed
qed

lemma parse_show_int:
  assumes "int64_min \<le> i" and "i \<le> int64_max"
  shows "parse_int64 (show_int i) = Some i"
proof (cases "i < 0")
  case True
  then show ?thesis using assms
    by (simp add: parse_int64_def show_int_def has_prefix_def)
next
  case False
  then have "\<not> has_prefix (show_int i) ''-''" "\<not> has_prefix (show_int i) ''+''"
    by (simp_all add: show_int_def show_nat_no_sign)
  with False assms show ?thesis
    by (simp add: parse_int64_def show_int_def Let_def)
qed

subsection \<open>Trimming\<close>

lemma space_ends:
  "r \<in> set space_runes \<Longrightarrow> r \<noteq> [] \<and> \<not> graphic (hd r) \<and> \<not> graphic (last r)"
  by (auto simp: space_runes_def bytes_def graphic_def)

lemma has_prefix_hd: "has_prefix s r \<Longrightarrow> r \<noteq> [] \<Longrightarrow> hd r = hd s"
  by (cases s; cases r) (auto simp: has_prefix_def)

lemma find_space_none:
  "graphic (hd s) \<Longrightarrow> find (has_prefix s) space_runes = None"
  "graphic (hd s) \<Longrightarrow> find (has_prefix s) (map rev space_runes) = None"
  using space_ends has_prefix_hd [of s] by (fastforce simp: find_None_iff hd_rev)+

lemma trim_left_none: "find (has_prefix s) rs = None \<Longrightarrow> trim_left_fuel n rs s = s"
  by (cases n) simp_all

lemma TrimSpace_newline:
  assumes "s \<noteq> []" and "graphic (hd s)" and "graphic (last s)"
  shows "TrimSpace (s @ [CHR 0x0A]) = s"
proof -
  have nl: "char_of (10 :: nat) = CHR 0x0A" by code_simp
  have ne: "char_of (9 :: nat) \<noteq> CHR 0x0A" by code_simp
  have "find (has_prefix (CHR 0x0A # xs)) (map rev space_runes) = Some [CHR 0x0A]" for xs
    using ne by (simp add: space_runes_def bytes_def has_prefix_def nl)
  moreover have "graphic (hd (s @ [CHR 0x0A]))" "graphic (hd (rev s))"
    using assms by (simp_all add: hd_rev)
  ultimately show ?thesis
    by (simp add: TrimSpace_def Let_def trim_left_none find_space_none)
qed

end
