(* ===== verification/Netip.thy ===== *)
theory Netip
  imports LW_Prelude
begin

text \<open>
  IPv4 prefixes as Go's \<^verbatim>\<open>net/netip\<close> has them, and \<^verbatim>\<open>internal/netutil/prefix.go\<close>: the canonical form
  of a prefix list, which both clients compare to decide whether routes changed, and the gate
  that keeps a route from shadowing a local network. An address is a \<^typ>\<open>32 word\<close>. A parsed
  prefix is an IPv4 or an IPv6 one; everything behind an \<^verbatim>\<open>Is4\<close> check is a \<^verbatim>\<open>prefix4\<close>.
\<close>

unbundle bit_operations_syntax

section \<open>Definitions\<close>

type_synonym addr = "32 word"

datatype prefix4 = Prefix4 (PAddr: addr) (PBits: nat)

datatype netip_prefix = P4 prefix4 | P6 "128 word" nat

text \<open>\<^verbatim>\<open>Prefix.Masked\<close>, \<^verbatim>\<open>Prefix.Contains\<close> and \<^verbatim>\<open>Prefix.Overlaps\<close> of the standard library, for IPv4.\<close>

definition Masked :: "prefix4 \<Rightarrow> prefix4" where
  "Masked p = Prefix4 (PAddr p AND NOT (mask (32 - PBits p))) (PBits p)"

definition Contains :: "prefix4 \<Rightarrow> addr \<Rightarrow> bool" where
  "Contains p a = (drop_bit (32 - PBits p) (a XOR PAddr p) = 0)"

definition OverlapsP :: "prefix4 \<Rightarrow> prefix4 \<Rightarrow> bool" where
  "OverlapsP p q =
     (p = q \<or>
      (let m = min (PBits p) (PBits q)
       in m = 0 \<or> PAddr (Masked (Prefix4 (PAddr p) m)) = PAddr (Masked (Prefix4 (PAddr q) m))))"

text \<open>The comparison function given to \<^verbatim>\<open>sort.Slice\<close>: address, then length. It is a linear order.\<close>

definition prefix_before :: "prefix4 \<Rightarrow> prefix4 \<Rightarrow> bool" where
  "prefix_before p q = (if PAddr p \<noteq> PAddr q then PAddr p < PAddr q else PBits p < PBits q)"

instantiation prefix4 :: linorder
begin

definition less_eq_prefix4 :: "prefix4 \<Rightarrow> prefix4 \<Rightarrow> bool" where
  "less_eq_prefix4 p q = (p = q \<or> prefix_before p q)"

definition less_prefix4 :: "prefix4 \<Rightarrow> prefix4 \<Rightarrow> bool" where
  "less_prefix4 = prefix_before"

instance
  by standard
    (auto simp: less_eq_prefix4_def less_prefix4_def prefix_before_def prefix4.expand split: if_splits)

end

text \<open>\<^verbatim>\<open>netutil.CanonicalPrefixes\<close>: the loop with its \<^verbatim>\<open>seen\<close> map, then the sort.\<close>

fun canon_loop :: "prefix4 list \<Rightarrow> prefix4 set \<Rightarrow> prefix4 list \<Rightarrow> prefix4 list" where
  "canon_loop [] seen out = out"
| "canon_loop (p # ps) seen out =
     (let m = Masked p
      in if m \<notin> seen then canon_loop ps (insert m seen) (out @ [m]) else canon_loop ps seen out)"

definition CanonicalPrefixes :: "prefix4 list \<Rightarrow> prefix4 list" where
  "CanonicalPrefixes xs = sort (canon_loop xs {} [])"

text \<open>
  \<^verbatim>\<open>netutil.LocalOverlap\<close>. The host's interfaces (\<^verbatim>\<open>net.Interfaces\<close>) are an argument: \<^term>\<open>None\<close> when
  the call fails, and per interface the result of \<^verbatim>\<open>Addrs\<close>; an address that is no \<^verbatim>\<open>*net.IPNet\<close> or
  has no 4-byte form is \<^verbatim>\<open>OtherAddr\<close>.
\<close>

datatype if_addr = Inet4 addr nat | OtherAddr

record iface =
  if_name :: string
  if_addrs :: "if_addr list option"

fun addr_clash :: "prefix4 \<Rightarrow> if_addr \<Rightarrow> bool" where
  "addr_clash p OtherAddr = False"
| "addr_clash p (Inet4 a ones) = OverlapsP (Masked (Prefix4 a ones)) p"

fun overlap_loop :: "prefix4 \<Rightarrow> string \<Rightarrow> iface list \<Rightarrow> string \<times> bool" where
  "overlap_loop p ex [] = ('''', False)"
| "overlap_loop p ex (i # is) =
     (if if_name i = ex then overlap_loop p ex is
      else case if_addrs i of
        None \<Rightarrow> overlap_loop p ex is
      | Some as \<Rightarrow>
          if list_ex (addr_clash p) as then (if_name i, True) else overlap_loop p ex is)"

definition LocalOverlap :: "iface list option \<Rightarrow> prefix4 \<Rightarrow> string \<Rightarrow> string \<times> bool" where
  "LocalOverlap ifs p ex = (case ifs of None \<Rightarrow> ('''', False) | Some is \<Rightarrow> overlap_loop p ex is)"

text \<open>What a prefix stands for: the addresses whose leading bits agree with it.\<close>

definition prefix_addrs :: "prefix4 \<Rightarrow> addr set" where
  "prefix_addrs p = {a. Contains p a}"

section \<open>Lemmas\<close>

subsection \<open>Masking\<close>

lemma addr_less_pow: "unat (a :: addr) < 2 ^ 32"
  using unsigned_less [of a, where ?'a = nat] by simp

lemma addr_less [simp]: "unat (a :: addr) < 4294967296"
  using addr_less_pow [of a] by simp

lemma div_pow_coarsen:
  "(x :: nat) div 2 ^ n = y div 2 ^ n \<Longrightarrow> n \<le> m \<Longrightarrow> x div 2 ^ m = y div 2 ^ m"
  by (metis div_mult2_eq le_add_diff_inverse power_add)

lemma and_not_mask_push: "(a :: 'a :: len word) AND NOT (mask n) = push_bit n (drop_bit n a)"
  by (rule bit_eqI) (auto simp: bit_simps)

lemma unat_masked [word_nat]:
  "unat ((a :: addr) AND NOT (mask n)) = unat a div 2 ^ n * 2 ^ n"
proof -
  have "unat a div 2 ^ n * 2 ^ n \<le> unat a" by simp
  also have "unat a < 2 ^ 32" by (rule addr_less_pow)
  finally have lt: "unat a div 2 ^ n * 2 ^ n < 2 ^ 32" .
  have "unat (push_bit n (drop_bit n a)) = (unat a div 2 ^ n * 2 ^ n) mod 2 ^ 32"
    by (simp only: unsigned_push_bit_eq unat_drop_bit_eq)
      (simp add: push_bit_eq_mult drop_bit_eq_div take_bit_eq_mod)
  with lt show ?thesis by (simp add: and_not_mask_push)
qed

lemma drop_bit_xor_eq_0_iff:
  "drop_bit n ((a :: 'a :: len word) XOR b) = 0 \<longleftrightarrow> drop_bit n a = drop_bit n b"
  by (auto simp: bit_eq_iff bit_simps)

lemma unat_drop_bit32: "unat (drop_bit n (a :: addr)) = unat a div 2 ^ n"
  by (simp add: unat_drop_bit_eq drop_bit_nat_def)

lemma Contains_iff [word_nat]:
  "Contains p a \<longleftrightarrow> unat a div 2 ^ (32 - PBits p) = unat (PAddr p) div 2 ^ (32 - PBits p)"
  unfolding Contains_def drop_bit_xor_eq_0_iff
  by (metis unat_drop_bit32 word_unat_eq_iff)

lemma masked_eq_iff [word_nat]:
  "(a :: addr) AND NOT (mask n) = b AND NOT (mask n) \<longleftrightarrow> unat a div 2 ^ n = unat b div 2 ^ n"
  by (simp add: word_unat_eq_iff unat_masked)

lemma Masked_idem [simp]: "Masked (Masked p) = Masked p"
  by (simp add: Masked_def word_bw_assocs)

lemma PBits_Masked [simp]: "PBits (Masked p) = PBits p"
  by (simp add: Masked_def)

lemma Contains_Masked [simp]: "Contains (Masked p) a = Contains p a"
  by (simp add: Contains_iff Masked_def unat_masked)

lemma Masked_eq_iff:
  "Masked p = Masked q \<longleftrightarrow>
     PBits p = PBits q \<and> unat (PAddr p) div 2 ^ (32 - PBits p) = unat (PAddr q) div 2 ^ (32 - PBits p)"
  by (cases p; cases q) (auto simp: Masked_def masked_eq_iff)

lemma prefix_addrs_Masked [simp]: "prefix_addrs (Masked p) = prefix_addrs p"
  by (simp add: prefix_addrs_def)

lemma Contains_self [simp]: "Contains p (PAddr p)"
  by (simp add: Contains_iff)

subsection \<open>Overlap is intersection\<close>

lemma OverlapsP_sym: "OverlapsP p q \<longleftrightarrow> OverlapsP q p"
  by (auto simp: OverlapsP_def Let_def min.commute)

lemma OverlapsP_shorter:
  assumes "PBits p \<le> PBits q" and "PBits q \<le> 32"
  shows "OverlapsP p q \<longleftrightarrow> Contains p (PAddr q)"
  using assms
  by (cases p; cases q)
    (auto simp: OverlapsP_def Let_def Masked_def masked_eq_iff Contains_iff min_absorb1)

lemma OverlapsP_meet_shorter:
  assumes "PBits p \<le> PBits q" and "PBits q \<le> 32"
  shows "OverlapsP p q \<longleftrightarrow> prefix_addrs p \<inter> prefix_addrs q \<noteq> {}"
proof
  assume "OverlapsP p q"
  with assms have "PAddr q \<in> prefix_addrs p \<inter> prefix_addrs q"
    by (simp add: OverlapsP_shorter prefix_addrs_def)
  then show "prefix_addrs p \<inter> prefix_addrs q \<noteq> {}" by blast
next
  assume "prefix_addrs p \<inter> prefix_addrs q \<noteq> {}"
  then obtain a where "Contains p a" "Contains q a" by (auto simp: prefix_addrs_def)
  moreover from this(2) assms have
    "unat a div 2 ^ (32 - PBits p) = unat (PAddr q) div 2 ^ (32 - PBits p)"
    by (auto simp: Contains_iff intro: div_pow_coarsen)
  ultimately show "OverlapsP p q"
    using assms by (simp add: OverlapsP_shorter Contains_iff)
qed

lemma OverlapsP_meet:
  "PBits p \<le> 32 \<Longrightarrow> PBits q \<le> 32 \<Longrightarrow> OverlapsP p q \<longleftrightarrow> prefix_addrs p \<inter> prefix_addrs q \<noteq> {}"
  using OverlapsP_meet_shorter [of p q] OverlapsP_meet_shorter [of q p] OverlapsP_sym [of p q]
  by (cases "PBits p \<le> PBits q") (auto simp: Int_commute)

subsection \<open>The canonical form\<close>

lemma canon_loop_props:
  "distinct out \<Longrightarrow> seen = set out \<Longrightarrow>
     distinct (canon_loop ps seen out) \<and> set (canon_loop ps seen out) = set out \<union> Masked ` set ps"
proof (induction ps seen out rule: canon_loop.induct)
  case (1 seen out)
  then show ?case by simp
next
  case (2 p ps seen out)
  show ?case
  proof (cases "Masked p \<in> seen")
    case True
    with 2 show ?thesis by (auto simp: Let_def)
  next
    case False
    with 2 show ?thesis by (auto simp: Let_def)
  qed
qed

lemma set_CanonicalPrefixes [simp]: "set (CanonicalPrefixes xs) = Masked ` set xs"
  by (simp add: CanonicalPrefixes_def canon_loop_props)

lemma distinct_CanonicalPrefixes [simp]: "distinct (CanonicalPrefixes xs)"
  by (simp add: CanonicalPrefixes_def canon_loop_props)

lemma sorted_CanonicalPrefixes [simp]: "sorted (CanonicalPrefixes xs)"
  by (simp add: CanonicalPrefixes_def)

lemma CanonicalPrefixes_eq_iff:
  "CanonicalPrefixes xs = CanonicalPrefixes ys \<longleftrightarrow> Masked ` set xs = Masked ` set ys"
  by (metis distinct_CanonicalPrefixes set_CanonicalPrefixes sorted_CanonicalPrefixes
      sorted_distinct_set_unique)

subsection \<open>The local-network gate\<close>

lemma overlap_loop_iff:
  "snd (overlap_loop p ex is) \<longleftrightarrow>
     (\<exists>i \<in> set is. if_name i \<noteq> ex \<and> (\<exists>as. if_addrs i = Some as \<and> (\<exists>a \<in> set as. addr_clash p a)))"
  by (induction "is") (auto simp: list_ex_iff split: option.splits)

lemma overlap_loop_name:
  "overlap_loop p ex is = (n, True) \<Longrightarrow> \<exists>i \<in> set is. if_name i = n \<and> n \<noteq> ex"
  by (induction "is") (auto split: option.splits if_splits)

end
