(* ===== verification/Ipam.thy ===== *)
theory Ipam
  imports Netip
begin

text \<open>
  The address-pool arithmetic of \<^verbatim>\<open>internal/server/ipam\<close> (\<^verbatim>\<open>ipam.go\<close>, \<^verbatim>\<open>blocks.go\<close>) and
  \<^verbatim>\<open>internal/server/wg/addr.go\<close>. \<^verbatim>\<open>netip.ParsePrefix\<close> is an argument \<^verbatim>\<open>parse\<close>. The 32-bit values are
  words, with Go's wrap-around; the 64-bit loop variables of \<^verbatim>\<open>AllocateBlock\<close> stay below \<open>2 ^ 33\<close> and
  are natural numbers.
\<close>

section \<open>Definitions\<close>

datatype pool_error =
    ParsePool
  | PoolNotIPv4
  | PoolTooSmall
  | PoolNoHost

text \<open>\<^verbatim>\<open>ipam.PoolRange\<close>: the first and last client address.\<close>

definition PoolRange ::
  "(string \<Rightarrow> netip_prefix option) \<Rightarrow> string \<Rightarrow> (pool_error, addr \<times> addr) result" where
  "PoolRange parse cidr =
     (case parse cidr of
        None \<Rightarrow> Inl ParsePool
      | Some (P6 _ _) \<Rightarrow> Inl PoolNotIPv4
      | Some (P4 p) \<Rightarrow>
          (let p = Masked p;
               base = PAddr p;
               host_bits = 32 - PBits p;
               broadcast = base OR word_of_nat (2 ^ host_bits - 1);
               first = base + 2;
               last = broadcast - 1
           in if last < first then Inl PoolTooSmall else Inr (first, last)))"

text \<open>\<^verbatim>\<open>wg.FirstUsableAddress\<close>: the server's own address in the pool.\<close>

definition FirstUsableAddress ::
  "(string \<Rightarrow> netip_prefix option) \<Rightarrow> string \<Rightarrow> (pool_error, addr \<times> nat) result" where
  "FirstUsableAddress parse cidr =
     (case parse cidr of
        None \<Rightarrow> Inl ParsePool
      | Some (P6 _ _) \<Rightarrow> Inl PoolNotIPv4
      | Some (P4 p) \<Rightarrow>
          if PBits p > 30 then Inl PoolTooSmall
          else
            (let first = PAddr (Masked p) + 1
             in if \<not> Contains p first then Inl PoolNoHost else Inr (first, PBits p)))"

text \<open>
  \<^verbatim>\<open>ipam.Block\<close>. Its \<^verbatim>\<open>PrefixLen\<close> is an \<^verbatim>\<open>int\<close> in the code that only ever holds a prefix length.
\<close>

record block =
  Base :: addr
  PrefixLen :: nat

definition BlockFromPrefix :: "prefix4 \<Rightarrow> block" where
  "BlockFromPrefix p = (let p = Masked p in \<lparr>Base = PAddr p, PrefixLen = PBits p\<rparr>)"

definition block_prefix :: "block \<Rightarrow> prefix4" where
  "block_prefix b = Prefix4 (Base b) (PrefixLen b)"

definition block_size :: "block \<Rightarrow> nat" where
  "block_size b = 2 ^ (32 - PrefixLen b)"

definition Overlaps :: "block \<Rightarrow> block \<Rightarrow> bool" where
  "Overlaps a b =
     (let a_start = unat (Base a); a_end = unat (Base a) + block_size a;
          b_start = unat (Base b); b_end = unat (Base b) + block_size b
      in a_start < b_end \<and> b_start < a_end)"

definition rfc1918 :: "prefix4 list" where
  "rfc1918 = [Prefix4 0x0A000000 8, Prefix4 0xAC100000 12, Prefix4 0xC0A80000 16]"

definition IsRFC1918 :: "prefix4 \<Rightarrow> bool" where
  "IsRFC1918 p = list_ex (\<lambda>r. Contains r (PAddr p) \<and> PBits r \<le> PBits p) rfc1918"

datatype alloc_error = AllocNotIPv4 | AllocBadLength | ErrNoSpace

text \<open>
  The scan of \<^verbatim>\<open>AllocateBlock\<close>: \<^verbatim>\<open>base\<close> advances by the size of the requested block until
  \<^verbatim>\<open>base+step\<close> passes the end of the pool.
\<close>

function alloc_loop :: "nat \<Rightarrow> nat \<Rightarrow> block list \<Rightarrow> nat \<Rightarrow> (alloc_error, block) result" where
  "alloc_loop plen pool_end used base =
     (let step = 2 ^ (32 - plen)
      in if base + step \<le> pool_end then
           (let candidate = \<lparr>Base = word_of_nat base, PrefixLen = plen\<rparr>
            in if list_all (\<lambda>u. \<not> Overlaps candidate u) used then Inr candidate
               else alloc_loop plen pool_end used (base + step))
         else Inl ErrNoSpace)"
  by pat_completeness auto
termination
proof (relation "measure (\<lambda>(plen, e, used, base). e - base)", goal_cases)
  case 1
  show ?case by simp
next
  case (2 plen e used base step)
  have "(0 :: nat) < 2 ^ (32 - plen)" by simp
  with 2 have "base < e" by linarith
  with 2 \<open>0 < 2 ^ (32 - plen)\<close> show ?case by (simp add: diff_less_mono2)
qed

declare alloc_loop.simps [simp del]

definition AllocateBlock ::
  "netip_prefix \<Rightarrow> nat \<Rightarrow> block list \<Rightarrow> (alloc_error, block) result" where
  "AllocateBlock pool plen used =
     (case pool of
        P6 _ _ \<Rightarrow> Inl AllocNotIPv4
      | P4 p \<Rightarrow>
          if plen < PBits p \<or> 32 < plen then Inl AllocBadLength
          else
            (let pool_block = BlockFromPrefix p
             in alloc_loop plen (unat (Base pool_block) + block_size pool_block) used
                  (unat (Base pool_block))))"

text \<open>The addresses of a block, as natural numbers.\<close>

definition block_addrs :: "block \<Rightarrow> nat set" where
  "block_addrs b = {unat (Base b) ..< unat (Base b) + block_size b}"

definition aligned :: "block \<Rightarrow> bool" where
  "aligned b = (PrefixLen b \<le> 32 \<and> block_size b dvd unat (Base b))"

section \<open>Lemmas\<close>

subsection \<open>Blocks\<close>

lemma block_size_pos [simp]: "0 < block_size b"
  by (simp add: block_size_def)

lemma Overlaps_iff: "Overlaps a b \<longleftrightarrow> block_addrs a \<inter> block_addrs b \<noteq> {}"
proof
  assume "Overlaps a b"
  then have "max (unat (Base a)) (unat (Base b)) \<in> block_addrs a \<inter> block_addrs b"
    by (auto simp: Overlaps_def block_addrs_def Let_def max_def)
  then show "block_addrs a \<inter> block_addrs b \<noteq> {}" by blast
next
  assume "block_addrs a \<inter> block_addrs b \<noteq> {}"
  then show "Overlaps a b" by (auto simp: Overlaps_def block_addrs_def Let_def)
qed

lemma Overlaps_sym: "Overlaps a b \<longleftrightarrow> Overlaps b a"
  by (auto simp: Overlaps_def Let_def)

lemma Overlaps_self [simp]: "Overlaps a a"
  by (simp add: Overlaps_def Let_def)

lemma aligned_BlockFromPrefix [simp]: "PBits p \<le> 32 \<Longrightarrow> aligned (BlockFromPrefix p)"
  by (simp add: aligned_def BlockFromPrefix_def block_size_def Masked_def unat_masked Let_def)

lemma BlockFromPrefix_sel [simp]:
  "Base (BlockFromPrefix p) = PAddr (Masked p)" "PrefixLen (BlockFromPrefix p) = PBits p"
  by (simp_all add: BlockFromPrefix_def Let_def)

lemma aligned_end: "aligned b \<Longrightarrow> unat (Base b) + block_size b \<le> 2 ^ 32"
proof -
  assume al: "aligned b"
  then have "block_size b dvd 2 ^ 32" "block_size b dvd unat (Base b)"
    unfolding aligned_def block_size_def by (auto simp only: intro: le_imp_power_dvd)
  then obtain k m where k: "(2::nat) ^ 32 = block_size b * k" "unat (Base b) = block_size b * m"
    by (auto simp: dvd_def)
  with addr_less_pow [of "Base b"] have "block_size b * m < block_size b * k" by simp
  then have "m < k" by simp
  then have "block_size b * (m + 1) \<le> block_size b * k" by (simp only: mult_le_mono2 Suc_leI)
  with k show ?thesis by (simp add: algebra_simps)
qed

lemma div_eq_iff_range:
  assumes "0 < (s :: nat)" and "s dvd b"
  shows "x div s = b div s \<longleftrightarrow> b \<le> x \<and> x < b + s"
proof -
  from assms(2) obtain k where k: "b = s * k" by (auto simp: dvd_def)
  show ?thesis
  proof
    assume "x div s = b div s"
    with k assms(1) have "x div s = k" by simp
    moreover have "s * (x div s) + x mod s = x" "x mod s < s"
      using assms(1) by simp_all
    ultimately show "b \<le> x \<and> x < b + s" using k by (metis le_add1 nat_add_left_cancel_less)
  next
    assume "b \<le> x \<and> x < b + s"
    with k have "x div s = k" by (intro div_nat_eqI) (simp_all add: algebra_simps)
    with k assms(1) show "x div s = b div s" by simp
  qed
qed

lemma unat_word_of_nat: "n < 2 ^ 32 \<Longrightarrow> unat (word_of_nat n :: addr) = n"
  by (rule of_nat_inverse [OF refl]) simp

lemma block_addrs_prefix:
  "aligned b \<Longrightarrow> block_addrs b = unat ` prefix_addrs (block_prefix b)"
proof -
  assume al: "aligned b"
  have iff: "unat a \<in> block_addrs b \<longleftrightarrow> Contains (block_prefix b) a" for a
    using al
    by (simp add: block_addrs_def Contains_iff block_prefix_def aligned_def block_size_def
        div_eq_iff_range)
  have "n \<in> unat ` prefix_addrs (block_prefix b)" if "n \<in> block_addrs b" for n
  proof -
    from that aligned_end [OF al] have "n < 2 ^ 32" by (auto simp: block_addrs_def)
    then have "unat (word_of_nat n :: addr) = n" by (rule unat_word_of_nat)
    with that iff [of "word_of_nat n"] show ?thesis
      by (metis image_eqI mem_Collect_eq prefix_addrs_def)
  qed
  with iff show ?thesis by (auto simp: prefix_addrs_def)
qed

subsection \<open>The first-fit scan\<close>

abbreviation block_at :: "nat \<Rightarrow> nat \<Rightarrow> block" where
  "block_at plen n \<equiv> \<lparr>Base = word_of_nat n, PrefixLen = plen\<rparr>"

abbreviation block_free :: "block list \<Rightarrow> block \<Rightarrow> bool" where
  "block_free used b \<equiv> (\<forall>u \<in> set used. \<not> Overlaps b u)"

lemma alloc_loop_unfold:
  "alloc_loop plen e used base =
     (if base + 2 ^ (32 - plen) \<le> e then
        (if block_free used (block_at plen base) then Inr (block_at plen base)
         else alloc_loop plen e used (base + 2 ^ (32 - plen)))
      else Inl ErrNoSpace)"
  by (subst alloc_loop.simps) (simp add: Let_def list_all_iff)

lemma alloc_loop_Inr:
  assumes "alloc_loop plen e used base = Inr b" and "2 ^ (32 - plen) dvd base"
  shows "\<exists>n. b = block_at plen n \<and> base \<le> n \<and> 2 ^ (32 - plen) dvd n \<and> n + 2 ^ (32 - plen) \<le> e \<and>
    block_free used b \<and>
    (\<forall>m. base \<le> m \<and> m < n \<and> 2 ^ (32 - plen) dvd m \<longrightarrow> \<not> block_free used (block_at plen m))"
  using assms
proof (induction plen e used base rule: alloc_loop.induct)
  case (1 plen e used base)
  let ?s = "2 ^ (32 - plen) :: nat"
  from "1.prems"(1) have fits: "base + ?s \<le> e"
    by (simp add: alloc_loop_unfold [of plen e used base] split: if_splits)
  show ?case
  proof (cases "block_free used (block_at plen base)")
    case True
    with "1.prems" fits have "b = block_at plen base"
      by (simp add: alloc_loop_unfold [of plen e used base])
    with True fits "1.prems"(2) show ?thesis by (intro exI [of _ base]) auto
  next
    case False
    with "1.prems"(1) fits have rec: "alloc_loop plen e used (base + ?s) = Inr b"
      by (auto simp: alloc_loop_unfold [of plen e used base])
    have "?s dvd base + ?s" using "1.prems"(2) by simp
    from "1.IH" [OF refl fits refl _ rec this] False obtain n where n:
      "b = block_at plen n" "base + ?s \<le> n" "?s dvd n" "n + ?s \<le> e" "block_free used b"
      and least: "\<forall>m. base + ?s \<le> m \<and> m < n \<and> ?s dvd m \<longrightarrow> \<not> block_free used (block_at plen m)"
      by (auto simp: list_all_iff)
    have "\<not> block_free used (block_at plen m)" if "base \<le> m" "m < n" "?s dvd m" for m
    proof (cases "m = base")
      case False
      with that "1.prems"(2) have "base + ?s \<le> m"
        by (metis dvd_diffD1 dvd_imp_le dvd_minus_self le_add_diff_inverse less_le
            nat_add_left_cancel_le zero_less_diff dvd_diff_nat)
      with least that show ?thesis by blast
    qed (use \<open>\<not> block_free used (block_at plen base)\<close> in simp)
    with n show ?thesis by (intro exI [of _ n]) auto
  qed
qed

lemma alloc_loop_len: "alloc_loop plen e used base = Inr b \<Longrightarrow> PrefixLen b = plen"
proof (induction plen e used base rule: alloc_loop.induct)
  case (1 plen e used base)
  then show ?case
    by (simp add: alloc_loop_unfold [of plen e used base] Let_def list_all_iff split: if_splits)
      fastforce
qed

lemma alloc_loop_err: "alloc_loop plen e used base = Inl err \<Longrightarrow> err = ErrNoSpace"
proof (induction plen e used base rule: alloc_loop.induct)
  case (1 plen e used base)
  then show ?case
    by (simp add: alloc_loop_unfold [of plen e used base] Let_def list_all_iff split: if_splits)
qed

lemma alloc_loop_Inl:
  assumes "alloc_loop plen e used base = Inl err" and "2 ^ (32 - plen) dvd base"
  shows "err = ErrNoSpace \<and>
    (\<forall>m. base \<le> m \<and> 2 ^ (32 - plen) dvd m \<and> m + 2 ^ (32 - plen) \<le> e \<longrightarrow>
       \<not> block_free used (block_at plen m))"
  using assms
proof (induction plen e used base rule: alloc_loop.induct)
  case (1 plen e used base)
  let ?s = "2 ^ (32 - plen) :: nat"
  show ?case
  proof (cases "base + ?s \<le> e")
    case False
    with "1.prems" show ?thesis by (auto simp: alloc_loop_unfold [of plen e used base])
  next
    case True
    with "1.prems"(1) have nf: "\<not> block_free used (block_at plen base)"
      and rec: "alloc_loop plen e used (base + ?s) = Inl err"
      by (auto simp: alloc_loop_unfold [of plen e used base] split: if_splits)
    have "?s dvd base + ?s" using "1.prems"(2) by simp
    from "1.IH" [OF refl True refl _ rec this] nf have err: "err = ErrNoSpace"
      and rest: "\<forall>m. base + ?s \<le> m \<and> ?s dvd m \<and> m + ?s \<le> e \<longrightarrow>
        \<not> block_free used (block_at plen m)"
      by (auto simp: list_all_iff)
    have "\<not> block_free used (block_at plen m)"
      if "base \<le> m" "?s dvd m" "m + ?s \<le> e" for m
    proof (cases "m = base")
      case False
      with that "1.prems"(2) have "base + ?s \<le> m"
        by (metis dvd_diff_nat dvd_imp_le le_add_diff_inverse less_le nat_add_left_cancel_le
            zero_less_diff)
      with rest that show ?thesis by blast
    qed (use nf in simp)
    with err show ?thesis by blast
  qed
qed

lemma block_eta [simp]: "\<lparr>Base = Base b, PrefixLen = PrefixLen b\<rparr> = (b :: block)"
  by simp

lemma block_at_Base:
  "PrefixLen b = plen \<Longrightarrow> block_at plen (unat (Base b)) = b"
  by simp

lemma block_size_at [simp]: "block_size (block_at plen n) = 2 ^ (32 - plen)"
  by (simp add: block_size_def)

text \<open>Which blocks of a length lie in a pool, and when one of them is taken.\<close>

definition fits_pool :: "prefix4 \<Rightarrow> nat \<Rightarrow> block list \<Rightarrow> block \<Rightarrow> bool" where
  "fits_pool p plen used b =
     (PrefixLen b = plen \<and> aligned b \<and> block_addrs b \<subseteq> block_addrs (BlockFromPrefix p) \<and>
      block_free used b)"

lemma atLeastLessThan_nat_subset:
  "(a :: nat) < b \<Longrightarrow> {a ..< b} \<subseteq> {c ..< d} \<longleftrightarrow> c \<le> a \<and> b \<le> d"
  by auto

lemma fits_pool_range:
  "fits_pool p plen used b \<longleftrightarrow>
     PrefixLen b = plen \<and> aligned b \<and> unat (Base (BlockFromPrefix p)) \<le> unat (Base b) \<and>
     unat (Base b) + 2 ^ (32 - plen)
       \<le> unat (Base (BlockFromPrefix p)) + block_size (BlockFromPrefix p) \<and>
     block_free used b"
  unfolding fits_pool_def block_addrs_def
  by (subst atLeastLessThan_nat_subset) (auto simp: block_size_def)

lemma pool_base_dvd:
  "PBits p \<le> plen \<Longrightarrow> PBits p \<le> 32 \<Longrightarrow> 2 ^ (32 - plen) dvd unat (Base (BlockFromPrefix p))"
proof -
  assume len: "PBits p \<le> plen" "PBits p \<le> 32"
  then have "(2::nat) ^ (32 - plen) dvd 2 ^ (32 - PBits p)" by (intro le_imp_power_dvd) simp
  also from len have "\<dots> dvd unat (Base (BlockFromPrefix p))"
    using aligned_BlockFromPrefix [of p] by (simp add: aligned_def block_size_def)
  finally show ?thesis .
qed

lemma AllocateBlock_sound:
  assumes "AllocateBlock (P4 p) plen used = Inr b" and "PBits p \<le> 32"
  shows "fits_pool p plen used b \<and> (\<forall>b'. fits_pool p plen used b' \<longrightarrow> Base b \<le> Base b')"
proof -
  let ?P = "BlockFromPrefix p"
  from assms(1) have len: "PBits p \<le> plen" "plen \<le> 32"
    and loop: "alloc_loop plen (unat (Base ?P) + block_size ?P) used (unat (Base ?P)) = Inr b"
    by (auto simp: AllocateBlock_def Let_def split: if_splits)
  from alloc_loop_Inr [OF loop pool_base_dvd [OF len(1) assms(2)]] obtain n where n:
    "b = block_at plen n" "unat (Base ?P) \<le> n" "2 ^ (32 - plen) dvd n"
    "n + 2 ^ (32 - plen) \<le> unat (Base ?P) + block_size ?P" "block_free used b"
    and least: "\<And>m. unat (Base ?P) \<le> m \<Longrightarrow> m < n \<Longrightarrow> 2 ^ (32 - plen) dvd m \<Longrightarrow>
      \<not> block_free used (block_at plen m)"
    by blast
  have "(0::nat) < 2 ^ (32 - plen)" by simp
  with n(4) aligned_end [OF aligned_BlockFromPrefix [OF assms(2)]] have "n < 2 ^ 32" by linarith
  then have base: "unat (Base b) = n" using n(1) by (simp add: unat_word_of_nat)
  have "fits_pool p plen used b"
    using n base len by (auto simp: fits_pool_range aligned_def simp del: BlockFromPrefix_sel)
  moreover have "Base b \<le> Base b'" if "fits_pool p plen used b'" for b'
  proof (rule ccontr)
    assume "\<not> Base b \<le> Base b'"
    then have "unat (Base b') < n" using base by (simp add: word_le_nat_alt)
    with that least [of "unat (Base b')"] show False
      by (auto simp: fits_pool_range aligned_def block_size_def simp del: BlockFromPrefix_sel)
  qed
  ultimately show ?thesis by blast
qed

text \<open>
  C16: a block that \<^verbatim>\<open>AllocateBlock\<close> returns has the requested length, is naturally aligned, lies
  inside the pool and shares no address with a used block; and it is the first such block.
\<close>

theorem AllocateBlock_first_fit:
  assumes "AllocateBlock (P4 p) plen used = Inr b" and "PBits p \<le> 32"
  shows "fits_pool p plen used b \<and> (\<forall>b'. fits_pool p plen used b' \<longrightarrow> Base b \<le> Base b')"
  by (rule AllocateBlock_sound [OF assms])

theorem AllocateBlock_first_fit_witness:
  "fits_pool (Prefix4 0x0A000000 8) 24 [\<lparr>Base = 0x0A000000, PrefixLen = 25\<rparr>]
     \<lparr>Base = 0x0A000100, PrefixLen = 24\<rparr>"
  by (rule AllocateBlock_first_fit [THEN conjunct1])
    (simp_all add: AllocateBlock_def Masked_def alloc_loop_unfold [of 24] Overlaps_def block_size_def
      mask_eq_exp_minus_1 Let_def)

lemma AllocateBlock_complete:
  assumes "PBits p \<le> 32"
  shows "AllocateBlock (P4 p) plen used = Inl ErrNoSpace \<longleftrightarrow>
    PBits p \<le> plen \<and> plen \<le> 32 \<and> \<not> (\<exists>b. fits_pool p plen used b)"
proof (cases "AllocateBlock (P4 p) plen used")
  case (Inr b)
  with AllocateBlock_sound [OF Inr assms] show ?thesis by auto
next
  case (Inl err)
  let ?P = "BlockFromPrefix p"
  show ?thesis
  proof (cases "PBits p \<le> plen \<and> plen \<le> 32")
    case False
    then show ?thesis by (auto simp: AllocateBlock_def)
  next
    case True
    with Inl have loop:
      "alloc_loop plen (unat (Base ?P) + block_size ?P) used (unat (Base ?P)) = Inl err"
      by (auto simp: AllocateBlock_def Let_def split: if_splits)
    from True pool_base_dvd [of p plen] assms
    have "2 ^ (32 - plen) dvd unat (Base ?P)" by blast
    from alloc_loop_Inl [OF loop this] have err: "err = ErrNoSpace"
      and none: "\<And>m. unat (Base ?P) \<le> m \<Longrightarrow> 2 ^ (32 - plen) dvd m \<Longrightarrow>
        m + 2 ^ (32 - plen) \<le> unat (Base ?P) + block_size ?P \<Longrightarrow> \<not> block_free used (block_at plen m)"
      by blast+
    have "\<not> fits_pool p plen used b" for b
      using none [of "unat (Base b)"]
      by (auto simp: fits_pool_range aligned_def block_size_def simp del: BlockFromPrefix_sel)
    with err Inl True show ?thesis by simp
  qed
qed

text \<open>
  \<^verbatim>\<open>AllocateBlock\<close> answers \<^verbatim>\<open>ErrNoSpace\<close> exactly when no aligned block of an acceptable length
  is left in the pool: the scan misses none, and every other outcome is a block or a length error.
\<close>

lemma AllocateBlock_no_space_iff:
  assumes "PBits p \<le> 32"
  shows "AllocateBlock (P4 p) plen used = Inl ErrNoSpace \<longleftrightarrow>
    PBits p \<le> plen \<and> plen \<le> 32 \<and> \<not> (\<exists>b. fits_pool p plen used b)"
  by (rule AllocateBlock_complete [OF assms])

lemma AllocateBlock_no_space_iff_example:
  "AllocateBlock (P4 (Prefix4 0x0A000000 30)) 30 [\<lparr>Base = 0x0A000000, PrefixLen = 32\<rparr>]
     = Inl ErrNoSpace \<longleftrightarrow>
   \<not> (\<exists>b. fits_pool (Prefix4 0x0A000000 30) 30 [\<lparr>Base = 0x0A000000, PrefixLen = 32\<rparr>] b)"
  using AllocateBlock_no_space_iff [of "Prefix4 0x0A000000 30" 30
      "[\<lparr>Base = 0x0A000000, PrefixLen = 32\<rparr>]"] by simp

subsection \<open>Inclusion of prefixes\<close>

lemma card_block_prefix:
  "PBits p \<le> 32 \<Longrightarrow> card (unat ` prefix_addrs p) = 2 ^ (32 - PBits p)"
proof -
  assume "PBits p \<le> 32"
  then have "unat ` prefix_addrs p = block_addrs (BlockFromPrefix p)"
    using block_addrs_prefix [OF aligned_BlockFromPrefix, of p]
    by (simp add: block_prefix_def Masked_def prefix_addrs_def Contains_iff unat_masked)
  then show ?thesis by (simp add: block_addrs_def block_size_def)
qed

lemma prefix_subset_iff:
  assumes "PBits r \<le> 32" and "PBits p \<le> 32"
  shows "Contains r (PAddr p) \<and> PBits r \<le> PBits p \<longleftrightarrow> prefix_addrs p \<subseteq> prefix_addrs r"
proof
  assume c: "Contains r (PAddr p) \<and> PBits r \<le> PBits p"
  have "Contains r a" if "Contains p a" for a
  proof -
    have "32 - PBits p \<le> 32 - PBits r"
      using c [THEN conjunct2] by (rule diff_le_mono2)
    with that have "unat a div 2 ^ (32 - PBits r) = unat (PAddr p) div 2 ^ (32 - PBits r)"
      unfolding Contains_iff by (elim div_pow_coarsen)
    with c show ?thesis by (simp only: Contains_iff)
  qed
  then show "prefix_addrs p \<subseteq> prefix_addrs r" by (auto simp: prefix_addrs_def)
next
  assume sub: "prefix_addrs p \<subseteq> prefix_addrs r"
  have "finite (unat ` prefix_addrs r)" by simp
  with sub have "card (unat ` prefix_addrs p) \<le> card (unat ` prefix_addrs r)"
    by (intro card_mono image_mono)
  with assms have "(2::nat) ^ (32 - PBits p) \<le> 2 ^ (32 - PBits r)"
    by (simp add: card_block_prefix)
  then have "32 - PBits p \<le> 32 - PBits r" by (rule power_le_imp_le_exp [rotated]) simp
  moreover have "PAddr p \<in> prefix_addrs p" by (simp add: prefix_addrs_def)
  ultimately show "Contains r (PAddr p) \<and> PBits r \<le> PBits p"
    using sub assms(1) unfolding prefix_addrs_def by (simp add: subset_iff)
qed

subsection \<open>The client range\<close>

lemma masked_or_host_bits:
  assumes "n \<le> 32"
  shows "unat (((a :: addr) AND NOT (mask n)) OR word_of_nat (2 ^ n - 1))
    = unat (a AND NOT (mask n)) + (2 ^ n - 1)"
proof -
  let ?b = "a AND NOT (mask n)"
  have m: "(word_of_nat (2 ^ n - 1) :: addr) = mask n"
    by (simp add: of_nat_mask_eq flip: mask_eq_exp_minus_1)
  have "?b AND mask n = 0" by (rule bit_eqI) (auto simp: bit_simps)
  then have or_add: "?b OR mask n = ?b + mask n"
    by (simp add: disjunctive_add_eq_or)
  have mask_val: "unat (mask n :: addr) = 2 ^ n - 1"
  proof -
    have "(2::nat) ^ n \<le> 2 ^ 32" using assms by (intro power_increasing) auto
    then have "2 ^ n - 1 < (2::nat) ^ 32" by simp
    then show ?thesis unfolding m [symmetric] by (rule unat_word_of_nat)
  qed
  have "aligned (BlockFromPrefix (Prefix4 a (32 - n)))" by simp
  from aligned_end [OF this] assms have "unat ?b + 2 ^ n \<le> 2 ^ 32"
    by (simp add: block_size_def Masked_def)
  then have "unat ?b + unat (mask n :: addr) < 2 ^ 32"
    unfolding mask_val using zero_less_power [of "2::nat" n] by linarith
  then have "unat (?b + mask n) = unat ?b + unat (mask n :: addr)"
    by (simp add: unat_word_ariths)
  with m or_add mask_val show ?thesis by simp
qed

lemma pool_end_bound:
  "PBits p \<le> 32 \<Longrightarrow> unat (PAddr (Masked p)) + 2 ^ (32 - PBits p) \<le> 2 ^ 32"
  using aligned_end [OF aligned_BlockFromPrefix, of p] by (simp add: block_size_def)

lemma two_pow_ge_4: "n \<ge> 2 \<Longrightarrow> (4::nat) \<le> 2 ^ n"
  using power_increasing [of 2 n "2::nat"] by simp

text \<open>
  For every IPv4 pool of /30 or larger, \<^verbatim>\<open>PoolRange\<close> returns the addresses from network + 2 to
  broadcast - 1, with no wrap-around of the 32-bit arithmetic, and \<^verbatim>\<open>FirstUsableAddress\<close> is
  network + 1: the server's address and the broadcast address are never handed to a client.
\<close>

lemma PoolRange_reserves_server:
  assumes "parse cidr = Some (P4 p)" and "PBits p \<le> 30"
  shows "\<exists>first last srv. PoolRange parse cidr = Inr (first, last) \<and>
    FirstUsableAddress parse cidr = Inr (srv, PBits p) \<and>
    unat first = unat (PAddr (Masked p)) + 2 \<and>
    unat last + 2 = unat (PAddr (Masked p)) + 2 ^ (32 - PBits p) \<and>
    unat srv = unat (PAddr (Masked p)) + 1 \<and> srv < first \<and> first \<le> last"
proof -
  let ?B = "unat (PAddr (Masked p))" and ?S = "(2::nat) ^ (32 - PBits p)"
  have S4: "4 \<le> ?S" using assms(2) by (intro two_pow_ge_4) simp
  have fin: "?B + ?S \<le> 2 ^ 32" using assms(2) by (intro pool_end_bound) simp
  define first where "first = PAddr (Masked p) + 2"
  define srv where "srv = PAddr (Masked p) + 1"
  define last where
    "last = (PAddr (Masked p) OR word_of_nat (2 ^ (32 - PBits p) - 1)) - 1"
  have first: "unat first = ?B + 2"
    using fin S4 by (simp add: first_def unat_word_ariths)
  have srv: "unat srv = ?B + 1"
    using fin S4 by (simp add: srv_def unat_word_ariths)
  have bc: "unat (PAddr (Masked p) OR word_of_nat (?S - 1)) = ?B + (?S - 1)"
    using masked_or_host_bits [of "32 - PBits p" "PAddr p"] by (simp add: Masked_def)
  then have "(1 :: addr) \<le> PAddr (Masked p) OR word_of_nat (?S - 1)"
    using S4 by (simp add: word_le_nat_alt)
  then have last: "unat last + 2 = ?B + ?S"
    using bc S4 by (simp add: last_def unat_sub)
  have "?B \<le> unat srv" "unat srv < ?B + ?S" using srv S4 by simp_all
  moreover have "?S dvd ?B" by (simp add: Masked_def unat_masked)
  ultimately have "unat srv div ?S = ?B div ?S" by (subst div_eq_iff_range) auto
  then have "Contains p srv"
    by (simp add: Contains_iff Masked_def unat_masked)
  moreover have "\<not> last < first" "srv < first" "first \<le> last"
    using first last srv S4 by (simp_all add: word_less_nat_alt word_le_nat_alt)
  ultimately show ?thesis
    using assms first last srv
    by (intro exI [of _ first] exI [of _ last] exI [of _ srv])
      (simp add: PoolRange_def FirstUsableAddress_def first_def last_def srv_def Let_def)
qed

lemma PoolRange_reserves_server_example:
  "\<exists>first last srv. PoolRange (\<lambda>_. Some (P4 (Prefix4 0x647F0000 16))) ''100.127.0.0/16'' = Inr (first, last) \<and>
    unat first = unat (0x647F0000 :: addr) + 2 \<and> srv < first"
  using PoolRange_reserves_server [of "\<lambda>_. Some (P4 (Prefix4 0x647F0000 16))" "''100.127.0.0/16''"
      "Prefix4 0x647F0000 16"]
  by (auto simp: Masked_def mask_eq_exp_minus_1)

text \<open>
  A pool too small for a client is not always refused. The code documents an error for every
  pool smaller than /30, but its 32-bit sums wrap: the /32 at 0.0.0.0 is accepted with the range
  [2, 2^32 - 1], and the /31 at 255.255.255.254 with the range [0, 2^32 - 2].
\<close>

lemma PoolRange_wraps_at_the_edges:
  "PoolRange (\<lambda>_. Some (P4 (Prefix4 0 32))) ''0.0.0.0/32'' = Inr (2, 0xFFFFFFFF) \<and>
   PoolRange (\<lambda>_. Some (P4 (Prefix4 0xFFFFFFFE 31))) ''255.255.255.254/31'' = Inr (0, 0xFFFFFFFE)"
  by (simp add: PoolRange_def Masked_def mask_eq_exp_minus_1 Let_def)

text \<open>
  \<^verbatim>\<open>IsRFC1918\<close> accepts a prefix exactly when every address of it lies in one of the private
  ranges the code lists.
\<close>

lemma IsRFC1918_iff:
  assumes "PBits p \<le> 32"
  shows "IsRFC1918 p \<longleftrightarrow> (\<exists>r \<in> set rfc1918. prefix_addrs p \<subseteq> prefix_addrs r)"
proof -
  have "Contains r (PAddr p) \<and> PBits r \<le> PBits p \<longleftrightarrow> prefix_addrs p \<subseteq> prefix_addrs r"
    if "PBits r \<le> 32" for r
    using that assms by (rule prefix_subset_iff)
  moreover have "PBits r \<le> 32" if "r \<in> set rfc1918" for r
    using that by (auto simp: rfc1918_def)
  ultimately show ?thesis by (auto simp: IsRFC1918_def list_ex_iff)
qed

end
