(* ===== verification/Store_Schema.thy ===== *)
theory Store_Schema
  imports Ipam
begin

text \<open>
  The SQLite database of the server (\<^verbatim>\<open>internal/server/store/migrations\<close>): its tables as lists of
  rows, the constraints the schema declares, the inserts that check them and the deletes that
  cascade along the foreign keys (\<^verbatim>\<open>PRAGMA foreign_keys(ON)\<close> in \<^verbatim>\<open>store.go\<close>).

  A timestamp column is the Unix second it denotes: the code stores UTC seconds in the fixed-width
  RFC 3339 form, whose text order is the order of the seconds. An address column is only ever
  written from a \<^verbatim>\<open>uint32\<close> and is that word. A row that a \<^verbatim>\<open>SELECT\<close> returns without \<^verbatim>\<open>ORDER BY\<close>
  comes in table order; no property depends on it.

  Every statement may fail for reasons outside the model (I/O, a busy database). \<^verbatim>\<open>db_fault\<close> of the
  environment says which: it is asked with the text of the \<^verbatim>\<open>fmt.Errorf\<close> that wraps the failure
  and the id the statement is about. Where one row breaks several UNIQUE constraints at once, SQLite
  names one of them, which one being its choice: \<^verbatim>\<open>db_pick\<close>.
\<close>

section \<open>Definitions\<close>

subsection \<open>Tables\<close>

record user_row =
  u_id :: int
  u_username :: string
  u_password_hash :: string
  u_is_admin :: bool
  u_created_at :: int

record invite_row =
  i_id :: int
  i_code :: string
  i_created_by :: "int option"
  i_used_by :: "int option"
  i_used_at :: "int option"
  i_created_at :: int
  i_expires_at :: "int option"

record node_row =
  n_id :: int
  n_user_id :: int
  n_name :: string
  n_wg_pubkey :: string
  n_ip :: addr
  n_created_at :: int
  n_platform :: string

record zone_row =
  z_id :: int
  z_name :: string
  z_password_hash :: string
  z_owner :: int
  z_created_at :: int

record member_row =
  zm_zone :: int
  zm_node :: int
  zm_joined_at :: int

record token_row =
  t_id :: int
  t_user :: int
  t_hash :: string
  t_expires_at :: int
  t_revoked_at :: "int option"
  t_created_at :: int

record ann_row =
  a_id :: int
  a_node :: int
  a_real_base :: addr
  a_prefix_len :: nat
  a_synthetic_base :: addr
  a_created_at :: int

record az_row =
  az_ann :: int
  az_zone :: int

text \<open>The \<^verbatim>\<open>*_seq\<close> fields are the AUTOINCREMENT counters: the largest id ever given out.\<close>

record db =
  users :: "user_row list"
  invites :: "invite_row list"
  nodes :: "node_row list"
  zones :: "zone_row list"
  zone_members :: "member_row list"
  refresh_tokens :: "token_row list"
  announcements :: "ann_row list"
  announcement_zones :: "az_row list"
  user_seq :: int
  invite_seq :: int
  node_seq :: int
  zone_seq :: int
  token_seq :: int
  ann_seq :: int

definition empty_db :: db where
  "empty_db = \<lparr>users = [], invites = [], nodes = [], zones = [], zone_members = [],
     refresh_tokens = [], announcements = [], announcement_zones = [],
     user_seq = 0, invite_seq = 0, node_seq = 0, zone_seq = 0, token_seq = 0, ann_seq = 0\<rparr>"

subsection \<open>Errors and the environment of a call\<close>

datatype constraint =
    U_username | U_invite_code | U_wg_pubkey | U_ip | U_user_name | U_zone_name
  | U_token_hash | U_node_real | U_synthetic

datatype sql_error = UniqueFailed constraint | ForeignKeyFailed | SqlFault

record env =
  db_fault :: "string \<Rightarrow> int \<Rightarrow> bool"
  db_pick :: "constraint list \<Rightarrow> constraint"
  now :: int

text \<open>The sentinel errors of the store, and \<^verbatim>\<open>fmt.Errorf\<close> with its text.\<close>

datatype store_error =
    ErrUserExists | ErrUserNotFound | ErrLastAdmin | ErrInviteInvalid | ErrRefreshInvalid
  | ErrNodeNameTaken | ErrPubKeyTaken | ErrPoolExhausted | ErrNodeNotFound | ErrDeviceLimitReached
  | ErrZoneNameTaken | ErrNotMember | ErrOwnedZoneLimitReached
  | ErrAnnounceLimit | ErrSubnetOverlap | ErrSyntheticPoolExhausted | ErrAnnouncementNotFound
  | ErrWrapped string

text \<open>The environment seen from a call site: its statements are asked about under a prefix.\<close>

definition at_site :: "string \<Rightarrow> env \<Rightarrow> env" where
  "at_site s e = e\<lparr>db_fault := \<lambda>l i. db_fault e (s @ l) i\<rparr>"

definition quiet :: "env \<Rightarrow> bool" where
  "quiet e = ((\<forall>l i. \<not> db_fault e l i) \<and> (\<forall>xs. xs \<noteq> [] \<longrightarrow> db_pick e xs \<in> set xs))"

subsection \<open>Inserts\<close>

definition checked_insert ::
  "env \<Rightarrow> string \<Rightarrow> (constraint \<times> bool) list \<Rightarrow> bool \<Rightarrow> 'a \<Rightarrow> (sql_error, 'a) result" where
  "checked_insert e label cs fk_holds r =
     (let broken = map fst (filter snd cs)
      in if db_fault e label 0 then Inl SqlFault
         else if broken \<noteq> [] then Inl (UniqueFailed (db_pick e broken))
         else if \<not> fk_holds then Inl ForeignKeyFailed
         else Inr r)"

definition has_user :: "db \<Rightarrow> int \<Rightarrow> bool" where
  "has_user d i = (i \<in> u_id ` set (users d))"

definition has_node :: "db \<Rightarrow> int \<Rightarrow> bool" where
  "has_node d i = (i \<in> n_id ` set (nodes d))"

definition has_zone :: "db \<Rightarrow> int \<Rightarrow> bool" where
  "has_zone d i = (i \<in> z_id ` set (zones d))"

definition has_ann :: "db \<Rightarrow> int \<Rightarrow> bool" where
  "has_ann d i = (i \<in> a_id ` set (announcements d))"

definition insert_user ::
  "env \<Rightarrow> string \<Rightarrow> string \<Rightarrow> string \<Rightarrow> bool \<Rightarrow> db \<Rightarrow> (sql_error, user_row \<times> db) result" where
  "insert_user e label name hash adm d =
     (let r = \<lparr>u_id = user_seq d + 1, u_username = name, u_password_hash = hash,
               u_is_admin = adm, u_created_at = now e\<rparr>
      in checked_insert e label
           [(U_username, nocase name \<in> (nocase \<circ> u_username) ` set (users d))] True
           (r, d\<lparr>users := users d @ [r], user_seq := u_id r\<rparr>))"

definition insert_invite ::
  "env \<Rightarrow> string \<Rightarrow> int \<Rightarrow> int option \<Rightarrow> db \<Rightarrow> (sql_error, db) result" where
  "insert_invite e code by expires d =
     (let r = \<lparr>i_id = invite_seq d + 1, i_code = code, i_created_by = Some by, i_used_by = None,
               i_used_at = None, i_created_at = now e, i_expires_at = expires\<rparr>
      in checked_insert e ''create invite''
           [(U_invite_code, code \<in> i_code ` set (invites d))] (has_user d by)
           (d\<lparr>invites := invites d @ [r], invite_seq := i_id r\<rparr>))"

definition insert_token ::
  "env \<Rightarrow> int \<Rightarrow> string \<Rightarrow> int \<Rightarrow> db \<Rightarrow> (sql_error, db) result" where
  "insert_token e uid hash expires d =
     (let r = \<lparr>t_id = token_seq d + 1, t_user = uid, t_hash = hash, t_expires_at = expires,
               t_revoked_at = None, t_created_at = now e\<rparr>
      in checked_insert e ''insert refresh token''
           [(U_token_hash, hash \<in> t_hash ` set (refresh_tokens d))] (has_user d uid)
           (d\<lparr>refresh_tokens := refresh_tokens d @ [r], token_seq := t_id r\<rparr>))"

definition insert_node_row ::
  "env \<Rightarrow> int \<Rightarrow> string \<Rightarrow> string \<Rightarrow> string \<Rightarrow> addr \<Rightarrow> db \<Rightarrow> (sql_error, node_row \<times> db) result" where
  "insert_node_row e uid name pubkey platform ip d =
     (let r = \<lparr>n_id = node_seq d + 1, n_user_id = uid, n_name = name, n_wg_pubkey = pubkey,
               n_ip = ip, n_created_at = now e, n_platform = platform\<rparr>
      in checked_insert e ''insert node''
           [(U_wg_pubkey, pubkey \<in> n_wg_pubkey ` set (nodes d)),
            (U_ip, ip \<in> n_ip ` set (nodes d)),
            (U_user_name, (uid, name) \<in> (\<lambda>n. (n_user_id n, n_name n)) ` set (nodes d))]
           (has_user d uid)
           (r, d\<lparr>nodes := nodes d @ [r], node_seq := n_id r\<rparr>))"

definition insert_zone_row ::
  "env \<Rightarrow> int \<Rightarrow> string \<Rightarrow> string \<Rightarrow> db \<Rightarrow> (sql_error, zone_row \<times> db) result" where
  "insert_zone_row e owner name hash d =
     (let r = \<lparr>z_id = zone_seq d + 1, z_name = name, z_password_hash = hash, z_owner = owner,
               z_created_at = now e\<rparr>
      in checked_insert e ''create zone'' [(U_zone_name, name \<in> z_name ` set (zones d))]
           (has_user d owner)
           (r, d\<lparr>zones := zones d @ [r], zone_seq := z_id r\<rparr>))"

text \<open>\<^verbatim>\<open>ON CONFLICT DO NOTHING\<close>: an existing membership is left as it is.\<close>

definition insert_member :: "env \<Rightarrow> int \<Rightarrow> int \<Rightarrow> db \<Rightarrow> (sql_error, db) result" where
  "insert_member e zid nid d =
     (let r = \<lparr>zm_zone = zid, zm_node = nid, zm_joined_at = now e\<rparr>
      in if db_fault e ''join zone'' zid then Inl SqlFault
         else if (zid, nid) \<in> (\<lambda>m. (zm_zone m, zm_node m)) ` set (zone_members d) then Inr d
         else if \<not> (has_zone d zid \<and> has_node d nid) then Inl ForeignKeyFailed
         else Inr (d\<lparr>zone_members := zone_members d @ [r]\<rparr>))"

definition insert_announcement ::
  "env \<Rightarrow> int \<Rightarrow> block \<Rightarrow> addr \<Rightarrow> db \<Rightarrow> (sql_error, ann_row \<times> db) result" where
  "insert_announcement e nid real synth d =
     (let r = \<lparr>a_id = ann_seq d + 1, a_node = nid, a_real_base = Base real,
               a_prefix_len = PrefixLen real, a_synthetic_base = synth, a_created_at = now e\<rparr>
      in checked_insert e ''insert announcement''
           [(U_node_real, (nid, Base real, PrefixLen real)
               \<in> (\<lambda>a. (a_node a, a_real_base a, a_prefix_len a)) ` set (announcements d)),
            (U_synthetic, (synth, PrefixLen real)
               \<in> (\<lambda>a. (a_synthetic_base a, a_prefix_len a)) ` set (announcements d))]
           (has_node d nid)
           (r, d\<lparr>announcements := announcements d @ [r], ann_seq := a_id r\<rparr>))"

text \<open>
  \<^verbatim>\<open>INSERT [OR IGNORE] INTO announcement_zones\<close>: the result says whether a row was inserted. The plain
  form is only used for an announcement inserted just before, which has no attachment yet.
\<close>

definition attach_zone :: "env \<Rightarrow> int \<Rightarrow> int \<Rightarrow> db \<Rightarrow> (sql_error, bool \<times> db) result" where
  "attach_zone e aid zid d =
     (let r = \<lparr>az_ann = aid, az_zone = zid\<rparr>
      in if db_fault e ''attach zone'' zid then Inl SqlFault
         else if r \<in> set (announcement_zones d) then Inr (False, d)
         else if \<not> (has_ann d aid \<and> has_zone d zid) then Inl ForeignKeyFailed
         else Inr (True, d\<lparr>announcement_zones := announcement_zones d @ [r]\<rparr>))"

subsection \<open>Deletes and their cascades\<close>

definition delete_announcements :: "(ann_row \<Rightarrow> bool) \<Rightarrow> db \<Rightarrow> db" where
  "delete_announcements P d =
     (let gone = a_id ` set (filter P (announcements d))
      in d\<lparr>announcements := filter (\<lambda>a. \<not> P a) (announcements d),
           announcement_zones := filter (\<lambda>x. az_ann x \<notin> gone) (announcement_zones d)\<rparr>)"

definition delete_nodes :: "(node_row \<Rightarrow> bool) \<Rightarrow> db \<Rightarrow> db" where
  "delete_nodes P d =
     (let gone = n_id ` set (filter P (nodes d))
      in delete_announcements (\<lambda>a. a_node a \<in> gone)
           (d\<lparr>nodes := filter (\<lambda>n. \<not> P n) (nodes d),
              zone_members := filter (\<lambda>m. zm_node m \<notin> gone) (zone_members d)\<rparr>))"

definition delete_zones :: "(zone_row \<Rightarrow> bool) \<Rightarrow> db \<Rightarrow> db" where
  "delete_zones P d =
     (let gone = z_id ` set (filter P (zones d))
      in d\<lparr>zones := filter (\<lambda>z. \<not> P z) (zones d),
           zone_members := filter (\<lambda>m. zm_zone m \<notin> gone) (zone_members d),
           announcement_zones := filter (\<lambda>x. az_zone x \<notin> gone) (announcement_zones d)\<rparr>)"

definition null_ref :: "int \<Rightarrow> int option \<Rightarrow> int option" where
  "null_ref i r = (if r = Some i then None else r)"

definition delete_user :: "int \<Rightarrow> db \<Rightarrow> db" where
  "delete_user i d =
     (let d = delete_zones (\<lambda>z. z_owner z = i) (delete_nodes (\<lambda>n. n_user_id n = i) d)
      in d\<lparr>users := filter (\<lambda>u. u_id u \<noteq> i) (users d),
           refresh_tokens := filter (\<lambda>t. t_user t \<noteq> i) (refresh_tokens d),
           invites := map (\<lambda>v. v\<lparr>i_created_by := null_ref i (i_created_by v),
                                  i_used_by := null_ref i (i_used_by v)\<rparr>) (invites d)\<rparr>)"

subsection \<open>What the schema promises\<close>

definition uniq_ok :: "db \<Rightarrow> bool" where
  "uniq_ok d =
     (distinct (map u_id (users d)) \<and> distinct (map (nocase \<circ> u_username) (users d)) \<and>
      distinct (map i_id (invites d)) \<and> distinct (map i_code (invites d)) \<and>
      distinct (map n_id (nodes d)) \<and> distinct (map n_wg_pubkey (nodes d)) \<and>
      distinct (map n_ip (nodes d)) \<and> distinct (map (\<lambda>n. (n_user_id n, n_name n)) (nodes d)) \<and>
      distinct (map z_id (zones d)) \<and> distinct (map z_name (zones d)) \<and>
      distinct (map (\<lambda>m. (zm_zone m, zm_node m)) (zone_members d)) \<and>
      distinct (map t_id (refresh_tokens d)) \<and> distinct (map t_hash (refresh_tokens d)) \<and>
      distinct (map a_id (announcements d)) \<and>
      distinct (map (\<lambda>a. (a_node a, a_real_base a, a_prefix_len a)) (announcements d)) \<and>
      distinct (map (\<lambda>a. (a_synthetic_base a, a_prefix_len a)) (announcements d)) \<and>
      distinct (announcement_zones d))"

definition fk_ok :: "db \<Rightarrow> bool" where
  "fk_ok d =
     ((\<forall>n \<in> set (nodes d). has_user d (n_user_id n)) \<and>
      (\<forall>z \<in> set (zones d). has_user d (z_owner z)) \<and>
      (\<forall>m \<in> set (zone_members d). has_zone d (zm_zone m) \<and> has_node d (zm_node m)) \<and>
      (\<forall>t \<in> set (refresh_tokens d). has_user d (t_user t)) \<and>
      (\<forall>a \<in> set (announcements d). has_node d (a_node a)) \<and>
      (\<forall>x \<in> set (announcement_zones d). has_ann d (az_ann x) \<and> has_zone d (az_zone x)) \<and>
      (\<forall>v \<in> set (invites d). (\<forall>i. i_created_by v = Some i \<longrightarrow> has_user d i) \<and>
         (\<forall>i. i_used_by v = Some i \<longrightarrow> has_user d i)))"

definition seq_ok :: "db \<Rightarrow> bool" where
  "seq_ok d =
     ((\<forall>u \<in> set (users d). 0 < u_id u \<and> u_id u \<le> user_seq d) \<and>
      (\<forall>v \<in> set (invites d). 0 < i_id v \<and> i_id v \<le> invite_seq d) \<and>
      (\<forall>n \<in> set (nodes d). 0 < n_id n \<and> n_id n \<le> node_seq d) \<and>
      (\<forall>z \<in> set (zones d). 0 < z_id z \<and> z_id z \<le> zone_seq d) \<and>
      (\<forall>t \<in> set (refresh_tokens d). 0 < t_id t \<and> t_id t \<le> token_seq d) \<and>
      (\<forall>a \<in> set (announcements d). 0 < a_id a \<and> a_id a \<le> ann_seq d) \<and>
      0 \<le> user_seq d \<and> 0 \<le> invite_seq d \<and> 0 \<le> node_seq d \<and> 0 \<le> zone_seq d \<and>
      0 \<le> token_seq d \<and> 0 \<le> ann_seq d)"

definition schema_ok :: "db \<Rightarrow> bool" where
  "schema_ok d = (uniq_ok d \<and> fk_ok d \<and> seq_ok d)"

section \<open>Lemmas\<close>

lemma schema_ok_empty [simp]: "schema_ok empty_db"
  by (simp add: schema_ok_def uniq_ok_def fk_ok_def seq_ok_def empty_db_def)

lemmas has_defs = has_user_def has_node_def has_zone_def has_ann_def
lemmas schema_defs = schema_ok_def uniq_ok_def fk_ok_def seq_ok_def has_defs

lemma checked_insert_Inr:
  "checked_insert e l cs fk r = Inr x \<longleftrightarrow>
     x = r \<and> \<not> db_fault e l 0 \<and> (\<forall>c \<in> set cs. \<not> snd c) \<and> fk"
  by (auto simp: checked_insert_def Let_def filter_empty_conv)

lemma kept_key:
  "i \<in> f ` set xs \<Longrightarrow> i \<notin> f ` {x \<in> set xs. P x} \<Longrightarrow> i \<in> f ` {x \<in> set xs. \<not> P x}"
  by blast

subsection \<open>The cascades keep the schema\<close>

lemma delete_announcements_sel [frame_simps]:
  "users (delete_announcements P d) = users d" "invites (delete_announcements P d) = invites d"
  "nodes (delete_announcements P d) = nodes d" "zones (delete_announcements P d) = zones d"
  "zone_members (delete_announcements P d) = zone_members d"
  "refresh_tokens (delete_announcements P d) = refresh_tokens d"
  "announcements (delete_announcements P d) = filter (\<lambda>a. \<not> P a) (announcements d)"
  "announcement_zones (delete_announcements P d) =
     filter (\<lambda>x. az_ann x \<notin> a_id ` {a \<in> set (announcements d). P a}) (announcement_zones d)"
  "user_seq (delete_announcements P d) = user_seq d"
  "invite_seq (delete_announcements P d) = invite_seq d"
  "node_seq (delete_announcements P d) = node_seq d"
  "zone_seq (delete_announcements P d) = zone_seq d"
  "token_seq (delete_announcements P d) = token_seq d"
  "ann_seq (delete_announcements P d) = ann_seq d"
  by (simp_all add: delete_announcements_def Let_def)

lemma delete_nodes_sel [frame_simps]:
  "users (delete_nodes P d) = users d" "invites (delete_nodes P d) = invites d"
  "nodes (delete_nodes P d) = filter (\<lambda>n. \<not> P n) (nodes d)" "zones (delete_nodes P d) = zones d"
  "zone_members (delete_nodes P d) =
     filter (\<lambda>m. zm_node m \<notin> n_id ` {n \<in> set (nodes d). P n}) (zone_members d)"
  "refresh_tokens (delete_nodes P d) = refresh_tokens d"
  "announcements (delete_nodes P d) =
     filter (\<lambda>a. a_node a \<notin> n_id ` {n \<in> set (nodes d). P n}) (announcements d)"
  "announcement_zones (delete_nodes P d) =
     filter (\<lambda>x. az_ann x \<notin>
       a_id ` {a \<in> set (announcements d). a_node a \<in> n_id ` {n \<in> set (nodes d). P n}})
       (announcement_zones d)"
  "user_seq (delete_nodes P d) = user_seq d" "invite_seq (delete_nodes P d) = invite_seq d"
  "node_seq (delete_nodes P d) = node_seq d" "zone_seq (delete_nodes P d) = zone_seq d"
  "token_seq (delete_nodes P d) = token_seq d" "ann_seq (delete_nodes P d) = ann_seq d"
  by (simp_all add: delete_nodes_def frame_simps Let_def)

lemma delete_zones_sel [frame_simps]:
  "users (delete_zones P d) = users d" "invites (delete_zones P d) = invites d"
  "nodes (delete_zones P d) = nodes d"
  "zones (delete_zones P d) = filter (\<lambda>z. \<not> P z) (zones d)"
  "zone_members (delete_zones P d) =
     filter (\<lambda>m. zm_zone m \<notin> z_id ` {z \<in> set (zones d). P z}) (zone_members d)"
  "refresh_tokens (delete_zones P d) = refresh_tokens d"
  "announcements (delete_zones P d) = announcements d"
  "announcement_zones (delete_zones P d) =
     filter (\<lambda>x. az_zone x \<notin> z_id ` {z \<in> set (zones d). P z}) (announcement_zones d)"
  "user_seq (delete_zones P d) = user_seq d" "invite_seq (delete_zones P d) = invite_seq d"
  "node_seq (delete_zones P d) = node_seq d" "zone_seq (delete_zones P d) = zone_seq d"
  "token_seq (delete_zones P d) = token_seq d" "ann_seq (delete_zones P d) = ann_seq d"
  by (simp_all add: delete_zones_def Let_def)

lemma uniq_ok_delete [table_ok]:
  "uniq_ok d \<Longrightarrow> uniq_ok (delete_announcements P d)"
  "uniq_ok d \<Longrightarrow> uniq_ok (delete_nodes Q d)"
  "uniq_ok d \<Longrightarrow> uniq_ok (delete_zones R d)"
  by (simp_all add: uniq_ok_def frame_simps)

lemma seq_ok_delete [table_ok]:
  "seq_ok d \<Longrightarrow> seq_ok (delete_announcements P d)"
  "seq_ok d \<Longrightarrow> seq_ok (delete_nodes Q d)"
  "seq_ok d \<Longrightarrow> seq_ok (delete_zones R d)"
  by (simp_all add: seq_ok_def frame_simps)

lemma fk_ok_delete_announcements [table_ok]:
  "fk_ok d \<Longrightarrow> fk_ok (delete_announcements P d)"
  by (simp add: fk_ok_def has_defs frame_simps kept_key)

lemma fk_ok_delete_nodes [table_ok]: "fk_ok d \<Longrightarrow> fk_ok (delete_nodes P d)"
  by (simp add: fk_ok_def has_defs frame_simps kept_key)

lemma fk_ok_delete_zones [table_ok]: "fk_ok d \<Longrightarrow> fk_ok (delete_zones P d)"
  by (simp add: fk_ok_def has_defs frame_simps kept_key)

lemma delete_zones_ok [table_ok]: "schema_ok d \<Longrightarrow> schema_ok (delete_zones P d)"
  and delete_nodes_ok [table_ok]: "schema_ok d \<Longrightarrow> schema_ok (delete_nodes Q d)"
  and delete_announcements_ok [table_ok]: "schema_ok d \<Longrightarrow> schema_ok (delete_announcements R d)"
  by (simp_all add: schema_ok_def table_ok)

lemma delete_user_sel [frame_simps]:
  "users (delete_user i d) = filter (\<lambda>u. u_id u \<noteq> i) (users d)"
  "nodes (delete_user i d) = filter (\<lambda>n. n_user_id n \<noteq> i) (nodes d)"
  "zones (delete_user i d) = filter (\<lambda>z. z_owner z \<noteq> i) (zones d)"
  "refresh_tokens (delete_user i d) = filter (\<lambda>t. t_user t \<noteq> i) (refresh_tokens d)"
  "invites (delete_user i d) =
     map (\<lambda>v. v\<lparr>i_created_by := null_ref i (i_created_by v),
                i_used_by := null_ref i (i_used_by v)\<rparr>) (invites d)"
  "zone_members (delete_user i d) =
     zone_members (delete_zones (\<lambda>z. z_owner z = i) (delete_nodes (\<lambda>n. n_user_id n = i) d))"
  "announcements (delete_user i d) =
     announcements (delete_nodes (\<lambda>n. n_user_id n = i) d)"
  "announcement_zones (delete_user i d) =
     announcement_zones (delete_zones (\<lambda>z. z_owner z = i) (delete_nodes (\<lambda>n. n_user_id n = i) d))"
  "user_seq (delete_user i d) = user_seq d" "invite_seq (delete_user i d) = invite_seq d"
  "node_seq (delete_user i d) = node_seq d" "zone_seq (delete_user i d) = zone_seq d"
  "token_seq (delete_user i d) = token_seq d" "ann_seq (delete_user i d) = ann_seq d"
  by (simp_all add: delete_user_def frame_simps Let_def)

lemma null_ref_Some [simp]: "null_ref i r = Some j \<longleftrightarrow> r = Some j \<and> j \<noteq> i"
  by (auto simp: null_ref_def)

lemma uniq_ok_delete_user: "uniq_ok d \<Longrightarrow> uniq_ok (delete_user i d)"
  using uniq_ok_delete(3) [OF uniq_ok_delete(2), of d "\<lambda>z. z_owner z = i" "\<lambda>n. n_user_id n = i"]
  by (simp add: uniq_ok_def frame_simps comp_def)

lemma seq_ok_delete_user: "seq_ok d \<Longrightarrow> seq_ok (delete_user i d)"
  by (auto simp: seq_ok_def frame_simps)

lemma has_user_delete_user: "has_user (delete_user i d) j \<longleftrightarrow> has_user d j \<and> j \<noteq> i"
  by (auto simp: has_user_def frame_simps)

lemma fk_ok_delete_user:
  assumes "fk_ok d"
  shows "fk_ok (delete_user i d)"
proof -
  let ?d = "delete_zones (\<lambda>z. z_owner z = i) (delete_nodes (\<lambda>n. n_user_id n = i) d)"
  have "fk_ok ?d" using assms by (simp add: table_ok)
  then have same: "fk_ok ?d" .
  have keys: "has_node (delete_user i d) = has_node ?d" "has_zone (delete_user i d) = has_zone ?d"
    "has_ann (delete_user i d) = has_ann ?d"
    by (auto simp: has_defs frame_simps fun_eq_iff)
  from same have
    "\<forall>m \<in> set (zone_members (delete_user i d)).
       has_zone (delete_user i d) (zm_zone m) \<and> has_node (delete_user i d) (zm_node m)"
    "\<forall>x \<in> set (announcement_zones (delete_user i d)).
       has_ann (delete_user i d) (az_ann x) \<and> has_zone (delete_user i d) (az_zone x)"
    "\<forall>a \<in> set (announcements (delete_user i d)). has_node (delete_user i d) (a_node a)"
    unfolding keys by (simp_all add: fk_ok_def delete_user_sel delete_zones_sel)
  moreover from assms have
    "\<forall>n \<in> set (nodes (delete_user i d)). has_user (delete_user i d) (n_user_id n)"
    "\<forall>z \<in> set (zones (delete_user i d)). has_user (delete_user i d) (z_owner z)"
    "\<forall>t \<in> set (refresh_tokens (delete_user i d)). has_user (delete_user i d) (t_user t)"
    "\<forall>v \<in> set (invites (delete_user i d)).
       (\<forall>j. i_created_by v = Some j \<longrightarrow> has_user (delete_user i d) j) \<and>
       (\<forall>j. i_used_by v = Some j \<longrightarrow> has_user (delete_user i d) j)"
    by (auto simp: fk_ok_def has_user_delete_user delete_user_sel)
  ultimately show ?thesis by (simp add: fk_ok_def)
qed

lemma delete_user_ok [table_ok]: "schema_ok d \<Longrightarrow> schema_ok (delete_user i d)"
  by (simp add: schema_ok_def uniq_ok_delete_user fk_ok_delete_user seq_ok_delete_user)

subsection \<open>The inserts keep the schema\<close>

lemma fresh_key:
  "\<forall>x \<in> S. (0 :: int) < f x \<and> f x \<le> s \<Longrightarrow> s + 1 \<notin> f ` S"
  by auto

lemma insert_user_ok [table_ok]:
  assumes "insert_user e l name hash adm d = Inr (u, d')" and "schema_ok d"
  shows "schema_ok d'"
proof -
  from assms(2) have "user_seq d + 1 \<notin> u_id ` set (users d)"
    by (intro fresh_key) (simp add: schema_ok_def seq_ok_def)
  with assms show ?thesis
    by (auto simp: insert_user_def checked_insert_Inr Let_def schema_defs)
qed

lemma insert_invite_ok [table_ok]:
  assumes "insert_invite e code by ex d = Inr d'" and "schema_ok d"
  shows "schema_ok d'"
proof -
  from assms(2) have "invite_seq d + 1 \<notin> i_id ` set (invites d)"
    by (intro fresh_key) (simp add: schema_ok_def seq_ok_def)
  with assms show ?thesis
    by (auto simp: insert_invite_def checked_insert_Inr Let_def schema_defs)
qed

lemma insert_token_ok [table_ok]:
  assumes "insert_token e uid h ex d = Inr d'" and "schema_ok d"
  shows "schema_ok d'"
proof -
  from assms(2) have "token_seq d + 1 \<notin> t_id ` set (refresh_tokens d)"
    by (intro fresh_key) (simp add: schema_ok_def seq_ok_def)
  with assms show ?thesis
    by (auto simp: insert_token_def checked_insert_Inr Let_def schema_defs)
qed

lemma insert_node_row_ok [table_ok]:
  assumes "insert_node_row e uid name pk pf ip d = Inr (n, d')" and "schema_ok d"
  shows "schema_ok d'"
proof -
  from assms(2) have "node_seq d + 1 \<notin> n_id ` set (nodes d)"
    by (intro fresh_key) (simp add: schema_ok_def seq_ok_def)
  with assms show ?thesis
    by (auto simp: insert_node_row_def checked_insert_Inr Let_def schema_defs)
qed

lemma has_snoc:
  "has_zone (d\<lparr>zones := zones d @ [z], zone_seq := s\<rparr>) i \<longleftrightarrow> i = z_id z \<or> has_zone d i"
  "has_user (d\<lparr>zones := zones d @ [z], zone_seq := s\<rparr>) = has_user d"
  "has_node (d\<lparr>zones := zones d @ [z], zone_seq := s\<rparr>) = has_node d"
  "has_ann (d\<lparr>zones := zones d @ [z], zone_seq := s\<rparr>) = has_ann d"
  "has_ann (d\<lparr>announcements := announcements d @ [a], ann_seq := s\<rparr>) i
     \<longleftrightarrow> i = a_id a \<or> has_ann d i"
  "has_user (d\<lparr>announcements := announcements d @ [a], ann_seq := s\<rparr>) = has_user d"
  "has_node (d\<lparr>announcements := announcements d @ [a], ann_seq := s\<rparr>) = has_node d"
  "has_zone (d\<lparr>announcements := announcements d @ [a], ann_seq := s\<rparr>) = has_zone d"
  by (auto simp: has_defs fun_eq_iff)

lemma insert_zone_row_ok [table_ok]:
  assumes "insert_zone_row e owner name hash d = Inr (z, d')" and "schema_ok d"
  shows "schema_ok d'"
proof -
  from assms(1) have d': "d' = d\<lparr>zones := zones d @ [z], zone_seq := zone_seq d + 1\<rparr>"
    and z: "z_id z = zone_seq d + 1" "z_owner z = owner" "z_name z \<notin> z_name ` set (zones d)"
      "has_user d owner"
    by (auto simp: insert_zone_row_def checked_insert_Inr Let_def)
  from assms(2) have "zone_seq d + 1 \<notin> z_id ` set (zones d)"
    by (intro fresh_key) (simp add: schema_ok_def seq_ok_def)
  with assms(2) z have "uniq_ok d'" by (simp add: d' schema_ok_def uniq_ok_def)
  moreover from assms(2) z have "seq_ok d'" by (auto simp: d' schema_ok_def seq_ok_def)
  moreover from assms(2) z have "fk_ok d'" by (simp add: d' schema_ok_def fk_ok_def has_snoc)
  ultimately show ?thesis by (simp add: schema_ok_def)
qed

lemma insert_member_ok [table_ok]:
  assumes "insert_member e zid nid d = Inr d'" and "schema_ok d"
  shows "schema_ok d'"
proof (cases "d' = d")
  case False
  define m where "m = \<lparr>zm_zone = zid, zm_node = nid, zm_joined_at = now e\<rparr>"
  from assms(1) False have d': "d' = d\<lparr>zone_members := zone_members d @ [m]\<rparr>"
    and m: "(zid, nid) \<notin> (\<lambda>m. (zm_zone m, zm_node m)) ` set (zone_members d)"
      "has_zone d zid" "has_node d nid"
    by (simp_all add: insert_member_def m_def Let_def split: if_splits)
  have has: "has_zone d' = has_zone d" "has_node d' = has_node d" "has_user d' = has_user d"
    "has_ann d' = has_ann d"
    by (simp_all add: d' has_defs fun_eq_iff)
  from assms(2) m(1) have "uniq_ok d'" by (simp add: d' m_def schema_ok_def uniq_ok_def)
  moreover from assms(2) have "seq_ok d'" by (simp add: d' schema_ok_def seq_ok_def)
  moreover from assms(2) m(2,3) have "fk_ok d'"
    unfolding schema_ok_def fk_ok_def has by (simp add: d' m_def)
  ultimately show ?thesis by (simp add: schema_ok_def)
qed (use assms in simp)

lemma insert_announcement_ok [table_ok]:
  assumes "insert_announcement e nid real synth d = Inr (a, d')" and "schema_ok d"
  shows "schema_ok d'"
proof -
  from assms(1) have d': "d' = d\<lparr>announcements := announcements d @ [a], ann_seq := ann_seq d + 1\<rparr>"
    and a: "a_id a = ann_seq d + 1" "a_node a = nid" "has_node d nid"
      "(a_node a, a_real_base a, a_prefix_len a)
         \<notin> (\<lambda>a. (a_node a, a_real_base a, a_prefix_len a)) ` set (announcements d)"
      "(a_synthetic_base a, a_prefix_len a)
         \<notin> (\<lambda>a. (a_synthetic_base a, a_prefix_len a)) ` set (announcements d)"
    by (auto simp: insert_announcement_def checked_insert_Inr Let_def)
  from assms(2) have "ann_seq d + 1 \<notin> a_id ` set (announcements d)"
    by (intro fresh_key) (simp add: schema_ok_def seq_ok_def)
  with assms(2) a have "uniq_ok d'" by (simp add: d' schema_ok_def uniq_ok_def)
  moreover from assms(2) a have "seq_ok d'" by (auto simp: d' schema_ok_def seq_ok_def)
  moreover from assms(2) a have "fk_ok d'" by (simp add: d' schema_ok_def fk_ok_def has_snoc)
  ultimately show ?thesis by (simp add: schema_ok_def)
qed

lemma attach_zone_ok [table_ok]:
  assumes "attach_zone e aid zid d = Inr (b, d')" and "schema_ok d"
  shows "schema_ok d'"
proof (cases "d' = d")
  case False
  define x where "x = \<lparr>az_ann = aid, az_zone = zid\<rparr>"
  from assms(1) False have d': "d' = d\<lparr>announcement_zones := announcement_zones d @ [x]\<rparr>"
    and x: "x \<notin> set (announcement_zones d)" "has_ann d aid" "has_zone d zid"
    by (auto simp: attach_zone_def x_def Let_def split: if_splits)
  have has: "has_zone d' = has_zone d" "has_node d' = has_node d" "has_user d' = has_user d"
    "has_ann d' = has_ann d"
    by (simp_all add: d' has_defs fun_eq_iff)
  from assms(2) x(1) have "uniq_ok d'" by (simp add: d' schema_ok_def uniq_ok_def)
  moreover from assms(2) have "seq_ok d'" by (simp add: d' schema_ok_def seq_ok_def)
  moreover from assms(2) x(2,3) have "fk_ok d'"
    unfolding schema_ok_def fk_ok_def has by (simp add: d' x_def)
  ultimately show ?thesis by (simp add: schema_ok_def)
qed (use assms in simp)

end
