(* ===== verification/Store_Accounts.thy ===== *)
theory Store_Accounts
  imports Store_Schema
begin

text \<open>
  Accounts in the store: \<^verbatim>\<open>users.go\<close> (look-up, admin creation, the cascading delete), \<^verbatim>\<open>register.go\<close>,
  \<^verbatim>\<open>invites.go\<close> and \<^verbatim>\<open>refresh_tokens.go\<close>. A transaction works on a copy of the database that replaces
  the original at \<^verbatim>\<open>Commit\<close>; every error leaves the original. Random tokens and the SHA-256 digest
  are arguments.
\<close>

section \<open>Definitions\<close>

subsection \<open>Users\<close>

definition GetByUsername :: "env \<Rightarrow> string \<Rightarrow> db \<Rightarrow> (store_error, user_row option) result" where
  "GetByUsername e name d =
     (if db_fault e ''get user'' 0 then Inl (ErrWrapped ''get user'')
      else Inr (find (\<lambda>u. nocase (u_username u) = nocase name) (users d)))"

definition GetUserByID :: "env \<Rightarrow> int \<Rightarrow> db \<Rightarrow> (store_error, user_row option) result" where
  "GetUserByID e i d =
     (if db_fault e ''get user'' i then Inl (ErrWrapped ''get user'')
      else Inr (find (\<lambda>u. u_id u = i) (users d)))"

definition CreateAdmin ::
  "env \<Rightarrow> string \<Rightarrow> string \<Rightarrow> db \<Rightarrow> (store_error, user_row) result \<times> db" where
  "CreateAdmin e name hash d =
     (case insert_user e ''create admin'' name hash True d of
        Inl (UniqueFailed _) \<Rightarrow> (Inl ErrUserExists, d)
      | Inl _ \<Rightarrow> (Inl (ErrWrapped ''create admin''), d)
      | Inr (u, d') \<Rightarrow>
          if db_fault e ''create admin: last insert id'' 0 then (Inl (ErrWrapped ''create admin''), d')
          else (Inr u, d'))"

text \<open>\<^verbatim>\<open>auth.EnsureAdmin\<close> (\<^verbatim>\<open>bootstrap.go\<close>); the hash of the configured password is an argument.\<close>

datatype bootstrap_error = AdminCredentialMissing | AdminHash | AdminStore store_error

definition EnsureAdmin ::
  "env \<Rightarrow> string \<Rightarrow> string \<Rightarrow> string option \<Rightarrow> db \<Rightarrow> bootstrap_error option \<times> db" where
  "EnsureAdmin e username password hash d =
     (if username = '''' \<or> password = '''' then (Some AdminCredentialMissing, d)
      else case GetByUsername e username d of
        Inl err \<Rightarrow> (Some (AdminStore err), d)
      | Inr (Some _) \<Rightarrow> (None, d)
      | Inr None \<Rightarrow>
          (case hash of
             None \<Rightarrow> (Some AdminHash, d)
           | Some h \<Rightarrow>
               (case CreateAdmin e username h d of
                  (Inl ErrUserExists, d') \<Rightarrow> (None, d')
                | (Inl err, d') \<Rightarrow> (Some (AdminStore err), d')
                | (Inr _, d') \<Rightarrow> (None, d'))))"

subsection \<open>Deleting a user\<close>

record surviving_membership =
  sm_ip :: addr
  sm_zone :: int

record surviving_route =
  sr_zone :: int
  sr_synthetic :: prefix4

record recompute_node =
  rn_id :: int
  rn_pubkey :: string
  rn_ip :: addr

record deletion_result =
  NodePubKeys :: "string list"
  SurvivingMemberships :: "surviving_membership list"
  OwnedZoneIDs :: "int list"
  SurvivingZoneRoutes :: "surviving_route list"
  RouteRecomputeNodes :: "recompute_node list"

definition ann_synthetic :: "ann_row \<Rightarrow> block" where
  "ann_synthetic a = \<lparr>Base = a_synthetic_base a, PrefixLen = a_prefix_len a\<rparr>"

definition ann_real :: "ann_row \<Rightarrow> block" where
  "ann_real a = \<lparr>Base = a_real_base a, PrefixLen = a_prefix_len a\<rparr>"

text \<open>The joins: the rows of one table paired with those of another that match.\<close>

definition gather_memberships :: "int \<Rightarrow> db \<Rightarrow> surviving_membership list" where
  "gather_memberships i d =
     [\<lparr>sm_ip = n_ip n, sm_zone = zm_zone m\<rparr>.
        m \<leftarrow> zone_members d, n \<leftarrow> nodes d, n_id n = zm_node m,
        z \<leftarrow> zones d, z_id z = zm_zone m, n_user_id n = i \<and> z_owner z \<noteq> i]"

definition gather_routes :: "int \<Rightarrow> db \<Rightarrow> surviving_route list" where
  "gather_routes i d =
     [\<lparr>sr_zone = az_zone x, sr_synthetic = block_prefix (ann_synthetic a)\<rparr>.
        x \<leftarrow> announcement_zones d, a \<leftarrow> announcements d, a_id a = az_ann x,
        n \<leftarrow> nodes d, n_id n = a_node a,
        z \<leftarrow> zones d, z_id z = az_zone x, n_user_id n = i \<and> z_owner z \<noteq> i]"

definition orphan :: "db \<Rightarrow> ann_row \<Rightarrow> bool" where
  "orphan d a = (a_id a \<notin> az_ann ` set (announcement_zones d))"

definition orphan_rows :: "db \<Rightarrow> (ann_row \<times> node_row) list" where
  "orphan_rows d =
     [(a, n). a \<leftarrow> announcements d, n \<leftarrow> nodes d, n_id n = a_node a, orphan d a]"

text \<open>The loop over the orphans with its \<^verbatim>\<open>seenNode\<close> map.\<close>

fun collect_orphans ::
  "(ann_row \<times> node_row) list \<Rightarrow> int set \<Rightarrow> int list \<times> recompute_node list
     \<Rightarrow> int list \<times> recompute_node list" where
  "collect_orphans [] seen out = out"
| "collect_orphans ((a, n) # rest) seen (ids, rns) =
     (if a_node a \<notin> seen
      then collect_orphans rest (insert (a_node a) seen)
             (ids @ [a_id a], rns @ [\<lparr>rn_id = a_node a, rn_pubkey = n_wg_pubkey n, rn_ip = n_ip n\<rparr>])
      else collect_orphans rest seen (ids @ [a_id a], rns))"

fun reclaim_all :: "env \<Rightarrow> int list \<Rightarrow> db \<Rightarrow> (store_error, db) result" where
  "reclaim_all e [] d = Inr d"
| "reclaim_all e (i # is) d =
     (if db_fault e ''reclaim orphan announcement'' i
      then Inl (ErrWrapped ''reclaim orphan announcement'')
      else reclaim_all e is (delete_announcements (\<lambda>a. a_id a = i) d))"

definition last_admin_check :: "env \<Rightarrow> user_row \<Rightarrow> db \<Rightarrow> store_error option" where
  "last_admin_check e u d =
     (if u_is_admin u then
        if db_fault e ''count admins'' 0 then Some (ErrWrapped ''count admins'')
        else if length (filter u_is_admin (users d)) \<le> 1 then Some ErrLastAdmin
        else None
      else None)"

text \<open>The queries before the delete, each with its own failure.\<close>

definition gather_fault :: "env \<Rightarrow> string list \<Rightarrow> store_error option" where
  "gather_fault e labels =
     (case find (\<lambda>l. db_fault e l 0) labels of None \<Rightarrow> None | Some l \<Rightarrow> Some (ErrWrapped l))"

definition DeleteCascade ::
  "env \<Rightarrow> int \<Rightarrow> db \<Rightarrow> (store_error, deletion_result) result \<times> db" where
  "DeleteCascade e target d =
     (if db_fault e ''begin delete'' 0 then (Inl (ErrWrapped ''begin delete''), d)
      else if db_fault e ''look up user'' 0 then (Inl (ErrWrapped ''look up user''), d)
      else case find (\<lambda>u. u_id u = target) (users d) of
        None \<Rightarrow> (Inl ErrUserNotFound, d)
      | Some u \<Rightarrow>
          (case last_admin_check e u d of
             Some err \<Rightarrow> (Inl err, d)
           | None \<Rightarrow>
               (case gather_fault e
                       [''gather owned zones'', ''gather node keys'',
                        ''gather surviving memberships'', ''gather surviving zone routes'',
                        ''delete user'', ''gather orphan announcements''] of
                  Some err \<Rightarrow> (Inl err, d)
                | None \<Rightarrow>
                    (let d1 = delete_user target d;
                         (ids, rns) = collect_orphans (orphan_rows d1) {} ([], []);
                         result =
                           \<lparr>NodePubKeys = map n_wg_pubkey (filter (\<lambda>n. n_user_id n = target) (nodes d)),
                            SurvivingMemberships = gather_memberships target d,
                            OwnedZoneIDs = map z_id (filter (\<lambda>z. z_owner z = target) (zones d)),
                            SurvivingZoneRoutes = gather_routes target d,
                            RouteRecomputeNodes = rns\<rparr>
                     in case reclaim_all e ids d1 of
                          Inl err \<Rightarrow> (Inl err, d)
                        | Inr d2 \<Rightarrow>
                            if db_fault e ''commit delete'' 0
                            then (Inl (ErrWrapped ''commit delete''), d)
                            else (Inr result, d2)))))"

subsection \<open>Invites and registration\<close>

text \<open>
  The window in nanoseconds: \<^verbatim>\<open>expires_at\<close> is \<open>created_at + ttl\<close> truncated to seconds by its format.
  \<^verbatim>\<open>gen k\<close> is the code of the \<open>k\<close>-th attempt, \<^term>\<open>None\<close> when the random source fails.
\<close>

definition invite_expiry :: "int \<Rightarrow> int \<Rightarrow> int option" where
  "invite_expiry t ttl = (if 0 < ttl then Some (t + ttl div 1000000000) else None)"

fun create_invite_loop ::
  "nat \<Rightarrow> env \<Rightarrow> (nat \<Rightarrow> string option) \<Rightarrow> nat \<Rightarrow> int \<Rightarrow> int option \<Rightarrow> db
     \<Rightarrow> (store_error, string \<times> int option) result \<times> db" where
  "create_invite_loop 0 e gen k by ex d =
     (Inl (ErrWrapped ''create invite: exhausted unique-code retries''), d)"
| "create_invite_loop (Suc m) e gen k by ex d =
     (case gen k of
        None \<Rightarrow> (Inl (ErrWrapped ''generate invite code''), d)
      | Some code \<Rightarrow>
          (case insert_invite e code by ex d of
             Inr d' \<Rightarrow> (Inr (code, ex), d')
           | Inl (UniqueFailed _) \<Rightarrow> create_invite_loop m e gen (Suc k) by ex d
           | Inl _ \<Rightarrow> (Inl (ErrWrapped ''create invite''), d)))"

definition CreateInvite ::
  "env \<Rightarrow> (nat \<Rightarrow> string option) \<Rightarrow> int \<Rightarrow> int \<Rightarrow> db
     \<Rightarrow> (store_error, string \<times> int option) result \<times> db" where
  "CreateInvite e gen by ttl d = create_invite_loop 5 e gen 0 by (invite_expiry (now e) ttl) d"

record invite_info =
  inv_row :: invite_row
  CreatedByName :: "string option"
  UsedByName :: "string option"

definition user_name_of :: "db \<Rightarrow> int option \<Rightarrow> string option" where
  "user_name_of d r =
     (case r of None \<Rightarrow> None
      | Some i \<Rightarrow> map_option u_username (find (\<lambda>u. u_id u = i) (users d)))"

definition ListInvites :: "env \<Rightarrow> db \<Rightarrow> (store_error, invite_info list) result" where
  "ListInvites e d =
     (if db_fault e ''list invites'' 0 then Inl (ErrWrapped ''list invites'')
      else Inr (map (\<lambda>v. \<lparr>inv_row = v, CreatedByName = user_name_of d (i_created_by v),
                          UsedByName = user_name_of d (i_used_by v)\<rparr>)
                  (rev (sort_key i_id (invites d)))))"

definition redeemable :: "int \<Rightarrow> string \<Rightarrow> invite_row \<Rightarrow> bool" where
  "redeemable t code v =
     (i_code v = code \<and> i_used_at v = None \<and>
      (case i_expires_at v of None \<Rightarrow> True | Some x \<Rightarrow> t < x))"

definition consume_invite :: "int \<Rightarrow> int \<Rightarrow> string \<Rightarrow> db \<Rightarrow> nat \<times> db" where
  "consume_invite t uid code d =
     (length (filter (redeemable t code) (invites d)),
      d\<lparr>invites := map (\<lambda>v. if redeemable t code v
                            then v\<lparr>i_used_by := Some uid, i_used_at := Some t\<rparr> else v) (invites d)\<rparr>)"

definition Register ::
  "env \<Rightarrow> string \<Rightarrow> string \<Rightarrow> string \<Rightarrow> db \<Rightarrow> (store_error, user_row) result \<times> db" where
  "Register e username hash code d =
     (if db_fault e ''begin tx'' 0 then (Inl (ErrWrapped ''begin tx''), d)
      else case insert_user e ''insert user'' username hash False d of
        Inl (UniqueFailed _) \<Rightarrow> (Inl ErrUserExists, d)
      | Inl _ \<Rightarrow> (Inl (ErrWrapped ''insert user''), d)
      | Inr (u, d1) \<Rightarrow>
          if db_fault e ''last insert id'' 0 then (Inl (ErrWrapped ''last insert id''), d)
          else if db_fault e ''consume invite'' 0 then (Inl (ErrWrapped ''consume invite''), d)
          else
            (let (n, d2) = consume_invite (now e) (u_id u) code d1
             in if db_fault e ''rows affected'' 0 then (Inl (ErrWrapped ''rows affected''), d)
                else if n \<noteq> 1 then (Inl ErrInviteInvalid, d)
                else if db_fault e ''commit'' 0 then (Inl (ErrWrapped ''commit''), d)
                else (Inr u, d2)))"

subsection \<open>Refresh tokens\<close>

definition refreshTTL :: int where "refreshTTL = 30 * 24 * 3600"

text \<open>\<^verbatim>\<open>plain\<close> is the token drawn (\<^term>\<open>None\<close> when the random source fails), \<^verbatim>\<open>sha\<close> the hex digest.\<close>

definition IssueToken ::
  "env \<Rightarrow> (string \<Rightarrow> string) \<Rightarrow> string option \<Rightarrow> int \<Rightarrow> db \<Rightarrow> (store_error, string) result \<times> db" where
  "IssueToken e sha plain uid d =
     (case plain of
        None \<Rightarrow> (Inl (ErrWrapped ''generate refresh token''), d)
      | Some p \<Rightarrow>
          (case insert_token e uid (sha p) (now e + refreshTTL) d of
             Inl _ \<Rightarrow> (Inl (ErrWrapped ''insert refresh token''), d)
           | Inr d' \<Rightarrow> (Inr p, d')))"

definition ValidateToken ::
  "env \<Rightarrow> (string \<Rightarrow> string) \<Rightarrow> string \<Rightarrow> db \<Rightarrow> (store_error, int) result \<times> db" where
  "ValidateToken e sha p d =
     (if db_fault e ''select refresh token'' 0 then (Inl (ErrWrapped ''select refresh token''), d)
      else case find (\<lambda>t. t_hash t = sha p) (refresh_tokens d) of
        None \<Rightarrow> (Inl ErrRefreshInvalid, d)
      | Some t \<Rightarrow>
          if t_revoked_at t \<noteq> None then (Inl ErrRefreshInvalid, d)
          else if \<not> (now e < t_expires_at t) then (Inl ErrRefreshInvalid, d)
          else if db_fault e ''slide refresh expiry'' 0 then (Inl (ErrWrapped ''slide refresh expiry''), d)
          else
            (Inr (t_user t),
             d\<lparr>refresh_tokens :=
                 map (\<lambda>r. if t_hash r = sha p \<and> t_revoked_at r = None
                          then r\<lparr>t_expires_at := now e + refreshTTL\<rparr> else r) (refresh_tokens d)\<rparr>))"

definition RevokeToken ::
  "env \<Rightarrow> (string \<Rightarrow> string) \<Rightarrow> string \<Rightarrow> db \<Rightarrow> store_error option \<times> db" where
  "RevokeToken e sha p d =
     (if db_fault e ''revoke refresh token'' 0 then (Some (ErrWrapped ''revoke refresh token''), d)
      else
        (None,
         d\<lparr>refresh_tokens :=
             map (\<lambda>r. if t_hash r = sha p \<and> t_revoked_at r = None
                      then r\<lparr>t_revoked_at := Some (now e)\<rparr> else r) (refresh_tokens d)\<rparr>))"

section \<open>Lemmas\<close>

definition no_orphans :: "db \<Rightarrow> bool" where
  "no_orphans d = (\<forall>a \<in> set (announcements d). \<not> orphan d a)"

subsection \<open>The schema is kept\<close>

lemma insert_user_Inr:
  "insert_user e l name hash adm d = Inr (u, d') \<longleftrightarrow>
     \<not> db_fault e l 0 \<and> nocase name \<notin> (nocase \<circ> u_username) ` set (users d) \<and>
     u = \<lparr>u_id = user_seq d + 1, u_username = name, u_password_hash = hash, u_is_admin = adm,
          u_created_at = now e\<rparr> \<and>
     d' = d\<lparr>users := users d @ [u], user_seq := u_id u\<rparr>"
  by (auto simp: insert_user_def checked_insert_Inr Let_def)

lemma consume_invite_ok:
  assumes "schema_ok d" and "has_user d uid"
  shows "schema_ok (snd (consume_invite t uid code d))"
proof -
  let ?d = "snd (consume_invite t uid code d)"
  have "uniq_ok ?d"
    using assms(1) by (simp add: schema_ok_def uniq_ok_def consume_invite_def if_distrib
        comp_def cong: if_cong)
  moreover have "seq_ok ?d"
    using assms(1) by (auto simp: schema_ok_def seq_ok_def consume_invite_def)
  moreover have "fk_ok ?d"
    using assms by (auto simp: schema_ok_def fk_ok_def has_defs consume_invite_def)
  ultimately show ?thesis by (simp add: schema_ok_def)
qed

lemma Register_cases:
  assumes "Register e u h c d = (r, d')"
  shows "(\<exists>err. r = Inl err \<and> d' = d) \<or>
    (\<exists>usr d1. r = Inr usr \<and> insert_user e ''insert user'' u h False d = Inr (usr, d1) \<and>
       fst (consume_invite (now e) (u_id usr) c d1) = 1 \<and>
       d' = snd (consume_invite (now e) (u_id usr) c d1))"
  using assms unfolding Register_def
  by (cases "insert_user e ''insert user'' u h False d")
    (auto simp: consume_invite_def split: if_splits sql_error.splits)

lemma Register_ok [table_ok]:
  assumes "schema_ok d"
  shows "schema_ok (snd (Register e u h c d))"
proof -
  obtain r d' where R: "Register e u h c d = (r, d')" by fastforce
  from Register_cases [OF R] consider "d' = d"
    | usr d1 where "insert_user e ''insert user'' u h False d = Inr (usr, d1)"
        "d' = snd (consume_invite (now e) (u_id usr) c d1)" by blast
  then have "schema_ok d'"
  proof cases
    case 2
    from insert_user_ok [OF 2(1) assms] have "schema_ok d1" .
    moreover from 2(1) have "has_user d1 (u_id usr)" by (auto simp: has_user_def insert_user_Inr)
    ultimately show ?thesis using 2 by (simp add: consume_invite_ok)
  qed (use assms in simp)
  with R show ?thesis by simp
qed

lemma CreateAdmin_ok [table_ok]: "schema_ok d \<Longrightarrow> schema_ok (snd (CreateAdmin e u h d))"
  by (auto simp: CreateAdmin_def split: sum.splits sql_error.splits prod.splits
      dest: insert_user_ok)

lemma EnsureAdmin_ok [table_ok]: "schema_ok d \<Longrightarrow> schema_ok (snd (EnsureAdmin e u pw h d))"
  using CreateAdmin_ok [of d e u "the h"]
  by (auto simp: EnsureAdmin_def split: sum.splits option.splits prod.splits store_error.splits)

lemma create_invite_loop_ok [table_ok]:
  "schema_ok d \<Longrightarrow> schema_ok (snd (create_invite_loop m e gen k uid ex d))"
  by (induction m e gen k uid ex d rule: create_invite_loop.induct)
    (auto split: option.splits sum.splits sql_error.splits dest: insert_invite_ok)

lemma CreateInvite_ok [table_ok]: "schema_ok d \<Longrightarrow> schema_ok (snd (CreateInvite e gen by ttl d))"
  by (simp add: CreateInvite_def create_invite_loop_ok)

lemma tokens_update_ok:
  assumes "schema_ok d" and "\<And>r. t_id (f r) = t_id r" "\<And>r. t_hash (f r) = t_hash r"
    "\<And>r. t_user (f r) = t_user r"
  shows "schema_ok (d\<lparr>refresh_tokens := map f (refresh_tokens d)\<rparr>)"
  using assms by (auto simp: schema_defs comp_def)

lemma IssueToken_ok [table_ok]: "schema_ok d \<Longrightarrow> schema_ok (snd (IssueToken e sha p uid d))"
  by (auto simp: IssueToken_def split: option.splits sum.splits dest: insert_token_ok)

lemma ValidateToken_ok [table_ok]: "schema_ok d \<Longrightarrow> schema_ok (snd (ValidateToken e sha p d))"
  by (auto simp: ValidateToken_def split: option.splits intro!: tokens_update_ok)

lemma RevokeToken_ok [table_ok]: "schema_ok d \<Longrightarrow> schema_ok (snd (RevokeToken e sha p d))"
  by (auto simp: RevokeToken_def intro!: tokens_update_ok)

subsection \<open>Registration\<close>

lemma redeemable_unique:
  assumes "schema_ok d" and "v \<in> set (invites d)" and "redeemable t c v"
  shows "filter (redeemable t c) (invites d) = [v]"
proof -
  from assms(1) have dist: "distinct (map i_code (invites d))"
    by (simp add: schema_ok_def uniq_ok_def)
  have one: "w = v" if "w \<in> set (invites d)" "redeemable t c w" for w
  proof -
    from that(2) assms(3) have "i_code w = i_code v" by (simp add: redeemable_def)
    then show ?thesis by (rule distinct_map_eqD [OF dist that(1) assms(2)])
  qed
  from dist have "distinct (invites d)" by (rule distinct_map [THEN iffD1, THEN conjunct1])
  then have "distinct (filter (redeemable t c) (invites d))" by simp
  moreover have "set (filter (redeemable t c) (invites d)) = {v}"
    using assms(2,3) by (auto intro: one)
  ultimately show ?thesis by (rule distinct_singleton)
qed

lemma redeemable_count:
  assumes "schema_ok d"
  shows "length (filter (redeemable t c) (invites d)) = Suc 0 \<longleftrightarrow>
    (\<exists>v \<in> set (invites d). redeemable t c v)"
proof
  assume "length (filter (redeemable t c) (invites d)) = Suc 0"
  then have "filter (redeemable t c) (invites d) \<noteq> []" by force
  then show "\<exists>v \<in> set (invites d). redeemable t c v" by (auto simp: filter_empty_conv)
qed (use redeemable_unique [OF assms] in force)

text \<open>
  Registration, branch by branch, when no statement fails: a taken user name (up to ASCII
  case) is \<^verbatim>\<open>ErrUserExists\<close>; otherwise a code that is unknown, used or expired is
  \<^verbatim>\<open>ErrInviteInvalid\<close>, in both cases with the database unchanged; otherwise one non-admin user is
  added and the invite is marked as used by that user at that time.
\<close>

lemma Register_branches:
  assumes "schema_ok d" and "quiet e"
  shows "Register e u h c d =
    (let usr = \<lparr>u_id = user_seq d + 1, u_username = u, u_password_hash = h, u_is_admin = False,
                u_created_at = now e\<rparr>
     in if \<exists>w \<in> set (users d). nocase (u_username w) = nocase u then (Inl ErrUserExists, d)
        else if \<not> (\<exists>v \<in> set (invites d). redeemable (now e) c v) then (Inl ErrInviteInvalid, d)
        else (Inr usr, d\<lparr>users := users d @ [usr], user_seq := user_seq d + 1,
                invites := map (\<lambda>v. if redeemable (now e) c v
                  then v\<lparr>i_used_by := Some (user_seq d + 1), i_used_at := Some (now e)\<rparr> else v)
                  (invites d)\<rparr>))"
proof (cases "\<exists>w \<in> set (users d). nocase (u_username w) = nocase u")
  case True
  then have "nocase u \<in> (nocase \<circ> u_username) ` set (users d)" by force
  with True assms(2) show ?thesis
    by (simp add: Register_def insert_user_def checked_insert_def quiet_def)
next
  case False
  then have "nocase u \<notin> (nocase \<circ> u_username) ` set (users d)" by force
  with False assms(2) show ?thesis
    by (simp add: Register_def insert_user_def checked_insert_def quiet_def consume_invite_def
        redeemable_count [OF assms(1)] Let_def)
qed

text \<open>A small database for the witnesses: an admin, two users' nodes, a shared zone.\<close>

definition calm :: "int \<Rightarrow> env" where
  "calm t = \<lparr>db_fault = (\<lambda>_ _. False), db_pick = hd, now = t\<rparr>"

lemma quiet_calm [simp]: "quiet (calm t)" and now_calm [simp]: "now (calm t) = t"
  and fault_calm [simp]: "\<not> db_fault (calm t) l i"
  by (simp_all add: quiet_def calm_def)

definition demo_db :: db where
  "demo_db = empty_db\<lparr>
     users := [\<lparr>u_id = 1, u_username = ''admin'', u_password_hash = ''h1'', u_is_admin = True,
                u_created_at = 10\<rparr>,
               \<lparr>u_id = 2, u_username = ''bob'', u_password_hash = ''h2'', u_is_admin = False,
                u_created_at = 11\<rparr>],
     user_seq := 2,
     invites := [\<lparr>i_id = 1, i_code = ''old'', i_created_by = Some 1, i_used_by = Some 2,
                  i_used_at = Some 11, i_created_at = 10, i_expires_at = None\<rparr>,
                 \<lparr>i_id = 2, i_code = ''fresh'', i_created_by = Some 1, i_used_by = None,
                  i_used_at = None, i_created_at = 12, i_expires_at = Some 100\<rparr>],
     invite_seq := 2,
     nodes := [\<lparr>n_id = 1, n_user_id = 1, n_name = ''router'', n_wg_pubkey = ''ka'',
                n_ip = 0x647F0002, n_created_at = 20, n_platform = ''openwrt''\<rparr>,
               \<lparr>n_id = 2, n_user_id = 2, n_name = ''pc'', n_wg_pubkey = ''kb'',
                n_ip = 0x647F0003, n_created_at = 21, n_platform = ''unknown''\<rparr>],
     node_seq := 2,
     zones := [\<lparr>z_id = 1, z_name = ''home'', z_password_hash = ''zh'', z_owner = 2,
                z_created_at = 30\<rparr>],
     zone_seq := 1,
     zone_members := [\<lparr>zm_zone = 1, zm_node = 1, zm_joined_at = 31\<rparr>,
                      \<lparr>zm_zone = 1, zm_node = 2, zm_joined_at = 32\<rparr>],
     announcements := [\<lparr>a_id = 1, a_node = 1, a_real_base = 0xC0A80100, a_prefix_len = 24,
                        a_synthetic_base = 0x64600000, a_created_at = 40\<rparr>],
     ann_seq := 1,
     announcement_zones := [\<lparr>az_ann = 1, az_zone = 1\<rparr>]\<rparr>"

lemma demo_names:
  "nocase ''admin'' = ''admin''" "nocase ''bob'' = ''bob''" "nocase ''Bob'' = ''bob''"
  "nocase ''eve'' = ''eve''"
  by code_simp+

lemma demo_db_ok [simp]: "schema_ok demo_db"
  by (simp add: demo_db_def empty_db_def schema_defs demo_names)

lemma Register_branches_example:
  "Register (calm 50) ''Bob'' ''h'' ''fresh'' demo_db = (Inl ErrUserExists, demo_db) \<and>
   Register (calm 50) ''eve'' ''h'' ''old'' demo_db = (Inl ErrInviteInvalid, demo_db) \<and>
   Register (calm 100) ''eve'' ''h'' ''fresh'' demo_db = (Inl ErrInviteInvalid, demo_db) \<and>
   fst (Register (calm 99) ''eve'' ''h'' ''fresh'' demo_db) \<noteq> Inl ErrInviteInvalid"
  unfolding Register_branches [OF demo_db_ok quiet_calm] demo_names
  by (simp add: demo_db_def empty_db_def demo_names redeemable_def Let_def)

lemma insert_user_invites: "insert_user e l u h b d = Inr (usr, d1) \<Longrightarrow> invites d1 = invites d"
  by (auto simp: insert_user_Inr)

definition spent :: "string \<Rightarrow> db \<Rightarrow> bool" where
  "spent c d = (\<forall>v \<in> set (invites d). i_code v = c \<longrightarrow> i_used_at v \<noteq> None)"

lemma consume_spends:
  assumes "distinct (map i_code (invites d))" and "fst (consume_invite t uid c d) = 1"
  shows "spent c (snd (consume_invite t uid c d))"
  unfolding spent_def
proof (intro ballI impI)
  fix v assume v: "v \<in> set (invites (snd (consume_invite t uid c d)))" "i_code v = c"
  from assms(2) have "filter (redeemable t c) (invites d) \<noteq> []"
    by (auto simp: consume_invite_def)
  then obtain v0 where v0: "v0 \<in> set (invites d)" "redeemable t c v0"
    by (auto simp: filter_empty_conv)
  from v(1) obtain w where w: "w \<in> set (invites d)"
    "v = (if redeemable t c w then w\<lparr>i_used_by := Some uid, i_used_at := Some t\<rparr> else w)"
    by (auto simp: consume_invite_def)
  have "i_code w = i_code v0"
    using v(2) v0(2) w(2) by (simp add: redeemable_def split: if_splits)
  with assms(1) w(1) v0(1) have "w = v0" by (intro distinct_map_eqD [of i_code "invites d"])
  with v0(2) w(2) show "i_used_at v \<noteq> None" by simp
qed

lemma spent_Register_fails:
  assumes "spent c d"
  shows "\<exists>err. Register e u h c d = (Inl err, d)"
proof -
  obtain r d' where R: "Register e u h c d = (r, d')" by fastforce
  have none: "filter (redeemable t c) (invites d) = []" for t
    using assms by (auto simp: spent_def redeemable_def filter_empty_conv)
  from Register_cases [OF R] show ?thesis
    using R none by (auto simp: consume_invite_def insert_user_invites)
qed



subsection \<open>Refresh tokens\<close>

definition live_token :: "int \<Rightarrow> token_row \<Rightarrow> bool" where
  "live_token t r = (t_revoked_at r = None \<and> t < t_expires_at r)"

lemma token_find:
  assumes "schema_ok d" and "r \<in> set (refresh_tokens d)"
  shows "find (\<lambda>t. t_hash t = t_hash r) (refresh_tokens d) = Some r"
  using assms by (intro find_keyed) (simp_all add: schema_ok_def uniq_ok_def)

text \<open>
  When no statement fails, a refresh token is accepted exactly if its digest is stored, not
  revoked and not expired, and then for the user it was issued to; every other token gets the one
  error \<^verbatim>\<open>ErrRefreshInvalid\<close> and changes nothing.
\<close>

lemma ValidateToken_accepts:
  assumes "schema_ok d" and "quiet e"
  shows "(case fst (ValidateToken e sha p d) of
      Inr uid \<Rightarrow> \<exists>r \<in> set (refresh_tokens d). t_hash r = sha p \<and> live_token (now e) r \<and> t_user r = uid
    | Inl err \<Rightarrow> err = ErrRefreshInvalid \<and> snd (ValidateToken e sha p d) = d \<and>
        \<not> (\<exists>r \<in> set (refresh_tokens d). t_hash r = sha p \<and> live_token (now e) r))"
proof (cases "\<exists>r \<in> set (refresh_tokens d). t_hash r = sha p")
  case False
  then have "find (\<lambda>t. t_hash t = sha p) (refresh_tokens d) = None" by (simp add: find_None_all)
  with False assms(2) show ?thesis by (auto simp: ValidateToken_def quiet_def)
next
  case True
  then obtain r where r: "r \<in> set (refresh_tokens d)" "t_hash r = sha p" by blast
  from token_find [OF assms(1) r(1)] r(2)
  have f: "find (\<lambda>t. t_hash t = sha p) (refresh_tokens d) = Some r" by simp
  have one: "r' = r" if "r' \<in> set (refresh_tokens d)" "t_hash r' = sha p" for r'
    using token_find [OF assms(1) that(1)] that(2) f by simp
  show ?thesis
  proof (cases "live_token (now e) r")
    case True
    with r f assms(2) show ?thesis
      by (auto simp: ValidateToken_def quiet_def live_token_def)
  next
    case False
    with one f assms(2) have "ValidateToken e sha p d = (Inl ErrRefreshInvalid, d)"
      by (auto simp: ValidateToken_def quiet_def live_token_def)
    with False one show ?thesis by (auto dest: one)
  qed
qed

lemma ValidateToken_accepts_example:
  "\<not> (\<exists>uid. fst (ValidateToken (calm 5) (\<lambda>p. p) ''tok'' demo_db) = Inr uid)"
  using ValidateToken_accepts [OF demo_db_ok quiet_calm, of 5 "\<lambda>p. p" "''tok''"]
  by (auto simp: demo_db_def empty_db_def split: sum.splits)

text \<open>
  The sliding window. A token that validates at time \<open>t\<close> validates again at every later time
  before \<open>t + 30 days\<close>, and never afterwards if it is not used in between.
\<close>

lemma ValidateToken_slides:
  assumes "schema_ok d" and "quiet e1" and "quiet e2" and "now e1 \<le> now e2"
    and "ValidateToken e1 sha p d = (Inr uid, d1)"
  shows "(fst (ValidateToken e2 sha p d1) = Inr uid) = (now e2 < now e1 + refreshTTL)"
proof -
  let ?f = "\<lambda>r. if t_hash r = sha p \<and> t_revoked_at r = None
    then r\<lparr>t_expires_at := now e1 + refreshTTL\<rparr> else r"
  from assms(5) obtain r where r: "find (\<lambda>t. t_hash t = sha p) (refresh_tokens d) = Some r"
    "t_revoked_at r = None" "t_user r = uid"
    and d1: "d1 = d\<lparr>refresh_tokens := map ?f (refresh_tokens d)\<rparr>"
    by (auto simp: ValidateToken_def split: if_splits option.splits)
  from find_Some_mem [OF r(1)] have mem: "r \<in> set (refresh_tokens d)" "t_hash r = sha p"
    by auto
  have ok: "schema_ok d1" using ValidateToken_ok [OF assms(1), of e1 sha p] assms(5) by simp
  let ?r = "r\<lparr>t_expires_at := now e1 + refreshTTL\<rparr>"
  have "?r \<in> set (refresh_tokens d1)" using mem r(2) by (force simp: d1)
  from token_find [OF ok this] mem(2)
  have "find (\<lambda>t. t_hash t = sha p) (refresh_tokens d1) = Some ?r" by simp
  with r(2,3) assms(3) show ?thesis by (simp add: ValidateToken_def quiet_def)
qed

text \<open>
  Logout is final. Once \<^verbatim>\<open>Revoke\<close> has returned without an error, no call of \<^verbatim>\<open>Validate\<close> accepts the
  token, at any time.
\<close>

lemma RevokeToken_final:
  assumes "RevokeToken e1 sha p d = (None, d1)"
  shows "\<exists>err. ValidateToken e2 sha p d1 = (Inl err, d1)"
proof -
  have "t_revoked_at r \<noteq> None" if "r \<in> set (refresh_tokens d1)" "t_hash r = sha p" for r
    using assms that by (auto simp: RevokeToken_def split: if_splits)
  then have "t_revoked_at r \<noteq> None" if "find (\<lambda>t. t_hash t = sha p) (refresh_tokens d1) = Some r" for r
    using find_Some_mem [OF that] by blast
  then show ?thesis
    by (cases "find (\<lambda>t. t_hash t = sha p) (refresh_tokens d1)") (simp_all add: ValidateToken_def)
qed

subsection \<open>Deleting a user\<close>

lemma collect_orphans_ids:
  "fst (collect_orphans rows seen (ids, rns)) = ids @ map (a_id \<circ> fst) rows"
  by (induction rows seen "(ids, rns)" arbitrary: ids rns rule: collect_orphans.induct) auto

lemma collect_orphans_nodes:
  "\<lbrakk>\<forall>(a, n) \<in> set rows. n_id n = a_node a\<rbrakk> \<Longrightarrow>
   rn_id ` set (snd (collect_orphans rows seen (ids, rns))) =
     rn_id ` set rns \<union> ((a_node \<circ> fst) ` set rows - seen)"
  by (induction rows seen "(ids, rns)" arbitrary: ids rns rule: collect_orphans.induct) auto

lemma set_orphan_rows:
  "set (orphan_rows d) =
     {(a, n). a \<in> set (announcements d) \<and> n \<in> set (nodes d) \<and> n_id n = a_node a \<and> orphan d a}"
  unfolding orphan_rows_def by (auto split: if_splits)

lemma orphan_rows_ids:
  assumes "fk_ok d"
  shows "(a_id \<circ> fst) ` set (orphan_rows d) = a_id ` {a \<in> set (announcements d). orphan d a}"
proof -
  have "\<exists>n \<in> set (nodes d). n_id n = a_node a" if "a \<in> set (announcements d)" for a
    using assms that by (force simp: fk_ok_def has_node_def)
  then have "\<exists>n. (a, n) \<in> set (orphan_rows d)" if "a \<in> set (announcements d)" "orphan d a" for a
    using that by (auto simp: set_orphan_rows)
  then show ?thesis unfolding set_orphan_rows by (auto simp: image_iff) blast
qed

lemma delete_announcements_compose:
  "delete_announcements P (delete_announcements Q d) = delete_announcements (\<lambda>a. Q a \<or> P a) d"
  by (rule db.equality) (auto simp: frame_simps intro!: filter_cong)

lemma delete_announcements_none: "delete_announcements (\<lambda>_. False) d = d"
  by (rule db.equality) (auto simp: frame_simps)

lemma reclaim_all_Inr:
  "reclaim_all e ids d = Inr d' \<Longrightarrow> d' = delete_announcements (\<lambda>a. a_id a \<in> set ids) d"
proof (induction e ids d rule: reclaim_all.induct)
  case (1 e d)
  then show ?case by (simp add: delete_announcements_none)
next
  case (2 e i "is" d)
  then show ?case by (auto simp: delete_announcements_compose split: if_splits)
qed

definition orphan_ids :: "db \<Rightarrow> int set" where
  "orphan_ids d = a_id ` {a \<in> set (announcements d). orphan d a}"

lemma no_orphans_reclaimed:
  "no_orphans (delete_announcements (\<lambda>a. a_id a \<in> orphan_ids d) d)" (is "no_orphans ?d")
  unfolding no_orphans_def
proof
  fix a assume "a \<in> set (announcements ?d)"
  then have a: "a \<in> set (announcements d)" "a_id a \<notin> orphan_ids d"
    by (simp_all add: frame_simps)
  then have "\<not> orphan d a" by (auto simp: orphan_ids_def)
  then obtain x where x: "x \<in> set (announcement_zones d)" "az_ann x = a_id a"
    by (auto simp: orphan_def)
  with a(2) have "x \<in> set (announcement_zones ?d)" by (auto simp: frame_simps)
  with x(2) show "\<not> orphan ?d a" by (force simp: orphan_def)
qed

text \<open>What a successful call did: the cascade, then the orphans it left.\<close>

lemma DeleteCascade_success:
  assumes "DeleteCascade e i d = (Inr r, d')" and "schema_ok d"
  shows "has_user d i \<and>
    d' = delete_announcements
      (\<lambda>a. a_id a \<in> orphan_ids (delete_user i d)) (delete_user i d) \<and>
    ((\<exists>u \<in> set (users d). u_id u = i \<and> u_is_admin u) \<longrightarrow> 1 < length (filter u_is_admin (users d)))"
proof -
  let ?d1 = "delete_user i d"
  from assms(1) obtain u where u: "find (\<lambda>u. u_id u = i) (users d) = Some u"
    and adm: "last_admin_check e u d = None"
    and rec: "reclaim_all e (fst (collect_orphans (orphan_rows ?d1) {} ([], []))) ?d1 = Inr d'"
    by (auto simp: DeleteCascade_def Let_def split: if_splits option.splits sum.splits prod.splits)
  from find_Some_mem [OF u] have mem: "u \<in> set (users d)" "u_id u = i" by auto
  have fk: "fk_ok ?d1" using delete_user_ok [OF assms(2)] by (simp add: schema_ok_def)
  have ids: "set (fst (collect_orphans (orphan_rows ?d1) {} ([], []))) =
      orphan_ids ?d1"
    unfolding collect_orphans_ids orphan_ids_def using orphan_rows_ids [OF fk] by simp
  have "v = u" if "v \<in> set (users d)" "u_id v = i" for v
    using assms(2) that mem by (intro distinct_map_eqD [of u_id "users d"])
      (auto simp: schema_ok_def uniq_ok_def)
  with adm have "(\<exists>v \<in> set (users d). u_id v = i \<and> u_is_admin v) \<longrightarrow>
      1 < length (filter u_is_admin (users d))"
    by (auto simp: last_admin_check_def split: if_splits)
  with mem reclaim_all_Inr [OF rec] show ?thesis
    unfolding ids by (auto simp: has_user_def)
qed



text \<open>
  C37: the server always keeps an administrator: no call of \<^verbatim>\<open>DeleteCascade\<close>, failing or not, takes
  the last one away.
\<close>

theorem DeleteCascade_keeps_an_admin:
  assumes "schema_ok d" and "\<exists>u \<in> set (users d). u_is_admin u"
  shows "\<exists>u \<in> set (users (snd (DeleteCascade e i d))). u_is_admin u"
proof (cases "fst (DeleteCascade e i d)")
  case (Inl err)
  then have "snd (DeleteCascade e i d) = d"
    by (auto simp: DeleteCascade_def Let_def split: if_splits option.splits sum.splits prod.splits)
  with assms(2) show ?thesis by simp
next
  case (Inr r)
  then obtain d' where D: "DeleteCascade e i d = (Inr r, d')" by (metis prod.collapse)
  from DeleteCascade_success [OF D assms(1)] have us: "users d' = filter (\<lambda>u. u_id u \<noteq> i) (users d)"
    by (simp add: delete_announcements_sel delete_user_sel)
  show ?thesis
  proof (cases "\<exists>u \<in> set (users d). u_id u = i \<and> u_is_admin u")
    case False
    with us assms(2) D show ?thesis by auto
  next
    case True
    with DeleteCascade_success [OF D assms(1)] have two: "1 < length (filter u_is_admin (users d))"
      by blast
    have "distinct (map u_id (filter u_is_admin (users d)))"
      using assms(1) by (simp add: schema_ok_def uniq_ok_def)
    then have "card (u_id ` set (filter u_is_admin (users d))) = length (filter u_is_admin (users d))"
      using distinct_card by fastforce
    with two have "\<not> u_id ` set (filter u_is_admin (users d)) \<subseteq> {i}"
      by (metis card.empty card_insert_disjoint card_mono empty_iff finite.emptyI finite.insertI
          leD One_nat_def)
    with us D show ?thesis by auto
  qed
qed

theorem DeleteCascade_keeps_an_admin_witness:
  "\<exists>u \<in> set (users (snd (DeleteCascade (calm 70) 1 demo_db))). u_is_admin u"
  by (rule DeleteCascade_keeps_an_admin [OF demo_db_ok]) (simp add: demo_db_def empty_db_def)

end
