(* ===== verification/Store_Nodes.thy ===== *)
theory Store_Nodes
  imports Store_Accounts
begin

text \<open>
  \<^verbatim>\<open>internal/server/store/nodes.go\<close>: address allocation and the node repository. \<^verbatim>\<open>NodeRepo.Create\<close> runs
  its query and its insert as two statements, so another request may change the database in
  between; \<^verbatim>\<open>interf k\<close> is what happens there in the \<open>k\<close>-th attempt. An error the code drops
  (\<^verbatim>\<open>n, _ := res.RowsAffected()\<close>) is taken not to occur.
\<close>

section \<open>Definitions\<close>

definition maxAllocRetries :: nat where "maxAllocRetries = 100"

text \<open>The candidates of the query of \<^verbatim>\<open>lowestFree\<close>, in 64-bit arithmetic, and its result.\<close>

definition free_candidates :: "addr \<Rightarrow> addr \<Rightarrow> db \<Rightarrow> int list" where
  "free_candidates lo hi d =
     filter (\<lambda>c. c \<notin> (uint \<circ> n_ip) ` set (nodes d) \<and> c \<le> uint hi)
       (uint lo #
        map (\<lambda>n. uint (n_ip n) + 1) (filter (\<lambda>n. lo \<le> n_ip n \<and> n_ip n < hi) (nodes d)))"

definition lowestFree :: "env \<Rightarrow> addr \<Rightarrow> addr \<Rightarrow> db \<Rightarrow> (store_error, addr option) result" where
  "lowestFree e lo hi d =
     (if db_fault e ''find free address'' 0 then Inl (ErrWrapped ''find free address'')
      else case sort (free_candidates lo hi d) of
        [] \<Rightarrow> Inr None
      | c # _ \<Rightarrow> Inr (Some (word_of_int c)))"

text \<open>
  The result of \<^verbatim>\<open>insertNode\<close>: the number of rows inserted and the row. With a cap, the count of the
  \<^verbatim>\<open>WHERE\<close> clause decides before any constraint is checked.
\<close>

definition insertNode ::
  "env \<Rightarrow> int \<Rightarrow> string \<Rightarrow> string \<Rightarrow> string \<Rightarrow> addr \<Rightarrow> int \<Rightarrow> db
     \<Rightarrow> (sql_error, node_row option \<times> db) result" where
  "insertNode e uid name pubkey platform ip maxDevices d =
     (if 0 < maxDevices \<and> \<not> int (length (filter (\<lambda>n. n_user_id n = uid) (nodes d))) < maxDevices
      then (if db_fault e ''insert node'' 0 then Inl SqlFault else Inr (None, d))
      else bind_res (insert_node_row e uid name pubkey platform ip d) (\<lambda>(n, d'). Inr (Some n, d')))"

fun create_node_loop ::
  "nat \<Rightarrow> env \<Rightarrow> (nat \<Rightarrow> db \<Rightarrow> db) \<Rightarrow> nat \<Rightarrow> int \<Rightarrow> string \<Rightarrow> string \<Rightarrow> string \<Rightarrow> addr \<Rightarrow> addr \<Rightarrow> int \<Rightarrow> db
     \<Rightarrow> (store_error, node_row) result \<times> db" where
  "create_node_loop 0 e interf k uid name pubkey platform lo hi maxDevices d =
     (Inl (ErrWrapped ''allocate address: exhausted retries under contention''), d)"
| "create_node_loop (Suc m) e interf k uid name pubkey platform lo hi maxDevices d =
     (case lowestFree e lo hi d of
        Inl err \<Rightarrow> (Inl err, d)
      | Inr None \<Rightarrow> (Inl ErrPoolExhausted, d)
      | Inr (Some ip) \<Rightarrow>
          (let d1 = interf k d
           in case insertNode e uid name pubkey platform ip maxDevices d1 of
                Inl (UniqueFailed U_ip) \<Rightarrow>
                  create_node_loop m e interf (Suc k) uid name pubkey platform lo hi maxDevices d1
              | Inl (UniqueFailed U_wg_pubkey) \<Rightarrow> (Inl ErrPubKeyTaken, d1)
              | Inl (UniqueFailed U_user_name) \<Rightarrow> (Inl ErrNodeNameTaken, d1)
              | Inl _ \<Rightarrow> (Inl (ErrWrapped ''insert node''), d1)
              | Inr (None, d2) \<Rightarrow> (Inl ErrDeviceLimitReached, d2)
              | Inr (Some n, d2) \<Rightarrow> (Inr n, d2)))"

definition CreateNode ::
  "env \<Rightarrow> (nat \<Rightarrow> db \<Rightarrow> db) \<Rightarrow> int \<Rightarrow> string \<Rightarrow> string \<Rightarrow> string \<Rightarrow> addr \<Rightarrow> addr \<Rightarrow> int \<Rightarrow> db
     \<Rightarrow> (store_error, node_row) result \<times> db" where
  "CreateNode e interf uid name pubkey platform lo hi maxDevices d =
     create_node_loop maxAllocRetries e interf 0 uid name pubkey platform lo hi maxDevices d"

definition GetNodeByID :: "env \<Rightarrow> int \<Rightarrow> db \<Rightarrow> (store_error, node_row) result" where
  "GetNodeByID e i d =
     (if db_fault e ''get node by id'' i then Inl (ErrWrapped ''get node by id'')
      else case find (\<lambda>n. n_id n = i) (nodes d) of
        None \<Rightarrow> Inl ErrNodeNotFound
      | Some n \<Rightarrow> Inr n)"

definition GetOwned :: "env \<Rightarrow> int \<Rightarrow> int \<Rightarrow> db \<Rightarrow> (store_error, node_row) result" where
  "GetOwned e uid i d =
     (if db_fault e ''get owned node'' i then Inl (ErrWrapped ''get owned node'')
      else case find (\<lambda>n. n_id n = i \<and> n_user_id n = uid) (nodes d) of
        None \<Rightarrow> Inl ErrNodeNotFound
      | Some n \<Rightarrow> Inr n)"

definition ListByUser :: "env \<Rightarrow> int \<Rightarrow> db \<Rightarrow> (store_error, node_row list) result" where
  "ListByUser e uid d =
     (if db_fault e ''list nodes'' uid then Inl (ErrWrapped ''list nodes'')
      else Inr (rev (sort_key n_id (filter (\<lambda>n. n_user_id n = uid) (nodes d)))))"

definition AllForPeers :: "env \<Rightarrow> db \<Rightarrow> (store_error, node_row list) result" where
  "AllForPeers e d =
     (if db_fault e ''list all nodes'' 0 then Inl (ErrWrapped ''list all nodes'')
      else Inr (sort_key n_id (nodes d)))"

definition DeleteOwned :: "env \<Rightarrow> int \<Rightarrow> int \<Rightarrow> db \<Rightarrow> (store_error, string) result \<times> db" where
  "DeleteOwned e uid i d =
     (if db_fault e ''look up node'' i then (Inl (ErrWrapped ''look up node''), d)
      else case find (\<lambda>n. n_id n = i \<and> n_user_id n = uid) (nodes d) of
        None \<Rightarrow> (Inl ErrNodeNotFound, d)
      | Some n \<Rightarrow>
          if db_fault e ''delete node'' i then (Inl (ErrWrapped ''delete node''), d)
          else (Inr (n_wg_pubkey n), delete_nodes (\<lambda>n. n_id n = i \<and> n_user_id n = uid) d))"

section \<open>Lemmas\<close>

subsection \<open>The lowest free address\<close>

abbreviation used_ips :: "db \<Rightarrow> addr set" where
  "used_ips d \<equiv> n_ip ` set (nodes d)"

lemma uint_mem_image: "uint a \<in> uint ` S \<longleftrightarrow> a \<in> S" for a :: addr
  by (rule inj_image_mem_iff) (simp add: inj_def word_uint_eq_iff)

text \<open>The specification: the least unused address of the range, searched upwards.\<close>

definition least_free :: "addr \<Rightarrow> addr \<Rightarrow> addr set \<Rightarrow> addr \<Rightarrow> bool" where
  "least_free lo hi used a =
     (lo \<le> a \<and> a \<le> hi \<and> a \<notin> used \<and> (\<forall>b. lo \<le> b \<and> b < a \<longrightarrow> b \<in> used))"

lemma candidate_iff:
  "c \<in> set (free_candidates lo hi d) \<longleftrightarrow>
     c \<notin> uint ` used_ips d \<and> c \<le> uint hi \<and>
     (c = uint lo \<or> (\<exists>n \<in> set (nodes d). lo \<le> n_ip n \<and> n_ip n < hi \<and> c = uint (n_ip n) + 1))"
  by (simp only: free_candidates_def set_filter list.set(2) set_map image_comp) blast

lemma candidate_range:
  "c \<in> set (free_candidates lo hi d) \<Longrightarrow> uint lo \<le> c \<and> c \<le> uint hi \<and>
     c \<notin> uint ` used_ips d"
  by (auto simp: candidate_iff word_le_def)

lemma free_ge_candidate:
  assumes "lo \<le> a" and "a \<le> hi" and "a \<notin> used_ips d"
  shows "\<exists>c \<in> set (free_candidates lo hi d). c \<le> uint a"
proof (cases "lo \<in> used_ips d")
  case False
  with assms show ?thesis
    by (intro bexI [of _ "uint lo"]) (simp_all add: candidate_iff uint_mem_image word_le_def)
next
  case True
  define U where "U = {u \<in> used_ips d. lo \<le> u \<and> u < a}"
  have fin: "finite U" by (simp add: U_def)
  have "lo \<in> U" using True assms(1,3) by (auto simp: U_def order_le_less)
  then have "U \<noteq> {}" by blast
  define m where "m = Max U"
  have m: "m \<in> U" using fin \<open>U \<noteq> {}\<close> by (simp add: m_def)
  then obtain n where n: "n \<in> set (nodes d)" "n_ip n = m" "lo \<le> m" "m < a"
    by (auto simp: U_def)
  have le: "uint m + 1 \<le> uint a" using n(4) by (simp add: word_less_def)
  show ?thesis
  proof (rule bexI)
    show "uint m + 1 \<le> uint a" by (rule le)
    have "uint m + 1 \<notin> uint ` used_ips d"
    proof
      assume "uint m + 1 \<in> uint ` used_ips d"
      then obtain u where u: "u \<in> used_ips d" "uint u = uint m + 1" by fastforce
      from u(2) le have "u \<le> a" by (simp add: word_le_def)
      moreover from u(1) assms(3) have "u \<noteq> a" by blast
      ultimately have "u < a" by simp
      moreover from u(2) have "m < u" by (simp add: word_less_def)
      ultimately have "u \<in> U" using u(1) n(3) by (simp add: U_def)
      with fin have "u \<le> m" by (simp add: m_def)
      with \<open>m < u\<close> show False by simp
    qed
    moreover have "m < hi" using n(4) assms(2) by simp
    moreover have "uint m + 1 \<le> uint hi" using le assms(2) by (simp add: word_le_def)
    ultimately show "uint m + 1 \<in> set (free_candidates lo hi d)"
      using n by (auto simp: candidate_iff)
  qed
qed

lemma lowestFree_Some:
  assumes "lowestFree e lo hi d = Inr (Some a)"
  shows "least_free lo hi (used_ips d) a"
proof -
  let ?cs = "free_candidates lo hi d"
  from assms obtain c cs where cs: "sort ?cs = c # cs" and a: "a = word_of_int c"
    by (auto simp: lowestFree_def split: if_splits list.splits)
  have mem: "c \<in> set ?cs" using cs by (metis list.set_intros(1) set_sort)
  from candidate_range [OF mem] have c: "uint lo \<le> c" "c \<le> uint hi" "c \<notin> uint ` used_ips d"
    by auto
  have "0 \<le> c" "c < 2 ^ 32"
    using c order_trans [OF unsigned_greater_eq [of lo, where ?'a = int]] uint_lt2p [of hi]
    by simp_all
  then have ua: "uint a = c" by (simp add: a uint_word_of_int_eq take_bit_int_eq_self)
  have "sorted (c # cs)" unfolding cs [symmetric] by (rule sorted_sort)
  moreover have "set ?cs = set (c # cs)" unfolding cs [symmetric] by (rule set_sort [symmetric])
  ultimately have low: "c \<le> x" if "x \<in> set ?cs" for x
    using that by auto
  have "b \<in> used_ips d" if "lo \<le> b" "b < a" for b
  proof (rule ccontr)
    assume "b \<notin> used_ips d"
    moreover have "b \<le> hi" using that(2) ua c(2) by (simp add: word_le_def word_less_def)
    ultimately obtain x where "x \<in> set ?cs" "x \<le> uint b"
      using free_ge_candidate [OF \<open>lo \<le> b\<close>] by blast
    with low [of x] ua that(2) show False by (simp add: word_less_def)
  qed
  moreover have "a \<notin> used_ips d" using c(3) ua by blast
  moreover have "lo \<le> a" "a \<le> hi" using c ua by (simp_all add: word_le_def)
  ultimately show ?thesis by (simp add: least_free_def)
qed

lemma lowestFree_None:
  assumes "lowestFree e lo hi d = Inr None"
  shows "\<forall>a. lo \<le> a \<and> a \<le> hi \<longrightarrow> a \<in> used_ips d"
proof -
  from assms have "sort (free_candidates lo hi d) = []"
    by (simp add: lowestFree_def split: if_splits list.splits)
  then have "set (sort (free_candidates lo hi d)) = {}" by simp
  then have "set (free_candidates lo hi d) = {}" by (simp only: set_sort)
  then show ?thesis using free_ge_candidate [of lo _ hi d] by fastforce
qed

lemma lowestFree_quiet:
  assumes "quiet e"
  shows "(\<exists>a. lowestFree e lo hi d = Inr (Some a) \<and> least_free lo hi (used_ips d) a) \<or>
    (lowestFree e lo hi d = Inr None \<and> \<not> (\<exists>a. lo \<le> a \<and> a \<le> hi \<and> a \<notin> used_ips d))"
proof (cases "sort (free_candidates lo hi d)")
  case Nil
  with assms have "lowestFree e lo hi d = Inr None" by (simp add: lowestFree_def quiet_def)
  with lowestFree_None [OF this] show ?thesis by blast
next
  case (Cons c cs)
  with assms have "lowestFree e lo hi d = Inr (Some (word_of_int c))"
    by (simp add: lowestFree_def quiet_def)
  with lowestFree_Some [OF this] show ?thesis by blast
qed

subsection \<open>Creating a node\<close>

lemma maxAllocRetries_Suc: "maxAllocRetries = Suc 99"
  by (simp add: maxAllocRetries_def)

lemma CreateNode_step:
  "CreateNode e interf uid name pk pf lo hi mx d =
     create_node_loop (Suc 99) e interf 0 uid name pk pf lo hi mx d"
  unfolding CreateNode_def maxAllocRetries_Suc ..

lemma CreateNode_none:
  "lowestFree e lo hi d = Inr None \<Longrightarrow>
     CreateNode e interf uid name pk pf lo hi mx d = (Inl ErrPoolExhausted, d)"
  unfolding CreateNode_step create_node_loop.simps by simp

lemma CreateNode_some:
  "lowestFree e lo hi d = Inr (Some ip) \<Longrightarrow>
     CreateNode e interf uid name pk pf lo hi mx d =
       (let d1 = interf 0 d
        in case insertNode e uid name pk pf ip mx d1 of
             Inl (UniqueFailed U_ip) \<Rightarrow> create_node_loop 99 e interf (Suc 0) uid name pk pf lo hi mx d1
           | Inl (UniqueFailed U_wg_pubkey) \<Rightarrow> (Inl ErrPubKeyTaken, d1)
           | Inl (UniqueFailed U_user_name) \<Rightarrow> (Inl ErrNodeNameTaken, d1)
           | Inl _ \<Rightarrow> (Inl (ErrWrapped ''insert node''), d1)
           | Inr (None, d2) \<Rightarrow> (Inl ErrDeviceLimitReached, d2)
           | Inr (Some n, d2) \<Rightarrow> (Inr n, d2))"
  unfolding CreateNode_step create_node_loop.simps by simp

definition owned_nodes :: "int \<Rightarrow> db \<Rightarrow> node_row list" where
  "owned_nodes uid d = filter (\<lambda>n. n_user_id n = uid) (nodes d)"

text \<open>What one attempt inserts: a row with the address found, under the cap.\<close>

definition node_added ::
  "env \<Rightarrow> int \<Rightarrow> string \<Rightarrow> string \<Rightarrow> string \<Rightarrow> addr \<Rightarrow> int \<Rightarrow> db \<Rightarrow> node_row \<Rightarrow> db \<Rightarrow> bool" where
  "node_added e uid name pubkey platform ip maxDevices d n d' =
     (n = \<lparr>n_id = node_seq d + 1, n_user_id = uid, n_name = name, n_wg_pubkey = pubkey, n_ip = ip,
           n_created_at = now e, n_platform = platform\<rparr> \<and>
      d' = d\<lparr>nodes := nodes d @ [n], node_seq := node_seq d + 1\<rparr> \<and>
      ip \<notin> used_ips d \<and> pubkey \<notin> n_wg_pubkey ` set (nodes d) \<and>
      (uid, name) \<notin> (\<lambda>n. (n_user_id n, n_name n)) ` set (nodes d) \<and> has_user d uid \<and>
      (0 < maxDevices \<longrightarrow> int (length (owned_nodes uid d)) < maxDevices))"

lemma insertNode_Some:
  "insertNode e uid name pk pf ip mx d = Inr (Some n, d') \<longleftrightarrow>
     \<not> db_fault e ''insert node'' 0 \<and> node_added e uid name pk pf ip mx d n d'"
proof -
  have "insert_node_row e uid name pk pf ip d = Inr (n, d') \<longleftrightarrow>
      \<not> db_fault e ''insert node'' 0 \<and> node_added e uid name pk pf ip 0 d n d'"
    by (auto simp: insert_node_row_def checked_insert_Inr node_added_def Let_def)
  then show ?thesis
    by (auto simp: insertNode_def bind_res_Inr_iff node_added_def owned_nodes_def)
qed

lemma insertNode_None:
  "insertNode e uid name pk pf ip mx d = Inr (None, d') \<Longrightarrow>
     d' = d \<and> 0 < mx \<and> mx \<le> int (length (owned_nodes uid d))"
  by (auto simp: insertNode_def bind_res_Inr_iff owned_nodes_def split: if_splits)

lemma create_node_loop_Inr:
  assumes "create_node_loop m e interf k uid name pk pf lo hi mx d = (Inr n, d')"
  shows "\<exists>dq di. least_free lo hi (used_ips dq) (n_ip n) \<and>
    node_added e uid name pk pf (n_ip n) mx di n d' \<and> (\<exists>j < m. di = interf (k + j) dq)"
  using assms
proof (induction m e interf k uid name pk pf lo hi mx d rule: create_node_loop.induct)
  case (2 m e interf k uid name pk pf lo hi mx d)
  from "2.prems" obtain ip where q: "lowestFree e lo hi d = Inr (Some ip)"
    by (auto split: sum.splits option.splits)
  consider (again) "insertNode e uid name pk pf ip mx (interf k d) = Inl (UniqueFailed U_ip)"
    | (inserted) "insertNode e uid name pk pf ip mx (interf k d) = Inr (Some n, d')"
    using "2.prems" q
    by (auto simp: Let_def split: sum.splits option.splits sql_error.splits constraint.splits)
  then show ?case
  proof cases
    case again
    with "2.prems" q have
      "create_node_loop m e interf (Suc k) uid name pk pf lo hi mx (interf k d) = (Inr n, d')"
      by (simp add: Let_def)
    from "2.IH" [OF q refl refl again refl refl this] obtain dq di j where
      IH: "least_free lo hi (used_ips dq) (n_ip n)" "node_added e uid name pk pf (n_ip n) mx di n d'"
      "j < m" "di = interf (Suc k + j) dq" by blast
    then have "Suc j < Suc m" "di = interf (k + Suc j) dq" by simp_all
    with IH(1,2) show ?thesis by blast
  next
    case inserted
    then have ad: "node_added e uid name pk pf ip mx (interf k d) n d'"
      by (simp add: insertNode_Some)
    then have "n_ip n = ip" by (simp add: node_added_def)
    moreover have "(0::nat) < Suc m \<and> interf k d = interf (k + 0) d" by simp
    ultimately show ?thesis using ad lowestFree_Some [OF q] by metis
  qed
qed simp

lemma node_added_cap:
  assumes "node_added e uid name pk pf ip mx d n d'" and "0 < mx"
  shows "int (length (owned_nodes uid d')) \<le> mx"
  using assms by (auto simp: node_added_def owned_nodes_def)

text \<open>
  C14: whatever other requests do between the query and the insert of each attempt, and whatever
  statements fail, a node that \<^verbatim>\<open>Create\<close> returns was inserted with an address of the range that
  no node of the database at that moment has, with a public key and a (user, name) pair that are
  new, and without passing the cap on the user's devices.
\<close>

theorem CreateNode_under_contention:
  assumes "CreateNode e interf uid name pk pf lo hi mx d = (Inr n, d')"
  shows "\<exists>di. node_added e uid name pk pf (n_ip n) mx di n d' \<and> lo \<le> n_ip n \<and> n_ip n \<le> hi \<and>
    (0 < mx \<longrightarrow> int (length (owned_nodes uid d')) \<le> mx)"
proof -
  from create_node_loop_Inr [OF assms [unfolded CreateNode_def]] obtain dq di where
    "least_free lo hi (used_ips dq) (n_ip n)" "node_added e uid name pk pf (n_ip n) mx di n d'"
    by blast
  moreover from this(2) node_added_cap have "0 < mx \<longrightarrow> int (length (owned_nodes uid d')) \<le> mx"
    by blast
  ultimately show ?thesis unfolding least_free_def by blast
qed

theorem CreateNode_under_contention_witness:
  "\<exists>n d'. CreateNode (calm 60) (\<lambda>_ d. d) 2 ''phone'' ''kc'' ''unknown'' 0x647F0002 0x647FFFFE 3 demo_db
       = (Inr n, d') \<and> n_ip n = 0x647F0004 \<and> n_ip n \<le> 0x647FFFFE \<and>
     length (owned_nodes 2 d') \<le> 3"
proof -
  have "lowestFree (calm 60) 0x647F0002 0x647FFFFE demo_db = Inr (Some 0x647F0004)"
    by (simp add: lowestFree_def free_candidates_def demo_db_def empty_db_def)
  then have "\<exists>n d'. CreateNode (calm 60) (\<lambda>_ d. d) 2 ''phone'' ''kc'' ''unknown''
      0x647F0002 0x647FFFFE 3 demo_db = (Inr n, d') \<and> n_ip n = 0x647F0004"
    by (simp add: CreateNode_some insertNode_def insert_node_row_def checked_insert_def has_user_def
        demo_db_def empty_db_def Let_def)
  then obtain n d' where c: "CreateNode (calm 60) (\<lambda>_ d. d) 2 ''phone'' ''kc'' ''unknown''
      0x647F0002 0x647FFFFE 3 demo_db = (Inr n, d')" "n_ip n = 0x647F0004" by blast
  from CreateNode_under_contention [OF c(1)] c show ?thesis by auto
qed

text \<open>
  Without concurrent requests and failing statements, \<^verbatim>\<open>Create\<close> decides in this order: no free
  address in the range is \<^verbatim>\<open>ErrPoolExhausted\<close>; a user at the cap gets \<^verbatim>\<open>ErrDeviceLimitReached\<close>, also
  when key or name are taken; then a taken key or name is refused with the error of a constraint
  that is broken; and otherwise the node gets the least free address. Every refusal leaves the
  database as it was.
\<close>

lemma CreateNode_branches:
  assumes "quiet e" and "has_user d uid"
    and "CreateNode e (\<lambda>_ d. d) uid name pk pf lo hi mx d = (r, d')"
  shows "if \<not> (\<exists>a. lo \<le> a \<and> a \<le> hi \<and> a \<notin> used_ips d) then r = Inl ErrPoolExhausted \<and> d' = d
    else if 0 < mx \<and> mx \<le> int (length (owned_nodes uid d)) then
      r = Inl ErrDeviceLimitReached \<and> d' = d
    else if pk \<in> n_wg_pubkey ` set (nodes d) \<or>
        (uid, name) \<in> (\<lambda>n. (n_user_id n, n_name n)) ` set (nodes d) then
      d' = d \<and> (r = Inl ErrPubKeyTaken \<and> pk \<in> n_wg_pubkey ` set (nodes d) \<or>
        r = Inl ErrNodeNameTaken \<and>
          (uid, name) \<in> (\<lambda>n. (n_user_id n, n_name n)) ` set (nodes d))
    else (\<exists>n ip. r = Inr n \<and> least_free lo hi (used_ips d) ip \<and>
      node_added e uid name pk pf ip mx d n d')"
proof (cases "\<exists>a. lo \<le> a \<and> a \<le> hi \<and> a \<notin> used_ips d")
  case False
  then have "lowestFree e lo hi d = Inr None"
    using lowestFree_quiet [OF assms(1), of lo hi d] by (auto simp: least_free_def)
  with False assms(3) show ?thesis by (simp add: CreateNode_none)
next
  case True
  then obtain ip where q: "lowestFree e lo hi d = Inr (Some ip)"
    and lf: "least_free lo hi (used_ips d) ip"
    using lowestFree_quiet [OF assms(1), of lo hi d] by blast
  let ?ins = "insertNode e uid name pk pf ip mx d"
  note loop = CreateNode_some [OF q, of "\<lambda>_ d. d" uid name pk pf mx, unfolded Let_def]
  have ip: "ip \<notin> used_ips d" using lf by (simp add: least_free_def)
  have nf: "\<not> db_fault e l i" for l i using assms(1) by (simp add: quiet_def)
  let ?key = "pk \<in> n_wg_pubkey ` set (nodes d)"
  let ?nam = "(uid, name) \<in> (\<lambda>n. (n_user_id n, n_name n)) ` set (nodes d)"
  consider (cap) "0 < mx \<and> mx \<le> int (length (owned_nodes uid d))"
    | (clash) "\<not> (0 < mx \<and> mx \<le> int (length (owned_nodes uid d)))" "?key \<or> ?nam"
    | (new) "\<not> (0 < mx \<and> mx \<le> int (length (owned_nodes uid d)))" "\<not> ?key" "\<not> ?nam" by blast
  then show ?thesis
  proof cases
    case cap
    then have "?ins = Inr (None, d)" by (auto simp: insertNode_def owned_nodes_def nf)
    with loop assms(3) cap True show ?thesis by auto
  next
    case clash
    define cs where "cs = map fst (filter snd [(U_wg_pubkey, ?key), (U_ip, False), (U_user_name, ?nam)])"
    have "cs \<noteq> []" using clash(2) by (auto simp: cs_def)
    with assms(1) have "db_pick e cs \<in> set cs" by (simp add: quiet_def)
    then have pick: "(db_pick e cs = U_wg_pubkey \<and> ?key) \<or> (db_pick e cs = U_user_name \<and> ?nam)"
      by (auto simp: cs_def split: if_splits)
    have "?ins = Inl (UniqueFailed (db_pick e cs))"
      using clash ip \<open>cs \<noteq> []\<close>
      by (auto simp: insertNode_def owned_nodes_def nf insert_node_row_def checked_insert_def
          Let_def cs_def)
    with pick loop assms(3) clash True show ?thesis by auto
  next
    case new
    then have "\<exists>n d2. ?ins = Inr (Some n, d2)"
      using ip assms(2) nf by (auto simp: insertNode_Some node_added_def)
    then obtain n d2 where ins: "?ins = Inr (Some n, d2)" by blast
    with loop assms(3) have "r = Inr n" "d' = d2" by auto
    with ins insertNode_Some lf True new show ?thesis by auto
  qed
qed

lemma CreateNode_branches_example:
  "fst (CreateNode (calm 60) (\<lambda>_ d. d) 2 ''pc'' ''kc'' ''unknown'' 0x647F0002 0x647FFFFE 0 demo_db)
     = Inl ErrNodeNameTaken \<and>
   fst (CreateNode (calm 60) (\<lambda>_ d. d) 2 ''pc'' ''kc'' ''unknown'' 0x647F0002 0x647FFFFE 1 demo_db)
     = Inl ErrDeviceLimitReached"
proof -
  have u: "has_user demo_db 2" by (simp add: demo_db_def empty_db_def has_user_def)
  have ex: "\<exists>a \<ge> (0x647F0002 :: addr). a \<le> 0x647FFFFE \<and> a \<notin> used_ips demo_db"
    by (rule exI [of _ "0x647F0004"]) (simp add: demo_db_def empty_db_def)
  have own: "length (owned_nodes 2 demo_db) = 1"
    by (simp add: owned_nodes_def demo_db_def empty_db_def)
  have nam: "(2, ''pc'') \<in> (\<lambda>n. (n_user_id n, n_name n)) ` set (nodes demo_db)"
    "''kc'' \<notin> n_wg_pubkey ` set (nodes demo_db)"
    by (simp_all add: demo_db_def empty_db_def)
  show ?thesis
    using CreateNode_branches [OF quiet_calm [of 60] u prod.collapse [symmetric],
        where name = "''pc''" and pk = "''kc''" and pf = "''unknown''" and lo = "0x647F0002" and
          hi = "0x647FFFFE" and mx = 0]
      CreateNode_branches [OF quiet_calm [of 60] u prod.collapse [symmetric],
        where name = "''pc''" and pk = "''kc''" and pf = "''unknown''" and lo = "0x647F0002" and
          hi = "0x647FFFFE" and mx = 1]
      ex own nam by simp
qed

subsection \<open>The schema is kept\<close>

lemma insertNode_ok [table_ok]:
  "insertNode e uid name pk pf ip mx d = Inr (r, d') \<Longrightarrow> schema_ok d \<Longrightarrow> schema_ok d'"
  by (auto simp: insertNode_def bind_res_Inr_iff split: if_splits dest: insert_node_row_ok)

lemma create_node_loop_ok [table_ok]:
  "\<lbrakk>schema_ok d; \<And>j x. schema_ok x \<Longrightarrow> schema_ok (interf j x)\<rbrakk> \<Longrightarrow>
     schema_ok (snd (create_node_loop m e interf k uid name pk pf lo hi mx d))"
proof (induction m e interf k uid name pk pf lo hi mx d rule: create_node_loop.induct)
  case (2 m e interf k uid name pk pf lo hi mx d)
  show ?case
  proof (cases "\<exists>ip. lowestFree e lo hi d = Inr (Some ip)")
    case False
    with "2.prems" show ?thesis by (auto split: sum.splits option.splits)
  next
    case True
    then obtain ip where q: "lowestFree e lo hi d = Inr (Some ip)" by blast
    have ok: "schema_ok (interf k d)" using "2.prems" by blast
    show ?thesis
    proof (cases "insertNode e uid name pk pf ip mx (interf k d)")
      case (Inl err)
      with "2.IH" [OF q refl refl Inl] "2.prems" q ok show ?thesis
        by (auto simp: Let_def split: sql_error.splits constraint.splits)
    next
      case (Inr x)
      then have "schema_ok (snd x)" using insertNode_ok [OF _ ok] by (metis prod.collapse)
      with Inr q show ?thesis by (auto simp: Let_def split: prod.splits option.splits)
    qed
  qed
qed simp

lemma CreateNode_ok [table_ok]:
  "schema_ok d \<Longrightarrow> (\<And>j x. schema_ok x \<Longrightarrow> schema_ok (interf j x)) \<Longrightarrow>
     schema_ok (snd (CreateNode e interf uid name pk pf lo hi mx d))"
  by (simp add: CreateNode_def create_node_loop_ok)

lemma DeleteOwned_ok [table_ok]: "schema_ok d \<Longrightarrow> schema_ok (snd (DeleteOwned e uid i d))"
  by (auto simp: DeleteOwned_def delete_nodes_ok split: option.splits)

subsection \<open>The retries end\<close>

lemma create_node_loop_cong:
  "(\<And>j. j < m \<Longrightarrow> interf (k + j) = interf' (k + j)) \<Longrightarrow>
     create_node_loop m e interf k uid name pk pf lo hi mx d = create_node_loop m e interf' k uid name pk pf lo hi mx d"
proof (induction m arbitrary: k d)
  case (Suc m)
  have step: "interf k = interf' k" using Suc.prems [of 0] by simp
  have "interf (Suc k + j) = interf' (Suc k + j)" if "j < m" for j using Suc.prems [of "Suc j"] that by simp
  note rest = Suc.IH [of "Suc k", OF this]
  show ?case
    by (simp add: step rest Let_def split: sum.split option.split sql_error.split constraint.split)
qed simp

lemma create_invite_loop_cong:
  "(\<And>j. j < m \<Longrightarrow> gen (k + j) = gen' (k + j)) \<Longrightarrow>
     create_invite_loop m e gen k uid ex d = create_invite_loop m e gen' k uid ex d"
proof (induction m arbitrary: k d)
  case (Suc m)
  have step: "gen k = gen' k" using Suc.prems [of 0] by simp
  have "gen (Suc k + j) = gen' (Suc k + j)" if "j < m" for j using Suc.prems [of "Suc j"] that by simp
  note rest = Suc.IH [of "Suc k", OF this]
  show ?case by (simp add: step rest split: sum.split option.split sql_error.split)
qed simp



end
