(* ===== verification/Store_Zones.thy ===== *)
theory Store_Zones
  imports Store_Nodes
begin

text \<open>
  \<^verbatim>\<open>internal/server/store/zones.go\<close>: zones and their memberships, and the queries the API and the
  dataplane rebuild read them with.
\<close>

section \<open>Definitions\<close>

definition insertZone ::
  "env \<Rightarrow> int \<Rightarrow> string \<Rightarrow> string \<Rightarrow> int \<Rightarrow> db \<Rightarrow> (sql_error, zone_row option \<times> db) result" where
  "insertZone e owner name hash maxOwnedZones d =
     (if 0 < maxOwnedZones \<and>
         \<not> int (length (filter (\<lambda>z. z_owner z = owner) (zones d))) < maxOwnedZones
      then (if db_fault e ''create zone'' 0 then Inl SqlFault else Inr (None, d))
      else bind_res (insert_zone_row e owner name hash d) (\<lambda>(z, d'). Inr (Some z, d')))"

definition CreateZone ::
  "env \<Rightarrow> int \<Rightarrow> string \<Rightarrow> string \<Rightarrow> int \<Rightarrow> db \<Rightarrow> (store_error, zone_row) result \<times> db" where
  "CreateZone e owner name hash maxOwnedZones d =
     (case insertZone e owner name hash maxOwnedZones d of
        Inl (UniqueFailed U_zone_name) \<Rightarrow> (Inl ErrZoneNameTaken, d)
      | Inl _ \<Rightarrow> (Inl (ErrWrapped ''create zone''), d)
      | Inr (None, d') \<Rightarrow> (Inl ErrOwnedZoneLimitReached, d')
      | Inr (Some z, d') \<Rightarrow> (Inr z, d'))"

definition UpdatePassword :: "env \<Rightarrow> int \<Rightarrow> string \<Rightarrow> db \<Rightarrow> store_error option \<times> db" where
  "UpdatePassword e zid hash d =
     (if db_fault e ''update zone password'' zid then (Some (ErrWrapped ''update zone password''), d)
      else (None, d\<lparr>zones := map (\<lambda>z. if z_id z = zid then z\<lparr>z_password_hash := hash\<rparr> else z)
                            (zones d)\<rparr>))"

definition DeleteZoneRow :: "env \<Rightarrow> int \<Rightarrow> db \<Rightarrow> store_error option \<times> db" where
  "DeleteZoneRow e zid d =
     (if db_fault e ''delete zone'' zid then (Some (ErrWrapped ''delete zone''), d)
      else (None, delete_zones (\<lambda>z. z_id z = zid) d))"

definition GetByName :: "env \<Rightarrow> string \<Rightarrow> db \<Rightarrow> (store_error, zone_row option) result" where
  "GetByName e name d =
     (if db_fault e ''get zone'' 0 then Inl (ErrWrapped ''get zone'')
      else Inr (find (\<lambda>z. z_name z = name) (zones d)))"

definition Join :: "env \<Rightarrow> int \<Rightarrow> int \<Rightarrow> db \<Rightarrow> store_error option \<times> db" where
  "Join e zid nid d =
     (case insert_member e zid nid d of
        Inl _ \<Rightarrow> (Some (ErrWrapped ''join zone''), d)
      | Inr d' \<Rightarrow> (None, d'))"

definition is_member :: "db \<Rightarrow> int \<Rightarrow> int \<Rightarrow> bool" where
  "is_member d zid nid = ((zid, nid) \<in> (\<lambda>m. (zm_zone m, zm_node m)) ` set (zone_members d))"

definition Leave :: "env \<Rightarrow> int \<Rightarrow> int \<Rightarrow> db \<Rightarrow> store_error option \<times> db" where
  "Leave e zid nid d =
     (if db_fault e ''leave zone'' zid then (Some (ErrWrapped ''leave zone''), d)
      else if \<not> is_member d zid nid then (Some ErrNotMember, d)
      else (None, d\<lparr>zone_members :=
              filter (\<lambda>m. \<not> (zm_zone m = zid \<and> zm_node m = nid)) (zone_members d)\<rparr>))"

record zone_member =
  MemberNodeID :: int
  MemberNodeName :: string
  MemberIP :: addr
  MemberOwnerName :: string

definition member_rows :: "int \<Rightarrow> db \<Rightarrow> zone_member list" where
  "member_rows zid d =
     [\<lparr>MemberNodeID = n_id n, MemberNodeName = n_name n, MemberIP = n_ip n,
       MemberOwnerName = u_username u\<rparr>.
        m \<leftarrow> zone_members d, zm_zone m = zid, n \<leftarrow> nodes d, n_id n = zm_node m,
        u \<leftarrow> users d, u_id u = n_user_id n]"

definition MembersByZone :: "env \<Rightarrow> int \<Rightarrow> db \<Rightarrow> (store_error, zone_member list) result" where
  "MembersByZone e zid d =
     (if db_fault e ''list members'' zid then Inl (ErrWrapped ''list members'')
      else Inr (sort_key MemberIP (member_rows zid d)))"

text \<open>A member of the zone that belongs to the user, as the sub-selects of the next queries have it.\<close>

definition has_member_of :: "db \<Rightarrow> int \<Rightarrow> int \<Rightarrow> bool" where
  "has_member_of d zid uid =
     list_ex (\<lambda>m. zm_zone m = zid \<and> list_ex (\<lambda>n. n_id n = zm_node m \<and> n_user_id n = uid) (nodes d))
       (zone_members d)"

definition ListForUser :: "env \<Rightarrow> int \<Rightarrow> db \<Rightarrow> (store_error, (zone_row \<times> bool) list) result" where
  "ListForUser e uid d =
     (if db_fault e ''list zones'' uid then Inl (ErrWrapped ''list zones'')
      else Inr (map (\<lambda>z. (z, z_owner z = uid))
                 (rev (sort_key z_id
                   (filter (\<lambda>z. z_owner z = uid \<or> has_member_of d (z_id z) uid) (zones d))))))"

definition IsParticipant :: "env \<Rightarrow> int \<Rightarrow> int \<Rightarrow> db \<Rightarrow> (store_error, bool) result" where
  "IsParticipant e zid uid d =
     (if db_fault e ''check participant'' zid then Inl (ErrWrapped ''check participant'')
      else Inr (list_ex (\<lambda>z. z_id z = zid \<and> z_owner z = uid) (zones d) \<or> has_member_of d zid uid))"

record zone_state =
  ZoneID :: int
  MemberIPs :: "addr list"

text \<open>
  The rows of the \<^verbatim>\<open>LEFT JOIN\<close> of \<^verbatim>\<open>AllForRebuild\<close> (a zone without members gives one row without an
  address) and the loop that groups them through its index map.
\<close>

definition zone_rows :: "db \<Rightarrow> zone_row \<Rightarrow> (int \<times> addr option) list" where
  "zone_rows d z =
     (let ms = filter (\<lambda>m. zm_zone m = z_id z) (zone_members d)
      in if ms = [] then [(z_id z, None)]
         else map (\<lambda>m. (z_id z, map_option n_ip (find (\<lambda>n. n_id n = zm_node m) (nodes d)))) ms)"

definition rebuild_rows :: "db \<Rightarrow> (int \<times> addr option) list" where
  "rebuild_rows d = concat (map (zone_rows d) (sort_key z_id (zones d)))"

definition add_ip :: "addr option \<Rightarrow> zone_state \<Rightarrow> zone_state" where
  "add_ip ip st = (case ip of None \<Rightarrow> st | Some a \<Rightarrow> st\<lparr>MemberIPs := MemberIPs st @ [a]\<rparr>)"

fun group_rows ::
  "(int \<times> addr option) list \<Rightarrow> (int \<rightharpoonup> nat) \<Rightarrow> zone_state list \<Rightarrow> zone_state list" where
  "group_rows [] idx states = states"
| "group_rows ((zid, ip) # rows) idx states =
     (case idx zid of
        None \<Rightarrow> group_rows rows (idx(zid \<mapsto> length states))
                  (states @ [add_ip ip \<lparr>ZoneID = zid, MemberIPs = []\<rparr>])
      | Some i \<Rightarrow> group_rows rows idx (states[i := add_ip ip (states ! i)]))"

definition AllForRebuild :: "env \<Rightarrow> db \<Rightarrow> (store_error, zone_state list) result" where
  "AllForRebuild e d =
     (if db_fault e ''rebuild query'' 0 then Inl (ErrWrapped ''rebuild query'')
      else Inr (group_rows (rebuild_rows d) (\<lambda>_. None) []))"

definition ZonesForNode :: "env \<Rightarrow> int \<Rightarrow> db \<Rightarrow> (store_error, int list) result" where
  "ZonesForNode e nid d =
     (if db_fault e ''zones for node'' nid then Inl (ErrWrapped ''zones for node'')
      else Inr (map zm_zone (filter (\<lambda>m. zm_node m = nid) (zone_members d))))"

section \<open>Lemmas\<close>

subsection \<open>Creating a zone\<close>

definition owned_zones :: "int \<Rightarrow> db \<Rightarrow> zone_row list" where
  "owned_zones uid d = filter (\<lambda>z. z_owner z = uid) (zones d)"

lemma quiet_pick_one: "quiet e \<Longrightarrow> db_pick e [c] = c"
proof -
  assume "quiet e"
  then have "db_pick e [c] \<in> set [c]" unfolding quiet_def by blast
  then show ?thesis by simp
qed

text \<open>
  Creating a zone, branch by branch, when no statement fails: an owner at the cap is refused
  with \<^verbatim>\<open>ErrOwnedZoneLimitReached\<close> even when the name is taken as well; a taken name (compared
  exactly, case included) is \<^verbatim>\<open>ErrZoneNameTaken\<close>; otherwise one row is added and the cap still
  holds. A refusal changes nothing.
\<close>

lemma CreateZone_branches:
  assumes "quiet e" and "has_user d owner"
  shows "CreateZone e owner name hash mx d =
    (let z = \<lparr>z_id = zone_seq d + 1, z_name = name, z_password_hash = hash, z_owner = owner,
              z_created_at = now e\<rparr>
     in if 0 < mx \<and> mx \<le> int (length (owned_zones owner d)) then (Inl ErrOwnedZoneLimitReached, d)
        else if name \<in> z_name ` set (zones d) then (Inl ErrZoneNameTaken, d)
        else (Inr z, d\<lparr>zones := zones d @ [z], zone_seq := zone_seq d + 1\<rparr>))"
proof -
  have nf: "db_fault e l i = False" for l i using assms(1) by (simp add: quiet_def)
  have pick: "db_pick e [U_zone_name] = U_zone_name" by (rule quiet_pick_one [OF assms(1)])
  have ins: "insert_zone_row e owner name hash d =
      (let z = \<lparr>z_id = zone_seq d + 1, z_name = name, z_password_hash = hash, z_owner = owner,
                z_created_at = now e\<rparr>
       in if name \<in> z_name ` set (zones d) then Inl (UniqueFailed U_zone_name)
          else Inr (z, d\<lparr>zones := zones d @ [z], zone_seq := zone_seq d + 1\<rparr>))"
    unfolding insert_zone_row_def checked_insert_def nf using pick assms(2)
    by (simp add: Let_def)
  have cap: "(0 < mx \<and> \<not> int (length (filter (\<lambda>z. z_owner z = owner) (zones d))) < mx) =
      (0 < mx \<and> mx \<le> int (length (owned_zones owner d)))"
    by (simp add: owned_zones_def not_less)
  show ?thesis
    unfolding CreateZone_def insertZone_def nf cap ins Let_def
    by (cases "name \<in> z_name ` set (zones d)";
        cases "0 < mx \<and> mx \<le> int (length (owned_zones owner d))") simp_all
qed

lemma CreateZone_branches_example:
  "CreateZone (calm 60) 2 ''home'' ''zh'' 1 demo_db = (Inl ErrOwnedZoneLimitReached, demo_db) \<and>
   CreateZone (calm 60) 1 ''home'' ''zh'' 1 demo_db = (Inl ErrZoneNameTaken, demo_db) \<and>
   (\<exists>z d'. CreateZone (calm 60) 1 ''Home'' ''zh'' 1 demo_db = (Inr z, d'))"
  using CreateZone_branches [of "calm 60" demo_db 2 "''home''" "''zh''" 1]
    CreateZone_branches [of "calm 60" demo_db 1 "''home''" "''zh''" 1]
    CreateZone_branches [of "calm 60" demo_db 1 "''Home''" "''zh''" 1]
  by (simp add: has_user_def owned_zones_def demo_db_def empty_db_def Let_def)

subsection \<open>The schema is kept\<close>

lemma insertZone_ok [table_ok]:
  "insertZone e owner name hash mx d = Inr (r, d') \<Longrightarrow> schema_ok d \<Longrightarrow> schema_ok d'"
  by (auto simp: insertZone_def bind_res_Inr_iff split: if_splits dest: insert_zone_row_ok)

lemma CreateZone_ok [table_ok]: "schema_ok d \<Longrightarrow> schema_ok (snd (CreateZone e owner name hash mx d))"
  by (auto simp: CreateZone_def split: sum.splits option.splits sql_error.splits constraint.splits
      dest: insertZone_ok)

lemma zones_update_ok:
  assumes "schema_ok d" and "\<And>z. z_id (f z) = z_id z" "\<And>z. z_name (f z) = z_name z"
    "\<And>z. z_owner (f z) = z_owner z"
  shows "schema_ok (d\<lparr>zones := map f (zones d)\<rparr>)"
proof -
  let ?d = "d\<lparr>zones := map f (zones d)\<rparr>"
  have has: "has_zone ?d = has_zone d" "has_user ?d = has_user d" "has_node ?d = has_node d"
    "has_ann ?d = has_ann d"
    using assms(2) by (simp_all add: has_defs image_image fun_eq_iff)
  have "uniq_ok ?d" using assms by (simp add: schema_ok_def uniq_ok_def comp_def)
  moreover have "seq_ok ?d" using assms by (simp add: schema_ok_def seq_ok_def)
  moreover have "fk_ok ?d" using assms unfolding schema_ok_def fk_ok_def has by simp
  ultimately show ?thesis by (simp add: schema_ok_def)
qed

lemma UpdatePassword_ok [table_ok]: "schema_ok d \<Longrightarrow> schema_ok (snd (UpdatePassword e zid h d))"
  by (auto simp: UpdatePassword_def intro!: zones_update_ok)

lemma DeleteZoneRow_ok [table_ok]: "schema_ok d \<Longrightarrow> schema_ok (snd (DeleteZoneRow e zid d))"
  by (simp add: DeleteZoneRow_def delete_zones_ok)

lemma Join_ok [table_ok]: "schema_ok d \<Longrightarrow> schema_ok (snd (Join e zid nid d))"
  by (auto simp: Join_def split: sum.splits dest: insert_member_ok)

lemma members_filter_ok:
  "schema_ok d \<Longrightarrow> schema_ok (d\<lparr>zone_members := filter P (zone_members d)\<rparr>)"
  by (simp add: schema_defs)

lemma Leave_ok [table_ok]: "schema_ok d \<Longrightarrow> schema_ok (snd (Leave e zid nid d))"
  by (simp add: Leave_def members_filter_ok)

subsection \<open>Membership\<close>

lemma Join_member: "Join e zid nid d = (None, d') \<Longrightarrow> is_member d' z n \<longleftrightarrow> (z, n) = (zid, nid) \<or> is_member d z n"
  by (auto simp: Join_def insert_member_def is_member_def Let_def split: sum.splits if_splits)

lemma Leave_member:
  "Leave e zid nid d = (None, d') \<Longrightarrow> is_member d' z n \<longleftrightarrow> is_member d z n \<and> (z, n) \<noteq> (zid, nid)"
  by (auto simp: Leave_def is_member_def split: if_splits)

lemma Join_known: "schema_ok d \<Longrightarrow> is_member d zid nid \<Longrightarrow> snd (Join e zid nid d) = d"
  by (auto simp: Join_def insert_member_def is_member_def Let_def)

lemma has_member_of_iff:
  "has_member_of d zid uid \<longleftrightarrow>
     (\<exists>n \<in> set (nodes d). n_user_id n = uid \<and> is_member d zid (n_id n))"
  by (fastforce simp: has_member_of_def list_ex_iff is_member_def)

text \<open>
  Joining and leaving change exactly one membership: after a successful \<^verbatim>\<open>Join\<close> the node is a
  member and all other memberships are as before; re-joining changes nothing; \<^verbatim>\<open>Leave\<close> of a member
  restores the memberships before the join, and of a non-member is \<^verbatim>\<open>ErrNotMember\<close>.
\<close>

lemma Join_Leave_roundtrip:
  assumes "Join e1 zid nid d = (None, d1)" and "quiet e2"
  shows "is_member d1 zid nid \<and>
    (is_member d zid nid \<longrightarrow> d1 = d) \<and>
    (\<exists>d2. Leave e2 zid nid d1 = (None, d2) \<and> \<not> is_member d2 zid nid \<and>
       (\<not> is_member d zid nid \<longrightarrow> d2 = d) \<and> Leave e2 zid nid d2 = (Some ErrNotMember, d2))"
proof -
  have mem: "is_member d1 zid nid" using Join_member [OF assms(1)] by simp
  have nf: "\<not> db_fault e2 l i" for l i using assms(2) by (simp add: quiet_def)
  from mem nf obtain d2 where d2: "Leave e2 zid nid d1 = (None, d2)" by (simp add: Leave_def)
  then have out: "\<not> is_member d2 zid nid" using Leave_member by blast
  have same: "d2 = d" if "\<not> is_member d zid nid"
  proof -
    from assms(1) that have
      "d1 = d\<lparr>zone_members := zone_members d @ [\<lparr>zm_zone = zid, zm_node = nid, zm_joined_at = now e1\<rparr>]\<rparr>"
      by (auto simp: Join_def insert_member_def is_member_def Let_def split: sum.splits if_splits)
    moreover have "filter (\<lambda>m. \<not> (zm_zone m = zid \<and> zm_node m = nid)) (zone_members d) = zone_members d"
      using that by (auto simp: is_member_def filter_id_conv image_iff)
    ultimately show ?thesis using d2 mem nf by (auto simp: Leave_def)
  qed
  have "d1 = d" if "is_member d zid nid"
    using assms(1) that
    by (auto simp: Join_def insert_member_def is_member_def Let_def split: sum.splits if_splits)
  moreover have "Leave e2 zid nid d2 = (Some ErrNotMember, d2)" using out nf by (simp add: Leave_def)
  ultimately show ?thesis using mem d2 out same by blast
qed

lemma Join_Leave_roundtrip_example:
  "is_member demo_db 1 2 \<and> (\<exists>d2. Leave (calm 61) 1 2 demo_db = (None, d2) \<and> \<not> is_member d2 1 2)"
proof -
  have "Join (calm 60) 1 2 demo_db = (None, demo_db)"
    by (simp add: Join_def insert_member_def demo_db_def empty_db_def Let_def)
  from Join_Leave_roundtrip [OF this quiet_calm, of 61] show ?thesis by blast
qed

text \<open>
  The zones \<^verbatim>\<open>ListForUser\<close> shows are those the user passes the participant check for, marked as
  owned exactly when the user owns them, newest first.
\<close>

lemma ListForUser_participant:
  assumes "ListForUser e uid d = Inr zs" and "IsParticipant e2 zid uid d = Inr b" and "schema_ok d"
  shows "(b \<longleftrightarrow> zid \<in> (z_id \<circ> fst) ` set zs) \<and>
    (\<forall>(z, own) \<in> set zs. own = (z_owner z = uid)) \<and> sorted (rev (map (z_id \<circ> fst) zs))"
proof -
  let ?P = "\<lambda>z. z_owner z = uid \<or> has_member_of d (z_id z) uid"
  from assms(1) have zs: "zs = map (\<lambda>z. (z, z_owner z = uid)) (rev (sort_key z_id (filter ?P (zones d))))"
    by (simp add: ListForUser_def split: if_splits)
  have zone: "zid \<in> z_id ` set (zones d)" if "has_member_of d zid uid"
    using that assms(3)
    by (fastforce simp: has_member_of_def list_ex_iff schema_ok_def fk_ok_def has_zone_def)
  have own: "z_owner z = uid"
    if "z \<in> set (zones d)" "z' \<in> set (zones d)" "z_id z = z_id z'" "z_owner z' = uid" for z z'
    using that assms(3) distinct_map_eqD [of z_id "zones d" z z'] by (auto simp: schema_ok_def uniq_ok_def)
  have ids: "(z_id \<circ> fst) ` set zs = z_id ` {z \<in> set (zones d). ?P z}"
    by (simp add: zs image_image comp_def)
  have "b \<longleftrightarrow> (\<exists>z \<in> set (zones d). z_id z = zid \<and> z_owner z = uid) \<or> has_member_of d zid uid"
    using assms(2) by (auto simp: IsParticipant_def list_ex_iff split: if_splits)
  then have "b \<longleftrightarrow> zid \<in> (z_id \<circ> fst) ` set zs"
    unfolding ids using zone own by auto
  moreover have "sorted (rev (map (z_id \<circ> fst) zs))"
    by (simp add: zs rev_map comp_def)
  ultimately show ?thesis by (auto simp: zs)
qed

subsection \<open>The rebuild query\<close>

text \<open>What the rules of a zone should say: the addresses of its members, \<^term>\<open>None\<close> for no zone.\<close>

definition zone_ips :: "db \<Rightarrow> int \<Rightarrow> addr set" where
  "zone_ips d zid = n_ip ` {n \<in> set (nodes d). is_member d zid (n_id n)}"

definition state_pairs :: "zone_state list \<Rightarrow> (int \<times> addr) set" where
  "state_pairs states = {(ZoneID st, a) | st a. st \<in> set states \<and> a \<in> set (MemberIPs st)}"

lemma state_pairs_append: "state_pairs (xs @ ys) = state_pairs xs \<union> state_pairs ys"
  and state_pairs_Nil: "state_pairs [] = {}"
  and state_pairs_single:
    "state_pairs [add_ip ip st] = state_pairs [st] \<union> (case ip of None \<Rightarrow> {} | Some a \<Rightarrow> {(ZoneID st, a)})"
  by (auto simp: state_pairs_def add_ip_def split: option.splits)

lemma ZoneID_add_ip [simp]: "ZoneID (add_ip ip st) = ZoneID st"
  by (simp add: add_ip_def split: option.splits)

lemma state_pairs_update:
  assumes "i < length states"
  shows "state_pairs (states[i := add_ip ip (states ! i)]) =
    state_pairs states \<union> (case ip of None \<Rightarrow> {} | Some a \<Rightarrow> {(ZoneID (states ! i), a)})"
proof -
  have split: "state_pairs (xs @ y # ys) = state_pairs xs \<union> state_pairs [y] \<union> state_pairs ys"
    for xs y ys using state_pairs_append [of xs "[y] @ ys"] state_pairs_append [of "[y]" ys] by (simp add: Un_assoc)
  show ?thesis
    using assms split [of "take i states" "states ! i" "drop (Suc i) states"]
    by (simp add: upd_conv_take_nth_drop split state_pairs_single id_take_nth_drop [symmetric])
      blast
qed

definition index_ok :: "(int \<rightharpoonup> nat) \<Rightarrow> zone_state list \<Rightarrow> bool" where
  "index_ok idx states =
     (distinct (map ZoneID states) \<and>
      (\<forall>z i. idx z = Some i \<longrightarrow> i < length states \<and> ZoneID (states ! i) = z) \<and>
      ZoneID ` set states = dom idx)"

lemma group_rows_spec:
  "index_ok idx states \<Longrightarrow>
     distinct (map ZoneID (group_rows rows idx states)) \<and>
     ZoneID ` set (group_rows rows idx states) = ZoneID ` set states \<union> fst ` set rows \<and>
     state_pairs (group_rows rows idx states) =
       state_pairs states \<union> {(z, a). (z, Some a) \<in> set rows}"
proof (induction rows idx states rule: group_rows.induct)
  case (1 idx states)
  then show ?case by (simp add: index_ok_def)
next
  case (2 zid ip rows idx states)
  show ?case
  proof (cases "idx zid")
    case None
    let ?new = "states @ [add_ip ip \<lparr>ZoneID = zid, MemberIPs = []\<rparr>]"
    have "zid \<notin> ZoneID ` set states" using "2.prems" None by (auto simp: index_ok_def)
    with "2.prems" None have "index_ok (idx(zid \<mapsto> length states)) ?new"
      by (auto simp: index_ok_def nth_append intro: less_SucI)
    note IH = "2.IH"(1) [OF None this]
    define G where "G = group_rows rows (idx(zid \<mapsto> length states)) ?new"
    have IH': "distinct (map ZoneID G) \<and> ZoneID ` set G = ZoneID ` set ?new \<union> fst ` set rows \<and>
        state_pairs G = state_pairs ?new \<union> {(z, a). (z, Some a) \<in> set rows}"
      unfolding G_def by (rule IH)
    have step: "group_rows ((zid, ip) # rows) idx states = G"
      using None by (simp add: G_def)
    have "state_pairs ?new = state_pairs states \<union> (case ip of None \<Rightarrow> {} | Some a \<Rightarrow> {(zid, a)})"
      by (cases ip; simp add: state_pairs_append state_pairs_single; simp add: state_pairs_def)
    with IH' show ?thesis unfolding step by (cases ip) auto
  next
    case (Some i)
    let ?new = "states[i := add_ip ip (states ! i)]"
    have i: "i < length states" "ZoneID (states ! i) = zid"
      using "2.prems" Some by (auto simp: index_ok_def)
    have ids: "map ZoneID ?new = map ZoneID states"
      using i by (simp add: map_update) (metis length_map list_update_id nth_map)
    then have set_ids: "ZoneID ` set ?new = ZoneID ` set states" by (metis list.set_map)
    have "ZoneID (?new ! j) = ZoneID (states ! j)" if "j < length states" for j
      using ids that by (metis length_list_update nth_map)
    with "2.prems" ids set_ids have "index_ok idx ?new" by (simp add: index_ok_def)
    note IH = "2.IH"(2) [OF Some this]
    have step: "group_rows ((zid, ip) # rows) idx states = group_rows rows idx ?new"
      using Some by simp
    have "zid \<in> ZoneID ` set states" using i nth_mem by blast
    with IH i set_ids show ?thesis
      unfolding step by (cases ip) (auto simp: state_pairs_update [OF i(1)])
  qed
qed

lemma zone_rows_keys: "fst ` set (zone_rows d z) = {z_id z}"
  by (auto simp: zone_rows_def Let_def filter_empty_conv image_iff)

lemma zone_rows_ips:
  "(zid, Some a) \<in> set (zone_rows d z) \<longleftrightarrow> zid = z_id z \<and> (\<exists>m \<in> set (zone_members d).
     zm_zone m = z_id z \<and> map_option n_ip (find (\<lambda>n. n_id n = zm_node m) (nodes d)) = Some a)"
proof -
  let ?f = "\<lambda>m. map_option n_ip (find (\<lambda>n. n_id n = zm_node m) (nodes d))"
  let ?ms = "filter (\<lambda>m. zm_zone m = z_id z) (zone_members d)"
  have "(zid, Some a) \<in> set (zone_rows d z) \<longleftrightarrow> (\<exists>m \<in> set ?ms. (zid, Some a) = (z_id z, ?f m))"
    by (cases "?ms = []") (auto simp: zone_rows_def Let_def image_iff)
  also have "\<dots> \<longleftrightarrow> zid = z_id z \<and> (\<exists>m \<in> set ?ms. ?f m = Some a)"
    by (simp only: prod.inject) (metis (no_types))
  finally show ?thesis by (simp only: set_filter mem_Collect_eq Bex_def conj_assoc)
qed

lemma rebuild_rows_zones: "fst ` set (rebuild_rows d) = z_id ` set (zones d)"
  by (auto simp: rebuild_rows_def image_UN zone_rows_keys)

lemma find_node:
  "schema_ok d \<Longrightarrow> n \<in> set (nodes d) \<Longrightarrow> find (\<lambda>x. n_id x = n_id n) (nodes d) = Some n"
  by (intro find_keyed) (simp_all add: schema_ok_def uniq_ok_def)

lemma find_node_iff:
  assumes "schema_ok d"
  shows "find (\<lambda>n. n_id n = i) (nodes d) = Some n \<longleftrightarrow> n \<in> set (nodes d) \<and> n_id n = i"
  using find_node [OF assms, of n] find_Some_mem [of "\<lambda>n. n_id n = i" "nodes d" n] by blast

lemma zone_ips_iff:
  "a \<in> zone_ips d z \<longleftrightarrow> (\<exists>m \<in> set (zone_members d). zm_zone m = z \<and>
     (\<exists>n \<in> set (nodes d). n_id n = zm_node m \<and> n_ip n = a))"
  unfolding zone_ips_def is_member_def image_iff prod.inject by blast

lemma rebuild_rows_iff:
  "(z, Some a) \<in> set (rebuild_rows d) \<longleftrightarrow> has_zone d z \<and> (\<exists>m \<in> set (zone_members d).
     zm_zone m = z \<and> map_option n_ip (find (\<lambda>n. n_id n = zm_node m) (nodes d)) = Some a)"
proof -
  have "(z, Some a) \<in> set (rebuild_rows d) \<longleftrightarrow>
      (\<exists>x \<in> set (zones d). (z, Some a) \<in> set (zone_rows d x))"
    by (simp add: rebuild_rows_def)
  then show ?thesis unfolding zone_rows_ips has_zone_def image_iff by blast
qed

lemma rebuild_rows_ips:
  assumes "schema_ok d"
  shows "{(z, a). (z, Some a) \<in> set (rebuild_rows d)} = {(z, a). a \<in> zone_ips d z}"
proof -
  have "\<forall>m \<in> set (zone_members d). has_zone d (zm_zone m)"
    using assms by (simp add: schema_ok_def fk_ok_def)
  then have "(z, Some a) \<in> set (rebuild_rows d) \<longleftrightarrow> a \<in> zone_ips d z" for z a
    unfolding rebuild_rows_iff zone_ips_iff map_option_eq_Some find_node_iff [OF assms] by blast
  then show ?thesis by simp
qed

lemma AllForRebuild_states:
  assumes "schema_ok d" and "AllForRebuild e d = Inr states"
  shows "distinct (map ZoneID states) \<and> ZoneID ` set states = z_id ` set (zones d) \<and>
    (\<forall>st \<in> set states. set (MemberIPs st) = zone_ips d (ZoneID st))"
proof -
  have states: "states = group_rows (rebuild_rows d) (\<lambda>_. None) []"
    using assms(2) by (simp add: AllForRebuild_def split: if_splits)
  have "index_ok (\<lambda>_. None) []" by (simp add: index_ok_def)
  from group_rows_spec [OF this, of "rebuild_rows d"] have
    spec: "distinct (map ZoneID states)" "ZoneID ` set states = z_id ` set (zones d)"
      "state_pairs states = {(z, a). a \<in> zone_ips d z}"
    by (simp_all add: states rebuild_rows_zones rebuild_rows_ips [OF assms(1)] state_pairs_Nil)
  have "set (MemberIPs st) = zone_ips d (ZoneID st)" if st: "st \<in> set states" for st
  proof -
    have "(ZoneID st, a) \<in> state_pairs states \<longleftrightarrow> a \<in> set (MemberIPs st)" for a
      using st spec(1) by (auto simp: state_pairs_def dest: distinct_map_eqD)
    with spec(3) show ?thesis by auto
  qed
  with spec show ?thesis by blast
qed

text \<open>
  The state the dataplane is rebuilt from is the database's: \<^verbatim>\<open>AllForRebuild\<close> returns every zone
  exactly once, those without members too, each with exactly the addresses of its member nodes,
  although the grouping loop writes through an index map into the list it builds.
\<close>

lemma AllForRebuild_complete:
  assumes "schema_ok d" and "AllForRebuild e d = Inr states"
  shows "distinct (map ZoneID states) \<and> ZoneID ` set states = z_id ` set (zones d) \<and>
    (\<forall>st \<in> set states. set (MemberIPs st) = zone_ips d (ZoneID st))"
  by (rule AllForRebuild_states [OF assms])

end
