(* ===== verification/Store_Announcements.thy ===== *)
theory Store_Announcements
  imports Store_Zones
begin

text \<open>
  \<^verbatim>\<open>internal/server/store/announcements.go\<close>: a node announces a real subnet into a zone under a
  synthetic block of the server's pool; the block is freed with the last attachment. Every
  operation runs in one transaction: an error leaves the database as it was.
\<close>

section \<open>Definitions\<close>

record announcement =
  AnnID :: int
  AnnNodeID :: int
  Real :: block
  Synthetic :: block
  AnnCreatedAt :: int
  AnnNodeName :: string
  AnnOwner :: string

definition announcementFromRow :: "int \<Rightarrow> int \<Rightarrow> block \<Rightarrow> addr \<Rightarrow> int \<Rightarrow> announcement" where
  "announcementFromRow aid nid real synth created =
     \<lparr>AnnID = aid, AnnNodeID = nid, Real = real,
      Synthetic = \<lparr>Base = synth, PrefixLen = PrefixLen real\<rparr>, AnnCreatedAt = created,
      AnnNodeName = '''', AnnOwner = ''''\<rparr>"

definition ann_of_row :: "ann_row \<Rightarrow> announcement" where
  "ann_of_row a = announcementFromRow (a_id a) (a_node a) (ann_real a) (a_synthetic_base a) (a_created_at a)"

text \<open>The announcements of a user, as the \<^verbatim>\<open>JOIN\<close> of the quota check counts them.\<close>

definition user_anns :: "int \<Rightarrow> db \<Rightarrow> ann_row list" where
  "user_anns uid d =
     [a. a \<leftarrow> announcements d, n \<leftarrow> nodes d, n_id n = a_node a \<and> n_user_id n = uid]"

text \<open>The two halves of \<^verbatim>\<open>Create\<close>: attaching a known announcement, and making a new one.\<close>

definition attach_known ::
  "env \<Rightarrow> ann_row \<Rightarrow> block \<Rightarrow> int \<Rightarrow> db \<Rightarrow> (store_error, announcement \<times> bool) result \<times> db" where
  "attach_known e a real zid d =
     (case attach_zone e (a_id a) zid d of
        Inl _ \<Rightarrow> (Inl (ErrWrapped ''attach zone''), d)
      | Inr (fresh, d') \<Rightarrow>
          if db_fault e ''commit attach'' 0 then (Inl (ErrWrapped ''commit attach''), d)
          else (Inr (announcementFromRow (a_id a) (a_node a) real (a_synthetic_base a)
                       (a_created_at a), fresh), d'))"

definition insert_and_attach ::
  "env \<Rightarrow> int \<Rightarrow> block \<Rightarrow> block \<Rightarrow> int \<Rightarrow> db \<Rightarrow> (store_error, announcement \<times> bool) result \<times> db" where
  "insert_and_attach e nid real synthetic zid d =
     (case insert_announcement e nid real (Base synthetic) d of
        Inl _ \<Rightarrow> (Inl (ErrWrapped ''insert announcement''), d)
      | Inr (a, d1) \<Rightarrow>
          (case attach_zone e (a_id a) zid d1 of
             Inl _ \<Rightarrow> (Inl (ErrWrapped ''attach zone''), d)
           | Inr (_, d2) \<Rightarrow>
               if db_fault e ''commit announce'' 0 then (Inl (ErrWrapped ''commit announce''), d)
               else (Inr (announcementFromRow (a_id a) nid real (Base synthetic) (now e), True), d2)))"

definition quota_check :: "env \<Rightarrow> int \<Rightarrow> int \<Rightarrow> db \<Rightarrow> store_error option" where
  "quota_check e uid limit d =
     (if 0 < limit then
        if db_fault e ''count user announcements'' uid then Some (ErrWrapped ''count user announcements'')
        else if limit \<le> int (length (user_anns uid d)) then Some ErrAnnounceLimit
        else None
      else None)"

definition announce_new ::
  "env \<Rightarrow> int \<Rightarrow> int \<Rightarrow> block \<Rightarrow> int \<Rightarrow> int \<Rightarrow> netip_prefix \<Rightarrow> db
     \<Rightarrow> (store_error, announcement \<times> bool) result \<times> db" where
  "announce_new e uid nid real zid limit pool d =
     (if db_fault e ''list node announcements'' nid
      then (Inl (ErrWrapped ''list node announcements''), d)
      else if list_ex (\<lambda>b. Overlaps real b)
                (map ann_real (filter (\<lambda>a. a_node a = nid) (announcements d)))
      then (Inl ErrSubnetOverlap, d)
      else case quota_check e uid limit d of
        Some err \<Rightarrow> (Inl err, d)
      | None \<Rightarrow>
          if db_fault e ''list synthetic blocks'' 0
          then (Inl (ErrWrapped ''list synthetic blocks''), d)
          else
            (case AllocateBlock pool (PrefixLen real) (map ann_synthetic (announcements d)) of
               Inl ErrNoSpace \<Rightarrow> (Inl ErrSyntheticPoolExhausted, d)
             | Inl _ \<Rightarrow> (Inl (ErrWrapped ''allocate synthetic block''), d)
             | Inr synthetic \<Rightarrow> insert_and_attach e nid real synthetic zid d))"

definition CreateAnnouncement ::
  "env \<Rightarrow> int \<Rightarrow> int \<Rightarrow> block \<Rightarrow> int \<Rightarrow> int \<Rightarrow> netip_prefix \<Rightarrow> db
     \<Rightarrow> (store_error, announcement \<times> bool) result \<times> db" where
  "CreateAnnouncement e uid nid real zid limit pool d =
     (if db_fault e ''begin announce tx'' 0 then (Inl (ErrWrapped ''begin announce tx''), d)
      else if db_fault e ''check membership'' zid then (Inl (ErrWrapped ''check membership''), d)
      else if \<not> is_member d zid nid then (Inl ErrNotMember, d)
      else if db_fault e ''look up announcement'' nid
      then (Inl (ErrWrapped ''look up announcement''), d)
      else case find (\<lambda>a. a_node a = nid \<and> a_real_base a = Base real \<and> a_prefix_len a = PrefixLen real)
                  (announcements d) of
        Some a \<Rightarrow> attach_known e a real zid d
      | None \<Rightarrow> announce_new e uid nid real zid limit pool d)"

definition detach_row :: "int \<Rightarrow> int \<Rightarrow> db \<Rightarrow> db" where
  "detach_row aid zid d =
     d\<lparr>announcement_zones :=
         filter (\<lambda>x. \<not> (az_ann x = aid \<and> az_zone x = zid)) (announcement_zones d)\<rparr>"

definition reclaimIfOrphaned :: "env \<Rightarrow> int \<Rightarrow> db \<Rightarrow> (store_error, bool \<times> db) result" where
  "reclaimIfOrphaned e aid d =
     (if db_fault e ''count attachments'' aid then Inl (ErrWrapped ''count attachments'')
      else if 0 < length (filter (\<lambda>x. az_ann x = aid) (announcement_zones d)) then Inr (False, d)
      else if db_fault e ''reclaim announcement'' aid then Inl (ErrWrapped ''reclaim announcement'')
      else Inr (True, delete_announcements (\<lambda>a. a_id a = aid) d))"

definition GetAnnouncement :: "env \<Rightarrow> int \<Rightarrow> db \<Rightarrow> (store_error, announcement) result" where
  "GetAnnouncement e aid d =
     (if db_fault e ''get announcement'' aid then Inl (ErrWrapped ''get announcement'')
      else case find (\<lambda>a. a_id a = aid) (announcements d) of
        None \<Rightarrow> Inl ErrAnnouncementNotFound
      | Some a \<Rightarrow> Inr (ann_of_row a))"

definition Detach ::
  "env \<Rightarrow> int \<Rightarrow> int \<Rightarrow> db \<Rightarrow> (store_error, announcement \<times> bool) result \<times> db" where
  "Detach e zid aid d =
     (if db_fault e ''begin detach tx'' 0 then (Inl (ErrWrapped ''begin detach tx''), d)
      else case GetAnnouncement e aid d of
        Inl err \<Rightarrow> (Inl err, d)
      | Inr ann \<Rightarrow>
          if db_fault e ''detach zone'' aid then (Inl (ErrWrapped ''detach zone''), d)
          else if \<not> list_ex (\<lambda>x. az_ann x = aid \<and> az_zone x = zid) (announcement_zones d)
          then (Inl ErrAnnouncementNotFound, d)
          else
            (case reclaimIfOrphaned e aid (detach_row aid zid d) of
               Inl err \<Rightarrow> (Inl err, d)
             | Inr (reclaimed, d2) \<Rightarrow>
                 if db_fault e ''commit detach'' 0 then (Inl (ErrWrapped ''commit detach''), d)
                 else (Inr (ann, reclaimed), d2)))"

text \<open>The listing and routing queries. A \<^verbatim>\<open>map[int64][]netip.Prefix\<close> is a function to lists.\<close>

definition ListByZone :: "env \<Rightarrow> int \<Rightarrow> db \<Rightarrow> (store_error, announcement list) result" where
  "ListByZone e zid d =
     (if db_fault e ''list zone announcements'' zid then Inl (ErrWrapped ''list zone announcements'')
      else Inr (sort_key AnnID
        [(ann_of_row a)\<lparr>AnnNodeName := n_name n, AnnOwner := u_username u\<rparr>.
           x \<leftarrow> announcement_zones d, az_zone x = zid, a \<leftarrow> announcements d, a_id a = az_ann x,
           n \<leftarrow> nodes d, n_id n = a_node a, u \<leftarrow> users d, u_id u = n_user_id n]))"

definition blocksToPrefixes :: "block list \<Rightarrow> prefix4 list" where
  "blocksToPrefixes bs = map block_prefix bs"

definition node_routes :: "db \<Rightarrow> int \<Rightarrow> prefix4 list" where
  "node_routes d nid =
     blocksToPrefixes
       (map ann_synthetic (sort_key a_id (filter (\<lambda>a. a_node a = nid) (announcements d))))"

definition RoutesForNode :: "env \<Rightarrow> int \<Rightarrow> db \<Rightarrow> (store_error, prefix4 list) result" where
  "RoutesForNode e nid d =
     (if db_fault e ''list node routes'' nid then Inl (ErrWrapped ''list node routes'')
      else Inr (node_routes d nid))"

definition zone_anns :: "db \<Rightarrow> int \<Rightarrow> ann_row list" where
  "zone_anns d zid =
     [a. x \<leftarrow> announcement_zones d, az_zone x = zid, a \<leftarrow> announcements d, a_id a = az_ann x]"

definition zone_routes :: "db \<Rightarrow> int \<Rightarrow> prefix4 list" where
  "zone_routes d zid = map (block_prefix \<circ> ann_synthetic) (sort_key a_id (zone_anns d zid))"

definition RoutesByZone :: "env \<Rightarrow> db \<Rightarrow> (store_error, int \<Rightarrow> prefix4 list) result" where
  "RoutesByZone e d =
     (if db_fault e ''list zone routes'' 0 then Inl (ErrWrapped ''list zone routes'')
      else Inr (zone_routes d))"

definition RoutesByNode :: "env \<Rightarrow> db \<Rightarrow> (store_error, int \<Rightarrow> prefix4 list) result" where
  "RoutesByNode e d =
     (if db_fault e ''list node routes'' 0 then Inl (ErrWrapped ''list node routes'')
      else Inr (node_routes d))"

record detached_route =
  dr_ann :: int
  dr_synthetic :: prefix4
  dr_reclaimed :: bool

fun detach_loop ::
  "env \<Rightarrow> int \<Rightarrow> ann_row list \<Rightarrow> db \<Rightarrow> (store_error, detached_route list \<times> db) result" where
  "detach_loop e zid [] d = Inr ([], d)"
| "detach_loop e zid (a # as) d =
     (if db_fault e ''detach'' (a_id a) then Inl (ErrWrapped ''detach'')
      else case reclaimIfOrphaned e (a_id a) (detach_row (a_id a) zid d) of
        Inl err \<Rightarrow> Inl err
      | Inr (reclaimed, d1) \<Rightarrow>
          (case detach_loop e zid as d1 of
             Inl err \<Rightarrow> Inl err
           | Inr (out, d2) \<Rightarrow>
               Inr (\<lparr>dr_ann = a_id a, dr_synthetic = block_prefix (ann_synthetic a),
                     dr_reclaimed = reclaimed\<rparr> # out, d2)))"

definition node_zone_anns :: "db \<Rightarrow> int \<Rightarrow> int \<Rightarrow> ann_row list" where
  "node_zone_anns d nid zid = filter (\<lambda>a. a_node a = nid) (zone_anns d zid)"

definition DetachAllForNodeZone ::
  "env \<Rightarrow> int \<Rightarrow> int \<Rightarrow> db \<Rightarrow> (store_error, detached_route list) result \<times> db" where
  "DetachAllForNodeZone e nid zid d =
     (if db_fault e ''begin detach-all tx'' 0 then (Inl (ErrWrapped ''begin detach-all tx''), d)
      else if db_fault e ''list node-zone attachments'' nid
      then (Inl (ErrWrapped ''list node-zone attachments''), d)
      else
        (case detach_loop e zid (node_zone_anns d nid zid) d of
           Inl err \<Rightarrow> (Inl err, d)
         | Inr (out, d') \<Rightarrow>
             if db_fault e ''commit detach-all'' 0 then (Inl (ErrWrapped ''commit detach-all''), d)
             else (Inr out, d')))"

record zone_detachment =
  zd_ann :: int
  zd_node :: int
  zd_zone :: int
  zd_synthetic :: prefix4
  zd_reclaimed :: bool

definition AttachmentsForNode :: "env \<Rightarrow> int \<Rightarrow> db \<Rightarrow> (store_error, zone_detachment list) result" where
  "AttachmentsForNode e nid d =
     (if db_fault e ''list node attachments'' nid then Inl (ErrWrapped ''list node attachments'')
      else Inr [\<lparr>zd_ann = a_id a, zd_node = nid, zd_zone = az_zone x,
                 zd_synthetic = block_prefix (ann_synthetic a), zd_reclaimed = False\<rparr>.
                 x \<leftarrow> announcement_zones d,
                 a \<leftarrow> announcements d, a_id a = az_ann x \<and> a_node a = nid])"

fun reclaim_loop ::
  "env \<Rightarrow> zone_detachment list \<Rightarrow> db \<Rightarrow> (store_error, zone_detachment list \<times> db) result" where
  "reclaim_loop e [] d = Inr ([], d)"
| "reclaim_loop e (x # xs) d =
     (case reclaimIfOrphaned e (zd_ann x) d of
        Inl err \<Rightarrow> Inl err
      | Inr (reclaimed, d1) \<Rightarrow>
          (case reclaim_loop e xs d1 of
             Inl err \<Rightarrow> Inl err
           | Inr (out, d2) \<Rightarrow> Inr (x\<lparr>zd_reclaimed := reclaimed\<rparr> # out, d2)))"

definition zone_dets :: "db \<Rightarrow> int \<Rightarrow> zone_detachment list" where
  "zone_dets d zid =
     map (\<lambda>a. \<lparr>zd_ann = a_id a, zd_node = a_node a, zd_zone = zid,
                zd_synthetic = block_prefix (ann_synthetic a), zd_reclaimed = False\<rparr>)
       (zone_anns d zid)"

definition DetachAllForZone ::
  "env \<Rightarrow> int \<Rightarrow> db \<Rightarrow> (store_error, zone_detachment list) result \<times> db" where
  "DetachAllForZone e zid d =
     (if db_fault e ''begin zone-detach tx'' 0 then (Inl (ErrWrapped ''begin zone-detach tx''), d)
      else if db_fault e ''list zone attachments'' zid
      then (Inl (ErrWrapped ''list zone attachments''), d)
      else
        (if db_fault e ''detach zone'' zid then (Inl (ErrWrapped ''detach zone''), d)
         else case reclaim_loop e (zone_dets d zid)
                (d\<lparr>announcement_zones := filter (\<lambda>x. az_zone x \<noteq> zid) (announcement_zones d)\<rparr>) of
             Inl err \<Rightarrow> (Inl err, d)
           | Inr (out, d') \<Rightarrow>
               if db_fault e ''commit zone-detach'' 0
               then (Inl (ErrWrapped ''commit zone-detach''), d)
               else (Inr out, d')))"

section \<open>Lemmas\<close>

subsection \<open>What detaching should do\<close>

text \<open>
  The specification of all detaching operations: some attachments go, and with them every
  announcement left without one.
\<close>

definition drop_attachments :: "(az_row \<Rightarrow> bool) \<Rightarrow> db \<Rightarrow> db" where
  "drop_attachments P d =
     (let keep = filter (\<lambda>x. \<not> P x) (announcement_zones d)
      in d\<lparr>announcement_zones := keep,
           announcements := filter (\<lambda>a. a_id a \<in> az_ann ` set keep) (announcements d)\<rparr>)"

lemma drop_attachments_sel [frame_simps]:
  "users (drop_attachments P d) = users d" "invites (drop_attachments P d) = invites d"
  "nodes (drop_attachments P d) = nodes d" "zones (drop_attachments P d) = zones d"
  "zone_members (drop_attachments P d) = zone_members d"
  "refresh_tokens (drop_attachments P d) = refresh_tokens d"
  "announcement_zones (drop_attachments P d) = filter (\<lambda>x. \<not> P x) (announcement_zones d)"
  "announcements (drop_attachments P d) =
     filter (\<lambda>a. a_id a \<in> az_ann ` {x \<in> set (announcement_zones d). \<not> P x}) (announcements d)"
  "user_seq (drop_attachments P d) = user_seq d" "invite_seq (drop_attachments P d) = invite_seq d"
  "node_seq (drop_attachments P d) = node_seq d" "zone_seq (drop_attachments P d) = zone_seq d"
  "token_seq (drop_attachments P d) = token_seq d" "ann_seq (drop_attachments P d) = ann_seq d"
  by (simp_all add: drop_attachments_def Let_def)

lemma is_member_drop [simp]: "is_member (drop_attachments P d) = is_member d"
  by (simp add: is_member_def frame_simps fun_eq_iff)

lemma no_orphans_iff:
  "no_orphans d \<longleftrightarrow> a_id ` set (announcements d) \<subseteq> az_ann ` set (announcement_zones d)"
  by (auto simp: no_orphans_def orphan_def)

lemma drop_no_orphans [simp]: "no_orphans (drop_attachments P d)"
  by (auto simp: no_orphans_iff frame_simps)

lemma drop_compose:
  "drop_attachments Q (drop_attachments P d) = drop_attachments (\<lambda>x. P x \<or> Q x) d"
  by (rule db.equality) (auto simp: frame_simps intro!: filter_cong)

lemma drop_nothing:
  "no_orphans d \<Longrightarrow> (\<And>x. x \<in> set (announcement_zones d) \<Longrightarrow> \<not> P x) \<Longrightarrow> drop_attachments P d = d"
proof -
  assume no: "no_orphans d" and P: "\<And>x. x \<in> set (announcement_zones d) \<Longrightarrow> \<not> P x"
  from P have "{x \<in> set (announcement_zones d). \<not> P x} = set (announcement_zones d)" by blast
  moreover from P have "filter (\<lambda>x. \<not> P x) (announcement_zones d) = announcement_zones d"
    by (simp add: filter_id_conv)
  moreover from no have "filter (\<lambda>a. a_id a \<in> az_ann ` set (announcement_zones d)) (announcements d)
      = announcements d"
    by (auto simp: filter_id_conv no_orphans_iff)
  ultimately show ?thesis by (intro db.equality) (simp_all add: frame_simps)
qed

lemma uniq_ok_drop: "uniq_ok d \<Longrightarrow> uniq_ok (drop_attachments P d)"
  by (simp add: uniq_ok_def frame_simps)

lemma drop_attachments_ok [table_ok]:
  assumes "schema_ok d"
  shows "schema_ok (drop_attachments P d)"
proof -
  let ?d = "drop_attachments P d"
  have has: "has_user ?d = has_user d" "has_node ?d = has_node d" "has_zone ?d = has_zone d"
    by (simp_all add: has_defs frame_simps fun_eq_iff)
  have ann: "has_ann ?d (az_ann x)" if "x \<in> set (announcement_zones ?d)" for x
  proof -
    from that have x: "x \<in> set (announcement_zones d)" "\<not> P x" by (simp_all add: frame_simps)
    with assms obtain a where "a \<in> set (announcements d)" "az_ann x = a_id a"
      by (auto simp: schema_ok_def fk_ok_def has_ann_def)
    moreover from x have "az_ann x \<in> az_ann ` {x \<in> set (announcement_zones d). \<not> P x}" by blast
    ultimately have "az_ann x = a_id a \<and> a \<in> set (announcements ?d)" by (simp add: frame_simps)
    then show ?thesis by (simp add: has_ann_def)
  qed
  from assms have "uniq_ok ?d" by (simp add: schema_ok_def uniq_ok_drop)
  moreover from assms have "seq_ok ?d" by (simp add: schema_ok_def seq_ok_def frame_simps)
  moreover from assms ann have "fk_ok ?d"
    unfolding schema_ok_def fk_ok_def has by (auto simp: frame_simps)
  ultimately show ?thesis by (simp add: schema_ok_def)
qed

lemma reclaim_after_detach:
  assumes "no_orphans d" and "reclaimIfOrphaned e aid (detach_row aid zid d) = Inr (r, d1)"
  shows "d1 = drop_attachments (\<lambda>x. az_ann x = aid \<and> az_zone x = zid) d \<and>
    (r \<longleftrightarrow> aid \<notin> az_ann ` set (announcement_zones d1))"
proof -
  let ?P = "\<lambda>x. az_ann x = aid \<and> az_zone x = zid"
  let ?d = "detach_row aid zid d"
  let ?keep = "filter (\<lambda>x. \<not> ?P x) (announcement_zones d)"
  have az: "announcement_zones ?d = ?keep" by (simp add: detach_row_def)
  have ids: "a_id ` set (announcements d) \<subseteq> insert aid (az_ann ` set ?keep)"
    using assms(1) by (auto simp: no_orphans_iff)
  show ?thesis
  proof (cases "aid \<in> az_ann ` set ?keep")
    case True
    then have "0 < length (filter (\<lambda>x. az_ann x = aid) ?keep)"
      by (auto simp: filter_empty_conv simp del: filter_filter)
    with assms(2) have "r = False" "d1 = ?d"
      by (auto simp: reclaimIfOrphaned_def az split: if_splits)
    moreover have "?d = drop_attachments ?P d"
    proof (rule db.equality)
      have "a_id a \<in> az_ann ` set ?keep" if "a \<in> set (announcements d)" for a
        using that ids True by blast
      then show "announcements ?d = announcements (drop_attachments ?P d)"
        by (simp add: detach_row_def drop_attachments_def Let_def filter_id_conv)
    qed (simp_all add: detach_row_def frame_simps)
    ultimately show ?thesis using True by (simp add: frame_simps)
  next
    case False
    then have none: "filter (\<lambda>x. az_ann x = aid) ?keep = []"
      by (auto simp: filter_empty_conv simp del: filter_filter)
    with assms(2) have "r = True" "d1 = delete_announcements (\<lambda>a. a_id a = aid) ?d"
      by (auto simp: reclaimIfOrphaned_def az split: if_splits)
    moreover have "delete_announcements (\<lambda>a. a_id a = aid) ?d = drop_attachments ?P d"
    proof (rule db.equality)
      have "a_id a \<in> az_ann ` set ?keep \<longleftrightarrow> a_id a \<noteq> aid" if "a \<in> set (announcements d)" for a
        using that ids False by blast
      then show "announcements (delete_announcements (\<lambda>a. a_id a = aid) ?d) =
          announcements (drop_attachments ?P d)"
        by (simp add: detach_row_def frame_simps drop_attachments_def Let_def cong: filter_cong)
      have "az_ann x \<noteq> aid" if "x \<in> set ?keep" for x using that False by blast
      then show "announcement_zones (delete_announcements (\<lambda>a. a_id a = aid) ?d) =
          announcement_zones (drop_attachments ?P d)"
        unfolding delete_announcements_sel drop_attachments_sel az filter_filter
        by (intro filter_cong refl) auto
    qed (simp_all add: detach_row_def frame_simps)
    ultimately show ?thesis using False by (simp add: frame_simps)
  qed
qed


lemma az_eta [simp]: "\<lparr>az_ann = az_ann x, az_zone = az_zone x\<rparr> = (x :: az_row)"
  by simp

lemma Detach_cases:
  assumes "schema_ok d" and "no_orphans d" and "Detach e zid aid d = (res, d')"
  shows "case res of
      Inl err \<Rightarrow> d' = d \<and> (quiet e \<longrightarrow> err = ErrAnnouncementNotFound \<and>
        \<lparr>az_ann = aid, az_zone = zid\<rparr> \<notin> set (announcement_zones d))
    | Inr (ann, reclaimed) \<Rightarrow>
        \<lparr>az_ann = aid, az_zone = zid\<rparr> \<in> set (announcement_zones d) \<and>
        d' = drop_attachments (\<lambda>x. az_ann x = aid \<and> az_zone x = zid) d \<and>
        (reclaimed \<longleftrightarrow> \<not> has_ann d' aid) \<and> AnnID ann = aid"
proof -
  let ?P = "\<lambda>x. az_ann x = aid \<and> az_zone x = zid"
  have ex: "list_ex ?P (announcement_zones d) \<longleftrightarrow> \<lparr>az_ann = aid, az_zone = zid\<rparr> \<in> set (announcement_zones d)"
    by (force simp: list_ex_iff)
  have known: "has_ann d aid" if "\<lparr>az_ann = aid, az_zone = zid\<rparr> \<in> set (announcement_zones d)"
    using assms(1) that by (force simp: schema_ok_def fk_ok_def)
  show ?thesis
  proof (cases res)
    case (Inl err)
    have "d' = d"
      using assms(3) Inl by (auto simp: Detach_def split: if_splits sum.splits prod.splits)
    moreover have "err = ErrAnnouncementNotFound \<and> \<lparr>az_ann = aid, az_zone = zid\<rparr> \<notin> set (announcement_zones d)"
      if "quiet e"
    proof -
      have nf: "db_fault e l i = False" for l i using that by (simp add: quiet_def)
      show ?thesis
      proof (cases "find (\<lambda>a. a_id a = aid) (announcements d)")
        case None
        then have "\<not> has_ann d aid" by (auto simp: has_ann_def find_None_all)
        with None assms(3) Inl known show ?thesis
          by (auto simp: Detach_def GetAnnouncement_def nf)
      next
        case (Some a)
        with assms(3) Inl ex show ?thesis
          by (auto simp: Detach_def GetAnnouncement_def reclaimIfOrphaned_def nf split: if_splits)
      qed
    qed
    ultimately show ?thesis using Inl by simp
  next
    case (Inr x)
    obtain ann reclaimed where x: "x = (ann, reclaimed)" by fastforce
    from assms(3) Inr x have get: "GetAnnouncement e aid d = Inr ann"
      and rec: "reclaimIfOrphaned e aid (detach_row aid zid d) = Inr (reclaimed, d')"
      and att: "list_ex ?P (announcement_zones d)"
      by (auto simp: Detach_def split: if_splits sum.splits prod.splits)
    from reclaim_after_detach [OF assms(2) rec] have d': "d' = drop_attachments ?P d"
      and r: "reclaimed \<longleftrightarrow> aid \<notin> az_ann ` set (announcement_zones d')" by blast+
    from get have "AnnID ann = aid"
      by (auto simp: GetAnnouncement_def ann_of_row_def announcementFromRow_def
          split: if_splits option.splits dest: find_Some_mem)
    moreover have "has_ann d' aid \<longleftrightarrow> aid \<in> az_ann ` set (announcement_zones d')"
      using known [OF att [unfolded ex]] by (auto simp: d' has_ann_def frame_simps)
    ultimately show ?thesis using Inr x d' r att [unfolded ex] by simp
  qed
qed

text \<open>
  \<^verbatim>\<open>Detach\<close> removes the one attachment it is asked to remove, and with the last attachment the
  announcement itself, which it then reports as reclaimed; without that attachment it answers
  \<^verbatim>\<open>ErrAnnouncementNotFound\<close>; on every error the database is unchanged.
\<close>

lemma Detach_refines_drop:
  assumes "schema_ok d" and "no_orphans d" and "Detach e zid aid d = (res, d')"
  shows "case res of
      Inl err \<Rightarrow> d' = d \<and> (quiet e \<longrightarrow> err = ErrAnnouncementNotFound \<and>
        \<lparr>az_ann = aid, az_zone = zid\<rparr> \<notin> set (announcement_zones d))
    | Inr (ann, reclaimed) \<Rightarrow>
        \<lparr>az_ann = aid, az_zone = zid\<rparr> \<in> set (announcement_zones d) \<and>
        d' = drop_attachments (\<lambda>x. az_ann x = aid \<and> az_zone x = zid) d \<and>
        (reclaimed \<longleftrightarrow> \<not> has_ann d' aid) \<and> AnnID ann = aid"
  by (rule Detach_cases [OF assms])

lemma Detach_refines_drop_example:
  "announcements (snd (Detach (calm 50) 1 1 demo_db)) = [] \<and>
   (case fst (Detach (calm 50) 2 1 demo_db) of Inl err \<Rightarrow> err = ErrAnnouncementNotFound | Inr _ \<Rightarrow> False)"
proof -
  have no: "no_orphans demo_db" by (simp add: no_orphans_iff demo_db_def empty_db_def)
  have az: "announcement_zones demo_db = [\<lparr>az_ann = 1, az_zone = 1\<rparr>]"
    by (simp add: demo_db_def empty_db_def)
  from Detach_refines_drop [OF demo_db_ok no prod.collapse [symmetric], of "calm 50" 1 1]
    Detach_refines_drop [OF demo_db_ok no prod.collapse [symmetric], of "calm 50" 2 1]
  moreover have "announcements (drop_attachments (\<lambda>x. az_ann x = 1 \<and> az_zone x = 1) demo_db) = []"
    by (simp add: drop_attachments_def az)
  ultimately show ?thesis by (auto simp: az split: sum.splits)
qed

subsection \<open>Detaching a node from a zone, and a zone\<close>

lemma detach_loop_spec:
  "detach_loop e zid as d = Inr (out, d') \<Longrightarrow> no_orphans d \<Longrightarrow>
     d' = drop_attachments (\<lambda>x. az_zone x = zid \<and> az_ann x \<in> a_id ` set as) d \<and>
     map dr_ann out = map a_id as \<and> map dr_synthetic out = map (block_prefix \<circ> ann_synthetic) as \<and>
     (\<forall>r \<in> set out. dr_reclaimed r \<longleftrightarrow> dr_ann r \<notin> az_ann ` set (announcement_zones d'))"
proof (induction e zid as d arbitrary: out d' rule: detach_loop.induct)
  case (1 e zid d)
  then show ?case by (simp add: drop_nothing)
next
  case (2 e zid a as d)
  from "2.prems"(1) obtain r d1 out' where
    nf: "\<not> db_fault e ''detach'' (a_id a)" and
    rec: "reclaimIfOrphaned e (a_id a) (detach_row (a_id a) zid d) = Inr (r, d1)" and
    loop: "detach_loop e zid as d1 = Inr (out', d')" and
    out: "out = \<lparr>dr_ann = a_id a, dr_synthetic = block_prefix (ann_synthetic a), dr_reclaimed = r\<rparr> # out'"
    by (auto split: if_splits sum.splits)
  let ?P = "\<lambda>x. az_ann x = a_id a \<and> az_zone x = zid"
  let ?Q = "\<lambda>x. az_zone x = zid \<and> az_ann x \<in> a_id ` set as"
  from reclaim_after_detach [OF "2.prems"(2) rec] have d1: "d1 = drop_attachments ?P d"
    and r: "r \<longleftrightarrow> a_id a \<notin> az_ann ` set (announcement_zones d1)" by blast+
  have "no_orphans d1" by (simp add: d1)
  from "2.IH" [OF nf rec refl loop this] have IH: "d' = drop_attachments ?Q d1"
    "map dr_ann out' = map a_id as" "map dr_synthetic out' = map (block_prefix \<circ> ann_synthetic) as"
    "\<forall>r \<in> set out'. dr_reclaimed r \<longleftrightarrow> dr_ann r \<notin> az_ann ` set (announcement_zones d')"
    by blast+
  have PQ: "(\<lambda>x. ?P x \<or> ?Q x) = (\<lambda>x. az_zone x = zid \<and> az_ann x \<in> a_id ` set (a # as))"
    by auto
  have d': "d' = drop_attachments (\<lambda>x. az_zone x = zid \<and> az_ann x \<in> a_id ` set (a # as)) d"
    unfolding IH(1) d1 drop_compose PQ ..
  have "a_id a \<in> az_ann ` set (announcement_zones d1) \<longleftrightarrow> a_id a \<in> az_ann ` set (announcement_zones d')"
    unfolding d1 d' by (auto simp: frame_simps image_iff)
  with IH r d' show ?case by (simp add: out)
qed

lemma reclaimIfOrphaned_Inr:
  "reclaimIfOrphaned e aid d = Inr (r, d1) \<Longrightarrow>
     (r \<longleftrightarrow> aid \<notin> az_ann ` set (announcement_zones d)) \<and>
     d1 = (if r then delete_announcements (\<lambda>a. a_id a = aid) d else d)"
  by (auto simp: reclaimIfOrphaned_def filter_empty_conv split: if_splits)

lemma reclaim_loop_spec:
  "reclaim_loop e dets d = Inr (out, d') \<Longrightarrow>
     d' = d\<lparr>announcements := filter (\<lambda>a. a_id a \<in> az_ann ` set (announcement_zones d) \<or>
              a_id a \<notin> zd_ann ` set dets) (announcements d)\<rparr> \<and>
     out = map (\<lambda>x. x\<lparr>zd_reclaimed := zd_ann x \<notin> az_ann ` set (announcement_zones d)\<rparr>) dets"
proof (induction e dets d arbitrary: out d' rule: reclaim_loop.induct)
  case (1 e d)
  then show ?case by simp
next
  case (2 e x xs d)
  from "2.prems" obtain r d1 out' where
    rec: "reclaimIfOrphaned e (zd_ann x) d = Inr (r, d1)" and
    loop: "reclaim_loop e xs d1 = Inr (out', d')" and
    out: "out = x\<lparr>zd_reclaimed := r\<rparr> # out'"
    by (auto split: sum.splits)
  from reclaimIfOrphaned_Inr [OF rec] have r: "r \<longleftrightarrow> zd_ann x \<notin> az_ann ` set (announcement_zones d)"
    and d1: "d1 = (if r then delete_announcements (\<lambda>a. a_id a = zd_ann x) d else d)" by blast+
  have "az_ann y \<noteq> zd_ann x" if r "y \<in> set (announcement_zones d)" for y
    using that r by force
  then have az: "announcement_zones d1 = announcement_zones d"
    by (auto simp: d1 frame_simps filter_id_conv)
  have an: "announcements d1 = filter (\<lambda>a. a_id a \<in> az_ann ` set (announcement_zones d) \<or> a_id a \<noteq> zd_ann x)
      (announcements d)"
  proof (cases r)
    case True
    with r have "a_id a \<in> az_ann ` set (announcement_zones d) \<or> a_id a \<noteq> zd_ann x \<longleftrightarrow> a_id a \<noteq> zd_ann x"
      for a :: ann_row by metis
    with True show ?thesis by (simp add: d1 frame_simps)
  next
    case False
    with r have "a_id a \<in> az_ann ` set (announcement_zones d) \<or> a_id a \<noteq> zd_ann x"
      for a :: ann_row by metis
    with False show ?thesis by (simp add: d1)
  qed
  have rest: "d1 = d\<lparr>announcements := announcements d1\<rparr>"
    using az by (intro db.equality) (simp_all add: d1 frame_simps)
  from "2.IH" [OF rec refl loop] have d': "d' = d1\<lparr>announcements := filter (\<lambda>a.
        a_id a \<in> az_ann ` set (announcement_zones d) \<or> a_id a \<notin> zd_ann ` set xs) (announcements d1)\<rparr>"
    and out': "out' = map (\<lambda>x. x\<lparr>zd_reclaimed := zd_ann x \<notin> az_ann ` set (announcement_zones d)\<rparr>) xs"
    unfolding az by blast+
  have "d' = d\<lparr>announcements := filter (\<lambda>a. a_id a \<in> az_ann ` set (announcement_zones d) \<or>
              a_id a \<notin> zd_ann ` set (x # xs)) (announcements d)\<rparr>"
    unfolding d' an filter_filter
    by (subst rest) (auto intro!: arg_cong [where f = "\<lambda>as. d\<lparr>announcements := as\<rparr>"] filter_cong)
  with out out' r show ?case by simp
qed


lemma set_zone_anns:
  "set (zone_anns d zid) = {a \<in> set (announcements d).
     \<exists>x \<in> set (announcement_zones d). az_zone x = zid \<and> a_id a = az_ann x}"
  by (auto simp: zone_anns_def)

definition node_zone_attachment :: "db \<Rightarrow> int \<Rightarrow> int \<Rightarrow> az_row \<Rightarrow> bool" where
  "node_zone_attachment d nid zid x =
     (az_zone x = zid \<and> az_ann x \<in> a_id ` {a \<in> set (announcements d). a_node a = nid})"

lemma detach_loop_total:
  assumes "quiet e"
  shows "\<exists>out d2. detach_loop e zid as d = Inr (out, d2)"
proof (induction as arbitrary: d)
  case (Cons a as)
  have nf: "db_fault e l i = False" for l i using assms by (simp add: quiet_def)
  have "\<exists>r d2. reclaimIfOrphaned e i dd = Inr (r, d2)" for i dd
    by (auto simp: reclaimIfOrphaned_def nf)
  then obtain r d2 where "reclaimIfOrphaned e (a_id a) (detach_row (a_id a) zid d) = Inr (r, d2)"
    by blast
  moreover from Cons obtain out d3 where "detach_loop e zid as d2 = Inr (out, d3)" by blast
  ultimately show ?case by (simp add: nf)
qed simp

lemma node_zone_anns_ids:
  "a_id ` set (node_zone_anns d nid zid) =
     az_ann ` {x \<in> set (announcement_zones d). node_zone_attachment d nid zid x}"
proof -
  have "set (node_zone_anns d nid zid) = {a \<in> set (announcements d). a_node a = nid \<and>
      (\<exists>x \<in> set (announcement_zones d). az_zone x = zid \<and> a_id a = az_ann x)}"
    by (auto simp: node_zone_anns_def set_zone_anns)
  then have mem: "a \<in> set (node_zone_anns d nid zid) \<longleftrightarrow> a \<in> set (announcements d) \<and> a_node a = nid \<and>
      (\<exists>x \<in> set (announcement_zones d). az_zone x = zid \<and> a_id a = az_ann x)" for a by blast
  show ?thesis
  proof (intro equalityI subsetI)
    fix i assume "i \<in> a_id ` set (node_zone_anns d nid zid)"
    then obtain a where a: "a \<in> set (node_zone_anns d nid zid)" "i = a_id a" by blast
    then obtain x where x: "x \<in> set (announcement_zones d)" "az_zone x = zid" "a_id a = az_ann x"
      unfolding mem by blast
    from a have "a \<in> {a \<in> set (announcements d). a_node a = nid}" unfolding mem by blast
    then have "az_ann x \<in> a_id ` {a \<in> set (announcements d). a_node a = nid}"
      unfolding x(3) [symmetric] by (rule imageI)
    with x have "x \<in> {x \<in> set (announcement_zones d). node_zone_attachment d nid zid x}"
      by (simp add: node_zone_attachment_def)
    with a(2) x(3) show "i \<in> az_ann ` {x \<in> set (announcement_zones d). node_zone_attachment d nid zid x}"
      by (simp only:) (rule imageI)
  next
    fix i assume "i \<in> az_ann ` {x \<in> set (announcement_zones d). node_zone_attachment d nid zid x}"
    then obtain x a where x: "x \<in> set (announcement_zones d)" "az_zone x = zid" "i = az_ann x"
      and a: "a \<in> set (announcements d)" "a_node a = nid" "a_id a = az_ann x"
      unfolding node_zone_attachment_def by fastforce
    then have "a \<in> set (node_zone_anns d nid zid)" unfolding mem by blast
    then show "i \<in> a_id ` set (node_zone_anns d nid zid)"
      unfolding x(3) a(3) [symmetric] by (rule imageI)
  qed
qed

lemma node_zone_attachment_iff:
  assumes "x \<in> set (announcement_zones d)"
  shows "az_zone x = zid \<and> az_ann x \<in> a_id ` set (node_zone_anns d nid zid) \<longleftrightarrow>
    node_zone_attachment d nid zid x"
  using assms unfolding node_zone_anns_ids node_zone_attachment_def by (auto simp: image_iff)

lemma DetachAllForNodeZone_quiet:
  assumes "quiet e"
  shows "\<exists>out. fst (DetachAllForNodeZone e nid zid d) = Inr out"
proof -
  obtain out d2 where "detach_loop e zid (node_zone_anns d nid zid) d = Inr (out, d2)"
    using detach_loop_total [OF assms] by blast
  then show ?thesis using assms by (simp add: DetachAllForNodeZone_def quiet_def)
qed

lemma DetachAllForNodeZone_success:
  assumes "no_orphans d" and "DetachAllForNodeZone e nid zid d = (Inr out, d')"
  shows "d' = drop_attachments (node_zone_attachment d nid zid) d \<and>
    map dr_ann out = map a_id (node_zone_anns d nid zid) \<and>
    map dr_synthetic out = map (block_prefix \<circ> ann_synthetic) (node_zone_anns d nid zid) \<and>
    (\<forall>r \<in> set out. dr_reclaimed r \<longleftrightarrow> dr_ann r \<notin> az_ann ` set (announcement_zones d'))"
proof -
  let ?recs = "node_zone_anns d nid zid"
  from assms(2) have loop: "detach_loop e zid ?recs d = Inr (out, d')"
    by (simp add: DetachAllForNodeZone_def split: if_splits sum.splits prod.splits)
  note spec = detach_loop_spec [OF loop assms(1)]
  have "filter (\<lambda>x. \<not> (az_zone x = zid \<and> az_ann x \<in> a_id ` set ?recs)) (announcement_zones d) =
      filter (\<lambda>x. \<not> node_zone_attachment d nid zid x) (announcement_zones d)"
    using node_zone_attachment_iff by (intro filter_cong refl) blast
  with spec have "d' = drop_attachments (node_zone_attachment d nid zid) d"
    unfolding drop_attachments_def by (simp only:)
  with spec show ?thesis by blast
qed

text \<open>
  When a node leaves a zone or is kicked from it, \<^verbatim>\<open>DetachAllForNodeZone\<close> removes exactly its
  attachments to that zone, with every announcement left without one, and returns each detached
  route with a flag that says truly whether the announcement is gone; on an error nothing changes.
\<close>

lemma DetachAllForNodeZone_refines_drop:
  assumes "no_orphans d" and "DetachAllForNodeZone e nid zid d = (res, d')"
  shows "case res of
      Inl err \<Rightarrow> d' = d \<and> \<not> quiet e
    | Inr out \<Rightarrow> d' = drop_attachments (node_zone_attachment d nid zid) d \<and>
        dr_ann ` set out = az_ann ` {x \<in> set (announcement_zones d). node_zone_attachment d nid zid x} \<and>
        (\<forall>r \<in> set out. dr_reclaimed r \<longleftrightarrow> dr_ann r \<notin> az_ann ` set (announcement_zones d'))"
proof (cases res)
  case (Inl err)
  have "\<not> quiet e"
    using DetachAllForNodeZone_quiet [of e nid zid d] assms(2) Inl by auto
  moreover from assms(2) Inl have "d' = d"
    by (simp add: DetachAllForNodeZone_def split: if_splits sum.splits prod.splits)
  ultimately show ?thesis using Inl by simp
next
  case (Inr out)
  with assms have "DetachAllForNodeZone e nid zid d = (Inr out, d')" by simp
  note spec = DetachAllForNodeZone_success [OF assms(1) this]
  then have "dr_ann ` set out = a_id ` set (node_zone_anns d nid zid)" by (metis list.set_map)
  with spec show ?thesis using Inr by (simp add: node_zone_anns_ids)
qed

lemma DetachAllForNodeZone_refines_drop_example:
  "announcements (snd (DetachAllForNodeZone (calm 50) 1 1 demo_db)) = [] \<and>
   announcements (snd (DetachAllForNodeZone (calm 50) 2 1 demo_db)) = announcements demo_db"
proof -
  have no: "no_orphans demo_db" by (simp add: no_orphans_iff demo_db_def empty_db_def)
  have az: "announcement_zones demo_db = [\<lparr>az_ann = 1, az_zone = 1\<rparr>]"
    by (simp add: demo_db_def empty_db_def)
  have an: "a_id ` {a \<in> set (announcements demo_db). a_node a = 1} = {1}"
      "a_id ` {a \<in> set (announcements demo_db). a_node a = 2} = {}"
    by (simp_all add: demo_db_def empty_db_def Collect_conv_if)
  have one: "announcements (drop_attachments (node_zone_attachment demo_db 1 1) demo_db) = []"
    unfolding drop_attachments_def node_zone_attachment_def an az by simp
  have two: "drop_attachments (node_zone_attachment demo_db 2 1) demo_db = demo_db"
    by (rule drop_nothing [OF no]) (simp add: node_zone_attachment_def an)
  have q: "\<exists>out. fst (DetachAllForNodeZone (calm 50) n 1 demo_db) = Inr out" for n
    using DetachAllForNodeZone_refines_drop [OF no prod.collapse [symmetric], of "calm 50" n 1]
    by (auto split: sum.splits)
  show ?thesis
    using DetachAllForNodeZone_refines_drop [OF no prod.collapse [symmetric], of "calm 50" 1 1]
      DetachAllForNodeZone_refines_drop [OF no prod.collapse [symmetric], of "calm 50" 2 1]
      q [of 1] q [of 2] one two by (auto simp only: sum.case)
qed

lemma DetachAllForZone_success:
  assumes "schema_ok d" and "no_orphans d" and "DetachAllForZone e zid d = (Inr out, d')"
  shows "d' = drop_attachments (\<lambda>x. az_zone x = zid) d \<and>
    (\<forall>x \<in> set out. zd_zone x = zid \<and>
       (zd_reclaimed x \<longleftrightarrow> zd_ann x \<notin> az_ann ` set (announcement_zones d')))"
proof -
  define dets where "dets = zone_dets d zid"
  define keep where "keep = filter (\<lambda>x. az_zone x \<noteq> zid) (announcement_zones d)"
  from assms(3) have loop: "reclaim_loop e dets (d\<lparr>announcement_zones := keep\<rparr>) = Inr (out, d')"
    by (auto simp: DetachAllForZone_def dets_def keep_def
        split: if_splits sum.splits)
  have ids: "zd_ann ` set dets = {az_ann x | x. x \<in> set (announcement_zones d) \<and> az_zone x = zid}"
  proof -
    have "zd_ann ` set dets = a_id ` set (zone_anns d zid)"
      by (simp add: dets_def zone_dets_def image_image)
    then have "i \<in> zd_ann ` set dets \<longleftrightarrow> (\<exists>a \<in> set (announcements d).
        (\<exists>x \<in> set (announcement_zones d). az_zone x = zid \<and> a_id a = az_ann x) \<and> i = a_id a)" for i
      by (auto simp: set_zone_anns)
    moreover have "\<exists>a \<in> set (announcements d). a_id a = az_ann x" if "x \<in> set (announcement_zones d)" for x
      using assms(1) that by (force simp: schema_ok_def fk_ok_def has_ann_def)
    ultimately show ?thesis by (intro set_eqI) (simp only: mem_Collect_eq, metis)
  qed
  from reclaim_loop_spec [OF loop] have
    d': "d' = d\<lparr>announcement_zones := keep, announcements := filter (\<lambda>a. a_id a \<in> az_ann ` set keep \<or>
              a_id a \<notin> zd_ann ` set dets) (announcements d)\<rparr>"
    and out: "out = map (\<lambda>x. x\<lparr>zd_reclaimed := zd_ann x \<notin> az_ann ` set keep\<rparr>) dets"
    by simp_all
  have "a_id a \<in> az_ann ` set keep \<or> a_id a \<notin> zd_ann ` set dets \<longleftrightarrow> a_id a \<in> az_ann ` set keep"
    if "a \<in> set (announcements d)" for a
  proof -
    from that assms(2) obtain x where "x \<in> set (announcement_zones d)" "a_id a = az_ann x"
      by (auto simp: no_orphans_iff)
    then show ?thesis unfolding ids keep_def by auto
  qed
  then have "d' = drop_attachments (\<lambda>x. az_zone x = zid) d"
    unfolding d' drop_attachments_def Let_def keep_def [symmetric] by (simp cong: filter_cong)
  moreover have "announcement_zones d' = keep" by (simp add: d')
  moreover have "\<forall>x \<in> set dets. zd_zone x = zid" by (auto simp: dets_def zone_dets_def)
  ultimately show ?thesis by (auto simp: out)
qed

text \<open>
  Deleting a zone the way the handler does, detaching first: no announcement is left without a
  zone, whose synthetic block nothing would ever free; the announcements that remain are exactly
  those attached to another zone, and the reclaimed flags say which ones went.
\<close>

lemma DetachAllForZone_then_delete:
  assumes "schema_ok d" and "no_orphans d" and "DetachAllForZone e1 zid d = (Inr out, d1)"
    and "DeleteZoneRow e2 zid d1 = (None, d2)"
  shows "schema_ok d2 \<and> no_orphans d2 \<and> \<not> has_zone d2 zid \<and>
    announcement_zones d2 = filter (\<lambda>x. az_zone x \<noteq> zid) (announcement_zones d) \<and>
    announcements d2 = filter (\<lambda>a. \<exists>x \<in> set (announcement_zones d). az_ann x = a_id a \<and> az_zone x \<noteq> zid)
      (announcements d) \<and>
    (\<forall>x \<in> set out. zd_reclaimed x \<longleftrightarrow> zd_ann x \<notin> a_id ` set (announcements d2))"
proof -
  from DetachAllForZone_success [OF assms(1-3)] have
    d1: "d1 = drop_attachments (\<lambda>x. az_zone x = zid) d"
    and out: "\<forall>x \<in> set out. zd_reclaimed x \<longleftrightarrow> zd_ann x \<notin> az_ann ` set (announcement_zones d1)"
    by blast+
  have d2: "d2 = delete_zones (\<lambda>z. z_id z = zid) d1"
    using assms(4) by (simp add: DeleteZoneRow_def split: if_splits)
  have az1: "announcement_zones d1 = filter (\<lambda>x. az_zone x \<noteq> zid) (announcement_zones d)"
    by (simp add: d1 frame_simps)
  have "az_zone x \<noteq> zid" if "x \<in> set (announcement_zones d1)" for x using that az1 by simp
  then have az: "announcement_zones d2 = announcement_zones d1"
    by (auto simp: d2 frame_simps filter_id_conv)
  have an: "announcements d2 = announcements d1" by (simp add: d2 frame_simps)
  have ok: "schema_ok d2" unfolding d2 d1 by (intro delete_zones_ok drop_attachments_ok assms(1))
  have no: "no_orphans d2"
    using drop_no_orphans [of "\<lambda>x. az_zone x = zid" d] unfolding no_orphans_iff az an d1 .
  have "az_ann ` set (announcement_zones d2) = a_id ` set (announcements d2)"
    using ok no by (auto simp: schema_ok_def fk_ok_def has_ann_def no_orphans_iff)
  with out az have "\<forall>x \<in> set out. zd_reclaimed x \<longleftrightarrow> zd_ann x \<notin> a_id ` set (announcements d2)"
    by simp
  moreover have "announcements d1 = filter (\<lambda>a. \<exists>x \<in> set (announcement_zones d). az_ann x = a_id a \<and>
      az_zone x \<noteq> zid) (announcements d)"
    unfolding d1 drop_attachments_sel by (intro filter_cong refl) (auto simp: image_iff)
  moreover have "\<not> has_zone d2 zid" by (auto simp: d2 has_zone_def frame_simps)
  ultimately show ?thesis using ok no az an az1 by simp
qed

lemma DetachAllForZone_then_delete_example:
  "announcements (snd (DeleteZoneRow (calm 51) 1 (snd (DetachAllForZone (calm 50) 1 demo_db)))) = []"
proof -
  have no: "no_orphans demo_db" by (simp add: no_orphans_iff demo_db_def empty_db_def)
  have az: "announcement_zones demo_db = [\<lparr>az_ann = 1, az_zone = 1\<rparr>]"
    by (simp add: demo_db_def empty_db_def)
  have "\<exists>out d1. DetachAllForZone (calm 50) 1 demo_db = (Inr out, d1)"
    by (simp add: DetachAllForZone_def zone_dets_def zone_anns_def reclaimIfOrphaned_def demo_db_def
        empty_db_def)
  then obtain out d1 where det: "DetachAllForZone (calm 50) 1 demo_db = (Inr out, d1)" by blast
  have del: "DeleteZoneRow (calm 51) 1 d1 = (None, snd (DeleteZoneRow (calm 51) 1 d1))"
    by (simp add: DeleteZoneRow_def)
  from DetachAllForZone_then_delete [OF demo_db_ok no det del] det show ?thesis by (simp add: az)
qed

subsection \<open>Announcing\<close>

text \<open>
  The address plan: every synthetic block is an aligned block of the pool, no two of them share an
  address, and the real subnets one node announces are disjoint.
\<close>

definition ann_plan :: "prefix4 \<Rightarrow> db \<Rightarrow> bool" where
  "ann_plan pool d =
     ((\<forall>a \<in> set (announcements d). aligned (ann_synthetic a) \<and>
         block_addrs (ann_synthetic a) \<subseteq> block_addrs (BlockFromPrefix pool)) \<and>
      (\<forall>a \<in> set (announcements d). \<forall>b \<in> set (announcements d). a \<noteq> b \<longrightarrow>
         \<not> Overlaps (ann_synthetic a) (ann_synthetic b) \<and>
         (a_node a = a_node b \<longrightarrow> \<not> Overlaps (ann_real a) (ann_real b))))"

text \<open>Only members announce: a node's announcement is attached to zones the node is in.\<close>

definition attached_members :: "db \<Rightarrow> bool" where
  "attached_members d =
     (\<forall>x \<in> set (announcement_zones d). \<forall>a \<in> set (announcements d).
        a_id a = az_ann x \<longrightarrow> is_member d (az_zone x) (a_node a))"

definition ann_inv :: "prefix4 \<Rightarrow> db \<Rightarrow> bool" where
  "ann_inv pool d = (schema_ok d \<and> no_orphans d \<and> ann_plan pool d \<and> attached_members d)"

lemma ann_plan_subset:
  "ann_plan pool d \<Longrightarrow> set (announcements d') \<subseteq> set (announcements d) \<Longrightarrow> ann_plan pool d'"
  unfolding ann_plan_def by blast

lemma attached_members_drop: "attached_members d \<Longrightarrow> attached_members (drop_attachments P d)"
  unfolding attached_members_def is_member_drop drop_attachments_sel set_filter by blast

lemma ann_plan_drop: "ann_plan pool d \<Longrightarrow> ann_plan pool (drop_attachments P d)"
  by (erule ann_plan_subset) (simp add: drop_attachments_sel)

lemma ann_inv_drop [table_ok]: "ann_inv pool d \<Longrightarrow> ann_inv pool (drop_attachments P d)"
  by (simp add: ann_inv_def attached_members_drop ann_plan_drop drop_attachments_ok)

lemma CreateAnnouncement_Inl:
  "CreateAnnouncement e uid nid real zid limit pool d = (Inl err, d') \<Longrightarrow> d' = d"
  by (simp add: CreateAnnouncement_def attach_known_def announce_new_def insert_and_attach_def
      split: if_splits option.splits sum.splits prod.splits alloc_error.splits)

text \<open>The two ways to succeed.\<close>

definition attached_known ::
  "int \<Rightarrow> block \<Rightarrow> int \<Rightarrow> db \<Rightarrow> announcement \<Rightarrow> bool \<Rightarrow> db \<Rightarrow> bool" where
  "attached_known nid real zid d ann fresh d' =
     (\<exists>a \<in> set (announcements d). a_node a = nid \<and> ann_real a = real \<and> ann = ann_of_row a \<and>
        has_zone d zid \<and> (fresh \<longleftrightarrow> \<lparr>az_ann = a_id a, az_zone = zid\<rparr> \<notin> set (announcement_zones d)) \<and>
        d' = (if fresh then d\<lparr>announcement_zones :=
                announcement_zones d @ [\<lparr>az_ann = a_id a, az_zone = zid\<rparr>]\<rparr> else d))"

definition announced ::
  "env \<Rightarrow> int \<Rightarrow> int \<Rightarrow> block \<Rightarrow> int \<Rightarrow> int \<Rightarrow> netip_prefix \<Rightarrow> db \<Rightarrow> announcement \<Rightarrow> db \<Rightarrow> bool" where
  "announced e uid nid real zid limit pool d ann d' =
     (\<exists>a synth. AllocateBlock pool (PrefixLen real) (map ann_synthetic (announcements d)) = Inr synth \<and>
        a = \<lparr>a_id = ann_seq d + 1, a_node = nid, a_real_base = Base real,
             a_prefix_len = PrefixLen real, a_synthetic_base = Base synth, a_created_at = now e\<rparr> \<and>
        (\<forall>b \<in> set (announcements d). a_node b = nid \<longrightarrow> \<not> Overlaps real (ann_real b)) \<and>
        (0 < limit \<longrightarrow> int (length (user_anns uid d)) < limit) \<and>
        has_node d nid \<and> has_zone d zid \<and> ann = ann_of_row a \<and>
        d' = d\<lparr>announcements := announcements d @ [a], ann_seq := ann_seq d + 1,
               announcement_zones := announcement_zones d @ [\<lparr>az_ann = a_id a, az_zone = zid\<rparr>]\<rparr>)"

lemma attach_zone_Inr:
  "attach_zone e aid zid d = Inr (b, d') \<Longrightarrow> has_ann d aid \<Longrightarrow> schema_ok d \<Longrightarrow>
     has_zone d zid \<and> (b \<longleftrightarrow> \<lparr>az_ann = aid, az_zone = zid\<rparr> \<notin> set (announcement_zones d)) \<and>
     d' = (if b then d\<lparr>announcement_zones := announcement_zones d @ [\<lparr>az_ann = aid, az_zone = zid\<rparr>]\<rparr>
           else d)"
  by (auto simp: attach_zone_def Let_def schema_ok_def fk_ok_def split: if_splits)

lemma attach_known_Inr:
  assumes "attach_known e a real zid d = (Inr (ann, fresh), d')" and "schema_ok d"
    and "a \<in> set (announcements d)" and "ann_real a = real"
  shows "attached_known (a_node a) real zid d ann fresh d'"
proof -
  from assms(1) have at: "attach_zone e (a_id a) zid d = Inr (fresh, d')"
    and ann: "ann = announcementFromRow (a_id a) (a_node a) real (a_synthetic_base a) (a_created_at a)"
    by (simp_all add: attach_known_def split: sum.splits if_splits prod.splits)
  have "has_ann d (a_id a)" using assms(3) by (simp add: has_ann_def)
  from attach_zone_Inr [OF at this assms(2)] assms(3,4) ann show ?thesis
    unfolding attached_known_def ann_of_row_def by blast
qed

lemma insert_and_attach_Inr:
  assumes "insert_and_attach e nid real synth zid d = (Inr (ann, fresh), d')" and "schema_ok d"
    and "PrefixLen synth = PrefixLen real"
  shows "fresh \<and> has_node d nid \<and> has_zone d zid \<and> schema_ok d' \<and>
    (\<exists>a. a = \<lparr>a_id = ann_seq d + 1, a_node = nid, a_real_base = Base real,
             a_prefix_len = PrefixLen real, a_synthetic_base = Base synth, a_created_at = now e\<rparr> \<and>
       ann = ann_of_row a \<and>
       d' = d\<lparr>announcements := announcements d @ [a], ann_seq := ann_seq d + 1,
               announcement_zones := announcement_zones d @ [\<lparr>az_ann = a_id a, az_zone = zid\<rparr>]\<rparr>)"
proof -
  from assms(1) obtain a d1 b where
    ins: "insert_announcement e nid real (Base synth) d = Inr (a, d1)" and
    at: "attach_zone e (a_id a) zid d1 = Inr (b, d')" and
    res: "ann = announcementFromRow (a_id a) nid real (Base synth) (now e)" "fresh"
    by (auto simp: insert_and_attach_def split: sum.splits if_splits)
  from ins have a: "a = \<lparr>a_id = ann_seq d + 1, a_node = nid, a_real_base = Base real,
             a_prefix_len = PrefixLen real, a_synthetic_base = Base synth, a_created_at = now e\<rparr>"
    and d1: "d1 = d\<lparr>announcements := announcements d @ [a], ann_seq := ann_seq d + 1\<rparr>"
    and node: "has_node d nid"
    by (simp_all add: insert_announcement_def checked_insert_Inr Let_def)
  have ok1: "schema_ok d1" by (rule insert_announcement_ok [OF ins assms(2)])
  have "\<lparr>az_ann = a_id a, az_zone = zid\<rparr> \<notin> set (announcement_zones d)"
  proof
    assume "\<lparr>az_ann = a_id a, az_zone = zid\<rparr> \<in> set (announcement_zones d)"
    then have "has_ann d (a_id a)" using assms(2) by (force simp: schema_ok_def fk_ok_def)
    then have "a_id a \<le> ann_seq d" using assms(2) by (auto simp: has_ann_def schema_ok_def seq_ok_def)
    then show False by (simp add: a)
  qed
  moreover have "has_ann d1 (a_id a)" by (simp add: d1 has_ann_def)
  ultimately have "has_zone d1 zid"
    "d' = d1\<lparr>announcement_zones := announcement_zones d1 @ [\<lparr>az_ann = a_id a, az_zone = zid\<rparr>]\<rparr>"
    using attach_zone_Inr [OF at _ ok1] by (auto simp: d1)
  moreover have "has_zone d1 zid = has_zone d zid" by (simp add: d1 has_zone_def)
  moreover have "ann = ann_of_row a"
    by (simp add: res a ann_of_row_def ann_real_def announcementFromRow_def)
  ultimately show ?thesis using res(2) node a d1 attach_zone_ok [OF at ok1] by simp
qed

lemma AllocateBlock_len: "AllocateBlock pool plen used = Inr b \<Longrightarrow> PrefixLen b = plen"
  by (auto simp: AllocateBlock_def Let_def split: netip_prefix.splits if_splits
      dest!: alloc_loop_len)

lemma announce_new_Inr:
  assumes "announce_new e uid nid real zid limit pool d = (Inr (ann, fresh), d')" and "schema_ok d"
  shows "fresh \<and> announced e uid nid real zid limit pool d ann d' \<and> schema_ok d'"
proof -
  from assms(1) obtain synth where
    dis: "\<forall>b \<in> set (announcements d). a_node b = nid \<longrightarrow> \<not> Overlaps real (ann_real b)" and
    quo: "quota_check e uid limit d = None" and
    al: "AllocateBlock pool (PrefixLen real) (map ann_synthetic (announcements d)) = Inr synth" and
    ins: "insert_and_attach e nid real synth zid d = (Inr (ann, fresh), d')"
    by (simp add: announce_new_def list_ex_iff split: if_splits option.splits sum.splits
        alloc_error.splits)
  from quo have "0 < limit \<longrightarrow> int (length (user_anns uid d)) < limit"
    by (simp add: quota_check_def split: if_splits)
  with dis al insert_and_attach_Inr [OF ins assms(2) AllocateBlock_len [OF al]] show ?thesis
    unfolding announced_def by blast
qed

lemma CreateAnnouncement_Inr:
  assumes "CreateAnnouncement e uid nid real zid limit pool d = (Inr (ann, fresh), d')" and "schema_ok d"
  shows "is_member d zid nid \<and> schema_ok d' \<and>
    (attached_known nid real zid d ann fresh d' \<or>
     fresh \<and> announced e uid nid real zid limit pool d ann d')"
proof -
  let ?f = "find (\<lambda>a. a_node a = nid \<and> a_real_base a = Base real \<and> a_prefix_len a = PrefixLen real)
      (announcements d)"
  from assms(1) have mem: "is_member d zid nid"
    and res: "(case ?f of Some a \<Rightarrow> attach_known e a real zid d
        | None \<Rightarrow> announce_new e uid nid real zid limit pool d) = (Inr (ann, fresh), d')"
    by (simp_all add: CreateAnnouncement_def split: if_splits)
  show ?thesis
  proof (cases ?f)
    case None
    with res have "announce_new e uid nid real zid limit pool d = (Inr (ann, fresh), d')" by simp
    from announce_new_Inr [OF this assms(2)] mem show ?thesis by simp
  next
    case (Some a)
    from find_Some_mem [OF Some] have a: "a \<in> set (announcements d)" "a_node a = nid" "ann_real a = real"
      by (simp_all add: ann_real_def)
    from res Some have k: "attach_known e a real zid d = (Inr (ann, fresh), d')" by simp
    then obtain b where "attach_zone e (a_id a) zid d = Inr (b, d')"
      by (simp add: attach_known_def split: sum.splits if_splits prod.splits)
    with attach_zone_ok [OF this assms(2)] mem attach_known_Inr [OF k assms(2) a(1,3)] a(2)
    show ?thesis by simp
  qed
qed

lemma attached_known_inv:
  assumes "attached_known nid real zid d ann fresh d'" and "is_member d zid nid" and "ann_inv pool d"
    and "schema_ok d'"
  shows "ann_inv pool d'"
proof (cases fresh)
  case False
  with assms show ?thesis by (auto simp: attached_known_def)
next
  case True
  with assms(1) obtain a where a: "a \<in> set (announcements d)" "a_node a = nid"
    and d': "d' = d\<lparr>announcement_zones := announcement_zones d @ [\<lparr>az_ann = a_id a, az_zone = zid\<rparr>]\<rparr>"
    unfolding attached_known_def by (simp only: if_True) blast
  have ids: "distinct (map a_id (announcements d))" and att: "attached_members d"
    and no: "no_orphans d" and plan: "ann_plan pool d"
    using assms(3) by (simp_all add: ann_inv_def schema_ok_def uniq_ok_def)
  have mem: "is_member d' = is_member d" by (simp add: d' is_member_def fun_eq_iff)
  have "is_member d (az_zone x) (a_node b)"
    if "x \<in> set (announcement_zones d')" "b \<in> set (announcements d')" "a_id b = az_ann x" for x b
  proof (cases "x \<in> set (announcement_zones d)")
    case True
    with that att show ?thesis by (simp add: d' attached_members_def)
  next
    case False
    with that(1) have x: "x = \<lparr>az_ann = a_id a, az_zone = zid\<rparr>" by (simp add: d')
    with that(2,3) have "b = a" by (intro distinct_map_eqD [OF ids _ a(1)]) (simp_all add: d')
    with a(2) x assms(2) show ?thesis by simp
  qed
  then have "attached_members d'" unfolding attached_members_def mem by blast
  moreover have "no_orphans d'" using no by (auto simp: d' no_orphans_iff)
  moreover have "ann_plan pool d'" using plan by (rule ann_plan_subset) (simp add: d')
  ultimately show ?thesis using assms(4) by (simp add: ann_inv_def)
qed

lemma announced_inv:
  assumes "announced e uid nid real zid limit (P4 p) d ann d'" and "is_member d zid nid"
    and "ann_inv p d" and "schema_ok d'" and "PBits p \<le> 32"
  shows "ann_inv p d'"
proof -
  from assms(1) obtain a synth where
    al: "AllocateBlock (P4 p) (PrefixLen real) (map ann_synthetic (announcements d)) = Inr synth" and
    a: "a = \<lparr>a_id = ann_seq d + 1, a_node = nid, a_real_base = Base real,
             a_prefix_len = PrefixLen real, a_synthetic_base = Base synth, a_created_at = now e\<rparr>" and
    dis: "\<forall>b \<in> set (announcements d). a_node b = nid \<longrightarrow> \<not> Overlaps real (ann_real b)" and
    d': "d' = d\<lparr>announcements := announcements d @ [a], ann_seq := ann_seq d + 1,
               announcement_zones := announcement_zones d @ [\<lparr>az_ann = a_id a, az_zone = zid\<rparr>]\<rparr>"
    unfolding announced_def by blast
  from AllocateBlock_sound [OF al assms(5)] have fit: "fits_pool p (PrefixLen real)
      (map ann_synthetic (announcements d)) synth" by blast
  have synth: "ann_synthetic a = synth" "ann_real a = real" "a_node a = nid"
    using AllocateBlock_len [OF al] by (simp_all add: a ann_synthetic_def ann_real_def)
  have seq: "a_id c \<le> ann_seq d" if "c \<in> set (announcements d)" for c
    using assms(3) that by (simp add: ann_inv_def schema_ok_def seq_ok_def)
  have fresh: "a_id b \<noteq> a_id a" if "b \<in> set (announcements d)" for b
    using seq [OF that] by (simp add: a)
  have fresh_az: "az_ann x \<noteq> a_id a" if "x \<in> set (announcement_zones d)" for x
  proof -
    have "has_ann d (az_ann x)" using assms(3) that by (simp add: ann_inv_def schema_ok_def fk_ok_def)
    then obtain c where "c \<in> set (announcements d)" "az_ann x = a_id c" by (auto simp: has_ann_def)
    with fresh show ?thesis by simp
  qed
  have att: "attached_members d" and no: "no_orphans d" and plan: "ann_plan p d"
    using assms(3) by (simp_all add: ann_inv_def)
  have "ann_plan p d'"
    using plan fit dis
    by (simp add: ann_plan_def fits_pool_def d' synth) (metis Overlaps_sym)
  moreover have "no_orphans d'" using no by (auto simp: d' no_orphans_iff)
  moreover have "attached_members d'"
  proof -
    have mem: "is_member d' = is_member d" by (simp add: d' is_member_def fun_eq_iff)
    have "is_member d (az_zone x) (a_node b)"
      if "x \<in> set (announcement_zones d')" "b \<in> set (announcements d')" "a_id b = az_ann x" for x b
    proof (cases "b = a")
      case True
      with that fresh_az [of x] have "x = \<lparr>az_ann = a_id a, az_zone = zid\<rparr>" by (auto simp: d')
      then show ?thesis using assms(2) True synth by simp
    next
      case False
      then have b: "b \<in> set (announcements d)" using that(2) by (simp add: d')
      with fresh [OF b] that have "x \<in> set (announcement_zones d)" by (auto simp: d')
      with b att that(3) show ?thesis by (simp add: attached_members_def)
    qed
    then show ?thesis unfolding attached_members_def mem by blast
  qed
  ultimately show ?thesis using assms(4) by (simp add: ann_inv_def)
qed

text \<open>
  C12: announcing keeps the address plan: whatever statement fails, after \<^verbatim>\<open>Create\<close> every synthetic
  block still is an aligned block of the pool that shares no address with another, a node's real
  subnets are disjoint, every announcement has a zone, and its node is a member of its zones.
\<close>

theorem CreateAnnouncement_keeps_plan:
  assumes "ann_inv p d" and "PBits p \<le> 32"
  shows "ann_inv p (snd (CreateAnnouncement e uid nid real zid limit (P4 p) d))"
proof (cases "fst (CreateAnnouncement e uid nid real zid limit (P4 p) d)")
  case (Inl err)
  with CreateAnnouncement_Inl [of e uid nid real zid limit "P4 p" d err] assms(1) show ?thesis
    by (metis prod.collapse)
next
  case (Inr x)
  then obtain ann fresh d' where c: "CreateAnnouncement e uid nid real zid limit (P4 p) d = (Inr (ann, fresh), d')"
    by (metis prod.collapse)
  have ok: "schema_ok d" using assms(1) by (simp add: ann_inv_def)
  from CreateAnnouncement_Inr [OF c ok] attached_known_inv [OF _ _ assms(1)]
    announced_inv [OF _ _ assms(1) _ assms(2)] show ?thesis unfolding c snd_conv by blast
qed

lemma demo_inv: "ann_inv (Prefix4 0x64600000 12) demo_db"
proof -
  have "ann_plan (Prefix4 0x64600000 12) demo_db"
    by (simp add: ann_plan_def demo_db_def empty_db_def ann_synthetic_def aligned_def block_size_def
        block_addrs_def Masked_def mask_eq_exp_minus_1)
  moreover have "attached_members demo_db" "no_orphans demo_db"
    by (simp_all add: attached_members_def is_member_def no_orphans_iff demo_db_def empty_db_def)
  ultimately show ?thesis by (simp add: ann_inv_def)
qed

theorem CreateAnnouncement_keeps_plan_witness:
  "ann_inv (Prefix4 0x64600000 12)
     (snd (CreateAnnouncement (calm 80) 2 2 \<lparr>Base = 0xC0A80100, PrefixLen = 24\<rparr> 1 4
        (P4 (Prefix4 0x64600000 12)) demo_db))"
  by (rule CreateAnnouncement_keeps_plan [OF demo_inv]) simp

lemma length_filter_unique:
  "distinct (map f xs) \<Longrightarrow> (\<And>x. x \<in> set xs \<Longrightarrow> P x \<Longrightarrow> f x = k) \<Longrightarrow> length (filter P xs) \<le> 1"
proof -
  assume d: "distinct (map f xs)" and k: "\<And>x. x \<in> set xs \<Longrightarrow> P x \<Longrightarrow> f x = k"
  have "card (set (map f (filter P xs))) \<le> card {k}" using k by (intro card_mono) auto
  moreover have "distinct (map f (filter P xs))" using d by simp
  ultimately show ?thesis using distinct_card [of "map f (filter P xs)"] by simp
qed

lemma user_anns_snoc:
  assumes "schema_ok d"
  shows "length (user_anns uid (d\<lparr>announcements := announcements d @ [a], ann_seq := s,
      announcement_zones := z\<rparr>)) \<le> length (user_anns uid d) + 1"
proof -
  have "length (concat (map (\<lambda>n. if n_id n = a_node a \<and> n_user_id n = uid then [a] else []) ns)) =
      length (filter (\<lambda>n. n_id n = a_node a \<and> n_user_id n = uid) ns)" for ns :: "node_row list"
    by (induction ns) simp_all
  moreover have "length (filter (\<lambda>n. n_id n = a_node a \<and> n_user_id n = uid) (nodes d)) \<le> 1"
    using assms by (intro length_filter_unique [where f = n_id and k = "a_node a"])
      (simp_all add: schema_ok_def uniq_ok_def)
  ultimately show ?thesis by (simp add: user_anns_def)
qed

text \<open>
  The quota. A successful call of \<^verbatim>\<open>Create\<close> with a positive limit either re-uses an announcement,
  adding none, or leaves the user with at most \<^verbatim>\<open>limit\<close> announcements.
\<close>

lemma CreateAnnouncement_quota:
  assumes "schema_ok d" and "0 < limit"
    and "CreateAnnouncement e uid nid real zid limit pool d = (Inr (ann, fresh), d')"
  shows "announcements d' = announcements d \<or> int (length (user_anns uid d')) \<le> limit"
proof -
  from CreateAnnouncement_Inr [OF assms(3,1)] consider "attached_known nid real zid d ann fresh d'"
    | "announced e uid nid real zid limit pool d ann d'" by blast
  then show ?thesis
  proof cases
    case 1
    then show ?thesis by (auto simp: attached_known_def split: if_splits)
  next
    case 2
    then obtain a where "d' = d\<lparr>announcements := announcements d @ [a], ann_seq := ann_seq d + 1,
        announcement_zones := announcement_zones d @ [\<lparr>az_ann = a_id a, az_zone = zid\<rparr>]\<rparr>"
      and "int (length (user_anns uid d)) < limit"
      using assms(2) unfolding announced_def by blast
    with user_anns_snoc [OF assms(1), where uid = uid and a = a and s = "ann_seq d + 1" and
        z = "announcement_zones d @ [\<lparr>az_ann = a_id a, az_zone = zid\<rparr>]"] show ?thesis by simp
  qed
qed

lemma demo_real_free:
  "\<forall>a \<in> set (announcements demo_db). \<not> (a_node a = 2)" "is_member demo_db 1 2"
  "is_member demo_db 1 1" "user_anns 1 demo_db = announcements demo_db" "user_anns 2 demo_db = []"
  by (simp_all add: demo_db_def empty_db_def is_member_def user_anns_def)

lemma CreateAnnouncement_quota_example:
  "\<exists>ann d'. CreateAnnouncement (calm 80) 1 1 \<lparr>Base = 0xC0A80100, PrefixLen = 24\<rparr> 1 1
      (P4 (Prefix4 0x64600000 12)) demo_db = (Inr (ann, False), d') \<and> announcements d' = announcements demo_db"
proof -
  have "\<exists>ann d'. CreateAnnouncement (calm 80) 1 1 \<lparr>Base = 0xC0A80100, PrefixLen = 24\<rparr> 1 1
      (P4 (Prefix4 0x64600000 12)) demo_db = (Inr (ann, False), d') \<and> length (announcements d') = 1"
    by (simp add: CreateAnnouncement_def attach_known_def attach_zone_def is_member_def
        demo_db_def empty_db_def)
  then obtain ann d' where c: "CreateAnnouncement (calm 80) 1 1 \<lparr>Base = 0xC0A80100, PrefixLen = 24\<rparr> 1 1
      (P4 (Prefix4 0x64600000 12)) demo_db = (Inr (ann, False), d')" by blast
  have "d' = demo_db"
    using c by (simp add: CreateAnnouncement_def attach_known_def attach_zone_def is_member_def
        demo_db_def empty_db_def)
  with CreateAnnouncement_quota [OF demo_db_ok _ c] c show ?thesis by auto
qed

lemma insert_and_attach_quiet:
  assumes "schema_ok d" and "quiet e" and "has_zone d zid" and "has_node d nid"
    and "\<not> (\<exists>a \<in> set (announcements d). a_node a = nid \<and> ann_real a = real)"
    and "\<forall>a \<in> set (announcements d). \<not> Overlaps synth (ann_synthetic a)"
    and "PrefixLen synth = PrefixLen real"
  shows "\<exists>ann d'. insert_and_attach e nid real synth zid d = (Inr (ann, True), d')"
proof -
  have nf: "db_fault e l i = False" for l i using assms(2) by (simp add: quiet_def)
  have u1: "(nid, Base real, PrefixLen real)
      \<notin> (\<lambda>a. (a_node a, a_real_base a, a_prefix_len a)) ` set (announcements d)"
    using assms(5) by (auto simp: ann_real_def)
  have u2: "(Base synth, PrefixLen real) \<notin> (\<lambda>a. (a_synthetic_base a, a_prefix_len a)) ` set (announcements d)"
  proof
    assume "(Base synth, PrefixLen real) \<in> (\<lambda>a. (a_synthetic_base a, a_prefix_len a)) ` set (announcements d)"
    then obtain a where "a \<in> set (announcements d)" "ann_synthetic a = synth"
      using assms(7) by (auto simp: ann_synthetic_def)
    with assms(6) show False by auto
  qed
  obtain a d1 where ins: "insert_announcement e nid real (Base synth) d = Inr (a, d1)"
    and d1: "d1 = d\<lparr>announcements := announcements d @ [a], ann_seq := a_id a\<rparr>"
    using u1 u2 assms(4) by (simp add: insert_announcement_def checked_insert_def nf Let_def)
  have "\<exists>b d2. attach_zone e (a_id a) zid d1 = Inr (b, d2)"
    using assms(3) by (auto simp: attach_zone_def nf d1 has_ann_def has_zone_def Let_def)
  with ins show ?thesis by (auto simp: insert_and_attach_def nf)
qed

lemma announce_new_quiet:
  assumes "schema_ok d" and "quiet e" and "has_zone d zid" and "has_node d nid"
    and "\<not> (\<exists>a \<in> set (announcements d). a_node a = nid \<and> ann_real a = real)"
    and "PBits p \<le> 32" and "PBits p \<le> PrefixLen real" and "PrefixLen real \<le> 32"
    and "announce_new e uid nid real zid limit (P4 p) d = (r, d')"
    and ov: "ov = (\<exists>a \<in> set (announcements d). a_node a = nid \<and> Overlaps real (ann_real a))"
  shows "if ov then
      r = Inl ErrSubnetOverlap \<and> d' = d
    else if 0 < limit \<and> limit \<le> int (length (user_anns uid d)) then
      r = Inl ErrAnnounceLimit \<and> d' = d
    else if \<not> (\<exists>b. fits_pool p (PrefixLen real) (map ann_synthetic (announcements d)) b) then
      r = Inl ErrSyntheticPoolExhausted \<and> d' = d
    else \<exists>ann. r = Inr (ann, True) \<and> announced e uid nid real zid limit (P4 p) d ann d' \<and>
      fits_pool p (PrefixLen real) (map ann_synthetic (announcements d)) (Synthetic ann)"
proof -
  have nf: "db_fault e l i = False" for l i using assms(2) by (simp add: quiet_def)
  let ?used = "map ann_synthetic (announcements d)"
  have N: "announce_new e uid nid real zid limit (P4 p) d =
      (if ov then (Inl ErrSubnetOverlap, d)
       else if 0 < limit \<and> limit \<le> int (length (user_anns uid d)) then (Inl ErrAnnounceLimit, d)
       else case AllocateBlock (P4 p) (PrefixLen real) ?used of
           Inl ErrNoSpace \<Rightarrow> (Inl ErrSyntheticPoolExhausted, d)
         | Inl _ \<Rightarrow> (Inl (ErrWrapped ''allocate synthetic block''), d)
         | Inr synthetic \<Rightarrow> insert_and_attach e nid real synthetic zid d)"
  proof -
    have "list_ex (\<lambda>b. Overlaps real b) (map ann_real (filter (\<lambda>a. a_node a = nid) (announcements d))) = ov"
      by (auto simp: list_ex_iff ov)
    then show ?thesis
      unfolding announce_new_def quota_check_def nf by (cases ov) simp_all
  qed
  show ?thesis
  proof (cases "ov \<or> 0 < limit \<and> limit \<le> int (length (user_anns uid d))")
    case True
    with N assms(9) show ?thesis by auto
  next
    case False
    show ?thesis
    proof (cases "AllocateBlock (P4 p) (PrefixLen real) ?used")
      case (Inl err)
      then have "err = ErrNoSpace" using assms(7,8)
        by (auto simp: AllocateBlock_def Let_def dest: alloc_loop_err split: if_splits)
      with Inl AllocateBlock_complete [OF assms(6), of "PrefixLen real" ?used]
      have "\<not> (\<exists>b. fits_pool p (PrefixLen real) ?used b)" by simp
      with Inl N False assms(9) \<open>err = ErrNoSpace\<close> show ?thesis by auto
    next
      case (Inr synth)
      from AllocateBlock_sound [OF Inr assms(6)] have fit: "fits_pool p (PrefixLen real) ?used synth"
        by blast
      then have free: "\<forall>a \<in> set (announcements d). \<not> Overlaps synth (ann_synthetic a)"
        and ln: "PrefixLen synth = PrefixLen real" by (simp_all add: fits_pool_def)
      from insert_and_attach_quiet [OF assms(1-5) free ln] obtain ann d2 where
        ins: "insert_and_attach e nid real synth zid d = (Inr (ann, True), d2)" by blast
      have rd: "r = Inr (ann, True)" "d' = d2" using Inr N False assms(9) ins by auto
      from insert_and_attach_Inr [OF ins assms(1) ln] ln have "Synthetic ann = synth"
        by (auto simp: ann_of_row_def announcementFromRow_def ann_real_def)
      moreover from announce_new_Inr [OF assms(9) [unfolded rd] assms(1)]
      have "announced e uid nid real zid limit (P4 p) d ann d2" by blast
      ultimately show ?thesis using fit False rd by auto
    qed
  qed
qed

text \<open>
  Announcing, branch by branch, when no statement fails. A node outside the zone is refused;
  a subnet the node already announces keeps its announcement and its synthetic block, whatever the
  quota; otherwise an overlap with another subnet of the node, a reached quota and a pool without a
  free block of the length are refused, in this order and with the database unchanged; and
  otherwise the new announcement gets the first free block.
\<close>

lemma CreateAnnouncement_branches:
  assumes "ann_inv p d" and "quiet e" and "PBits p \<le> PrefixLen real" and "PrefixLen real \<le> 32"
    and "CreateAnnouncement e uid nid real zid limit (P4 p) d = (r, d')"
  shows "if \<not> is_member d zid nid then r = Inl ErrNotMember \<and> d' = d
    else if \<exists>a \<in> set (announcements d). a_node a = nid \<and> ann_real a = real then
      \<exists>ann fresh. r = Inr (ann, fresh) \<and> attached_known nid real zid d ann fresh d'
    else if \<exists>a \<in> set (announcements d). a_node a = nid \<and> Overlaps real (ann_real a) then
      r = Inl ErrSubnetOverlap \<and> d' = d
    else if 0 < limit \<and> limit \<le> int (length (user_anns uid d)) then
      r = Inl ErrAnnounceLimit \<and> d' = d
    else if \<not> (\<exists>b. fits_pool p (PrefixLen real) (map ann_synthetic (announcements d)) b) then
      r = Inl ErrSyntheticPoolExhausted \<and> d' = d
    else \<exists>ann. r = Inr (ann, True) \<and> announced e uid nid real zid limit (P4 p) d ann d' \<and>
      fits_pool p (PrefixLen real) (map ann_synthetic (announcements d)) (Synthetic ann)"
proof -
  have nf: "db_fault e l i = False" for l i using assms(2) by (simp add: quiet_def)
  have len: "PBits p \<le> 32" using assms(3,4) by simp
  have ok: "schema_ok d" using assms(1) by (simp add: ann_inv_def)
  let ?match = "\<lambda>a. a_node a = nid \<and> a_real_base a = Base real \<and> a_prefix_len a = PrefixLen real"
  have match: "?match a \<longleftrightarrow> a_node a = nid \<and> ann_real a = real" for a
    by (cases real) (auto simp: ann_real_def)
  let ?res = "CreateAnnouncement e uid nid real zid limit (P4 p) d"
  let ?used = "map ann_synthetic (announcements d)"
  have C: "?res = (if \<not> is_member d zid nid then (Inl ErrNotMember, d)
      else case find ?match (announcements d) of Some a \<Rightarrow> attach_known e a real zid d
        | None \<Rightarrow> announce_new e uid nid real zid limit (P4 p) d)"
    by (simp add: CreateAnnouncement_def nf)
  show ?thesis
  proof (cases "is_member d zid nid")
    case False
    with C assms(5) show ?thesis by simp
  next
    case mem: True
    then have fk: "has_zone d zid" "has_node d nid"
      using ok by (auto simp: is_member_def schema_ok_def fk_ok_def)
    show ?thesis
    proof (cases "find ?match (announcements d)")
      case (Some a)
      from find_Some_mem [OF Some] match have a: "a \<in> set (announcements d)" "a_node a = nid"
        "ann_real a = real" by auto
      have "\<exists>ann fresh d2. attach_known e a real zid d = (Inr (ann, fresh), d2)"
        using a(1) fk(1) by (auto simp: attach_known_def attach_zone_def nf Let_def has_ann_def)
      with C Some mem assms(5) have "\<exists>ann fresh. r = Inr (ann, fresh) \<and>
          attach_known e a real zid d = (Inr (ann, fresh), d')" by auto
      with attach_known_Inr [OF _ ok a(1,3)] a mem show ?thesis by auto
    next
      case None
      then have new: "\<not> (\<exists>a \<in> set (announcements d). a_node a = nid \<and> ann_real a = real)"
        by (auto simp: find_None_all match)
      have R: "announce_new e uid nid real zid limit (P4 p) d = (r, d')"
        using C None mem assms(5) by simp
      show ?thesis
        unfolding if_not_P [OF new]
        using announce_new_quiet [OF ok assms(2) fk new len assms(3,4) R refl] mem by (simp only: if_False not_True_eq_False)
    qed
  qed
qed

lemma CreateAnnouncement_branches_example:
  "fst (CreateAnnouncement (calm 80) 2 2 \<lparr>Base = 0xC0A80100, PrefixLen = 24\<rparr> 2 4
        (P4 (Prefix4 0x64600000 12)) demo_db) = Inl ErrNotMember \<and>
   fst (CreateAnnouncement (calm 80) 1 1 \<lparr>Base = 0xC0A80180, PrefixLen = 25\<rparr> 1 4
        (P4 (Prefix4 0x64600000 12)) demo_db) = Inl ErrSubnetOverlap \<and>
   fst (CreateAnnouncement (calm 80) 1 1 \<lparr>Base = 0xC0A80200, PrefixLen = 24\<rparr> 1 1
        (P4 (Prefix4 0x64600000 12)) demo_db) = Inl ErrAnnounceLimit"
proof -
  note B = CreateAnnouncement_branches [OF demo_inv quiet_calm _ _ prod.collapse [symmetric]]
  have anns: "announcements demo_db = [\<lparr>a_id = 1, a_node = 1, a_real_base = 0xC0A80100,
      a_prefix_len = 24, a_synthetic_base = 0x64600000, a_created_at = 40\<rparr>]"
    "\<not> is_member demo_db 2 2" "is_member demo_db 1 1"
    by (simp_all add: demo_db_def empty_db_def is_member_def)
  show ?thesis
    using B [where nid = 2 and uid = 2 and zid = 2 and limit = 4 and real = "\<lparr>Base = 0xC0A80100, PrefixLen = 24\<rparr>"]
      B [where nid = 1 and uid = 1 and zid = 1 and limit = 4 and real = "\<lparr>Base = 0xC0A80180, PrefixLen = 25\<rparr>"]
      B [where nid = 1 and uid = 1 and zid = 1 and limit = 1 and real = "\<lparr>Base = 0xC0A80200, PrefixLen = 24\<rparr>"]
    by (simp add: anns demo_real_free ann_real_def Overlaps_def block_size_def)
qed

end
