(* ===== verification/Netfw.thy ===== *)
theory Netfw
  imports Netip Ipam
begin

text \<open>
  \<^verbatim>\<open>internal/server/netfw/nftables.go\<close>: the isolation table of the relay. The library
  \<^verbatim>\<open>github.com/google/nftables\<close> and the kernel behind it are a parameter: a record of the operations
  the code calls, over an abstract kernel state. The values the code builds for it (expressions, set
  elements, the messages a connection queues) are datatypes with the parts the code fills in. What
  the code relies on is the predicate \<open>nft_contract\<close>: the documented transaction semantics of
  \<^verbatim>\<open>nft\<close> (a batch takes effect as a whole or not at all) and what each message means.
\<close>

section \<open>Definitions\<close>

subsection \<open>What the code hands to the library\<close>

text \<open>A register holds 4 bytes; payload loads and set keys are big-endian numbers.\<close>

datatype cmp_op = CmpOpEq | CmpOpNeq

datatype nft_expr =
    Meta_NFPROTO nat
  | Cmp cmp_op nat "32 word"
  | Payload_Network nat nat
  | Lookup nat string
  | Ct_State nat
  | Bitwise nat nat "32 word" "32 word"
  | Verdict_Accept

datatype set_elem = SetElement (Key: addr) (IntervalEnd: bool)

datatype nft_cmd =
    AddTable string
  | DelTable string
  | AddChain string string bool
  | AddRule string string "nft_expr list"
  | DelRule string string nat
  | AddSet string string bool "set_elem list"
  | DelSet string string
  | SetAddElements string string "set_elem list"
  | SetDeleteElements string string "set_elem list"

text \<open>
  The library: opening a connection, the queries (a table, a chain with its table, a rule with its
  handle, whether a set holds intervals), the checks made when a message is queued, and \<^verbatim>\<open>Flush\<close>.
\<close>

record 'k nft =
  nft_new :: "'k \<Rightarrow> string option"
  list_tables :: "'k \<Rightarrow> (string, string list) result"
  list_chains :: "'k \<Rightarrow> (string, (string \<times> string) list) result"
  get_rules :: "string \<Rightarrow> string \<Rightarrow> 'k \<Rightarrow> (string, (nat \<times> nft_expr list) list) result"
  get_set :: "string \<Rightarrow> string \<Rightarrow> 'k \<Rightarrow> (string, bool) result"
  encode_err :: "nft_cmd \<Rightarrow> string option"
  nft_flush :: "nft_cmd list \<Rightarrow> 'k \<Rightarrow> string option \<times> 'k"

subsection \<open>Names, elements and rules\<close>

definition zoneSetName :: "int \<Rightarrow> string" where
  "zoneSetName i = ''zone_'' @ show_int i"

definition routesSetName :: "int \<Rightarrow> string" where
  "routesSetName i = ''zone_'' @ show_int i @ ''_routes''"

definition ipElements :: "addr list \<Rightarrow> set_elem list" where
  "ipElements ips = map (\<lambda>ip. SetElement ip False) ips"

definition NFPROTO_IPV4 :: "32 word" where "NFPROTO_IPV4 = 2"
definition CtStateBits :: "32 word" where "CtStateBits = 2 OR 4"

definition sameZoneAcceptExprs :: "string \<Rightarrow> nft_expr list" where
  "sameZoneAcceptExprs set_name =
     [Meta_NFPROTO 1, Cmp CmpOpEq 1 NFPROTO_IPV4,
      Payload_Network 1 12, Lookup 1 set_name,
      Payload_Network 1 16, Lookup 1 set_name,
      Verdict_Accept]"

definition zoneRouteAcceptExprs :: "string \<Rightarrow> string \<Rightarrow> nft_expr list" where
  "zoneRouteAcceptExprs members routes =
     [Meta_NFPROTO 1, Cmp CmpOpEq 1 NFPROTO_IPV4,
      Payload_Network 1 12, Lookup 1 members,
      Payload_Network 1 16, Lookup 1 routes,
      Verdict_Accept]"

definition ctEstablishedAcceptExprs :: "nft_expr list" where
  "ctEstablishedAcceptExprs =
     [Ct_State 1, Bitwise 1 1 CtStateBits 0, Cmp CmpOpNeq 1 0, Verdict_Accept]"

definition rangeElements :: "prefix4 \<Rightarrow> set_elem list" where
  "rangeElements p =
     (let b = BlockFromPrefix p;
          endExclusive = unat (Base b) + block_size b;
          end_key = (if 0xFFFFFFFF < endExclusive then 0xFFFFFFFF else word_of_nat endExclusive)
      in [SetElement (Base b) False, SetElement end_key True])"

definition ruleReferencesSet :: "nft_expr list \<Rightarrow> string \<Rightarrow> bool" where
  "ruleReferencesSet es set_name =
     list_ex (\<lambda>x. case x of Lookup _ n \<Rightarrow> n = set_name | _ \<Rightarrow> False) es"

subsection \<open>The manager\<close>

text \<open>
  A zone as \<^verbatim>\<open>Rebuild\<close> gets it. \<^verbatim>\<open>queue\<close> models the calls that queue messages: the first one the
  library refuses ends the operation before anything is sent.
\<close>

record fw_zone =
  fz_ID :: int
  fz_MemberIPs :: "addr list"
  fz_RouteCIDRs :: "prefix4 list"

definition queue_and_flush ::
  "'k nft \<Rightarrow> string \<Rightarrow> nft_cmd list \<Rightarrow> 'k \<Rightarrow> string option \<times> 'k" where
  "queue_and_flush nft label cmds k =
     (case find (\<lambda>c. encode_err nft c \<noteq> None) cmds of
        Some _ \<Rightarrow> (Some label, k)
      | None \<Rightarrow>
          (case nft_flush nft cmds k of
             (Some _, k') \<Rightarrow> (Some label, k')
           | (None, k') \<Rightarrow> (None, k')))"

definition zone_cmds :: "string \<Rightarrow> fw_zone \<Rightarrow> nft_cmd list" where
  "zone_cmds table z =
     (let members = zoneSetName (fz_ID z); routes = routesSetName (fz_ID z)
      in [AddSet table members False (ipElements (fz_MemberIPs z)),
          AddRule table ''forward'' (sameZoneAcceptExprs members),
          AddSet table routes True []] @
         map (\<lambda>p. SetAddElements table routes (rangeElements p)) (fz_RouteCIDRs z) @
         [AddRule table ''forward'' (zoneRouteAcceptExprs members routes)])"

definition rebuild_cmds :: "string \<Rightarrow> fw_zone list \<Rightarrow> nft_cmd list" where
  "rebuild_cmds table zs =
     [AddTable table, AddChain table ''forward'' True,
      AddRule table ''forward'' ctEstablishedAcceptExprs] @
     concat (map (zone_cmds table) zs)"

definition Rebuild :: "'k nft \<Rightarrow> string \<Rightarrow> fw_zone list \<Rightarrow> 'k \<Rightarrow> string option \<times> 'k" where
  "Rebuild nft table zs k =
     (case nft_new nft k of
        Some _ \<Rightarrow> (Some ''open nftables'', k)
      | None \<Rightarrow>
          (case list_tables nft k of
             Inl _ \<Rightarrow> (Some ''list nftables tables'', k)
           | Inr ts \<Rightarrow>
               (case nft_flush nft (map DelTable (filter (\<lambda>t. t = table) ts)) k of
                  (Some _, k1) \<Rightarrow> (Some ''clear stale nftables table'', k1)
                | (None, k1) \<Rightarrow>
                    queue_and_flush nft ''build nftables table'' (rebuild_cmds table zs) k1)))"

definition tableAndChain :: "'k nft \<Rightarrow> string \<Rightarrow> 'k \<Rightarrow> (string, unit) result" where
  "tableAndChain nft table k =
     (case list_chains nft k of
        Inl _ \<Rightarrow> Inl ''list chains''
      | Inr cs \<Rightarrow>
          (case find (\<lambda>c. c = (table, ''forward'')) cs of
             None \<Rightarrow> Inl ''forward chain not found''
           | Some _ \<Rightarrow> Inr ()))"

definition AddZone :: "'k nft \<Rightarrow> string \<Rightarrow> int \<Rightarrow> 'k \<Rightarrow> string option \<times> 'k" where
  "AddZone nft table zid k =
     (case nft_new nft k of
        Some _ \<Rightarrow> (Some ''open nftables'', k)
      | None \<Rightarrow>
          (case tableAndChain nft table k of
             Inl err \<Rightarrow> (Some err, k)
           | Inr _ \<Rightarrow>
               queue_and_flush nft ''add zone''
                 [AddSet table (zoneSetName zid) False [],
                  AddRule table ''forward'' (sameZoneAcceptExprs (zoneSetName zid)),
                  AddSet table (routesSetName zid) True [],
                  AddRule table ''forward''
                    (zoneRouteAcceptExprs (zoneSetName zid) (routesSetName zid))] k))"

text \<open>The shape of the four operations on the elements of one set.\<close>

definition edit_set ::
  "'k nft \<Rightarrow> string \<Rightarrow> string \<Rightarrow> string \<Rightarrow> nft_cmd \<Rightarrow> 'k \<Rightarrow> string option \<times> 'k" where
  "edit_set nft table set_name label cmd k =
     (case nft_new nft k of
        Some _ \<Rightarrow> (Some ''open nftables'', k)
      | None \<Rightarrow>
          (case get_set nft table set_name k of
             Inl _ \<Rightarrow> (Some ''get set for zone'', k)
           | Inr _ \<Rightarrow> queue_and_flush nft label [cmd] k))"

definition AddZoneRoute :: "'k nft \<Rightarrow> string \<Rightarrow> int \<Rightarrow> prefix4 \<Rightarrow> 'k \<Rightarrow> string option \<times> 'k" where
  "AddZoneRoute nft table zid p k =
     edit_set nft table (routesSetName zid) ''add route''
       (SetAddElements table (routesSetName zid) (rangeElements p)) k"

definition RemoveZoneRoute :: "'k nft \<Rightarrow> string \<Rightarrow> int \<Rightarrow> prefix4 \<Rightarrow> 'k \<Rightarrow> string option \<times> 'k" where
  "RemoveZoneRoute nft table zid p k =
     edit_set nft table (routesSetName zid) ''remove route''
       (SetDeleteElements table (routesSetName zid) (rangeElements p)) k"

definition AddMember :: "'k nft \<Rightarrow> string \<Rightarrow> int \<Rightarrow> addr \<Rightarrow> 'k \<Rightarrow> string option \<times> 'k" where
  "AddMember nft table zid ip k =
     edit_set nft table (zoneSetName zid) ''add member''
       (SetAddElements table (zoneSetName zid) (ipElements [ip])) k"

definition RemoveMember :: "'k nft \<Rightarrow> string \<Rightarrow> int \<Rightarrow> addr \<Rightarrow> 'k \<Rightarrow> string option \<times> 'k" where
  "RemoveMember nft table zid ip k =
     edit_set nft table (zoneSetName zid) ''remove member''
       (SetDeleteElements table (zoneSetName zid) (ipElements [ip])) k"

text \<open>The second loop of \<^verbatim>\<open>DeleteZone\<close>: each set that is found is deleted by a flush of its own.\<close>

fun delete_sets :: "'k nft \<Rightarrow> string \<Rightarrow> string list \<Rightarrow> 'k \<Rightarrow> string option \<times> 'k" where
  "delete_sets nft table [] k = (None, k)"
| "delete_sets nft table (n # ns) k =
     (case get_set nft table n k of
        Inl _ \<Rightarrow> delete_sets nft table ns k
      | Inr _ \<Rightarrow>
          (case nft_flush nft [DelSet table n] k of
             (Some _, k') \<Rightarrow> (Some ''delete set'', k')
           | (None, k') \<Rightarrow> delete_sets nft table ns k'))"

definition zone_rule :: "int \<Rightarrow> nat \<times> nft_expr list \<Rightarrow> bool" where
  "zone_rule zid rule =
     list_ex (ruleReferencesSet (snd rule)) [zoneSetName zid, routesSetName zid]"

definition delete_rules ::
  "'k nft \<Rightarrow> string \<Rightarrow> (nat \<times> nft_expr list) list \<Rightarrow> 'k \<Rightarrow> string option \<times> 'k" where
  "delete_rules nft table rules k =
     (if rules = [] then (None, k)
      else queue_and_flush nft ''flush rule delete''
             (map (\<lambda>rule. DelRule table ''forward'' (fst rule)) rules) k)"

definition DeleteZone :: "'k nft \<Rightarrow> string \<Rightarrow> int \<Rightarrow> 'k \<Rightarrow> string option \<times> 'k" where
  "DeleteZone nft table zid k =
     (case nft_new nft k of
        Some _ \<Rightarrow> (Some ''open nftables'', k)
      | None \<Rightarrow>
          (case tableAndChain nft table k of
             Inl err \<Rightarrow> (Some err, k)
           | Inr _ \<Rightarrow>
               (case get_rules nft table ''forward'' k of
                  Inl _ \<Rightarrow> (Some ''get rules'', k)
                | Inr rules \<Rightarrow>
                    (case delete_rules nft table (filter (zone_rule zid) rules) k of
                       (Some err, k1) \<Rightarrow> (Some err, k1)
                     | (None, k1) \<Rightarrow>
                         delete_sets nft table [zoneSetName zid, routesSetName zid] k1))))"

section \<open>What the kernel promises\<close>

record nft_set =
  ns_interval :: bool
  ns_elems :: "set_elem list"

record nft_chain =
  ch_drop :: bool
  ch_rules :: "(nat \<times> nft_expr list) list"

record nft_table =
  nt_chains :: "string \<rightharpoonup> nft_chain"
  nt_sets :: "string \<rightharpoonup> nft_set"
  nt_next :: nat

type_synonym ruleset = "string \<rightharpoonup> nft_table"

definition lookups :: "nft_expr list \<Rightarrow> string set" where
  "lookups es = {n. \<exists>r. Lookup r n \<in> set es}"

text \<open>The documented effect of one message; \<^term>\<open>None\<close> where the kernel refuses it.\<close>

definition upd_sets :: "string \<Rightarrow> nft_table \<Rightarrow> (string \<rightharpoonup> nft_set) \<Rightarrow> ruleset \<Rightarrow> ruleset" where
  "upd_sets t tb m v = v(t \<mapsto> tb\<lparr>nt_sets := m\<rparr>)"

fun nft_apply :: "nft_cmd \<Rightarrow> ruleset \<Rightarrow> ruleset option" where
  "nft_apply (AddTable t) v =
     Some (if v t = None then v(t \<mapsto> \<lparr>nt_chains = \<lambda>_. None, nt_sets = \<lambda>_. None, nt_next = 1\<rparr>) else v)"
| "nft_apply (DelTable t) v = (if v t = None then None else Some (v(t := None)))"
| "nft_apply (AddChain t c dp) v =
     (case v t of None \<Rightarrow> None
      | Some tb \<Rightarrow>
          Some (if nt_chains tb c = None
                then v(t \<mapsto> tb\<lparr>nt_chains := (nt_chains tb)(c \<mapsto> \<lparr>ch_drop = dp, ch_rules = []\<rparr>)\<rparr>)
                else v))"
| "nft_apply (AddRule t c es) v =
     (case v t of None \<Rightarrow> None
      | Some tb \<Rightarrow>
          (case nt_chains tb c of None \<Rightarrow> None
           | Some ch \<Rightarrow>
               if \<not> lookups es \<subseteq> dom (nt_sets tb) then None
               else Some (v(t \<mapsto> tb\<lparr>nt_chains := (nt_chains tb)(c \<mapsto>
                        ch\<lparr>ch_rules := ch_rules ch @ [(nt_next tb, es)]\<rparr>),
                      nt_next := nt_next tb + 1\<rparr>))))"
| "nft_apply (DelRule t c h) v =
     (case v t of None \<Rightarrow> None
      | Some tb \<Rightarrow>
          (case nt_chains tb c of None \<Rightarrow> None
           | Some ch \<Rightarrow>
               if h \<notin> fst ` set (ch_rules ch) then None
               else Some (v(t \<mapsto> tb\<lparr>nt_chains := (nt_chains tb)(c \<mapsto>
                        ch\<lparr>ch_rules := filter (\<lambda>r. fst r \<noteq> h) (ch_rules ch)\<rparr>)\<rparr>))))"
| "nft_apply (AddSet t n iv els) v =
     (case v t of None \<Rightarrow> None
      | Some tb \<Rightarrow>
          (case nt_sets tb n of
             None \<Rightarrow> Some (upd_sets t tb ((nt_sets tb)(n \<mapsto> \<lparr>ns_interval = iv, ns_elems = els\<rparr>)) v)
           | Some x \<Rightarrow>
               if ns_interval x \<noteq> iv then None
               else Some (upd_sets t tb ((nt_sets tb)(n \<mapsto> x\<lparr>ns_elems := ns_elems x @ els\<rparr>)) v)))"
| "nft_apply (DelSet t n) v =
     (case v t of None \<Rightarrow> None
      | Some tb \<Rightarrow>
          if nt_sets tb n = None \<or>
             (\<exists>c ch. nt_chains tb c = Some ch \<and> (\<exists>r \<in> set (ch_rules ch). n \<in> lookups (snd r)))
          then None else Some (upd_sets t tb ((nt_sets tb)(n := None)) v))"
| "nft_apply (SetAddElements t n els) v =
     (case v t of None \<Rightarrow> None
      | Some tb \<Rightarrow>
          (case nt_sets tb n of None \<Rightarrow> None
           | Some x \<Rightarrow> Some (upd_sets t tb ((nt_sets tb)(n \<mapsto> x\<lparr>ns_elems := ns_elems x @ els\<rparr>)) v)))"
| "nft_apply (SetDeleteElements t n els) v =
     (case v t of None \<Rightarrow> None
      | Some tb \<Rightarrow>
          (case nt_sets tb n of None \<Rightarrow> None
           | Some x \<Rightarrow>
               if \<not> set els \<subseteq> set (ns_elems x) then None
               else Some (upd_sets t tb ((nt_sets tb)(n \<mapsto>
                      x\<lparr>ns_elems := filter (\<lambda>y. y \<notin> set els) (ns_elems x)\<rparr>)) v)))"

fun nft_batch :: "nft_cmd list \<Rightarrow> ruleset \<Rightarrow> ruleset option" where
  "nft_batch [] v = Some v"
| "nft_batch (c # cs) v = (case nft_apply c v of None \<Rightarrow> None | Some v' \<Rightarrow> nft_batch cs v')"

text \<open>
  The contract: a flush that returns without an error has applied its batch, one that returns an
  error has changed nothing, and a query that answers tells the truth.
\<close>

definition nft_contract :: "'k nft \<Rightarrow> ('k \<Rightarrow> ruleset) \<Rightarrow> bool" where
  "nft_contract nft view =
     ((\<forall>cmds k k'. nft_flush nft cmds k = (None, k') \<longrightarrow> nft_batch cmds (view k) = Some (view k')) \<and>
      (\<forall>cmds k k' err. nft_flush nft cmds k = (Some err, k') \<longrightarrow> view k' = view k) \<and>
      (\<forall>k ts. list_tables nft k = Inr ts \<longrightarrow> set ts = dom (view k)) \<and>
      (\<forall>k t c rs. get_rules nft t c k = Inr rs \<longrightarrow>
         (\<exists>tb ch. view k t = Some tb \<and> nt_chains tb c = Some ch \<and> ch_rules ch = rs)) \<and>
      (\<forall>k t n iv. get_set nft t n k = Inr iv \<longrightarrow>
         (\<exists>tb x. view k t = Some tb \<and> nt_sets tb n = Some x \<and> ns_interval x = iv)))"

text \<open>The kernel has no failures of its own: what can be answered or applied is.\<close>

definition nft_faultless :: "'k nft \<Rightarrow> ('k \<Rightarrow> ruleset) \<Rightarrow> bool" where
  "nft_faultless nft view =
     (nft_contract nft view \<and> (\<forall>k. nft_new nft k = None) \<and> (\<forall>c. encode_err nft c = None) \<and>
      (\<forall>k. \<exists>ts. list_tables nft k = Inr ts \<and> distinct ts) \<and>
      (\<forall>k. \<exists>cs. list_chains nft k = Inr cs \<and>
         (\<forall>t. (t, ''forward'') \<in> set cs \<longleftrightarrow>
            (\<exists>tb. view k t = Some tb \<and> nt_chains tb ''forward'' \<noteq> None))) \<and>
      (\<forall>k t c tb ch. view k t = Some tb \<longrightarrow> nt_chains tb c = Some ch \<longrightarrow>
         get_rules nft t c k = Inr (ch_rules ch)) \<and>
      (\<forall>k t n tb x. view k t = Some tb \<longrightarrow> nt_sets tb n = Some x \<longrightarrow>
         get_set nft t n k = Inr (ns_interval x)) \<and>
      (\<forall>cmds k. nft_batch cmds (view k) \<noteq> None \<longrightarrow> fst (nft_flush nft cmds k) = None))"

subsection \<open>Packets\<close>

text \<open>
  What the forward chain does with a packet: its protocol, the 4-byte words of its network header
  and the conntrack state of its flow.
\<close>

record packet =
  p_nfproto :: "32 word"
  p_net :: "nat \<Rightarrow> 32 word"
  p_ct :: "32 word"

definition in_nset :: "nft_set \<Rightarrow> addr \<Rightarrow> bool" where
  "in_nset x a =
     (if ns_interval x then
        (\<exists>s \<in> set (ns_elems x). \<not> IntervalEnd s \<and> Key s \<le> a \<and>
           \<not> (\<exists>e \<in> set (ns_elems x). IntervalEnd e \<and> Key s < Key e \<and> Key e \<le> a))
      else SetElement a False \<in> set (ns_elems x))"

fun rule_accepts :: "(string \<rightharpoonup> nft_set) \<Rightarrow> packet \<Rightarrow> nft_expr list \<Rightarrow> (nat \<Rightarrow> 32 word) \<Rightarrow> bool" where
  "rule_accepts sets p [] r = False"
| "rule_accepts sets p (Meta_NFPROTO d # es) r = rule_accepts sets p es (r(d := p_nfproto p))"
| "rule_accepts sets p (Cmp op s w # es) r =
     ((case op of CmpOpEq \<Rightarrow> r s = w | CmpOpNeq \<Rightarrow> r s \<noteq> w) \<and> rule_accepts sets p es r)"
| "rule_accepts sets p (Payload_Network d off # es) r = rule_accepts sets p es (r(d := p_net p off))"
| "rule_accepts sets p (Lookup s n # es) r =
     ((case sets n of None \<Rightarrow> False | Some x \<Rightarrow> in_nset x (r s)) \<and> rule_accepts sets p es r)"
| "rule_accepts sets p (Ct_State d # es) r = rule_accepts sets p es (r(d := p_ct p))"
| "rule_accepts sets p (Bitwise s d m x # es) r =
     rule_accepts sets p es (r(d := (r s AND m) XOR x))"
| "rule_accepts sets p (Verdict_Accept # es) r = True"

definition forwarded :: "ruleset \<Rightarrow> string \<Rightarrow> packet \<Rightarrow> bool" where
  "forwarded v table p =
     (case v table of None \<Rightarrow> True
      | Some tb \<Rightarrow>
          (case nt_chains tb ''forward'' of None \<Rightarrow> True
           | Some ch \<Rightarrow>
               \<not> ch_drop ch \<or>
               (\<exists>r \<in> set (ch_rules ch). rule_accepts (nt_sets tb) p (snd r) (\<lambda>_. 0))))"

section \<open>What the table should say\<close>

text \<open>The abstract state: for each zone its member addresses and its announced prefixes.\<close>

type_synonym zone_map = "int \<rightharpoonup> (addr set \<times> prefix4 set)"

definition may_pass :: "zone_map \<Rightarrow> packet \<Rightarrow> bool" where
  "may_pass Z p =
     (p_ct p AND CtStateBits \<noteq> 0 \<or>
      p_nfproto p = NFPROTO_IPV4 \<and>
      (\<exists>z M R. Z z = Some (M, R) \<and> p_net p 12 \<in> M \<and>
         (p_net p 16 \<in> M \<or> (\<exists>q \<in> R. Contains q (p_net p 16)))))"

text \<open>Routes as the address plan has them: disjoint, and none at the very end of the address space.\<close>

definition routes_good :: "prefix4 set \<Rightarrow> bool" where
  "routes_good R =
     ((\<forall>p \<in> R. PBits p \<le> 32 \<and> unat (PAddr (Masked p)) + 2 ^ (32 - PBits p) < 2 ^ 32) \<and>
      (\<forall>p \<in> R. \<forall>q \<in> R. p \<noteq> q \<longrightarrow> prefix_addrs p \<inter> prefix_addrs q = {}))"

definition zone_rules :: "int set \<Rightarrow> nft_expr list set" where
  "zone_rules D =
     insert ctEstablishedAcceptExprs
       (\<Union>z \<in> D. {sameZoneAcceptExprs (zoneSetName z),
                   zoneRouteAcceptExprs (zoneSetName z) (routesSetName z)})"

definition set_view :: "nft_table \<Rightarrow> string \<Rightarrow> (bool \<times> set_elem set) option" where
  "set_view tb n = map_option (\<lambda>x. (ns_interval x, set (ns_elems x))) (nt_sets tb n)"

definition member_elems :: "addr set \<Rightarrow> set_elem set" where
  "member_elems M = (\<lambda>a. SetElement a False) ` M"

definition route_elems :: "prefix4 set \<Rightarrow> set_elem set" where
  "route_elems R = (\<Union>p \<in> R. set (rangeElements p))"

definition rep_table :: "nft_table \<Rightarrow> zone_map \<Rightarrow> bool" where
  "rep_table tb Z =
     ((\<exists>ch. nt_chains tb = [''forward'' \<mapsto> ch] \<and> ch_drop ch \<and> distinct (map fst (ch_rules ch)) \<and>
         (\<forall>r \<in> set (ch_rules ch). fst r < nt_next tb) \<and>
         snd ` set (ch_rules ch) = zone_rules (dom Z)) \<and>
      (\<forall>z M R. Z z = Some (M, R) \<longrightarrow>
         set_view tb (zoneSetName z) = Some (False, member_elems M) \<and>
         set_view tb (routesSetName z) = Some (True, route_elems R)))"

definition represents :: "string \<Rightarrow> ruleset \<Rightarrow> zone_map \<Rightarrow> bool" where
  "represents table v Z = (\<exists>tb. v table = Some tb \<and> rep_table tb Z)"

text \<open>The zones a rebuild is given, as such a map.\<close>

definition zones_map :: "fw_zone list \<Rightarrow> zone_map" where
  "zones_map zs = map_of (map (\<lambda>z. (fz_ID z, (set (fz_MemberIPs z), set (fz_RouteCIDRs z)))) zs)"

section \<open>Lemmas\<close>

subsection \<open>Names\<close>

lemma zoneSetName_inj [simp]: "zoneSetName i = zoneSetName j \<longleftrightarrow> i = j"
  by (auto simp: zoneSetName_def dest: show_int_inj)

lemma routesSetName_inj [simp]: "routesSetName i = routesSetName j \<longleftrightarrow> i = j"
  by (auto simp: routesSetName_def dest: show_int_inj)

lemma show_int_no_underscore: "CHR ''_'' \<notin> set (show_int i)"
  using show_nat_digits [of "CHR ''_''"] by (auto simp: show_int_def)

lemma zone_neq_routes [simp]: "zoneSetName i \<noteq> routesSetName j" "routesSetName j \<noteq> zoneSetName i"
proof -
  show "zoneSetName i \<noteq> routesSetName j"
  proof
    assume "zoneSetName i = routesSetName j"
    then have "show_int i = show_int j @ ''_routes''" by (simp add: zoneSetName_def routesSetName_def)
    then have "CHR ''_'' \<in> set (show_int i)" by simp
    then show False by (simp add: show_int_no_underscore)
  qed
  then show "routesSetName j \<noteq> zoneSetName i" by metis
qed

lemma lookups_rules [simp]:
  "lookups ctEstablishedAcceptExprs = {}"
  "lookups (sameZoneAcceptExprs n) = {n}"
  "lookups (zoneRouteAcceptExprs m n) = {m, n}"
  by (auto simp: lookups_def ctEstablishedAcceptExprs_def sameZoneAcceptExprs_def
      zoneRouteAcceptExprs_def)

lemma ruleReferencesSet_iff: "ruleReferencesSet es n \<longleftrightarrow> n \<in> lookups es"
proof -
  have "(case x of Lookup _ m \<Rightarrow> m = n | _ \<Rightarrow> False) \<longleftrightarrow> (\<exists>r. x = Lookup r n)" for x
    by (cases x) auto
  then show ?thesis by (auto simp: ruleReferencesSet_def lookups_def list_ex_iff)
qed

subsection \<open>What the rules accept\<close>

lemma accepts_ct: "rule_accepts m p ctEstablishedAcceptExprs r \<longleftrightarrow> p_ct p AND CtStateBits \<noteq> 0"
  by (simp add: ctEstablishedAcceptExprs_def)

lemma accepts_same:
  "m n = Some x \<Longrightarrow> rule_accepts m p (sameZoneAcceptExprs n) r \<longleftrightarrow>
     p_nfproto p = NFPROTO_IPV4 \<and> in_nset x (p_net p 12) \<and> in_nset x (p_net p 16)"
  by (simp add: sameZoneAcceptExprs_def)

lemma accepts_route:
  "m n = Some x \<Longrightarrow> m n' = Some y \<Longrightarrow> rule_accepts m p (zoneRouteAcceptExprs n n') r \<longleftrightarrow>
     p_nfproto p = NFPROTO_IPV4 \<and> in_nset x (p_net p 12) \<and> in_nset y (p_net p 16)"
  by (simp add: zoneRouteAcceptExprs_def)

lemma in_member_set:
  "ns_interval x = False \<Longrightarrow> set (ns_elems x) = member_elems M \<Longrightarrow> in_nset x a \<longleftrightarrow> a \<in> M"
  by (auto simp: in_nset_def member_elems_def)

lemma rangeElements_good:
  assumes "unat (PAddr (Masked p)) + 2 ^ (32 - PBits p) < 2 ^ 32"
  shows "\<exists>e. rangeElements p = [SetElement (PAddr (Masked p)) False, SetElement e True] \<and>
    unat e = unat (PAddr (Masked p)) + 2 ^ (32 - PBits p)"
proof -
  let ?e = "unat (PAddr (Masked p)) + 2 ^ (32 - PBits p)"
  from assms have "unat (word_of_nat ?e :: addr) = ?e" by (rule unat_word_of_nat)
  with assms show ?thesis
    by (intro exI [of _ "word_of_nat ?e"]) (simp add: rangeElements_def block_size_def Let_def)
qed

lemma Contains_block:
  assumes "PBits p \<le> 32"
  shows "Contains p a \<longleftrightarrow> unat (PAddr (Masked p)) \<le> unat a \<and>
    unat a < unat (PAddr (Masked p)) + 2 ^ (32 - PBits p)"
proof -
  have "Contains p a \<longleftrightarrow> Contains (Masked p) a" by simp
  also have "\<dots> \<longleftrightarrow> unat a div 2 ^ (32 - PBits p) = unat (PAddr (Masked p)) div 2 ^ (32 - PBits p)"
    by (simp add: Contains_iff)
  also have "\<dots> \<longleftrightarrow> unat (PAddr (Masked p)) \<le> unat a \<and> unat a < unat (PAddr (Masked p)) + 2 ^ (32 - PBits p)"
    by (rule div_eq_iff_range) (simp_all add: Masked_def unat_masked)
  finally show ?thesis .
qed

lemma route_elem_cases:
  assumes "routes_good R" and "x \<in> route_elems R"
  shows "\<exists>p \<in> R. (\<not> IntervalEnd x \<and> Key x = PAddr (Masked p)) \<or>
    (IntervalEnd x \<and> unat (Key x) = unat (PAddr (Masked p)) + 2 ^ (32 - PBits p))"
proof -
  from assms(2) obtain p where p: "p \<in> R" "x \<in> set (rangeElements p)" by (auto simp: route_elems_def)
  with assms(1) rangeElements_good [of p] show ?thesis by (force simp: routes_good_def)
qed

lemma in_route_set:
  assumes "routes_good R" and "ns_interval x" and "set (ns_elems x) = route_elems R"
  shows "in_nset x a \<longleftrightarrow> (\<exists>p \<in> R. Contains p a)"
proof
  assume "in_nset x a"
  then obtain s where s: "s \<in> route_elems R" "\<not> IntervalEnd s" "Key s \<le> a"
    and no_end: "\<And>e. e \<in> route_elems R \<Longrightarrow> IntervalEnd e \<Longrightarrow> Key s < Key e \<Longrightarrow> \<not> Key e \<le> a"
    using assms(2,3) by (auto simp: in_nset_def)
  from route_elem_cases [OF assms(1) s(1)] s(2) obtain p where
    p: "p \<in> R" "Key s = PAddr (Masked p)" by auto
  have good: "PBits p \<le> 32" "unat (PAddr (Masked p)) + 2 ^ (32 - PBits p) < 2 ^ 32"
    using assms(1) p(1) by (auto simp: routes_good_def)
  from rangeElements_good [OF good(2)] obtain e where
    e: "rangeElements p = [SetElement (PAddr (Masked p)) False, SetElement e True]"
      "unat e = unat (PAddr (Masked p)) + 2 ^ (32 - PBits p)" by blast
  have "SetElement e True \<in> route_elems R" using p(1) e(1) by (force simp: route_elems_def)
  moreover have "Key s < e" using e(2) p(2) by (simp add: word_less_nat_alt)
  ultimately have "\<not> e \<le> a" using no_end [of "SetElement e True"] by simp
  then have "unat a < unat e" by (simp add: word_le_nat_alt)
  moreover have "unat (PAddr (Masked p)) \<le> unat a" using s(3) p(2) by (simp add: word_le_nat_alt)
  ultimately have "Contains p a" using e(2) by (simp add: Contains_block [OF good(1)])
  with p(1) show "\<exists>p \<in> R. Contains p a" by blast
next
  assume "\<exists>p \<in> R. Contains p a"
  then obtain p where p: "p \<in> R" "Contains p a" by blast
  have good: "PBits q \<le> 32" "unat (PAddr (Masked q)) + 2 ^ (32 - PBits q) < 2 ^ 32" if "q \<in> R" for q
    using assms(1) that by (auto simp: routes_good_def)
  from p Contains_block [OF good(1) [OF p(1)]] have
    a: "unat (PAddr (Masked p)) \<le> unat a" "unat a < unat (PAddr (Masked p)) + 2 ^ (32 - PBits p)"
    by auto
  let ?s = "SetElement (PAddr (Masked p)) False"
  have "?s \<in> route_elems R"
    using rangeElements_good [OF good(2) [OF p(1)]] p(1) by (force simp: route_elems_def)
  moreover have "\<not> Key e \<le> a"
    if e: "e \<in> route_elems R" "IntervalEnd e" "PAddr (Masked p) < Key e" for e
  proof
    assume le: "Key e \<le> a"
    from route_elem_cases [OF assms(1) e(1)] e(2) obtain q where
      q: "q \<in> R" "unat (Key e) = unat (PAddr (Masked q)) + 2 ^ (32 - PBits q)" by auto
    let ?last = "word_of_nat (unat (Key e) - 1) :: addr"
    have pos: "(0::nat) < 2 ^ (32 - PBits q)" by simp
    have "unat (Key e) - 1 < 2 ^ 32" using addr_less_pow [of "Key e"] by linarith
    then have last: "unat ?last = unat (Key e) - 1" by (rule unat_word_of_nat)
    have "unat ?last = unat (PAddr (Masked q)) + 2 ^ (32 - PBits q) - 1"
      using last unfolding q(2) .
    then have "unat (PAddr (Masked q)) \<le> unat ?last"
      "unat ?last < unat (PAddr (Masked q)) + 2 ^ (32 - PBits q)" using pos by linarith+
    then have "Contains q ?last" unfolding Contains_block [OF good(1) [OF q(1)]] by blast
    moreover have "unat (PAddr (Masked p)) \<le> unat ?last"
      "unat ?last < unat (PAddr (Masked p)) + 2 ^ (32 - PBits p)"
      unfolding last using e(3) le a(2) by (simp_all add: word_less_nat_alt word_le_nat_alt)
    then have "Contains p ?last" unfolding Contains_block [OF good(1) [OF p(1)]] by blast
    ultimately have "p = q"
      using assms(1) p(1) q(1) by (auto simp: routes_good_def prefix_addrs_def)
    with q(2) le a(2) show False by (simp add: word_le_nat_alt)
  qed
  moreover have "Key ?s \<le> a" using a(1) by (simp add: word_le_nat_alt)
  ultimately show "in_nset x a" using assms(2,3) by (force simp: in_nset_def)
qed

lemma rep_tableD:
  "rep_table tb Z \<Longrightarrow> Z z = Some (M, R) \<Longrightarrow>
     set_view tb (zoneSetName z) = Some (False, member_elems M) \<and>
     set_view tb (routesSetName z) = Some (True, route_elems R)"
  unfolding rep_table_def by blast

lemma bex_zone_rules:
  "(\<exists>es \<in> zone_rules D. P es) \<longleftrightarrow> P ctEstablishedAcceptExprs \<or>
     (\<exists>z \<in> D. P (sameZoneAcceptExprs (zoneSetName z)) \<or>
        P (zoneRouteAcceptExprs (zoneSetName z) (routesSetName z)))"
  unfolding zone_rules_def by blast

lemma set_viewD:
  "set_view tb n = Some (iv, E) \<Longrightarrow> \<exists>x. nt_sets tb n = Some x \<and> ns_interval x = iv \<and> set (ns_elems x) = E"
  by (auto simp: set_view_def)

text \<open>
  A table that represents a zone map forwards exactly the packets the zones allow: replies of a
  known flow, and IPv4 packets from a member of a zone to a member of the same zone or to an
  address announced into it; everything else meets the drop policy.
\<close>

lemma represents_forwarded:
  assumes "represents table v Z" and "\<forall>z M R. Z z = Some (M, R) \<longrightarrow> routes_good R"
  shows "forwarded v table p \<longleftrightarrow> may_pass Z p"
proof -
  from assms(1) obtain tb where tb: "v table = Some tb" and rep: "rep_table tb Z"
    by (auto simp: represents_def)
  from rep obtain ch where chm: "nt_chains tb = [''forward'' \<mapsto> ch]"
    and chd: "ch_drop ch" "snd ` set (ch_rules ch) = zone_rules (dom Z)"
    unfolding rep_table_def by blast
  from chm have "nt_chains tb ''forward'' = Some ch" by simp
  note ch = this chd
  let ?acc = "\<lambda>es. rule_accepts (nt_sets tb) p es (\<lambda>_. 0)"
  have fwd: "forwarded v table p \<longleftrightarrow> (\<exists>es \<in> zone_rules (dom Z). ?acc es)"
    unfolding ch(3) [symmetric] forwarded_def tb option.case ch(1) using ch(2) by simp
  have same: "?acc (sameZoneAcceptExprs (zoneSetName z)) \<longleftrightarrow>
      p_nfproto p = NFPROTO_IPV4 \<and> p_net p 12 \<in> M \<and> p_net p 16 \<in> M"
    and route: "?acc (zoneRouteAcceptExprs (zoneSetName z) (routesSetName z)) \<longleftrightarrow>
      p_nfproto p = NFPROTO_IPV4 \<and> p_net p 12 \<in> M \<and> (\<exists>q \<in> R. Contains q (p_net p 16))"
    if Z: "Z z = Some (M, R)" for z M R
  proof -
    from set_viewD [OF conjunct1 [OF rep_tableD [OF rep Z]]] obtain x where
      x: "nt_sets tb (zoneSetName z) = Some x" "ns_interval x = False" "set (ns_elems x) = member_elems M"
      by blast
    from set_viewD [OF conjunct2 [OF rep_tableD [OF rep Z]]] obtain y where
      y: "nt_sets tb (routesSetName z) = Some y" "ns_interval y = True" "set (ns_elems y) = route_elems R"
      by blast
    note mem = in_member_set [OF x(2,3)] and rou = in_route_set [OF assms(2) [rule_format, OF Z] _ y(3), unfolded y(2), OF TrueI]
    show "?acc (sameZoneAcceptExprs (zoneSetName z)) \<longleftrightarrow>
        p_nfproto p = NFPROTO_IPV4 \<and> p_net p 12 \<in> M \<and> p_net p 16 \<in> M"
      by (simp add: accepts_same [where m = "nt_sets tb", OF x(1)] mem)
    show "?acc (zoneRouteAcceptExprs (zoneSetName z) (routesSetName z)) \<longleftrightarrow>
        p_nfproto p = NFPROTO_IPV4 \<and> p_net p 12 \<in> M \<and> (\<exists>q \<in> R. Contains q (p_net p 16))"
      by (simp add: accepts_route [where m = "nt_sets tb", OF x(1) y(1)] mem rou)
  qed
  let ?ok = "\<lambda>M R. p_net p 12 \<in> M \<and> (p_net p 16 \<in> M \<or> (\<exists>q \<in> R. Contains q (p_net p 16)))"
  have zone: "?acc (sameZoneAcceptExprs (zoneSetName z)) \<or>
         ?acc (zoneRouteAcceptExprs (zoneSetName z) (routesSetName z)) \<longleftrightarrow>
      p_nfproto p = NFPROTO_IPV4 \<and> ?ok M R" if "Z z = Some (M, R)" for z M R
    using same [OF that] route [OF that] by blast
  have "(\<exists>z \<in> dom Z. ?acc (sameZoneAcceptExprs (zoneSetName z)) \<or>
         ?acc (zoneRouteAcceptExprs (zoneSetName z) (routesSetName z))) \<longleftrightarrow>
      (\<exists>z M R. Z z = Some (M, R) \<and> p_nfproto p = NFPROTO_IPV4 \<and> ?ok M R)"
  proof -
    define A where "A z = (?acc (sameZoneAcceptExprs (zoneSetName z)) \<or>
         ?acc (zoneRouteAcceptExprs (zoneSetName z) (routesSetName z)))" for z
    have "(\<exists>z \<in> dom Z. A z) \<longleftrightarrow> (\<exists>z M R. Z z = Some (M, R) \<and> A z)" by auto
    also have "\<dots> \<longleftrightarrow> (\<exists>z M R. Z z = Some (M, R) \<and> p_nfproto p = NFPROTO_IPV4 \<and> ?ok M R)"
      by (intro ex_cong1 conj_cong refl) (simp only: A_def zone)
    finally show ?thesis by (simp only: A_def)
  qed
  then show ?thesis
    unfolding fwd bex_zone_rules accepts_ct may_pass_def by blast
qed

subsection \<open>What each operation does to the table\<close>

lemma nft_batch_append:
  "nft_batch (xs @ ys) v = (case nft_batch xs v of None \<Rightarrow> None | Some w \<Rightarrow> nft_batch ys w)"
  by (induction xs arbitrary: v) (auto split: option.splits)

lemma nft_batch_single: "nft_batch [c] v = nft_apply c v"
  by (simp split: option.splits)

lemma flush_None:
  "nft_contract nft view \<Longrightarrow> nft_flush nft cmds k = (None, k') \<Longrightarrow>
     nft_batch cmds (view k) = Some (view k')"
  unfolding nft_contract_def by blast

lemma flush_Some:
  "nft_contract nft view \<Longrightarrow> nft_flush nft cmds k = (Some err, k') \<Longrightarrow> view k' = view k"
  unfolding nft_contract_def by blast

lemma list_tables_Inr:
  "nft_contract nft view \<Longrightarrow> list_tables nft k = Inr ts \<Longrightarrow> set ts = dom (view k)"
  unfolding nft_contract_def by blast

lemma get_rules_Inr:
  "nft_contract nft view \<Longrightarrow> get_rules nft t c k = Inr rs \<Longrightarrow>
     \<exists>tb ch. view k t = Some tb \<and> nt_chains tb c = Some ch \<and> ch_rules ch = rs"
  unfolding nft_contract_def by blast

lemma queue_and_flush_None:
  assumes "nft_contract nft view" and "queue_and_flush nft l cmds k = (None, k')"
  shows "nft_batch cmds (view k) = Some (view k')"
  using assms(2) flush_None [OF assms(1), of cmds k k']
  by (simp add: queue_and_flush_def split: option.splits prod.splits)

lemma queue_and_flush_Some:
  assumes "nft_contract nft view" and "queue_and_flush nft l cmds k = (Some err, k')"
  shows "view k' = view k"
proof (cases "find (\<lambda>c. encode_err nft c \<noteq> None) cmds")
  case None
  obtain r k1 where fl: "nft_flush nft cmds k = (r, k1)" by fastforce
  with assms(2) None obtain err' where "r = Some err'" "k1 = k'"
    by (cases r) (simp_all add: queue_and_flush_def)
  with fl flush_Some [OF assms(1)] show ?thesis by blast
next
  case (Some c)
  with assms(2) show ?thesis by (simp add: queue_and_flush_def)
qed

lemma edit_set_None:
  assumes "nft_contract nft view" and "edit_set nft table n l cmd k = (None, k')"
  shows "nft_apply cmd (view k) = Some (view k')"
proof -
  from assms(2) have "queue_and_flush nft l [cmd] k = (None, k')"
    by (simp add: edit_set_def split: option.splits sum.splits)
  from queue_and_flush_None [OF assms(1) this] show ?thesis unfolding nft_batch_single .
qed

lemma edit_set_Some:
  assumes "nft_contract nft view" and "edit_set nft table n l cmd k = (Some err, k')"
  shows "view k' = view k"
proof -
  from assms(2) have "k' = k \<or> queue_and_flush nft l [cmd] k = (Some err, k')"
    by (simp add: edit_set_def split: option.splits sum.splits)
  with queue_and_flush_Some [OF assms(1)] show ?thesis by blast
qed

text \<open>Changing the elements of one set of a represented table.\<close>

lemma rep_table_sets:
  assumes "rep_table tb Z" and "nt_chains tb' = nt_chains tb" and "nt_next tb' = nt_next tb"
    and "dom Z' = dom Z"
    and "\<And>z M R. Z' z = Some (M, R) \<Longrightarrow> set_view tb' (zoneSetName z) = Some (False, member_elems M) \<and>
         set_view tb' (routesSetName z) = Some (True, route_elems R)"
  shows "rep_table tb' Z'"
  using assms by (simp add: rep_table_def)

lemma represents_sets:
  "represents table v Z \<Longrightarrow> Z z = Some (M, R) \<Longrightarrow>
     \<exists>tb x y. v table = Some tb \<and> rep_table tb Z \<and>
       nt_sets tb (zoneSetName z) = Some x \<and> ns_interval x = False \<and> set (ns_elems x) = member_elems M \<and>
       nt_sets tb (routesSetName z) = Some y \<and> ns_interval y = True \<and> set (ns_elems y) = route_elems R"
proof -
  assume "represents table v Z" and Z: "Z z = Some (M, R)"
  then obtain tb where tb: "v table = Some tb" "rep_table tb Z" by (auto simp: represents_def)
  note sv = rep_tableD [OF tb(2) Z]
  from set_viewD [OF conjunct1 [OF sv]] set_viewD [OF conjunct2 [OF sv]] tb show ?thesis by blast
qed

lemma set_view_upd:
  "set_view (tb\<lparr>nt_sets := (nt_sets tb)(n \<mapsto> s)\<rparr>) m =
     (if m = n then Some (ns_interval s, set (ns_elems s)) else set_view tb m)"
  by (simp add: set_view_def)

lemma represents_replace:
  assumes "v table = Some tb" and "rep_table tb Z" and "Z z = Some (M, R)"
    and "n = zoneSetName z \<and> R' = R \<and> ns_interval s = False \<and> set (ns_elems s) = member_elems M' \<or>
      n = routesSetName z \<and> M' = M \<and> ns_interval s = True \<and> set (ns_elems s) = route_elems R'"
  shows "represents table (upd_sets table tb ((nt_sets tb)(n \<mapsto> s)) v) (Z(z \<mapsto> (M', R')))"
proof -
  let ?tb = "tb\<lparr>nt_sets := (nt_sets tb)(n \<mapsto> s)\<rparr>"
  note old = rep_tableD [OF assms(2)]
  have "rep_table ?tb (Z(z \<mapsto> (M', R')))"
  proof (rule rep_table_sets [OF assms(2)])
    fix u M0 R0 assume Z: "(Z(z \<mapsto> (M', R'))) u = Some (M0, R0)"
    show "set_view ?tb (zoneSetName u) = Some (False, member_elems M0) \<and>
         set_view ?tb (routesSetName u) = Some (True, route_elems R0)"
    proof (cases "u = z")
      case True
      with Z have "M0 = M'" "R0 = R'" by simp_all
      from assms(4) show ?thesis
        by (elim disjE) (simp_all add: set_view_upd True \<open>M0 = M'\<close> \<open>R0 = R'\<close> old [OF assms(3)])
    next
      case False
      then have "Z u = Some (M0, R0)" using Z by simp
      from assms(4) show ?thesis
        by (elim disjE) (simp_all add: set_view_upd False old [OF \<open>Z u = Some (M0, R0)\<close>])
    qed
  qed (use assms(3) in auto)
  then show ?thesis by (simp add: represents_def upd_sets_def)
qed

lemma AddMember_rep:
  assumes "nft_contract nft view" and "represents table (view k) Z" and "Z z = Some (M, R)"
    and "AddMember nft table z ip k = (None, k')"
  shows "represents table (view k') (Z(z \<mapsto> (insert ip M, R)))"
proof -
  from represents_sets [OF assms(2,3)] obtain tb x where tb: "view k table = Some tb" "rep_table tb Z"
    and x: "nt_sets tb (zoneSetName z) = Some x" "ns_interval x = False" "set (ns_elems x) = member_elems M"
    by blast
  from edit_set_None [OF assms(1) assms(4) [unfolded AddMember_def]] tb x have
    "view k' = upd_sets table tb ((nt_sets tb)(zoneSetName z \<mapsto>
       x\<lparr>ns_elems := ns_elems x @ ipElements [ip]\<rparr>)) (view k)" by simp
  then show ?thesis
    using represents_replace [where v = "view k" and table = table and Z = Z, OF tb assms(3), of "zoneSetName z" R _ "insert ip M"] x
    by (simp add: ipElements_def member_elems_def)
qed

lemma RemoveMember_rep:
  assumes "nft_contract nft view" and "represents table (view k) Z" and "Z z = Some (M, R)"
    and "RemoveMember nft table z ip k = (None, k')"
  shows "represents table (view k') (Z(z \<mapsto> (M - {ip}, R))) \<and> ip \<in> M"
proof -
  from represents_sets [OF assms(2,3)] obtain tb x where tb: "view k table = Some tb" "rep_table tb Z"
    and x: "nt_sets tb (zoneSetName z) = Some x" "ns_interval x = False" "set (ns_elems x) = member_elems M"
    by blast
  from edit_set_None [OF assms(1) assms(4) [unfolded RemoveMember_def]] tb x have
    "SetElement ip False \<in> member_elems M" and
    v: "view k' = upd_sets table tb ((nt_sets tb)(zoneSetName z \<mapsto>
       x\<lparr>ns_elems := filter (\<lambda>y. y \<noteq> SetElement ip False) (ns_elems x)\<rparr>)) (view k)"
    by (simp_all add: ipElements_def split: if_splits)
  moreover have "{y \<in> member_elems M. y \<noteq> SetElement ip False} = member_elems (M - {ip})"
    by (auto simp: member_elems_def)
  ultimately show ?thesis
    using represents_replace [where v = "view k" and table = table and Z = Z, OF tb assms(3), of "zoneSetName z" R
        "x\<lparr>ns_elems := filter (\<lambda>y. y \<noteq> SetElement ip False) (ns_elems x)\<rparr>" "M - {ip}"] x
    by (auto simp: member_elems_def)
qed

lemma AddZoneRoute_rep:
  assumes "nft_contract nft view" and "represents table (view k) Z" and "Z z = Some (M, R)"
    and "AddZoneRoute nft table z p k = (None, k')"
  shows "represents table (view k') (Z(z \<mapsto> (M, insert p R)))"
proof -
  from represents_sets [OF assms(2,3)] obtain tb x where tb: "view k table = Some tb" "rep_table tb Z"
    and x: "nt_sets tb (routesSetName z) = Some x" "ns_interval x = True" "set (ns_elems x) = route_elems R"
    by blast
  from edit_set_None [OF assms(1) assms(4) [unfolded AddZoneRoute_def]] tb x have
    "view k' = upd_sets table tb ((nt_sets tb)(routesSetName z \<mapsto>
       x\<lparr>ns_elems := ns_elems x @ rangeElements p\<rparr>)) (view k)" by simp
  then show ?thesis
    using represents_replace [where v = "view k" and table = table and Z = Z, OF tb assms(3), of "routesSetName z" "insert p R" _ M] x
    by (simp add: route_elems_def Un_commute)
qed

lemma range_elements_disjoint:
  assumes "routes_good R" and "p \<in> R" and "q \<in> R" and "p \<noteq> q"
  shows "set (rangeElements p) \<inter> set (rangeElements q) = {}"
proof -
  have good: "PBits r \<le> 32" "unat (PAddr (Masked r)) + 2 ^ (32 - PBits r) < 2 ^ 32" if "r \<in> R" for r
    using assms(1) that by (auto simp: routes_good_def)
  have dis: "\<not> (Contains p a \<and> Contains q a)" for a
    using assms by (auto simp: routes_good_def prefix_addrs_def)
  from rangeElements_good [OF good(2) [OF assms(2)]] rangeElements_good [OF good(2) [OF assms(3)]]
  obtain e f where e: "rangeElements p = [SetElement (PAddr (Masked p)) False, SetElement e True]"
      "unat e = unat (PAddr (Masked p)) + 2 ^ (32 - PBits p)"
    and f: "rangeElements q = [SetElement (PAddr (Masked q)) False, SetElement f True]"
      "unat f = unat (PAddr (Masked q)) + 2 ^ (32 - PBits q)" by blast
  have "PAddr (Masked p) \<noteq> PAddr (Masked q)"
    using dis [of "PAddr (Masked p)"] Contains_self [of "Masked p"] Contains_self [of "Masked q"]
    by (metis Contains_Masked)
  moreover have "e \<noteq> f"
  proof
    assume ef: "e = f"
    let ?a = "word_of_nat (unat e - 1) :: addr"
    have "unat e - 1 < 2 ^ 32" using addr_less_pow [of e] by linarith
    then have a: "unat ?a = unat e - 1" by (rule unat_word_of_nat)
    have "(0::nat) < 2 ^ (32 - PBits p)" "(0::nat) < 2 ^ (32 - PBits q)" by simp_all
    moreover have "unat ?a = unat (PAddr (Masked p)) + 2 ^ (32 - PBits p) - 1" using a e(2) by simp
    moreover have "unat ?a = unat (PAddr (Masked q)) + 2 ^ (32 - PBits q) - 1" using a f(2) ef by simp
    ultimately have "unat (PAddr (Masked p)) \<le> unat ?a \<and> unat ?a < unat (PAddr (Masked p)) + 2 ^ (32 - PBits p)"
      "unat (PAddr (Masked q)) \<le> unat ?a \<and> unat ?a < unat (PAddr (Masked q)) + 2 ^ (32 - PBits q)"
      by linarith+
    then have "Contains p ?a \<and> Contains q ?a"
      using Contains_block [OF good(1) [OF assms(2)]] Contains_block [OF good(1) [OF assms(3)]] by blast
    with dis show False by blast
  qed
  ultimately show ?thesis by (simp add: e(1) f(1))
qed

lemma route_elems_remove:
  assumes "routes_good R" and "p \<in> R"
  shows "route_elems (R - {p}) = route_elems R - set (rangeElements p)"
proof -
  have "route_elems R = route_elems (R - {p}) \<union> set (rangeElements p)"
    using assms(2) by (auto simp: route_elems_def)
  moreover have "route_elems (R - {p}) \<inter> set (rangeElements p) = {}"
    using range_elements_disjoint [OF assms(1) _ assms(2)] by (auto simp: route_elems_def)
  ultimately show ?thesis by blast
qed

lemma RemoveZoneRoute_rep:
  assumes "nft_contract nft view" and "represents table (view k) Z" and "Z z = Some (M, R)"
    and "routes_good R" and "p \<in> R" and "RemoveZoneRoute nft table z p k = (None, k')"
  shows "represents table (view k') (Z(z \<mapsto> (M, R - {p})))"
proof -
  from represents_sets [OF assms(2,3)] obtain tb x where tb: "view k table = Some tb" "rep_table tb Z"
    and x: "nt_sets tb (routesSetName z) = Some x" "ns_interval x = True" "set (ns_elems x) = route_elems R"
    by blast
  let ?s = "x\<lparr>ns_elems := filter (\<lambda>y. y \<notin> set (rangeElements p)) (ns_elems x)\<rparr>"
  from edit_set_None [OF assms(1) assms(6) [unfolded RemoveZoneRoute_def]] tb x have
    v: "view k' = upd_sets table tb ((nt_sets tb)(routesSetName z \<mapsto> ?s)) (view k)"
    by (simp split: if_splits)
  have "set (ns_elems ?s) = route_elems (R - {p})"
    using x(3) unfolding route_elems_remove [OF assms(4,5)] by auto
  with represents_replace [where v = "view k" and table = table and Z = Z, OF tb assms(3), of "routesSetName z" "R - {p}" ?s M] x(2) v
  show ?thesis by simp
qed

subsection \<open>Building zones\<close>

lemma batch_add_routes:
  "v t = Some tb \<Longrightarrow> nt_sets tb n = Some x \<Longrightarrow>
     nft_batch (map (\<lambda>p. SetAddElements t n (rangeElements p)) ps) v =
       Some (v(t \<mapsto> tb\<lparr>nt_sets := (nt_sets tb)(n \<mapsto>
         x\<lparr>ns_elems := ns_elems x @ concat (map rangeElements ps)\<rparr>)\<rparr>))"
proof (induction ps arbitrary: v tb x)
  case Nil
  then have "tb\<lparr>nt_sets := (nt_sets tb)(n \<mapsto> x)\<rparr> = tb" by (simp add: fun_upd_idem)
  with Nil show ?case by (simp add: fun_upd_idem)
next
  case (Cons p ps)
  let ?x = "x\<lparr>ns_elems := ns_elems x @ rangeElements p\<rparr>"
  let ?tb = "tb\<lparr>nt_sets := (nt_sets tb)(n \<mapsto> ?x)\<rparr>"
  have "nft_batch (map (\<lambda>p. SetAddElements t n (rangeElements p)) ps) (v(t \<mapsto> ?tb)) =
      Some ((v(t \<mapsto> ?tb))(t \<mapsto> ?tb\<lparr>nt_sets := (nt_sets ?tb)(n \<mapsto>
         ?x\<lparr>ns_elems := ns_elems ?x @ concat (map rangeElements ps)\<rparr>)\<rparr>))"
    by (rule Cons.IH) simp_all
  with Cons.prems show ?case by (simp add: upd_sets_def) (simp add: fun_upd_def)
qed

definition with_zone :: "nft_table \<Rightarrow> nft_chain \<Rightarrow> fw_zone \<Rightarrow> nft_table" where
  "with_zone tb ch z =
     tb\<lparr>nt_sets := (nt_sets tb)
          (zoneSetName (fz_ID z) \<mapsto> \<lparr>ns_interval = False, ns_elems = ipElements (fz_MemberIPs z)\<rparr>,
           routesSetName (fz_ID z) \<mapsto>
             \<lparr>ns_interval = True, ns_elems = concat (map rangeElements (fz_RouteCIDRs z))\<rparr>),
        nt_chains := [''forward'' \<mapsto> ch\<lparr>ch_rules := ch_rules ch @
          [(nt_next tb, sameZoneAcceptExprs (zoneSetName (fz_ID z))),
           (nt_next tb + 1, zoneRouteAcceptExprs (zoneSetName (fz_ID z)) (routesSetName (fz_ID z)))]\<rparr>],
        nt_next := nt_next tb + 2\<rparr>"

lemma single_map_inject [simp]: "[k \<mapsto> a] = [k \<mapsto> b] \<longleftrightarrow> a = b"
  by (auto simp: fun_eq_iff)

lemma batch_zone:
  assumes "v t = Some tb" and "nt_chains tb = [''forward'' \<mapsto> ch]"
    and "nt_sets tb (zoneSetName (fz_ID z)) = None" and "nt_sets tb (routesSetName (fz_ID z)) = None"
  shows "nft_batch (zone_cmds t z) v = Some (v(t \<mapsto> with_zone tb ch z))"
proof -
  let ?m = "zoneSetName (fz_ID z)" and ?r = "routesSetName (fz_ID z)"
  let ?ms = "\<lparr>ns_interval = False, ns_elems = ipElements (fz_MemberIPs z)\<rparr>"
  let ?tb = "tb\<lparr>nt_chains := [''forward'' \<mapsto> ch\<lparr>ch_rules := ch_rules ch @
          [(nt_next tb, sameZoneAcceptExprs ?m)]\<rparr>],
        nt_next := nt_next tb + 1,
        nt_sets := (nt_sets tb)(?m \<mapsto> ?ms, ?r \<mapsto> \<lparr>ns_interval = True, ns_elems = []\<rparr>)\<rparr>"
  have first: "nft_batch [AddSet t ?m False (ipElements (fz_MemberIPs z)),
          AddRule t ''forward'' (sameZoneAcceptExprs ?m), AddSet t ?r True []] v = Some (v(t \<mapsto> ?tb))"
    using assms by (simp add: upd_sets_def)
  have adds: "nft_batch (map (\<lambda>p. SetAddElements t ?r (rangeElements p)) (fz_RouteCIDRs z)) (v(t \<mapsto> ?tb)) =
      Some ((v(t \<mapsto> ?tb))(t \<mapsto> ?tb\<lparr>nt_sets := (nt_sets ?tb)(?r \<mapsto>
         \<lparr>ns_interval = True, ns_elems = []\<rparr>\<lparr>ns_elems :=
            ns_elems \<lparr>ns_interval = True, ns_elems = []\<rparr> @ concat (map rangeElements (fz_RouteCIDRs z))\<rparr>)\<rparr>))"
    by (rule batch_add_routes) simp_all
  show ?thesis
    unfolding zone_cmds_def Let_def nft_batch_append first option.case adds
    by (simp add: with_zone_def)
qed

lemma rep_with_zone:
  assumes "rep_table tb Z" and "nt_chains tb = [''forward'' \<mapsto> ch]" and "Z (fz_ID z) = None"
  shows "rep_table (with_zone tb ch z)
    (Z(fz_ID z \<mapsto> (set (fz_MemberIPs z), set (fz_RouteCIDRs z))))"
proof -
  let ?Z = "Z(fz_ID z \<mapsto> (set (fz_MemberIPs z), set (fz_RouteCIDRs z)))"
  let ?tb = "with_zone tb ch z"
  from assms(1,2) have ch: "ch_drop ch" "distinct (map fst (ch_rules ch))"
    "\<forall>r \<in> set (ch_rules ch). fst r < nt_next tb" "snd ` set (ch_rules ch) = zone_rules (dom Z)"
    by (auto simp: rep_table_def)
  have rules: "zone_rules (dom ?Z) = zone_rules (dom Z) \<union>
      {sameZoneAcceptExprs (zoneSetName (fz_ID z)),
       zoneRouteAcceptExprs (zoneSetName (fz_ID z)) (routesSetName (fz_ID z))}"
    by (auto simp: zone_rules_def)
  have "fst r \<noteq> nt_next tb \<and> fst r \<noteq> nt_next tb + 1" if "r \<in> set (ch_rules ch)" for r
    using ch(3) that by fastforce
  then have nx: "nt_next tb \<notin> fst ` set (ch_rules ch)" "Suc (nt_next tb) \<notin> fst ` set (ch_rules ch)"
    by force+
  have chain: "\<exists>c. nt_chains ?tb = [''forward'' \<mapsto> c] \<and> ch_drop c \<and> distinct (map fst (ch_rules c)) \<and>
         (\<forall>r \<in> set (ch_rules c). fst r < nt_next ?tb) \<and> snd ` set (ch_rules c) = zone_rules (dom ?Z)"
    using ch nx unfolding rules by (force simp: with_zone_def)
  have view: "set_view ?tb n =
      (if n = zoneSetName (fz_ID z) then Some (False, member_elems (set (fz_MemberIPs z)))
       else if n = routesSetName (fz_ID z) then Some (True, route_elems (set (fz_RouteCIDRs z)))
       else set_view tb n)" for n
    by (simp add: set_view_def with_zone_def ipElements_def member_elems_def route_elems_def)
  have "set_view ?tb (zoneSetName u) = Some (False, member_elems M) \<and>
      set_view ?tb (routesSetName u) = Some (True, route_elems R)" if "?Z u = Some (M, R)" for u M R
  proof (cases "u = fz_ID z")
    case True
    with that show ?thesis by (simp add: view)
  next
    case False
    with that have "Z u = Some (M, R)" by simp
    from rep_tableD [OF assms(1) this] False show ?thesis by (simp add: view)
  qed
  with chain show ?thesis unfolding rep_table_def by blast
qed

lemma batch_zones:
  "\<lbrakk>v t = Some tb; rep_table tb Z; distinct (map fz_ID zs);
    \<And>z. z \<in> set zs \<Longrightarrow> Z (fz_ID z) = None \<and> nt_sets tb (zoneSetName (fz_ID z)) = None \<and>
      nt_sets tb (routesSetName (fz_ID z)) = None\<rbrakk> \<Longrightarrow>
   \<exists>tb'. nft_batch (concat (map (zone_cmds t) zs)) v = Some (v(t \<mapsto> tb')) \<and>
     rep_table tb' (Z ++ zones_map zs)"
proof (induction zs arbitrary: v tb Z)
  case Nil
  then show ?case by (intro exI [of _ tb]) (simp add: zones_map_def fun_upd_idem)
next
  case (Cons z zs)
  from Cons.prems(2) obtain ch where ch: "nt_chains tb = [''forward'' \<mapsto> ch]"
    by (auto simp: rep_table_def)
  have none: "Z (fz_ID z) = None" "nt_sets tb (zoneSetName (fz_ID z)) = None"
    "nt_sets tb (routesSetName (fz_ID z)) = None" using Cons.prems(4) by simp_all
  let ?tb = "with_zone tb ch z"
  let ?Z = "Z(fz_ID z \<mapsto> (set (fz_MemberIPs z), set (fz_RouteCIDRs z)))"
  have rep: "rep_table ?tb ?Z" by (rule rep_with_zone [OF Cons.prems(2) ch none(1)])
  have fresh: "?Z (fz_ID y) = None \<and> nt_sets ?tb (zoneSetName (fz_ID y)) = None \<and>
      nt_sets ?tb (routesSetName (fz_ID y)) = None" if "y \<in> set zs" for y
  proof -
    have "fz_ID y \<noteq> fz_ID z" using Cons.prems(3) imageI [OF that, of fz_ID] by auto
    with Cons.prems(4) [of y] that show ?thesis by (simp add: with_zone_def)
  qed
  have dist: "distinct (map fz_ID zs)" using Cons.prems(3) by simp
  have "\<exists>tb'. nft_batch (concat (map (zone_cmds t) zs)) (v(t \<mapsto> ?tb)) = Some ((v(t \<mapsto> ?tb))(t \<mapsto> tb')) \<and>
      rep_table tb' (?Z ++ zones_map zs)"
    by (rule Cons.IH [OF _ rep dist fresh]) simp_all
  then obtain tb' where
    tb': "nft_batch (concat (map (zone_cmds t) zs)) (v(t \<mapsto> ?tb)) = Some ((v(t \<mapsto> ?tb))(t \<mapsto> tb'))"
    "rep_table tb' (?Z ++ zones_map zs)" by blast
  have "fz_ID z \<notin> dom (zones_map zs)"
    using Cons.prems(3) by (auto simp: zones_map_def dom_map_of_conv_image_fst)
  then have "?Z ++ zones_map zs = Z ++ zones_map (z # zs)"
    unfolding zones_map_def list.map map_of.simps prod.sel by (simp add: map_add_upd_left)
  with tb' batch_zone [of v t tb ch z, OF Cons.prems(1) ch none(2,3)] show ?case
    by (intro exI [of _ tb']) (simp add: nft_batch_append, simp add: fun_upd_def)
qed

lemma rebuild_cmds_batch:
  assumes "v t = None" and "distinct (map fz_ID zs)"
  shows "\<exists>tb. nft_batch (rebuild_cmds t zs) v = Some (v(t \<mapsto> tb)) \<and> rep_table tb (zones_map zs)"
proof -
  let ?tb = "\<lparr>nt_chains = [''forward'' \<mapsto> \<lparr>ch_drop = True, ch_rules = [(1, ctEstablishedAcceptExprs)]\<rparr>],
      nt_sets = \<lambda>_. None, nt_next = 2\<rparr>"
  have rep: "rep_table ?tb Map.empty"
    by (simp add: rep_table_def zone_rules_def)
  have first: "nft_batch [AddTable t, AddChain t ''forward'' True, AddRule t ''forward'' ctEstablishedAcceptExprs] v
      = Some (v(t \<mapsto> ?tb))"
    using assms(1) by (simp add: numeral_2_eq_2)
  have "\<exists>tb. nft_batch (concat (map (zone_cmds t) zs)) (v(t \<mapsto> ?tb)) = Some ((v(t \<mapsto> ?tb))(t \<mapsto> tb)) \<and>
      rep_table tb (Map.empty ++ zones_map zs)"
    by (rule batch_zones [OF _ rep assms(2)]) simp_all
  then obtain tb where
    "nft_batch (concat (map (zone_cmds t) zs)) (v(t \<mapsto> ?tb)) = Some (v(t \<mapsto> tb))"
    "rep_table tb (zones_map zs)" by auto
  then show ?thesis unfolding rebuild_cmds_def nft_batch_append first by auto
qed

lemma batch_del_table:
  "\<lbrakk>nft_batch cmds v = Some w; \<And>c. c \<in> set cmds \<Longrightarrow> c = DelTable t\<rbrakk> \<Longrightarrow>
     (cmds = [] \<and> w = v) \<or> (w = v(t := None) \<and> v t \<noteq> None)"
proof (induction cmds arbitrary: v)
  case (Cons c cs)
  then have c: "c = DelTable t" by simp
  with Cons.prems(1) have v: "v t \<noteq> None" "nft_batch cs (v(t := None)) = Some w"
    by (auto split: if_splits)
  from Cons.IH [OF v(2)] Cons.prems(2) v(1) show ?case by auto
qed simp

lemma Rebuild_rep:
  assumes "nft_contract nft view" and "distinct (map fz_ID zs)"
    and "Rebuild nft table zs k = (None, k')"
  shows "represents table (view k') (zones_map zs) \<and> (\<forall>t. t \<noteq> table \<longrightarrow> view k' t = view k t)"
proof -
  from assms(3) obtain ts k1 where ts: "list_tables nft k = Inr ts"
    and del: "nft_flush nft (map DelTable (filter (\<lambda>t. t = table) ts)) k = (None, k1)"
    and bld: "queue_and_flush nft ''build nftables table'' (rebuild_cmds table zs) k1 = (None, k')"
    by (auto simp: Rebuild_def split: option.splits sum.splits prod.splits)
  let ?cmds = "map DelTable (filter (\<lambda>t. t = table) ts)"
  have "nft_batch ?cmds (view k) = Some (view k1)" by (rule flush_None [OF assms(1) del])
  from batch_del_table [OF this, of table] have
    "(?cmds = [] \<and> view k1 = view k) \<or> (view k1 = (view k)(table := None) \<and> view k table \<noteq> None)"
    by fastforce
  moreover have "view k table = None" if "?cmds = []"
    using that list_tables_Inr [OF assms(1) ts] by (auto simp: filter_empty_conv)
  ultimately have k1: "view k1 = (view k)(table := None)"
    by (metis fun_upd_triv)
  then have "view k1 table = None" by simp
  from rebuild_cmds_batch [of "view k1" table, OF this assms(2)] obtain tb where
    "nft_batch (rebuild_cmds table zs) (view k1) = Some ((view k1)(table \<mapsto> tb))"
    and rep: "rep_table tb (zones_map zs)" by blast
  with queue_and_flush_None [OF assms(1) bld] have "view k' = (view k1)(table \<mapsto> tb)" by simp
  with rep k1 show ?thesis by (simp add: represents_def)
qed

lemma AddZone_rep:
  assumes "nft_contract nft view" and "represents table (view k) Z" and "Z z = None"
    and "\<And>tb. view k table = Some tb \<Longrightarrow>
      nt_sets tb (zoneSetName z) = None \<and> nt_sets tb (routesSetName z) = None"
    and "AddZone nft table z k = (None, k')"
  shows "represents table (view k') (Z(z \<mapsto> ({}, {})))"
proof -
  let ?z = "\<lparr>fz_ID = z, fz_MemberIPs = [], fz_RouteCIDRs = []\<rparr>"
  from assms(5) have q: "queue_and_flush nft ''add zone'' (zone_cmds table ?z) k = (None, k')"
    by (auto simp: AddZone_def zone_cmds_def ipElements_def Let_def split: option.splits sum.splits)
  from assms(2) obtain tb where tb: "view k table = Some tb" "rep_table tb Z"
    by (auto simp: represents_def)
  then obtain ch where ch: "nt_chains tb = [''forward'' \<mapsto> ch]" by (auto simp: rep_table_def)
  have "nft_batch (zone_cmds table ?z) (view k) = Some ((view k)(table \<mapsto> with_zone tb ch ?z))"
    by (rule batch_zone [where v = "view k", OF tb(1) ch]) (use assms(4) [OF tb(1)] in simp_all)
  with queue_and_flush_None [OF assms(1) q] have "view k' = (view k)(table \<mapsto> with_zone tb ch ?z)"
    by simp
  moreover have "rep_table (with_zone tb ch ?z) (Z(z \<mapsto> ({}, {})))"
    using rep_with_zone [OF tb(2) ch, of ?z] assms(3) by simp
  ultimately show ?thesis by (simp add: represents_def)
qed

subsection \<open>Deleting a zone\<close>

lemma batch_del_rules:
  "\<lbrakk>v t = Some tb; nt_chains tb ''forward'' = Some ch;
    nft_batch (map (\<lambda>d. DelRule t ''forward'' (fst d)) ds) v = Some w\<rbrakk> \<Longrightarrow>
   w = v(t \<mapsto> tb\<lparr>nt_chains := (nt_chains tb)(''forward'' \<mapsto>
     ch\<lparr>ch_rules := filter (\<lambda>r. fst r \<notin> fst ` set ds) (ch_rules ch)\<rparr>)\<rparr>)"
proof (induction ds arbitrary: v tb ch)
  case Nil
  then have "tb\<lparr>nt_chains := (nt_chains tb)(''forward'' \<mapsto> ch)\<rparr> = tb" by (simp add: fun_upd_idem)
  with Nil show ?case by (simp add: fun_upd_idem)
next
  case (Cons d ds)
  let ?ch = "ch\<lparr>ch_rules := filter (\<lambda>r. fst r \<noteq> fst d) (ch_rules ch)\<rparr>"
  let ?tb = "tb\<lparr>nt_chains := (nt_chains tb)(''forward'' \<mapsto> ?ch)\<rparr>"
  from Cons.prems have rest: "nft_batch (map (\<lambda>d. DelRule t ''forward'' (fst d)) ds) (v(t \<mapsto> ?tb)) = Some w"
    by (simp split: if_splits)
  have "w = (v(t \<mapsto> ?tb))(t \<mapsto> ?tb\<lparr>nt_chains := (nt_chains ?tb)(''forward'' \<mapsto>
     ?ch\<lparr>ch_rules := filter (\<lambda>r. fst r \<notin> fst ` set ds) (ch_rules ?ch)\<rparr>)\<rparr>)"
    by (rule Cons.IH [OF _ _ rest]) simp_all
  moreover have "filter (\<lambda>r. fst r \<noteq> fst d \<and> fst r \<notin> fst ` set ds) (ch_rules ch) =
      filter (\<lambda>r. fst r \<notin> fst ` set (d # ds)) (ch_rules ch)"
    by (rule filter_cong) auto
  moreover have "(v(t \<mapsto> ?tb))(t \<mapsto> ?tb\<lparr>nt_chains := (nt_chains ?tb)(''forward'' \<mapsto> c)\<rparr>) =
      v(t \<mapsto> tb\<lparr>nt_chains := (nt_chains tb)(''forward'' \<mapsto> c)\<rparr>)" for c
    by simp
  moreover have "?ch\<lparr>ch_rules := filter (\<lambda>r. fst r \<notin> fst ` set ds) (ch_rules ?ch)\<rparr> =
      ch\<lparr>ch_rules := filter (\<lambda>r. fst r \<noteq> fst d \<and> fst r \<notin> fst ` set ds) (ch_rules ch)\<rparr>"
    by (simp add: conj_commute)
  ultimately show ?case by (simp only:)
qed

lemma zone_rules_remove:
  "{es \<in> zone_rules D. zoneSetName z \<notin> lookups es \<and> routesSetName z \<notin> lookups es} = zone_rules (D - {z})"
  by (auto simp: zone_rules_def)

lemma rep_table_drop_rules:
  assumes "rep_table tb Z" and "nt_chains tb = [''forward'' \<mapsto> ch]"
    and "\<forall>r \<in> set (ch_rules ch). P r \<longleftrightarrow> zoneSetName z \<in> lookups (snd r) \<or> routesSetName z \<in> lookups (snd r)"
  shows "rep_table (tb\<lparr>nt_chains := [''forward'' \<mapsto>
     ch\<lparr>ch_rules := filter (\<lambda>r. \<not> P r) (ch_rules ch)\<rparr>]\<rparr>) (Z(z := None))"
proof -
  let ?rs = "filter (\<lambda>r. \<not> P r) (ch_rules ch)"
  from assms(1,2) have ch: "ch_drop ch" "distinct (map fst (ch_rules ch))"
    "\<forall>r \<in> set (ch_rules ch). fst r < nt_next tb" "snd ` set (ch_rules ch) = zone_rules (dom Z)"
    by (auto simp: rep_table_def)
  have "snd ` set ?rs = {es \<in> snd ` set (ch_rules ch). zoneSetName z \<notin> lookups es \<and> routesSetName z \<notin> lookups es}"
    using assms(3) by fastforce
  also have "\<dots> = zone_rules (dom (Z(z := None)))"
    unfolding ch(4) zone_rules_remove by simp
  finally have rs: "snd ` set ?rs = zone_rules (dom (Z(z := None)))" .
  have "set_view (tb\<lparr>nt_chains := c\<rparr>) n = set_view tb n" for c n by (simp add: set_view_def)
  then have "\<forall>u M R. (Z(z := None)) u = Some (M, R) \<longrightarrow>
      set_view (tb\<lparr>nt_chains := [''forward'' \<mapsto> ch\<lparr>ch_rules := ?rs\<rparr>]\<rparr>) (zoneSetName u) = Some (False, member_elems M) \<and>
      set_view (tb\<lparr>nt_chains := [''forward'' \<mapsto> ch\<lparr>ch_rules := ?rs\<rparr>]\<rparr>) (routesSetName u) = Some (True, route_elems R)"
    using rep_tableD [OF assms(1)] by (auto split: if_splits)
  then show ?thesis using ch rs unfolding rep_table_def by (intro conjI) auto
qed

lemma represents_del_set:
  assumes "represents table v Z" and "nft_apply (DelSet table n) v = Some w"
    and "\<forall>z \<in> dom Z. n \<noteq> zoneSetName z \<and> n \<noteq> routesSetName z"
  shows "represents table w Z"
proof -
  from assms(1) obtain tb where tb: "v table = Some tb" "rep_table tb Z" by (auto simp: represents_def)
  let ?tb = "tb\<lparr>nt_sets := (nt_sets tb)(n := None)\<rparr>"
  from assms(2) tb(1) have w: "w = v(table \<mapsto> ?tb)"
    by (auto simp: upd_sets_def split: if_splits)
  have "rep_table ?tb Z"
  proof (rule rep_table_sets [OF tb(2)])
    fix z M R assume Z: "Z z = Some (M, R)"
    then have "n \<noteq> zoneSetName z" "n \<noteq> routesSetName z" using assms(3) by auto
    with rep_tableD [OF tb(2) Z] show "set_view ?tb (zoneSetName z) = Some (False, member_elems M) \<and>
        set_view ?tb (routesSetName z) = Some (True, route_elems R)" by (auto simp: set_view_def)
  qed simp_all
  with w show ?thesis by (simp add: represents_def)
qed

lemma delete_sets_rep:
  assumes "nft_contract nft view"
  shows "\<lbrakk>represents table (view k) Z; \<forall>n \<in> set ns. \<forall>z \<in> dom Z. n \<noteq> zoneSetName z \<and> n \<noteq> routesSetName z;
    delete_sets nft table ns k = (r, k')\<rbrakk> \<Longrightarrow> represents table (view k') Z"
proof (induction ns arbitrary: k)
  case (Cons n ns)
  show ?case
  proof (cases "get_set nft table n k")
    case (Inl err)
    with Cons show ?thesis by simp
  next
    case (Inr iv)
    obtain q k1 where fl: "nft_flush nft [DelSet table n] k = (q, k1)" by fastforce
    show ?thesis
    proof (cases q)
      case None
      with fl flush_None [OF assms] have "nft_batch [DelSet table n] (view k) = Some (view k1)" by blast
      then have "nft_apply (DelSet table n) (view k) = Some (view k1)" unfolding nft_batch_single .
      from represents_del_set [OF Cons.prems(1) this] Cons.prems(2) have "represents table (view k1) Z"
        by simp
      with Cons.IH Cons.prems(2,3) fl None Inr show ?thesis by simp
    next
      case (Some err)
      with fl flush_Some [OF assms] have "view k1 = view k" by blast
      with Cons.prems(1,3) fl Some Inr show ?thesis by simp
    qed
  qed
qed simp

lemma DeleteZone_rep:
  assumes "nft_contract nft view" and "represents table (view k) Z"
    and "DeleteZone nft table z k = (r, k')"
  shows "represents table (view k') (Z(z := None)) \<or> (r \<noteq> None \<and> view k' = view k)"
proof -
  let ?names = "[zoneSetName z, routesSetName z]"
  from assms(2) obtain tb where tb: "view k table = Some tb" "rep_table tb Z"
    by (auto simp: represents_def)
  then obtain ch where ch: "nt_chains tb = [''forward'' \<mapsto> ch]" and dist: "distinct (map fst (ch_rules ch))"
    by (auto simp: rep_table_def)
  have names: "\<forall>n \<in> set ?names. \<forall>u \<in> dom (Z(z := None)). n \<noteq> zoneSetName u \<and> n \<noteq> routesSetName u"
    by auto
  show ?thesis
  proof (cases "\<exists>rules. nft_new nft k = None \<and> tableAndChain nft table k = Inr () \<and>
      get_rules nft table ''forward'' k = Inr rules")
    case False
    then have "r \<noteq> None \<and> k' = k"
      using assms(3) by (auto simp: DeleteZone_def split: option.splits sum.splits)
    then show ?thesis by simp
  next
    case True
    then obtain rules where q: "nft_new nft k = None" "tableAndChain nft table k = Inr ()"
      "get_rules nft table ''forward'' k = Inr rules" by blast
    from get_rules_Inr [OF assms(1) q(3)] tb(1) ch have rules: "rules = ch_rules ch" by auto
    let ?ds = "filter (zone_rule z) (ch_rules ch)"
    have D: "(r, k') = (case delete_rules nft table ?ds k of (Some err, k1) \<Rightarrow> (Some err, k1)
        | (None, k1) \<Rightarrow> delete_sets nft table ?names k1)"
      using assms(3) q rules by (simp add: DeleteZone_def)
    obtain a k1 where st: "delete_rules nft table ?ds k = (a, k1)" by fastforce
    show ?thesis
    proof (cases a)
      case (Some err)
      with st have "view k1 = view k"
        using queue_and_flush_Some [OF assms(1)] by (simp add: delete_rules_def split: if_splits)
      moreover have "r = Some err" "k' = k1" using D st Some by simp_all
      ultimately show ?thesis by simp
    next
      case None
      have same: "filter (\<lambda>x. fst x \<notin> fst ` set ?ds) (ch_rules ch) =
          filter (\<lambda>x. \<not> zone_rule z x) (ch_rules ch)"
        using dist by (intro filter_cong refl) (auto dest: distinct_map_eqD)
      have "nft_batch (map (\<lambda>d. DelRule table ''forward'' (fst d)) ?ds) (view k) = Some (view k1)"
      proof (cases "?ds = []")
        case True
        with st None show ?thesis by (simp add: delete_rules_def)
      next
        case False
        with st None have "queue_and_flush nft ''flush rule delete''
            (map (\<lambda>d. DelRule table ''forward'' (fst d)) ?ds) k = (None, k1)"
          by (simp add: delete_rules_def)
        then show ?thesis by (rule queue_and_flush_None [OF assms(1)])
      qed
      from batch_del_rules [where v = "view k" and tb = tb and ch = ch, OF tb(1) _ this] ch have
        "view k1 = (view k)(table \<mapsto> tb\<lparr>nt_chains := [''forward'' \<mapsto>
           ch\<lparr>ch_rules := filter (\<lambda>x. \<not> zone_rule z x) (ch_rules ch)\<rparr>]\<rparr>)"
        unfolding same by simp
      moreover have "rep_table (tb\<lparr>nt_chains := [''forward'' \<mapsto>
           ch\<lparr>ch_rules := filter (\<lambda>x. \<not> zone_rule z x) (ch_rules ch)\<rparr>]\<rparr>) (Z(z := None))"
        by (rule rep_table_drop_rules [OF tb(2) ch]) (simp add: zone_rule_def ruleReferencesSet_iff)
      ultimately have "represents table (view k1) (Z(z := None))" by (simp add: represents_def)
      moreover from D st None have "delete_sets nft table ?names k1 = (r, k')"
        by (simp only: option.case prod.case)
      ultimately show ?thesis using delete_sets_rep [OF assms(1) _ names] by blast
    qed
  qed
qed

end
