(* ===== verification/Netfw_Isolation.thy ===== *)
theory Netfw_Isolation
  imports Netfw
begin

text \<open>
  What the operations of \<^verbatim>\<open>internal/server/netfw/nftables.go\<close> achieve: on a kernel without
  failures each of them succeeds where its precondition holds, and whatever the kernel does, the
  packets the table lets through afterwards are those its zones allow. At the end, a small kernel
  on which all of it can be run.
\<close>

section \<open>A kernel to run the operations on\<close>

text \<open>
  The ruleset as a function with the names of the tables it may hold; every query is answered and
  a batch is refused exactly when one of its messages is.
\<close>

type_synonym model_kernel = "ruleset \<times> string list"

definition kernel_view :: "model_kernel \<Rightarrow> ruleset" where
  "kernel_view k = (\<lambda>t. if t \<in> set (snd k) then fst k t else None)"

fun cmd_table :: "nft_cmd \<Rightarrow> string" where
  "cmd_table (AddTable t) = t"
| "cmd_table (DelTable t) = t"
| "cmd_table (AddChain t _ _) = t"
| "cmd_table (AddRule t _ _) = t"
| "cmd_table (DelRule t _ _) = t"
| "cmd_table (AddSet t _ _ _) = t"
| "cmd_table (DelSet t _) = t"
| "cmd_table (SetAddElements t _ _) = t"
| "cmd_table (SetDeleteElements t _ _) = t"

definition model_flush :: "nft_cmd list \<Rightarrow> model_kernel \<Rightarrow> string option \<times> model_kernel" where
  "model_flush cmds k =
     (case nft_batch cmds (kernel_view k) of
        None \<Rightarrow> (Some ''conn.Receive: netlink receive'', k)
      | Some v \<Rightarrow> (None, (v, snd k @ map cmd_table cmds)))"

definition model_nft :: "model_kernel nft" where
  "model_nft = \<lparr>
     nft_new = \<lambda>_. None,
     list_tables = \<lambda>k. Inr (remdups (filter (\<lambda>t. kernel_view k t \<noteq> None) (snd k))),
     list_chains = \<lambda>k. Inr (map (\<lambda>t. (t, ''forward'')) (filter (\<lambda>t.
        case kernel_view k t of None \<Rightarrow> False | Some tb \<Rightarrow> nt_chains tb ''forward'' \<noteq> None) (snd k))),
     get_rules = \<lambda>t c k. (case kernel_view k t of None \<Rightarrow> Inl ''no such table''
        | Some tb \<Rightarrow> (case nt_chains tb c of None \<Rightarrow> Inl ''no such chain'' | Some ch \<Rightarrow> Inr (ch_rules ch))),
     get_set = \<lambda>t n k. (case kernel_view k t of None \<Rightarrow> Inl ''no such table''
        | Some tb \<Rightarrow> (case nt_sets tb n of None \<Rightarrow> Inl ''no such set'' | Some x \<Rightarrow> Inr (ns_interval x))),
     encode_err = \<lambda>_. None,
     nft_flush = model_flush \<rparr>"

definition empty_kernel :: model_kernel where "empty_kernel = (\<lambda>_. None, [])"

section \<open>Lemmas\<close>

subsection \<open>The model kernel keeps the contract\<close>

lemma nft_apply_other: "nft_apply c v = Some w \<Longrightarrow> t \<noteq> cmd_table c \<Longrightarrow> w t = v t"
  by (cases c) (auto simp: upd_sets_def split: option.splits if_splits)

lemma nft_batch_other: "nft_batch cs v = Some w \<Longrightarrow> t \<notin> cmd_table ` set cs \<Longrightarrow> w t = v t"
  by (induction cs arbitrary: v) (auto split: option.splits dest: nft_apply_other)

lemma kernel_view_flush:
  assumes "nft_batch cmds (kernel_view k) = Some v"
  shows "kernel_view (v, snd k @ map cmd_table cmds) = v"
proof
  fix t
  show "kernel_view (v, snd k @ map cmd_table cmds) t = v t"
    using nft_batch_other [OF assms, of t] by (auto simp: kernel_view_def)
qed

lemma kernel_view_flush_pair:
  "nft_batch cmds (kernel_view (a, b)) = Some v \<Longrightarrow> kernel_view (v, b @ map cmd_table cmds) = v"
  using kernel_view_flush [of cmds "(a, b)"] by simp

lemma model_contract: "nft_contract model_nft kernel_view"
proof -
  have "set (remdups (filter (\<lambda>t. kernel_view k t \<noteq> None) (snd k))) = dom (kernel_view k)" for k
    by (auto simp: kernel_view_def split: if_splits)
  then show ?thesis
    unfolding nft_contract_def model_nft_def nft.simps model_flush_def
    by (intro conjI allI impI) (auto simp: kernel_view_flush_pair split: option.splits)
qed

lemma model_faultless: "nft_faultless model_nft kernel_view"
proof -
  have "(t, ''forward'') \<in> set (map (\<lambda>t. (t, ''forward'')) (filter (\<lambda>t.
        case kernel_view k t of None \<Rightarrow> False | Some tb \<Rightarrow> nt_chains tb ''forward'' \<noteq> None) (snd k))) \<longleftrightarrow>
      (\<exists>tb. kernel_view k t = Some tb \<and> nt_chains tb ''forward'' \<noteq> None)" for t and k :: model_kernel
    by (auto simp: kernel_view_def split: option.splits if_splits)
  then show ?thesis
    unfolding nft_faultless_def
    by (intro conjI allI impI model_contract exI) (auto simp: model_nft_def model_flush_def split: option.splits)
qed

subsection \<open>What a kernel without failures answers\<close>

lemma faultless_contract: "nft_faultless nft view \<Longrightarrow> nft_contract nft view"
  by (simp add: nft_faultless_def)

lemma faultless_new: "nft_faultless nft view \<Longrightarrow> nft_new nft k = None"
  by (simp add: nft_faultless_def)

lemma faultless_flush:
  "nft_faultless nft view \<Longrightarrow> nft_batch cmds (view k) = Some v \<Longrightarrow>
     \<exists>k'. nft_flush nft cmds k = (None, k') \<and> view k' = v"
proof -
  assume f: "nft_faultless nft view" and b: "nft_batch cmds (view k) = Some v"
  then have "fst (nft_flush nft cmds k) = None" unfolding nft_faultless_def by blast
  then obtain k' where "nft_flush nft cmds k = (None, k')" by (metis prod.collapse)
  with flush_None [OF faultless_contract [OF f]] b show ?thesis by fastforce
qed

lemma faultless_queue:
  assumes "nft_faultless nft view" and "nft_batch cmds (view k) = Some v"
  shows "\<exists>k'. queue_and_flush nft l cmds k = (None, k') \<and> view k' = v"
proof -
  have "find (\<lambda>c. encode_err nft c \<noteq> None) cmds = None"
    using assms(1) by (simp add: nft_faultless_def find_None_iff)
  with faultless_flush [OF assms] show ?thesis by (auto simp: queue_and_flush_def)
qed

lemma faultless_chain:
  assumes "nft_faultless nft view" and "represents table (view k) Z"
  shows "tableAndChain nft table k = Inr ()"
proof -
  from assms(2) obtain tb where tb: "view k table = Some tb" "nt_chains tb ''forward'' \<noteq> None"
    by (auto simp: represents_def rep_table_def)
  have "\<forall>k. \<exists>cs. list_chains nft k = Inr cs \<and> (\<forall>t. (t, ''forward'') \<in> set cs \<longleftrightarrow>
      (\<exists>tb. view k t = Some tb \<and> nt_chains tb ''forward'' \<noteq> None))"
    using assms(1) by (simp add: nft_faultless_def)
  then obtain cs where "list_chains nft k = Inr cs" and
    "(table, ''forward'') \<in> set cs \<longleftrightarrow> (\<exists>tb. view k table = Some tb \<and> nt_chains tb ''forward'' \<noteq> None)"
    by meson
  moreover have "find (\<lambda>c. c = (table, ''forward'')) cs \<noteq> None"
    using calculation tb by (auto simp: find_None_iff)
  ultimately show ?thesis by (auto simp: tableAndChain_def)
qed

lemma faultless_edit:
  assumes "nft_faultless nft view" and "view k table = Some tb" and "nt_sets tb n = Some x"
    and "nft_apply cmd (view k) = Some v"
  shows "\<exists>k'. edit_set nft table n l cmd k = (None, k')"
proof -
  have "get_set nft table n k = Inr (ns_interval x)"
    using assms(1-3) unfolding nft_faultless_def by blast
  moreover from assms(4) have "nft_batch [cmd] (view k) = Some v" by simp
  ultimately show ?thesis
    using faultless_queue [OF assms(1)] by (force simp: edit_set_def faultless_new [OF assms(1)])
qed

subsection \<open>Where the operations succeed\<close>

lemma Rebuild_ok:
  assumes "nft_faultless nft view" and "distinct (map fz_ID zs)"
  shows "\<exists>k'. Rebuild nft table zs k = (None, k')"
proof -
  have "\<forall>k. \<exists>ts. list_tables nft k = Inr ts \<and> distinct ts"
    using assms(1) by (simp add: nft_faultless_def)
  then obtain ts where ts: "list_tables nft k = Inr ts" "distinct ts" by blast
  let ?cmds = "map DelTable (filter (\<lambda>t. t = table) ts)"
  note set_ts = list_tables_Inr [OF faultless_contract [OF assms(1)] ts(1)]
  have one: "filter (\<lambda>t. t = table) xs = (if table \<in> set xs then [table] else [])"
    if "distinct xs" for xs
    using that by (induction xs) (auto simp: filter_empty_conv)
  have "nft_batch ?cmds (view k) = Some ((view k)(table := None))"
    using set_ts by (auto simp: one [OF ts(2)] fun_upd_idem_iff)
  from faultless_flush [OF assms(1) this] obtain k1 where
    k1: "nft_flush nft ?cmds k = (None, k1)" "view k1 = (view k)(table := None)" by blast
  from k1(2) have "view k1 table = None" by simp
  from rebuild_cmds_batch [of "view k1" table, OF this assms(2)] obtain tb where
    "nft_batch (rebuild_cmds table zs) (view k1) = Some ((view k1)(table \<mapsto> tb))" by blast
  from faultless_queue [OF assms(1) this] show ?thesis
    by (force simp: Rebuild_def faultless_new [OF assms(1)] ts(1) k1(1))
qed

lemma AddZone_ok:
  assumes "nft_faultless nft view" and "represents table (view k) Z" and "Z z = None"
    and "\<And>tb. view k table = Some tb \<Longrightarrow>
      nt_sets tb (zoneSetName z) = None \<and> nt_sets tb (routesSetName z) = None"
  shows "\<exists>k'. AddZone nft table z k = (None, k')"
proof -
  let ?z = "\<lparr>fz_ID = z, fz_MemberIPs = [], fz_RouteCIDRs = []\<rparr>"
  from assms(2) obtain tb where tb: "view k table = Some tb" "rep_table tb Z"
    by (auto simp: represents_def)
  then obtain ch where ch: "nt_chains tb = [''forward'' \<mapsto> ch]" by (auto simp: rep_table_def)
  have "nft_batch (zone_cmds table ?z) (view k) = Some ((view k)(table \<mapsto> with_zone tb ch ?z))"
    by (rule batch_zone [where v = "view k", OF tb(1) ch]) (use assms(4) [OF tb(1)] in simp_all)
  from faultless_queue [OF assms(1) this] obtain k' where
    "queue_and_flush nft ''add zone'' (zone_cmds table ?z) k = (None, k')" by blast
  then show ?thesis
    by (auto simp: AddZone_def zone_cmds_def ipElements_def Let_def
        faultless_new [OF assms(1)] faultless_chain [OF assms(1,2)])
qed

lemma member_edit_ok:
  assumes "nft_faultless nft view" and "represents table (view k) Z" and "Z z = Some (M, R)"
  shows "\<exists>k'. AddMember nft table z ip k = (None, k')"
    and "ip \<in> M \<Longrightarrow> \<exists>k'. RemoveMember nft table z ip k = (None, k')"
    and "\<exists>k'. AddZoneRoute nft table z p k = (None, k')"
    and "p \<in> R \<Longrightarrow> \<exists>k'. RemoveZoneRoute nft table z p k = (None, k')"
proof -
  from represents_sets [OF assms(2,3)] obtain tb x y where tb: "view k table = Some tb"
    and x: "nt_sets tb (zoneSetName z) = Some x" "set (ns_elems x) = member_elems M"
    and y: "nt_sets tb (routesSetName z) = Some y" "set (ns_elems y) = route_elems R"
    by blast
  note edit_x = faultless_edit [OF assms(1) tb x(1)]
  note edit_y = faultless_edit [OF assms(1) tb y(1)]
  show "\<exists>k'. AddMember nft table z ip k = (None, k')"
    unfolding AddMember_def by (rule edit_x) (simp add: tb x)
  show "\<exists>k'. RemoveMember nft table z ip k = (None, k')" if "ip \<in> M"
    unfolding RemoveMember_def
    by (rule edit_x) (use that in \<open>simp add: tb x ipElements_def member_elems_def\<close>)
  show "\<exists>k'. AddZoneRoute nft table z p k = (None, k')"
    unfolding AddZoneRoute_def by (rule edit_y) (simp add: tb y)
  show "\<exists>k'. RemoveZoneRoute nft table z p k = (None, k')" if "p \<in> R"
  proof -
    have "set (rangeElements p) \<subseteq> route_elems R" using that by (auto simp: route_elems_def)
    with y have "set (rangeElements p) \<subseteq> set (ns_elems y)" by simp
    then have "nft_apply (SetDeleteElements table (routesSetName z) (rangeElements p)) (view k) =
        Some (upd_sets table tb ((nt_sets tb)(routesSetName z \<mapsto>
          y\<lparr>ns_elems := filter (\<lambda>e. e \<notin> set (rangeElements p)) (ns_elems y)\<rparr>)) (view k))"
      by (simp only: nft_apply.simps tb y(1) option.case not_True_eq_False if_False)
    then show ?thesis unfolding RemoveZoneRoute_def by (rule edit_y)
  qed
qed

lemma batch_del_rules_ok:
  "\<lbrakk>v t = Some tb; nt_chains tb ''forward'' = Some ch; distinct (map fst ds);
    fst ` set ds \<subseteq> fst ` set (ch_rules ch)\<rbrakk> \<Longrightarrow>
   nft_batch (map (\<lambda>d. DelRule t ''forward'' (fst d)) ds) v \<noteq> None"
proof (induction ds arbitrary: v tb ch)
  case (Cons d ds)
  let ?ch = "ch\<lparr>ch_rules := filter (\<lambda>r. fst r \<noteq> fst d) (ch_rules ch)\<rparr>"
  let ?tb = "tb\<lparr>nt_chains := (nt_chains tb)(''forward'' \<mapsto> ?ch)\<rparr>"
  have "nft_batch (map (\<lambda>d. DelRule t ''forward'' (fst d)) ds) (v(t \<mapsto> ?tb)) \<noteq> None"
  proof (rule Cons.IH)
    have "fst ` set ds \<subseteq> fst ` set (ch_rules ch) - {fst d}"
      using Cons.prems(3,4) unfolding list.map distinct.simps list.set image_insert set_map by blast
    also have "\<dots> \<subseteq> fst ` set (ch_rules ?ch)" by auto
    finally show "fst ` set ds \<subseteq> fst ` set (ch_rules ?ch)" .
    show "distinct (map fst ds)" using Cons.prems(3) by simp
  qed simp+
  moreover have "nft_apply (DelRule t ''forward'' (fst d)) v = Some (v(t \<mapsto> ?tb))"
    using Cons.prems by simp
  ultimately show ?case by (simp only: list.map nft_batch.simps option.case) simp
qed simp

lemma delete_sets_ok:
  assumes "nft_faultless nft view"
  shows "\<lbrakk>view k table = Some tb; nt_chains tb = [''forward'' \<mapsto> ch];
    \<forall>n \<in> set ns. \<forall>r \<in> set (ch_rules ch). n \<notin> lookups (snd r)\<rbrakk> \<Longrightarrow>
    \<exists>k' tb'. delete_sets nft table ns k = (None, k') \<and> view k' table = Some tb' \<and>
      (\<forall>n \<in> set ns. nt_sets tb' n = None) \<and> (\<forall>n. nt_sets tb n = None \<longrightarrow> nt_sets tb' n = None)"
proof (induction ns arbitrary: k tb)
  case (Cons n ns)
  note contract = faultless_contract [OF assms]
  show ?case
  proof (cases "nt_sets tb n")
    case None
    then have "\<exists>err. get_set nft table n k = Inl err"
      using contract Cons.prems(1) unfolding nft_contract_def
      by (cases "get_set nft table n k") fastforce+
    with Cons.IH [OF Cons.prems(1,2)] Cons.prems(3) None show ?thesis by fastforce
  next
    case (Some x)
    let ?tb = "tb\<lparr>nt_sets := (nt_sets tb)(n := None)\<rparr>"
    have "get_set nft table n k = Inr (ns_interval x)"
      using assms Cons.prems(1) Some unfolding nft_faultless_def by blast
    moreover have "nft_batch [DelSet table n] (view k) = Some ((view k)(table \<mapsto> ?tb))"
      using Cons.prems Some by (auto simp: upd_sets_def)
    from faultless_flush [OF assms this] obtain k1 where
      "nft_flush nft [DelSet table n] k = (None, k1)" and v1: "view k1 = (view k)(table \<mapsto> ?tb)" by blast
    moreover have "\<exists>k' tb'. delete_sets nft table ns k1 = (None, k') \<and> view k' table = Some tb' \<and>
      (\<forall>n \<in> set ns. nt_sets tb' n = None) \<and> (\<forall>n. nt_sets ?tb n = None \<longrightarrow> nt_sets tb' n = None)"
      by (rule Cons.IH) (use v1 Cons.prems in simp_all)
    ultimately show ?thesis by fastforce
  qed
qed auto

lemma DeleteZone_ok:
  assumes "nft_faultless nft view" and "represents table (view k) Z"
  shows "\<exists>k' tb'. DeleteZone nft table z k = (None, k') \<and> view k' table = Some tb' \<and>
    nt_sets tb' (zoneSetName z) = None \<and> nt_sets tb' (routesSetName z) = None"
proof -
  note contract = faultless_contract [OF assms(1)]
  from assms(2) obtain tb where tb: "view k table = Some tb" "rep_table tb Z"
    by (auto simp: represents_def)
  then obtain ch where ch: "nt_chains tb = [''forward'' \<mapsto> ch]" and dist: "distinct (map fst (ch_rules ch))"
    by (auto simp: rep_table_def)
  have rules: "get_rules nft table ''forward'' k = Inr (ch_rules ch)"
    using assms(1) tb(1) ch unfolding nft_faultless_def by simp
  let ?ds = "filter (zone_rule z) (ch_rules ch)"
  let ?cmds = "map (\<lambda>d. DelRule table ''forward'' (fst d)) ?ds"
  let ?ch = "ch\<lparr>ch_rules := filter (\<lambda>x. \<not> zone_rule z x) (ch_rules ch)\<rparr>"
  have fwd: "nt_chains tb ''forward'' = Some ch" using ch by simp
  have "nft_batch ?cmds (view k) \<noteq> None"
    by (rule batch_del_rules_ok [where v = "view k" and tb = tb and ch = ch, OF tb(1) fwd]) (auto simp: dist distinct_map_filter)
  then obtain w where w: "nft_batch ?cmds (view k) = Some w" by blast
  have same: "filter (\<lambda>x. fst x \<notin> fst ` set ?ds) (ch_rules ch) =
      filter (\<lambda>x. \<not> zone_rule z x) (ch_rules ch)"
    using dist by (intro filter_cong refl) (auto dest: distinct_map_eqD)
  from batch_del_rules [where v = "view k" and tb = tb and ch = ch, OF tb(1) fwd w] ch
  have w': "w = (view k)(table \<mapsto> tb\<lparr>nt_chains := [''forward'' \<mapsto> ?ch]\<rparr>)" unfolding same by simp
  have "\<exists>k1. delete_rules nft table ?ds k = (None, k1) \<and> view k1 = w"
  proof (cases "?ds = []")
    case True
    then show ?thesis using w by (simp add: delete_rules_def)
  next
    case False
    with faultless_queue [OF assms(1) w, of "''flush rule delete''"] show ?thesis
      by (simp only: delete_rules_def if_False)
  qed
  then obtain k1 where k1: "delete_rules nft table ?ds k = (None, k1)" "view k1 = w" by blast
  have "\<exists>k' tb'. delete_sets nft table [zoneSetName z, routesSetName z] k1 = (None, k') \<and>
      view k' table = Some tb' \<and> (\<forall>n \<in> set [zoneSetName z, routesSetName z]. nt_sets tb' n = None) \<and>
      (\<forall>n. nt_sets (tb\<lparr>nt_chains := [''forward'' \<mapsto> ?ch]\<rparr>) n = None \<longrightarrow> nt_sets tb' n = None)"
    by (rule delete_sets_ok [where ch = ?ch, OF assms(1)])
      (auto simp: k1(2) w' zone_rule_def ruleReferencesSet_iff)
  then show ?thesis
    by (auto simp: DeleteZone_def faultless_new [OF assms(1)] faultless_chain [OF assms]
        rules k1(1))
qed

section \<open>The manager as one interface\<close>

text \<open>The calls a client makes, what each needs and what each does to the zone map.\<close>

datatype fw_call =
    Call_AddZone int
  | Call_DeleteZone int
  | Call_AddMember int addr
  | Call_RemoveMember int addr
  | Call_AddZoneRoute int prefix4
  | Call_RemoveZoneRoute int prefix4

fun fw_exec :: "'k nft \<Rightarrow> string \<Rightarrow> fw_call \<Rightarrow> 'k \<Rightarrow> string option \<times> 'k" where
  "fw_exec nft table (Call_AddZone z) k = AddZone nft table z k"
| "fw_exec nft table (Call_DeleteZone z) k = DeleteZone nft table z k"
| "fw_exec nft table (Call_AddMember z ip) k = AddMember nft table z ip k"
| "fw_exec nft table (Call_RemoveMember z ip) k = RemoveMember nft table z ip k"
| "fw_exec nft table (Call_AddZoneRoute z p) k = AddZoneRoute nft table z p k"
| "fw_exec nft table (Call_RemoveZoneRoute z p) k = RemoveZoneRoute nft table z p k"

definition on_zone :: "(addr set \<times> prefix4 set \<Rightarrow> addr set \<times> prefix4 set) \<Rightarrow> int \<Rightarrow> zone_map \<Rightarrow> zone_map" where
  "on_zone f z Z = (case Z z of None \<Rightarrow> Z | Some x \<Rightarrow> Z(z \<mapsto> f x))"

fun fw_effect :: "fw_call \<Rightarrow> zone_map \<Rightarrow> zone_map" where
  "fw_effect (Call_AddZone z) Z = Z(z \<mapsto> ({}, {}))"
| "fw_effect (Call_DeleteZone z) Z = Z(z := None)"
| "fw_effect (Call_AddMember z ip) Z = on_zone (apfst (insert ip)) z Z"
| "fw_effect (Call_RemoveMember z ip) Z = on_zone (apfst (\<lambda>M. M - {ip})) z Z"
| "fw_effect (Call_AddZoneRoute z p) Z = on_zone (apsnd (insert p)) z Z"
| "fw_effect (Call_RemoveZoneRoute z p) Z = on_zone (apsnd (\<lambda>R. R - {p})) z Z"

definition zone_sets_free :: "ruleset \<Rightarrow> string \<Rightarrow> int \<Rightarrow> bool" where
  "zone_sets_free v table z =
     (case v table of None \<Rightarrow> True
      | Some tb \<Rightarrow> nt_sets tb (zoneSetName z) = None \<and> nt_sets tb (routesSetName z) = None)"

fun fw_ready :: "string \<Rightarrow> fw_call \<Rightarrow> ruleset \<Rightarrow> zone_map \<Rightarrow> bool" where
  "fw_ready table (Call_AddZone z) v Z = (Z z = None \<and> zone_sets_free v table z)"
| "fw_ready table (Call_DeleteZone z) v Z = True"
| "fw_ready table (Call_AddMember z ip) v Z = (Z z \<noteq> None)"
| "fw_ready table (Call_RemoveMember z ip) v Z =
     (case Z z of None \<Rightarrow> False | Some (M, R) \<Rightarrow> ip \<in> M)"
| "fw_ready table (Call_AddZoneRoute z p) v Z = (Z z \<noteq> None)"
| "fw_ready table (Call_RemoveZoneRoute z p) v Z =
     (case Z z of None \<Rightarrow> False | Some (M, R) \<Rightarrow> routes_good R \<and> p \<in> R)"

text \<open>A session: the calls are made in order, the first error ends it.\<close>

fun fw_session :: "('c \<Rightarrow> 'k \<Rightarrow> string option \<times> 'k) \<Rightarrow> 'c list \<Rightarrow> 'k \<Rightarrow> string option \<times> 'k" where
  "fw_session exec [] k = (None, k)"
| "fw_session exec (c # cs) k =
     (case exec c k of
        (Some err, k') \<Rightarrow> (Some err, k')
      | (None, k') \<Rightarrow> fw_session exec cs k')"

fun session_ready :: "('c \<Rightarrow> 'k \<Rightarrow> string option \<times> 'k) \<Rightarrow> ('k \<Rightarrow> ruleset) \<Rightarrow>
  ('c \<Rightarrow> ruleset \<Rightarrow> zone_map \<Rightarrow> bool) \<Rightarrow> ('c \<Rightarrow> zone_map \<Rightarrow> zone_map) \<Rightarrow>
  'c list \<Rightarrow> 'k \<Rightarrow> zone_map \<Rightarrow> bool" where
  "session_ready exec view ready effect [] k Z = True"
| "session_ready exec view ready effect (c # cs) k Z =
     (ready c (view k) Z \<and> session_ready exec view ready effect cs (snd (exec c k)) (effect c Z))"

text \<open>
  The contract the dataplane relies on: a ready call that reports success has had its effect on the
  zones the table stands for, one that reports an error has had the effect or none, and a kernel
  without failures reports success.
\<close>

locale fw_manager =
  fixes exec :: "'k nft \<Rightarrow> string \<Rightarrow> 'c \<Rightarrow> 'k \<Rightarrow> string option \<times> 'k"
    and ready :: "string \<Rightarrow> 'c \<Rightarrow> ruleset \<Rightarrow> zone_map \<Rightarrow> bool"
    and effect :: "'c \<Rightarrow> zone_map \<Rightarrow> zone_map"
  assumes success: "\<lbrakk>nft_contract nft view; represents table (view k) Z; ready table c (view k) Z;
      exec nft table c k = (None, k')\<rbrakk> \<Longrightarrow> represents table (view k') (effect c Z)"
    and failure: "\<lbrakk>nft_contract nft view; represents table (view k) Z;
      exec nft table c k = (Some err, k')\<rbrakk> \<Longrightarrow>
      represents table (view k') Z \<or> represents table (view k') (effect c Z)"
    and progress: "\<lbrakk>nft_faultless nft view; represents table (view k) Z; ready table c (view k) Z\<rbrakk> \<Longrightarrow>
      \<exists>k'. exec nft table c k = (None, k')"
begin

text \<open>Whatever a call reports, the packets let through are those of the old or of the new zones.\<close>

lemma isolates:
  assumes "nft_contract nft view" and "represents table (view k) Z" and "ready table c (view k) Z"
    and "exec nft table c k = (r, k')"
    and "\<forall>z M R. Z z = Some (M, R) \<longrightarrow> routes_good R"
    and "\<forall>z M R. effect c Z z = Some (M, R) \<longrightarrow> routes_good R"
  shows "(\<forall>p. forwarded (view k') table p \<longleftrightarrow> may_pass (effect c Z) p) \<or>
    (r \<noteq> None \<and> (\<forall>p. forwarded (view k') table p \<longleftrightarrow> may_pass Z p))"
proof (cases r)
  case None
  with success assms(1-4) have "represents table (view k') (effect c Z)" by blast
  from represents_forwarded [OF this assms(6)] show ?thesis by blast
next
  case (Some err)
  with failure assms(1,2,4) have "represents table (view k') Z \<or> represents table (view k') (effect c Z)"
    by blast
  with represents_forwarded [OF _ assms(5)] represents_forwarded [OF _ assms(6)] Some
  show ?thesis by blast
qed

text \<open>A session whose calls are ready goes through on a kernel without failures.\<close>

lemma session_succeeds:
  "\<lbrakk>nft_faultless nft view; represents table (view k) Z;
    session_ready (exec nft table) view (ready table) effect cs k Z\<rbrakk> \<Longrightarrow>
   \<exists>k'. fw_session (exec nft table) cs k = (None, k') \<and> represents table (view k') (fold effect cs Z)"
proof (induction cs arbitrary: k Z)
  case (Cons c cs)
  from Cons.prems(3) have c: "ready table c (view k) Z" by simp
  from progress [OF Cons.prems(1,2) c] obtain k1 where k1: "exec nft table c k = (None, k1)" by blast
  have "represents table (view k1) (effect c Z)"
    by (rule success [where view = view and k = k, OF faultless_contract [OF Cons.prems(1)] Cons.prems(2) c k1])
  from Cons.IH [OF Cons.prems(1) this] Cons.prems(3) k1 show ?case by simp
qed simp

end

lemma on_zone_some: "Z z = Some x \<Longrightarrow> on_zone f z Z = Z(z \<mapsto> f x)"
  by (simp add: on_zone_def)

lemma fw_exec_success:
  assumes "nft_contract nft view" and "represents table (view k) Z" and "fw_ready table c (view k) Z"
    and "fw_exec nft table c k = (None, k')"
  shows "represents table (view k') (fw_effect c Z)"
proof (cases c)
  case (Call_AddZone z)
  with assms(3) have Z: "Z z = None" and free: "zone_sets_free (view k) table z" by simp_all
  have "represents table (view k') (Z(z \<mapsto> ({}, {})))"
    by (rule AddZone_rep [OF assms(1,2) Z])
      (use assms(4) Call_AddZone free in \<open>simp_all add: zone_sets_free_def\<close>)
  then show ?thesis by (simp add: Call_AddZone)
next
  case (Call_DeleteZone z)
  with DeleteZone_rep [OF assms(1,2), of z None k'] assms(4) show ?thesis by simp
next
  case (Call_AddMember z ip)
  with assms(3) obtain M R where Z: "Z z = Some (M, R)" by auto
  from AddMember_rep [OF assms(1,2) Z] assms(4) Call_AddMember on_zone_some [where Z = Z, OF Z] show ?thesis by simp
next
  case (Call_RemoveMember z ip)
  with assms(3) obtain M R where Z: "Z z = Some (M, R)" by (auto split: option.splits)
  from RemoveMember_rep [OF assms(1,2) Z] assms(4) Call_RemoveMember on_zone_some [where Z = Z, OF Z]
  show ?thesis by simp
next
  case (Call_AddZoneRoute z p)
  with assms(3) obtain M R where Z: "Z z = Some (M, R)" by auto
  from AddZoneRoute_rep [OF assms(1,2) Z] assms(4) Call_AddZoneRoute on_zone_some [where Z = Z, OF Z]
  show ?thesis by simp
next
  case (Call_RemoveZoneRoute z p)
  with assms(3) obtain M R where Z: "Z z = Some (M, R)" and R: "routes_good R" "p \<in> R"
    by (auto split: option.splits)
  from RemoveZoneRoute_rep [OF assms(1,2) Z R] assms(4) Call_RemoveZoneRoute on_zone_some [where Z = Z, OF Z]
  show ?thesis by simp
qed

lemma fw_exec_failure:
  assumes "nft_contract nft view" and "represents table (view k) Z"
    and "fw_exec nft table c k = (Some err, k')"
  shows "represents table (view k') Z \<or> represents table (view k') (fw_effect c Z)"
proof (cases c)
  case (Call_DeleteZone z)
  with DeleteZone_rep [OF assms(1,2), of z "Some err" k'] assms(2,3) show ?thesis by auto
next
  case (Call_AddZone z)
  with assms(3) have "k' = k \<or> (\<exists>cmds. queue_and_flush nft ''add zone'' cmds k = (Some err, k'))"
    by (auto simp: AddZone_def split: option.splits sum.splits)
  with queue_and_flush_Some [OF assms(1)] have "view k' = view k" by blast
  with assms(2) show ?thesis by simp
next
  case (Call_AddMember z ip)
  with assms(3) have "view k' = view k" by (auto simp: AddMember_def intro: edit_set_Some [OF assms(1)])
  with assms(2) show ?thesis by simp
next
  case (Call_RemoveMember z ip)
  with assms(3) have "view k' = view k" by (auto simp: RemoveMember_def intro: edit_set_Some [OF assms(1)])
  with assms(2) show ?thesis by simp
next
  case (Call_AddZoneRoute z p)
  with assms(3) have "view k' = view k" by (auto simp: AddZoneRoute_def intro: edit_set_Some [OF assms(1)])
  with assms(2) show ?thesis by simp
next
  case (Call_RemoveZoneRoute z p)
  with assms(3) have "view k' = view k" by (auto simp: RemoveZoneRoute_def intro: edit_set_Some [OF assms(1)])
  with assms(2) show ?thesis by simp
qed

lemma fw_exec_progress:
  assumes "nft_faultless nft view" and "represents table (view k) Z" and "fw_ready table c (view k) Z"
  shows "\<exists>k'. fw_exec nft table c k = (None, k')"
proof (cases c)
  case (Call_AddZone z)
  with assms(3) have "Z z = None" "zone_sets_free (view k) table z" by simp_all
  then have "\<exists>k'. AddZone nft table z k = (None, k')"
    by (intro AddZone_ok [OF assms(1,2)]) (simp_all add: zone_sets_free_def)
  then show ?thesis by (simp add: Call_AddZone)
next
  case (Call_DeleteZone z)
  with DeleteZone_ok [OF assms(1,2), of z] show ?thesis by auto
qed (use assms(3) member_edit_ok [OF assms(1,2)] in \<open>fastforce split: option.splits\<close>)+

interpretation netfw: fw_manager fw_exec fw_ready fw_effect
  by unfold_locales (fact fw_exec_success fw_exec_failure fw_exec_progress)+

section \<open>Properties\<close>

definition ip_packet :: "addr \<Rightarrow> addr \<Rightarrow> packet" where
  "ip_packet src dst =
     \<lparr>p_nfproto = NFPROTO_IPV4, p_net = (\<lambda>off. if off = 12 then src else dst), p_ct = 0\<rparr>"

definition demo_zones :: "fw_zone list" where
  "demo_zones =
     [\<lparr>fz_ID = 7, fz_MemberIPs = [0x0A000002, 0x0A000003], fz_RouteCIDRs = [Prefix4 0x64400100 24]\<rparr>,
      \<lparr>fz_ID = 8, fz_MemberIPs = [0x0A000004], fz_RouteCIDRs = []\<rparr>]"

lemma demo_routes_good: "routes_good {Prefix4 0x64400100 24}"
  by (simp add: routes_good_def Masked_def mask_eq_exp_minus_1)

lemma demo_zones_distinct: "distinct (map fz_ID demo_zones)"
  by (simp add: demo_zones_def)

lemma demo_zones_map:
  "zones_map demo_zones =
     [8 \<mapsto> ({0x0A000004}, {}), 7 \<mapsto> ({0x0A000002, 0x0A000003}, {Prefix4 0x64400100 24})]"
  by (auto simp: zones_map_def demo_zones_def)

lemma demo_zones_good: "\<forall>z M R. zones_map demo_zones z = Some (M, R) \<longrightarrow> routes_good R"
  unfolding demo_zones_map using demo_routes_good by (auto simp: routes_good_def)

lemma may_pass_demo:
  "may_pass (zones_map demo_zones) (ip_packet src dst) \<longleftrightarrow>
     src \<in> {0x0A000002, 0x0A000003} \<and> (dst \<in> {0x0A000002, 0x0A000003} \<or> Contains (Prefix4 0x64400100 24) dst) \<or>
     src = 0x0A000004 \<and> dst = 0x0A000004"
proof -
  have "(\<exists>z M R. zones_map demo_zones z = Some (M, R) \<and> Q M R) \<longleftrightarrow>
      Q {0x0A000002, 0x0A000003} {Prefix4 0x64400100 24} \<or> Q {0x0A000004} {}" for Q
    unfolding demo_zones_map
    by (auto split: if_splits intro: exI [of _ 7] exI [of _ 8])
  then show ?thesis by (simp add: may_pass_def ip_packet_def)
qed

text \<open>
  C10: whatever the kernel held before, a \<^verbatim>\<open>Rebuild\<close> that reports success leaves a table that forwards
  exactly the packets the given zones allow (replies of a known flow, and IPv4 packets from a
  member of a zone to a member of the same zone or to an address announced into it; everything
  else meets the drop policy) and leaves every other table alone.
\<close>

theorem Rebuild_isolates:
  assumes "nft_contract nft view" and "distinct (map fz_ID zs)"
    and "\<forall>z M R. zones_map zs z = Some (M, R) \<longrightarrow> routes_good R"
    and "Rebuild nft table zs k = (None, k')"
  shows "(\<forall>p. forwarded (view k') table p \<longleftrightarrow> may_pass (zones_map zs) p) \<and>
    (\<forall>t. t \<noteq> table \<longrightarrow> view k' t = view k t)"
  using Rebuild_rep [OF assms(1,2,4)] represents_forwarded [OF _ assms(3)] by blast+

theorem Rebuild_isolates_witness:
  "\<exists>k'. Rebuild model_nft ''lanweave'' demo_zones empty_kernel = (None, k') \<and>
     forwarded (kernel_view k') ''lanweave'' (ip_packet 0x0A000002 0x0A000003) \<and>
     forwarded (kernel_view k') ''lanweave'' (ip_packet 0x0A000002 0x64400105) \<and>
     \<not> forwarded (kernel_view k') ''lanweave'' (ip_packet 0x0A000002 0x0A000004) \<and>
     \<not> forwarded (kernel_view k') ''lanweave'' (ip_packet 0x0A000004 0x64400105) \<and>
     kernel_view k' ''filter'' = None"
proof -
  from Rebuild_ok [OF model_faultless demo_zones_distinct] obtain k' where
    k': "Rebuild model_nft ''lanweave'' demo_zones empty_kernel = (None, k')" by blast
  note fw = Rebuild_isolates [OF model_contract demo_zones_distinct demo_zones_good k']
  have "kernel_view k' ''filter'' = kernel_view empty_kernel ''filter''" using fw by simp
  then have "kernel_view k' ''filter'' = None" by (simp add: kernel_view_def empty_kernel_def)
  moreover have "forwarded (kernel_view k') ''lanweave'' p \<longleftrightarrow> may_pass (zones_map demo_zones) p" for p
    using fw by blast
  ultimately show ?thesis
    using k' by (intro exI [of _ k']) (simp add: may_pass_demo Contains_def)
qed

text \<open>
  Recovery. On a kernel without failures of its own, \<^verbatim>\<open>Rebuild\<close> succeeds from every state of
  the kernel, a stale or damaged table included, and the table then stands for exactly the given
  zones.
\<close>

lemma Rebuild_recovers:
  assumes "nft_faultless nft view" and "distinct (map fz_ID zs)"
  shows "\<exists>k'. Rebuild nft table zs k = (None, k') \<and> represents table (view k') (zones_map zs)"
  using Rebuild_ok [OF assms] Rebuild_rep [OF faultless_contract [OF assms(1)] assms(2)] by blast

lemma Rebuild_recovers_example:
  "\<exists>k'. Rebuild model_nft ''lanweave'' demo_zones
       ([''lanweave'' \<mapsto> \<lparr>nt_chains = \<lambda>_. None, nt_sets = \<lambda>_. None, nt_next = 5\<rparr>], [''lanweave'']) = (None, k') \<and>
     represents ''lanweave'' (kernel_view k') (zones_map demo_zones)"
  by (rule Rebuild_recovers [OF model_faultless demo_zones_distinct])

text \<open>
  C11: incremental changes are atomic for the packets. Whatever one of the six operations on zones,
  members and routes reports and whatever the kernel does, the table afterwards lets through
  exactly what the changed zones allow, or the operation has reported an error and the table lets
  through what the unchanged zones allow: no error leaves a half-made state that leaks.
\<close>

theorem fw_exec_isolates:
  assumes "nft_contract nft view" and "represents table (view k) Z" and "fw_ready table c (view k) Z"
    and "fw_exec nft table c k = (r, k')"
    and "\<forall>z M R. Z z = Some (M, R) \<longrightarrow> routes_good R"
    and "\<forall>z M R. fw_effect c Z z = Some (M, R) \<longrightarrow> routes_good R"
  shows "(\<forall>p. forwarded (view k') table p \<longleftrightarrow> may_pass (fw_effect c Z) p) \<or>
    (r \<noteq> None \<and> (\<forall>p. forwarded (view k') table p \<longleftrightarrow> may_pass Z p))"
  by (rule netfw.isolates [OF assms])

lemma demo_after_removal:
  "fw_effect (Call_RemoveMember 7 0x0A000003) (zones_map demo_zones) =
     [8 \<mapsto> ({0x0A000004}, {}), 7 \<mapsto> ({0x0A000002}, {Prefix4 0x64400100 24})]"
proof -
  have "{0x0A000002, 0x0A000003} - {0x0A000003} = {0x0A000002 :: addr}" by auto
  then show ?thesis by (simp add: demo_zones_map on_zone_def)
qed

theorem fw_exec_isolates_witness:
  "\<exists>k k'. Rebuild model_nft ''lanweave'' demo_zones empty_kernel = (None, k) \<and>
     fw_exec model_nft ''lanweave'' (Call_RemoveMember 7 0x0A000003) k = (None, k') \<and>
     \<not> forwarded (kernel_view k') ''lanweave'' (ip_packet 0x0A000002 0x0A000003)"
proof -
  from Rebuild_ok [OF model_faultless demo_zones_distinct] obtain k where
    k: "Rebuild model_nft ''lanweave'' demo_zones empty_kernel = (None, k)" by blast
  from Rebuild_rep [OF model_contract demo_zones_distinct k] have
    rep: "represents ''lanweave'' (kernel_view k) (zones_map demo_zones)" by simp
  have ready: "fw_ready ''lanweave'' (Call_RemoveMember 7 0x0A000003) (kernel_view k) (zones_map demo_zones)"
    by (simp add: demo_zones_map)
  from netfw.progress [OF model_faultless rep ready] obtain k' where
    k': "fw_exec model_nft ''lanweave'' (Call_RemoveMember 7 0x0A000003) k = (None, k')" by blast
  have good: "\<forall>z M R. fw_effect (Call_RemoveMember 7 0x0A000003) (zones_map demo_zones) z = Some (M, R) \<longrightarrow>
      routes_good R"
    unfolding demo_after_removal using demo_routes_good by (auto simp: routes_good_def)
  have "\<not> may_pass (fw_effect (Call_RemoveMember 7 0x0A000003) (zones_map demo_zones))
      (ip_packet 0x0A000002 0x0A000003)"
    unfolding demo_after_removal by (auto simp: may_pass_def ip_packet_def Contains_def split: if_splits)
  with fw_exec_isolates [OF model_contract rep ready k' demo_zones_good good] k k' show ?thesis by blast
qed

text \<open>
  A sequence of operations, each of them ready when its turn comes, goes through on a kernel
  without failures, and the table then stands for the zones with all their effects in that order.
\<close>

lemma fw_session_succeeds:
  assumes "nft_faultless nft view" and "represents table (view k) Z"
    and "session_ready (fw_exec nft table) view (fw_ready table) fw_effect cs k Z"
  shows "\<exists>k'. fw_session (fw_exec nft table) cs k = (None, k') \<and>
    represents table (view k') (fold fw_effect cs Z)"
  by (rule netfw.session_succeeds [OF assms])

lemma fw_session_succeeds_example:
  "\<exists>k k'. Rebuild model_nft ''lanweave'' demo_zones empty_kernel = (None, k) \<and>
     fw_session (fw_exec model_nft ''lanweave'')
       [Call_AddMember 8 0x0A000005, Call_DeleteZone 7, Call_RemoveMember 8 0x0A000004] k = (None, k') \<and>
     represents ''lanweave'' (kernel_view k') [8 \<mapsto> ({0x0A000005}, {})]"
proof -
  let ?cs = "[Call_AddMember 8 0x0A000005, Call_DeleteZone 7, Call_RemoveMember 8 0x0A000004]"
  from Rebuild_ok [OF model_faultless demo_zones_distinct] obtain k where
    k: "Rebuild model_nft ''lanweave'' demo_zones empty_kernel = (None, k)" by blast
  from Rebuild_rep [OF model_contract demo_zones_distinct k] have
    rep: "represents ''lanweave'' (kernel_view k) (zones_map demo_zones)" by simp
  have "fold fw_effect ?cs (zones_map demo_zones) = [8 \<mapsto> ({0x0A000005}, {})]"
    by (auto simp: demo_zones_map on_zone_def)
  moreover have "session_ready (fw_exec model_nft ''lanweave'') kernel_view (fw_ready ''lanweave'') fw_effect
      ?cs k (zones_map demo_zones)"
    by (simp add: demo_zones_map on_zone_def)
  ultimately show ?thesis
    using fw_session_succeeds [OF model_faultless rep, of ?cs] k by auto
qed

text \<open>
  Deleting a zone removes its rules before its sets, so on a kernel without failures (which
  refuses to delete a set a rule still refers to) it succeeds and both sets of the zone are gone.
\<close>

lemma DeleteZone_leaves_no_set:
  assumes "nft_faultless nft view" and "represents table (view k) Z"
  shows "\<exists>k'. DeleteZone nft table z k = (None, k') \<and> represents table (view k') (Z(z := None)) \<and>
    zone_sets_free (view k') table z"
proof -
  from DeleteZone_ok [OF assms] obtain k' tb' where
    k': "DeleteZone nft table z k = (None, k')" "view k' table = Some tb'"
    "nt_sets tb' (zoneSetName z) = None" "nt_sets tb' (routesSetName z) = None" by blast
  with DeleteZone_rep [OF faultless_contract [OF assms(1)] assms(2) k'(1)] show ?thesis
    by (auto simp: zone_sets_free_def)
qed

lemma DeleteZone_leaves_no_set_example:
  "\<exists>k k'. Rebuild model_nft ''lanweave'' demo_zones empty_kernel = (None, k) \<and>
     DeleteZone model_nft ''lanweave'' 7 k = (None, k') \<and> zone_sets_free (kernel_view k') ''lanweave'' 7"
proof -
  from Rebuild_ok [OF model_faultless demo_zones_distinct] obtain k where
    k: "Rebuild model_nft ''lanweave'' demo_zones empty_kernel = (None, k)" by blast
  from Rebuild_rep [OF model_contract demo_zones_distinct k] have
    rep: "represents ''lanweave'' (kernel_view k) (zones_map demo_zones)" by simp
  from DeleteZone_leaves_no_set [OF model_faultless rep, of 7] k show ?thesis by blast
qed

lemma dvd_step: "(n::nat) dvd b \<Longrightarrow> n dvd m \<Longrightarrow> b < m \<Longrightarrow> m \<le> b + n \<Longrightarrow> b + n = m"
  by (metis add.commute dvd_minus_self dvd_imp_le le_add_diff_inverse2 le_antisym le_diff_conv
      less_imp_le_nat not_less zero_less_diff dvd_diff_nat)

text \<open>
  C33: the bounds of an interval element. The two elements made for an announced block cover exactly
  its addresses, except that a block reaching the end of the address space loses
  255.255.255.255, because its end key is clamped.
\<close>

theorem rangeElements_covers:
  assumes "PBits p < 32"
  shows "in_nset \<lparr>ns_interval = True, ns_elems = rangeElements p\<rparr> a \<longleftrightarrow>
    Contains p a \<and> (unat (PAddr (Masked p)) + 2 ^ (32 - PBits p) < 2 ^ 32 \<or> a \<noteq> 0xFFFFFFFF)"
proof -
  let ?b = "unat (PAddr (Masked p))" and ?n = "2 ^ (32 - PBits p) :: nat"
  have block: "Contains p a \<longleftrightarrow> ?b \<le> unat a \<and> unat a < ?b + ?n"
    using Contains_block [of p a] assms by simp
  show ?thesis
  proof (cases "?b + ?n < 2 ^ 32")
    case True
    from rangeElements_good [OF True] obtain e where
      "rangeElements p = [SetElement (PAddr (Masked p)) False, SetElement e True]" "unat e = ?b + ?n" by blast
    with True show ?thesis by (auto simp: in_nset_def block word_le_nat_alt word_less_nat_alt)
  next
    case False
    have "(2::nat) ^ 1 \<le> ?n" using assms by (intro power_increasing) auto
    moreover have "?b < 2 ^ 32" by (rule addr_less_pow)
    moreover have "?n dvd ?b" by (simp add: Masked_def unat_masked)
    moreover have "?n dvd 2 ^ 32" by (rule le_imp_power_dvd) simp
    ultimately have b: "?b + 2 \<le> 2 ^ 32" "?b + ?n = 2 ^ 32"
      using False dvd_step [of ?n ?b "2 ^ 32"] by simp_all
    have "rangeElements p = [SetElement (PAddr (Masked p)) False, SetElement 0xFFFFFFFF True]"
      using b(2) by (simp add: rangeElements_def Let_def block_size_def)
    then show ?thesis
      using b addr_less [of a]
      by (auto simp: in_nset_def block word_le_nat_alt word_less_nat_alt word_unat_eq_iff simp del: addr_less)
  qed
qed

theorem rangeElements_covers_witness:
  "\<not> in_nset \<lparr>ns_interval = True, ns_elems = rangeElements (Prefix4 0xFFFFFF00 24)\<rparr> 0xFFFFFFFF \<and>
   in_nset \<lparr>ns_interval = True, ns_elems = rangeElements (Prefix4 0xFFFFFF00 24)\<rparr> 0xFFFFFFFE"
  using rangeElements_covers [of "Prefix4 0xFFFFFF00 24"]
  by (simp add: Masked_def Contains_def mask_eq_exp_minus_1)

end
