(* ===== verification/Wg.thy ===== *)
theory Wg
  imports Netip Ipam
begin

text \<open>
  \<^verbatim>\<open>internal/server/wg\<close>: the server key (\<^verbatim>\<open>key.go\<close>) and the WireGuard interface with its peers
  (\<^verbatim>\<open>iface.go\<close>). The libraries \<^verbatim>\<open>wgctrl\<close> and \<^verbatim>\<open>netlink\<close> with the kernel behind them are a parameter, a
  record of the operations the code calls over an abstract machine state; the key file is a small
  file system. What the code relies on of WireGuard is \<open>wg_contract\<close>: the documented effect of a
  device configuration, allowed IPs as a table from prefixes to peers in which a prefix belongs to
  one peer at a time.
\<close>

section \<open>Definitions\<close>

subsection \<open>What the code hands to the libraries\<close>

type_synonym wg_key = "256 word"

record wg_peer_config =
  wp_key :: wg_key
  wp_remove :: bool
  wp_replace_ips :: bool
  wp_allowed :: "prefix4 list"

record wg_config =
  wc_private :: "wg_key option"
  wc_port :: "int option"
  wc_replace_peers :: bool
  wc_peers :: "wg_peer_config list"

datatype link_error = LinkNotFound | LinkFault

record 'w host =
  parse_key :: "string \<Rightarrow> wg_key option"
  key_string :: "wg_key \<Rightarrow> string"
  wg_open :: "'w \<Rightarrow> string option"
  wg_configure :: "string \<Rightarrow> wg_config \<Rightarrow> 'w \<Rightarrow> string option \<times> 'w"
  wg_device :: "string \<Rightarrow> 'w \<Rightarrow> (string, (wg_key \<times> int) list) result"
  link_by_name :: "string \<Rightarrow> 'w \<Rightarrow> (link_error, string) result"
  link_add :: "string \<Rightarrow> 'w \<Rightarrow> string option \<times> 'w"
  link_set_mtu :: "string \<Rightarrow> int \<Rightarrow> 'w \<Rightarrow> string option \<times> 'w"
  addr_replace :: "string \<Rightarrow> addr \<Rightarrow> nat \<Rightarrow> 'w \<Rightarrow> string option \<times> 'w"
  link_set_up :: "string \<Rightarrow> 'w \<Rightarrow> string option \<times> 'w"
  route_replace :: "string \<Rightarrow> prefix4 \<Rightarrow> 'w \<Rightarrow> string option \<times> 'w"

subsection \<open>Peers\<close>

record peer_config =
  PublicKey :: string
  PeerIP :: addr
  PeerRoutes :: "prefix4 list"

definition peerConfig ::
  "'w host \<Rightarrow> string \<Rightarrow> addr \<Rightarrow> prefix4 list \<Rightarrow> (string, wg_peer_config) result" where
  "peerConfig h publicKey ip routes =
     (case parse_key h publicKey of
        None \<Rightarrow> Inl ''parse peer key''
      | Some key \<Rightarrow>
          Inr \<lparr>wp_key = key, wp_remove = False, wp_replace_ips = True,
               wp_allowed = Prefix4 ip 32 # map Masked routes\<rparr>)"

definition peers_only :: "bool \<Rightarrow> wg_peer_config list \<Rightarrow> wg_config" where
  "peers_only replace ps =
     \<lparr>wc_private = None, wc_port = None, wc_replace_peers = replace, wc_peers = ps\<rparr>"

definition SetPeerRoutes ::
  "'w host \<Rightarrow> string \<Rightarrow> string \<Rightarrow> addr \<Rightarrow> prefix4 list \<Rightarrow> 'w \<Rightarrow> string option \<times> 'w" where
  "SetPeerRoutes h dev publicKey ip routes w =
     (case peerConfig h publicKey ip routes of
        Inl err \<Rightarrow> (Some err, w)
      | Inr peer \<Rightarrow>
          (case wg_configure h dev (peers_only False [peer]) w of
             (Some _, w') \<Rightarrow> (Some ''configure peer'', w')
           | (None, w') \<Rightarrow> (None, w')))"

definition AddPeer :: "'w host \<Rightarrow> string \<Rightarrow> string \<Rightarrow> addr \<Rightarrow> 'w \<Rightarrow> string option \<times> 'w" where
  "AddPeer h dev publicKey ip w = SetPeerRoutes h dev publicKey ip [] w"

definition RemovePeer :: "'w host \<Rightarrow> string \<Rightarrow> string \<Rightarrow> 'w \<Rightarrow> string option \<times> 'w" where
  "RemovePeer h dev publicKey w =
     (case parse_key h publicKey of
        None \<Rightarrow> (Some ''parse peer key'', w)
      | Some key \<Rightarrow>
          (case wg_configure h dev (peers_only False
                  [\<lparr>wp_key = key, wp_remove = True, wp_replace_ips = False, wp_allowed = []\<rparr>]) w of
             (Some _, w') \<Rightarrow> (Some ''remove peer'', w')
           | (None, w') \<Rightarrow> (None, w')))"

fun peer_configs :: "'w host \<Rightarrow> peer_config list \<Rightarrow> (string, wg_peer_config list) result" where
  "peer_configs h [] = Inr []"
| "peer_configs h (p # ps) =
     (case peerConfig h (PublicKey p) (PeerIP p) (PeerRoutes p) of
        Inl err \<Rightarrow> Inl err
      | Inr pc \<Rightarrow>
          (case peer_configs h ps of
             Inl err \<Rightarrow> Inl err
           | Inr pcs \<Rightarrow> Inr (pc # pcs)))"

definition ReplacePeers :: "'w host \<Rightarrow> string \<Rightarrow> peer_config list \<Rightarrow> 'w \<Rightarrow> string option \<times> 'w" where
  "ReplacePeers h dev peers w =
     (case peer_configs h peers of
        Inl err \<Rightarrow> (Some err, w)
      | Inr cfgs \<Rightarrow>
          (case wg_configure h dev (peers_only True cfgs) w of
             (Some _, w') \<Rightarrow> (Some ''replace peers'', w')
           | (None, w') \<Rightarrow> (None, w')))"

text \<open>\<^verbatim>\<open>Handshakes\<close>: a map built by assignment, so the last peer with a key counts.\<close>

definition Handshakes :: "'w host \<Rightarrow> string \<Rightarrow> 'w \<Rightarrow> (string, string \<rightharpoonup> int) result" where
  "Handshakes h dev w =
     (case wg_device h dev w of
        Inl _ \<Rightarrow> Inl ''read device''
      | Inr peers \<Rightarrow> Inr (fold (\<lambda>(k, t) m. m(key_string h k \<mapsto> t)) peers (\<lambda>_. None)))"

subsection \<open>The interface\<close>

record wireguard_config =
  Interface :: string
  Network :: string
  ListenPort :: int
  MTU :: int

definition ensureLink :: "'w host \<Rightarrow> string \<Rightarrow> 'w \<Rightarrow> (string, bool) result \<times> 'w" where
  "ensureLink h name w =
     (case link_by_name h name w of
        Inr kind \<Rightarrow>
          if kind \<noteq> ''wireguard'' then (Inl ''interface exists but is not wireguard'', w)
          else (Inr False, w)
      | Inl LinkFault \<Rightarrow> (Inl ''look up interface'', w)
      | Inl LinkNotFound \<Rightarrow>
          (case link_add h name w of
             (Some _, w1) \<Rightarrow> (Inl ''create wireguard interface'', w1)
           | (None, w1) \<Rightarrow>
               (case link_by_name h name w1 of
                  Inl _ \<Rightarrow> (Inl ''re-fetch interface after create'', w1)
                | Inr _ \<Rightarrow> (Inr True, w1))))"

text \<open>A step that may fail with its own text, ahead of the rest.\<close>

definition step_or ::
  "string \<Rightarrow> string option \<times> 'w \<Rightarrow> ('w \<Rightarrow> string option \<times> 'w) \<Rightarrow> string option \<times> 'w" where
  "step_or label r next_step =
     (case r of (Some _, w) \<Rightarrow> (Some label, w) | (None, w) \<Rightarrow> next_step w)"

definition EnsureInterface ::
  "'w host \<Rightarrow> (string \<Rightarrow> netip_prefix option) \<Rightarrow> wireguard_config \<Rightarrow> wg_key \<Rightarrow> 'w
     \<Rightarrow> string option \<times> 'w" where
  "EnsureInterface h parse cfg key w =
     (case FirstUsableAddress parse (Network cfg) of
        Inl _ \<Rightarrow> (Some ''pool'', w)
      | Inr (a, bits) \<Rightarrow>
          (case ensureLink h (Interface cfg) w of
             (Inl err, w1) \<Rightarrow> (Some err, w1)
           | (Inr _, w1) \<Rightarrow>
               step_or ''set MTU''
                 (if 0 < MTU cfg then link_set_mtu h (Interface cfg) (MTU cfg) w1 else (None, w1))
                 (\<lambda>w2. step_or ''assign address'' (addr_replace h (Interface cfg) a bits w2)
                    (\<lambda>w3. step_or ''bring up'' (link_set_up h (Interface cfg) w3)
                       (\<lambda>w4. step_or ''open wgctrl'' (wg_open h w4, w4)
                          (\<lambda>w5. step_or ''configure wireguard device''
                             (wg_configure h (Interface cfg)
                                \<lparr>wc_private = Some key, wc_port = Some (ListenPort cfg),
                                 wc_replace_peers = True, wc_peers = []\<rparr> w5)
                             (\<lambda>w6. (None, w6))))))))"

definition EnsurePoolRoute :: "'w host \<Rightarrow> string \<Rightarrow> prefix4 \<Rightarrow> 'w \<Rightarrow> string option \<times> 'w" where
  "EnsurePoolRoute h dev pool w =
     (case link_by_name h dev w of
        Inl _ \<Rightarrow> (Some ''find interface'', w)
      | Inr _ \<Rightarrow> step_or ''route'' (route_replace h dev (Masked pool) w) (\<lambda>w'. (None, w')))"

subsection \<open>The key file\<close>

text \<open>
  The file at the key's path: absent, or its permission bits and contents. Each system call may fail
  for its own reasons; a failed write leaves whatever file \<open>write_fault\<close> says.
\<close>

record key_file =
  kf_perm :: "9 word"
  kf_data :: string

record file_faults =
  stat_fault :: bool
  chmod_fault :: bool
  read_fault :: bool
  write_fault :: "key_file option option"

datatype key_error =
    KeyStat | KeyBroadPermissions | KeyRead | KeyCorrupt | KeyGenerate | KeyWrite

definition LoadOrGenerateKey ::
  "'w host \<Rightarrow> file_faults \<Rightarrow> wg_key option \<Rightarrow> key_file option
     \<Rightarrow> (key_error, wg_key \<times> bool) result \<times> key_file option" where
  "LoadOrGenerateKey h e drawn file =
     (if stat_fault e then (Inl KeyStat, file)
      else case file of
        Some f \<Rightarrow>
          (if kf_perm f AND 63 \<noteq> 0 \<and> chmod_fault e then (Inl KeyBroadPermissions, file)
           else
             (let f' = (if kf_perm f AND 63 \<noteq> 0 then f\<lparr>kf_perm := 384\<rparr> else f)
              in if read_fault e then (Inl KeyRead, Some f')
                 else
                   (case parse_key h (TrimSpace (kf_data f')) of
                      None \<Rightarrow> (Inl KeyCorrupt, Some f')
                    | Some key \<Rightarrow> (Inr (key, False), Some f'))))
      | None \<Rightarrow>
          (case drawn of
             None \<Rightarrow> (Inl KeyGenerate, None)
           | Some key \<Rightarrow>
               (case write_fault e of
                  Some left \<Rightarrow> (Inl KeyWrite, left)
                | None \<Rightarrow>
                    (Inr (key, True), Some \<lparr>kf_perm = 384, kf_data = key_string h key @ [CHR 0x0A]\<rparr>))))"

section \<open>What WireGuard promises\<close>

record wg_state =
  ws_private :: "wg_key option"
  ws_port :: "int option"
  ws_peers :: "wg_key set"
  ws_trie :: "prefix4 \<rightharpoonup> wg_key"

definition drop_key :: "wg_key \<Rightarrow> (prefix4 \<rightharpoonup> wg_key) \<Rightarrow> (prefix4 \<rightharpoonup> wg_key)" where
  "drop_key k m = (\<lambda>p. if m p = Some k then None else m p)"

definition apply_peer :: "wg_peer_config \<Rightarrow> wg_state \<Rightarrow> wg_state" where
  "apply_peer c s =
     (if wp_remove c
      then s\<lparr>ws_peers := ws_peers s - {wp_key c}, ws_trie := drop_key (wp_key c) (ws_trie s)\<rparr>
      else
        (let base = (if wp_replace_ips c then drop_key (wp_key c) (ws_trie s) else ws_trie s)
         in s\<lparr>ws_peers := insert (wp_key c) (ws_peers s),
              ws_trie := fold (\<lambda>p m. m(p \<mapsto> wp_key c)) (wp_allowed c) base\<rparr>))"

definition apply_config :: "wg_config \<Rightarrow> wg_state \<Rightarrow> wg_state" where
  "apply_config c s =
     (let s1 = s\<lparr>ws_private := (case wc_private c of None \<Rightarrow> ws_private s | Some k \<Rightarrow> Some k),
                 ws_port := (case wc_port c of None \<Rightarrow> ws_port s | Some p \<Rightarrow> Some p)\<rparr>;
          s2 = (if wc_replace_peers c then s1\<lparr>ws_peers := {}, ws_trie := (\<lambda>_. None)\<rparr> else s1)
      in fold apply_peer (wc_peers c) s2)"

text \<open>
  The contract for the device of one name, of which \<open>view\<close> reads the state: a configuration without
  an error has its effect. About a configuration that fails nothing is assumed.
\<close>

definition wg_contract :: "'w host \<Rightarrow> string \<Rightarrow> ('w \<Rightarrow> wg_state) \<Rightarrow> bool" where
  "wg_contract h dev view =
     (\<forall>c w w'. wg_configure h dev c w = (None, w') \<longrightarrow> view w' = apply_config c (view w))"

text \<open>A device without failures of its own.\<close>

definition wg_faultless :: "'w host \<Rightarrow> string \<Rightarrow> ('w \<Rightarrow> wg_state) \<Rightarrow> bool" where
  "wg_faultless h dev view =
     (wg_contract h dev view \<and> (\<forall>c w. fst (wg_configure h dev c w) = None))"

text \<open>The peer an address is sent to: the owner of the longest prefix that holds it.\<close>

definition delivers :: "wg_state \<Rightarrow> addr \<Rightarrow> wg_key \<Rightarrow> bool" where
  "delivers s a k =
     (\<exists>p. ws_trie s p = Some k \<and> Contains p a \<and>
        (\<forall>q k'. ws_trie s q = Some k' \<longrightarrow> Contains q a \<longrightarrow> PBits q \<le> PBits p))"

text \<open>The abstract state: for each peer its allowed prefixes.\<close>

type_synonym tunnel_map = "wg_key \<rightharpoonup> prefix4 set"

definition carries :: "wg_state \<Rightarrow> tunnel_map \<Rightarrow> bool" where
  "carries s T =
     (ws_peers s = dom T \<and> (\<forall>p k. ws_trie s p = Some k \<longleftrightarrow> (\<exists>A. T k = Some A \<and> p \<in> A)))"

definition allowed_of :: "addr \<Rightarrow> prefix4 list \<Rightarrow> prefix4 set" where
  "allowed_of ip routes = insert (Prefix4 ip 32) (Masked ` set routes)"

section \<open>Lemmas\<close>

subsection \<open>The table of allowed addresses\<close>

lemma fold_upd: "fold (\<lambda>p m. m(p \<mapsto> k)) ps m q = (if q \<in> set ps then Some k else m q)"
  by (induction ps arbitrary: m) auto

lemma wg_configure_None:
  "wg_contract h dev view \<Longrightarrow> wg_configure h dev c w = (None, w') \<Longrightarrow> view w' = apply_config c (view w)"
  unfolding wg_contract_def by blast

lemma apply_config_one: "apply_config (peers_only False [c]) s = apply_peer c s"
  by (simp add: apply_config_def peers_only_def)

lemma carries_trie: "carries s T \<Longrightarrow> ws_trie s p = Some k \<longleftrightarrow> (\<exists>A. T k = Some A \<and> p \<in> A)"
  by (simp add: carries_def)

lemma carries_disjoint: "carries s T \<Longrightarrow> T k = Some A \<Longrightarrow> T k' = Some B \<Longrightarrow> k \<noteq> k' \<Longrightarrow> A \<inter> B = {}"
  by (auto simp: carries_def) (metis option.inject)

lemma apply_peer_set:
  assumes "carries s T" and "\<not> wp_remove c" and "wp_replace_ips c"
    and "\<forall>k A. k \<noteq> wp_key c \<longrightarrow> T k = Some A \<longrightarrow> A \<inter> set (wp_allowed c) = {}"
  shows "carries (apply_peer c s) (T(wp_key c \<mapsto> set (wp_allowed c)))"
proof -
  let ?k = "wp_key c"
  have trie: "ws_trie (apply_peer c s) p =
      (if p \<in> set (wp_allowed c) then Some ?k else drop_key ?k (ws_trie s) p)" for p
    using assms(2,3) by (simp add: apply_peer_def fold_upd)
  have "ws_trie (apply_peer c s) p = Some k \<longleftrightarrow> (\<exists>A. (T(?k \<mapsto> set (wp_allowed c))) k = Some A \<and> p \<in> A)" for p k
    unfolding trie using assms(4) carries_trie [OF assms(1), of p k] carries_trie [OF assms(1), of p ?k]
    by (auto simp: drop_key_def)
  moreover have "ws_peers (apply_peer c s) = dom (T(?k \<mapsto> set (wp_allowed c)))"
    using assms(1,2) by (simp add: apply_peer_def carries_def)
  ultimately show ?thesis by (simp add: carries_def)
qed

lemma apply_peer_remove:
  assumes "carries s T" and "wp_remove c"
  shows "carries (apply_peer c s) (T(wp_key c := None))"
proof -
  have "ws_trie (apply_peer c s) p = Some k \<longleftrightarrow> (\<exists>A. (T(wp_key c := None)) k = Some A \<and> p \<in> A)" for p k
    using assms(2) carries_trie [OF assms(1), of p k] carries_trie [OF assms(1), of p "wp_key c"]
    by (auto simp: apply_peer_def drop_key_def)
  moreover have "ws_peers (apply_peer c s) = dom (T(wp_key c := None))"
    using assms by (simp add: carries_def apply_peer_def)
  ultimately show ?thesis by (simp add: carries_def)
qed

lemma SetPeerRoutes_carries:
  assumes "wg_contract h dev view" and "carries (view w) T" and "parse_key h pub = Some k"
    and "\<forall>k' A. k' \<noteq> k \<longrightarrow> T k' = Some A \<longrightarrow> A \<inter> allowed_of ip routes = {}"
    and "SetPeerRoutes h dev pub ip routes w = (None, w')"
  shows "carries (view w') (T(k \<mapsto> allowed_of ip routes))"
proof -
  let ?c = "\<lparr>wp_key = k, wp_remove = False, wp_replace_ips = True, wp_allowed = Prefix4 ip 32 # map Masked routes\<rparr>"
  from assms(3,5) have "wg_configure h dev (peers_only False [?c]) w = (None, w')"
    by (simp add: SetPeerRoutes_def peerConfig_def split: prod.splits option.splits)
  from wg_configure_None [OF assms(1) this] have "view w' = apply_peer ?c (view w)"
    by (simp only: apply_config_one)
  moreover have "set (wp_allowed ?c) = allowed_of ip routes" by (simp add: allowed_of_def)
  ultimately show ?thesis using apply_peer_set [OF assms(2), of ?c] assms(4) by simp
qed

lemma RemovePeer_carries:
  assumes "wg_contract h dev view" and "carries (view w) T" and "parse_key h pub = Some k"
    and "RemovePeer h dev pub w = (None, w')"
  shows "carries (view w') (T(k := None))"
proof -
  let ?c = "\<lparr>wp_key = k, wp_remove = True, wp_replace_ips = False, wp_allowed = []\<rparr>"
  from assms(3,4) have "wg_configure h dev (peers_only False [?c]) w = (None, w')"
    by (simp add: RemovePeer_def split: prod.splits option.splits)
  from wg_configure_None [OF assms(1) this] have "view w' = apply_peer ?c (view w)"
    by (simp only: apply_config_one)
  then show ?thesis using apply_peer_remove [OF assms(2), of ?c] by simp
qed

text \<open>The peers a list of configurations asks for.\<close>

definition peers_map :: "'w host \<Rightarrow> peer_config list \<Rightarrow> tunnel_map" where
  "peers_map h ps =
     (\<lambda>k. map_option (\<lambda>p. allowed_of (PeerIP p) (PeerRoutes p))
            (find (\<lambda>p. parse_key h (PublicKey p) = Some k) ps))"

definition peers_apart :: "'w host \<Rightarrow> peer_config list \<Rightarrow> bool" where
  "peers_apart h ps =
     (distinct (map (\<lambda>p. parse_key h (PublicKey p)) ps) \<and>
      (\<forall>p \<in> set ps. \<forall>q \<in> set ps. p \<noteq> q \<longrightarrow>
         allowed_of (PeerIP p) (PeerRoutes p) \<inter> allowed_of (PeerIP q) (PeerRoutes q) = {}))"

lemma fold_peers_carries:
  "\<lbrakk>peer_configs h ps = Inr cs; carries s T; peers_apart h ps;
    \<forall>p \<in> set ps. \<forall>k A. T k = Some A \<longrightarrow>
      parse_key h (PublicKey p) \<noteq> Some k \<and> A \<inter> allowed_of (PeerIP p) (PeerRoutes p) = {}\<rbrakk> \<Longrightarrow>
   carries (fold apply_peer cs s) (T ++ peers_map h ps)"
proof (induction ps arbitrary: cs s T)
  case Nil
  then show ?case by (simp add: peers_map_def map_add_def)
next
  case (Cons p ps)
  let ?A = "allowed_of (PeerIP p) (PeerRoutes p)"
  from Cons.prems(1) obtain k cs' where k: "parse_key h (PublicKey p) = Some k"
    and cs: "cs = \<lparr>wp_key = k, wp_remove = False, wp_replace_ips = True,
        wp_allowed = Prefix4 (PeerIP p) 32 # map Masked (PeerRoutes p)\<rparr> # cs'" (is "cs = ?c # cs'")
    and rest: "peer_configs h ps = Inr cs'"
    by (auto simp: peerConfig_def split: option.splits sum.splits)
  have A: "set (wp_allowed ?c) = ?A" by (simp add: allowed_of_def)
  have "\<forall>k' B. k' \<noteq> wp_key ?c \<longrightarrow> T k' = Some B \<longrightarrow> B \<inter> set (wp_allowed ?c) = {}"
    unfolding A using Cons.prems(4) by simp
  from apply_peer_set [OF Cons.prems(2) _ _ this] have one: "carries (apply_peer ?c s) (T(k \<mapsto> ?A))"
    unfolding A by simp
  have fresh: "parse_key h (PublicKey q) \<noteq> Some k \<and> ?A \<inter> allowed_of (PeerIP q) (PeerRoutes q) = {}"
    if "q \<in> set ps" for q
  proof -
    have "parse_key h (PublicKey q) \<noteq> Some k"
    proof
      assume "parse_key h (PublicKey q) = Some k"
      with k have "parse_key h (PublicKey p) \<in> (\<lambda>p. parse_key h (PublicKey p)) ` set ps"
        using that by (metis (mono_tags) image_eqI)
      with Cons.prems(3) show False by (simp add: peers_apart_def)
    qed
    moreover from this k have "p \<noteq> q" by auto
    ultimately show ?thesis using Cons.prems(3) that by (simp add: peers_apart_def)
  qed
  have "carries (fold apply_peer cs' (apply_peer ?c s)) (T(k \<mapsto> ?A) ++ peers_map h ps)"
  proof (rule Cons.IH [OF rest one])
    show "peers_apart h ps" using Cons.prems(3) by (simp add: peers_apart_def)
    show "\<forall>q \<in> set ps. \<forall>k' A. (T(k \<mapsto> ?A)) k' = Some A \<longrightarrow>
        parse_key h (PublicKey q) \<noteq> Some k' \<and> A \<inter> allowed_of (PeerIP q) (PeerRoutes q) = {}"
      using fresh Cons.prems(4) by auto
  qed
  moreover have "T(k \<mapsto> ?A) ++ peers_map h ps = T ++ peers_map h (p # ps)"
  proof
    fix k'
    have "peers_map h ps k = None"
      using fresh by (auto simp: peers_map_def find_None_iff)
    then show "(T(k \<mapsto> ?A) ++ peers_map h ps) k' = (T ++ peers_map h (p # ps)) k'"
      using k by (cases "k' = k") (simp_all add: peers_map_def map_add_def split: option.split)
  qed
  ultimately show ?case by (simp add: cs)
qed

lemma ReplacePeers_carries:
  assumes "wg_contract h dev view" and "peers_apart h ps" and "ReplacePeers h dev ps w = (None, w')"
  shows "carries (view w') (peers_map h ps)"
proof -
  from assms(3) obtain cs where cs: "peer_configs h ps = Inr cs"
    and cfg: "wg_configure h dev (peers_only True cs) w = (None, w')"
    by (auto simp: ReplacePeers_def split: sum.splits prod.splits option.splits)
  let ?s = "(view w)\<lparr>ws_peers := {}, ws_trie := (\<lambda>_. None)\<rparr>"
  have "carries ?s (\<lambda>_. None)" by (simp add: carries_def)
  from fold_peers_carries [OF cs this assms(2)] have "carries (fold apply_peer cs ?s) (peers_map h ps)"
    by simp
  moreover have "view w' = fold apply_peer cs ?s"
    unfolding wg_configure_None [OF assms(1) cfg] by (simp add: apply_config_def peers_only_def)
  ultimately show ?thesis by simp
qed

subsection \<open>Delivery\<close>

lemma Contains_32: "Contains (Prefix4 a 32) b \<longleftrightarrow> b = a"
proof -
  have "b XOR a = 0 \<longleftrightarrow> b = a" by (auto simp: bit_eq_iff bit_simps)
  then show ?thesis by (simp add: Contains_def)
qed

text \<open>Allowed prefixes of different peers share no address: the longest prefix then does not matter.\<close>

definition tunnel_apart :: "tunnel_map \<Rightarrow> bool" where
  "tunnel_apart T =
     ((\<forall>k A. T k = Some A \<longrightarrow> (\<forall>p \<in> A. PBits p \<le> 32)) \<and>
      (\<forall>k k' A B. T k = Some A \<longrightarrow> T k' = Some B \<longrightarrow> k \<noteq> k' \<longrightarrow>
         (\<forall>p \<in> A. \<forall>q \<in> B. prefix_addrs p \<inter> prefix_addrs q = {})))"

lemma delivers_iff:
  assumes "carries s T" and "tunnel_apart T"
  shows "delivers s a k \<longleftrightarrow> (\<exists>A. T k = Some A \<and> (\<exists>p \<in> A. Contains p a))"
proof
  assume "delivers s a k"
  then show "\<exists>A. T k = Some A \<and> (\<exists>p \<in> A. Contains p a)"
    using carries_trie [OF assms(1)] unfolding delivers_def by blast
next
  assume "\<exists>A. T k = Some A \<and> (\<exists>p \<in> A. Contains p a)"
  then obtain A p where A: "T k = Some A" and p: "p \<in> A" "Contains p a" by blast
  let ?P = "\<lambda>q. q \<in> A \<and> Contains q a"
  have "PBits q \<le> 32" if "q \<in> A" for q using assms(2) A that unfolding tunnel_apart_def by blast
  then have "\<forall>q. ?P q \<longrightarrow> PBits q < 33" by fastforce
  with ex_has_greatest_nat [of ?P p PBits 33] p obtain m where
    m: "?P m" "\<forall>q. ?P q \<longrightarrow> PBits q \<le> PBits m" by blast
  have "PBits q \<le> PBits m" if "ws_trie s q = Some k'" "Contains q a" for q k'
  proof -
    from that(1) obtain B where B: "T k' = Some B" "q \<in> B" using carries_trie [OF assms(1)] by blast
    have "k' = k"
    proof (rule ccontr)
      assume "k' \<noteq> k"
      with assms(2) A B m(1) have "prefix_addrs m \<inter> prefix_addrs q = {}"
        unfolding tunnel_apart_def by metis
      moreover have "a \<in> prefix_addrs m \<inter> prefix_addrs q"
        using m(1) that(2) by (simp add: prefix_addrs_def)
      ultimately show False by blast
    qed
    with A B m(2) that(2) show ?thesis by simp
  qed
  moreover have "ws_trie s m = Some k" using carries_trie [OF assms(1)] A m(1) by blast
  ultimately show "delivers s a k" unfolding delivers_def using m(1) by blast
qed

text \<open>
  Peers laid out as the address plan has them: one address each, all different and outside every
  announced block, and blocks that share no address with another peer's.
\<close>

definition plan_ok :: "'w host \<Rightarrow> peer_config list \<Rightarrow> bool" where
  "plan_ok h ps =
     (distinct (map (\<lambda>p. parse_key h (PublicKey p)) ps) \<and> distinct (map PeerIP ps) \<and>
      (\<forall>p \<in> set ps. \<forall>r \<in> set (PeerRoutes p). PBits r \<le> 32 \<and> (\<forall>q \<in> set ps. \<not> Contains r (PeerIP q))) \<and>
      (\<forall>p \<in> set ps. \<forall>q \<in> set ps. p \<noteq> q \<longrightarrow>
         (\<forall>r \<in> set (PeerRoutes p). \<forall>t \<in> set (PeerRoutes q). prefix_addrs r \<inter> prefix_addrs t = {})))"

lemma allowed_of_cases:
  "x \<in> allowed_of ip rs \<longleftrightarrow> x = Prefix4 ip 32 \<or> (\<exists>r \<in> set rs. x = Masked r)"
  by (auto simp: allowed_of_def)

lemma plan_addrs_apart:
  assumes "plan_ok h ps" and "p \<in> set ps" and "q \<in> set ps" and "p \<noteq> q"
    and "x \<in> allowed_of (PeerIP p) (PeerRoutes p)" and "y \<in> allowed_of (PeerIP q) (PeerRoutes q)"
  shows "prefix_addrs x \<inter> prefix_addrs y = {}"
proof -
  have ip: "PeerIP p \<noteq> PeerIP q"
    using assms(1-4) by (auto simp: plan_ok_def dest: distinct_map_eqD)
  have out: "\<not> Contains r (PeerIP q')" if "r \<in> set (PeerRoutes p')" "p' \<in> set ps" "q' \<in> set ps" for r p' q'
    using assms(1) that unfolding plan_ok_def by blast
  have rr: "prefix_addrs r \<inter> prefix_addrs t = {}" if "r \<in> set (PeerRoutes p)" "t \<in> set (PeerRoutes q)" for r t
    using assms(1-4) that unfolding plan_ok_def by blast
  have single: "prefix_addrs (Prefix4 a 32) = {a}" for a by (simp add: prefix_addrs_def Contains_32)
  from assms(5,6) show ?thesis
    unfolding allowed_of_cases
    by (elim disjE bexE) (use ip out [OF _ assms(2,3)] out [OF _ assms(3,2)] rr in
        \<open>auto simp: single prefix_addrs_Masked\<close>, (simp_all add: prefix_addrs_def)?)
qed

lemma prefix_addrs_nonempty: "PAddr p \<in> prefix_addrs p"
  by (simp add: prefix_addrs_def Contains_def)

lemma plan_peers_apart: "plan_ok h ps \<Longrightarrow> peers_apart h ps"
proof -
  assume plan: "plan_ok h ps"
  have "allowed_of (PeerIP p) (PeerRoutes p) \<inter> allowed_of (PeerIP q) (PeerRoutes q) = {}"
    if "p \<in> set ps" "q \<in> set ps" "p \<noteq> q" for p q
    using plan_addrs_apart [OF plan that] prefix_addrs_nonempty by fastforce
  with plan show ?thesis by (simp add: peers_apart_def plan_ok_def)
qed

lemma peers_map_Some:
  "peers_map h ps k = Some A \<Longrightarrow>
     \<exists>p \<in> set ps. parse_key h (PublicKey p) = Some k \<and> A = allowed_of (PeerIP p) (PeerRoutes p)"
  by (auto simp: peers_map_def dest: find_Some_mem)

lemma peers_map_mem:
  assumes "distinct (map (\<lambda>p. parse_key h (PublicKey p)) ps)" and "p \<in> set ps"
    and "parse_key h (PublicKey p) = Some k"
  shows "peers_map h ps k = Some (allowed_of (PeerIP p) (PeerRoutes p))"
proof -
  have "find (\<lambda>p. parse_key h (PublicKey p) = Some k) ps = Some p"
  proof (rule find_unique)
    show "p \<in> set ps" "parse_key h (PublicKey p) = Some k" by fact+
    fix y assume "y \<in> set ps" "parse_key h (PublicKey y) = Some k"
    with assms show "y = p" by (intro distinct_map_eqD [OF assms(1)]) simp_all
  qed
  then show ?thesis by (simp add: peers_map_def)
qed

lemma plan_tunnel_apart:
  assumes "plan_ok h ps"
  shows "tunnel_apart (peers_map h ps)"
proof -
  have "PBits x \<le> 32" if "peers_map h ps k = Some A" "x \<in> A" for k A x
    using peers_map_Some [OF that(1)] that(2) assms by (auto simp: allowed_of_cases plan_ok_def)
  moreover have "prefix_addrs x \<inter> prefix_addrs y = {}"
    if "peers_map h ps k = Some A" "peers_map h ps k' = Some B" "k \<noteq> k'" "x \<in> A" "y \<in> B" for k k' A B x y
  proof -
    from peers_map_Some [OF that(1)] peers_map_Some [OF that(2)] obtain p q where
      "p \<in> set ps" "parse_key h (PublicKey p) = Some k" "A = allowed_of (PeerIP p) (PeerRoutes p)"
      "q \<in> set ps" "parse_key h (PublicKey q) = Some k'" "B = allowed_of (PeerIP q) (PeerRoutes q)" by blast
    moreover from this that(3) have "p \<noteq> q" by auto
    ultimately show ?thesis using plan_addrs_apart [OF assms] that(4,5) by blast
  qed
  ultimately show ?thesis unfolding tunnel_apart_def by blast
qed

subsection \<open>A device to run the operations on\<close>

text \<open>Keys written in decimal and a device whose every configuration succeeds.\<close>

definition decimal_key :: "string \<Rightarrow> wg_key option" where
  "decimal_key s = (case parse_nat s of None \<Rightarrow> None | Some n \<Rightarrow> if n < 2 ^ 256 then Some (word_of_nat n) else None)"

definition model_host :: "wg_state host" where
  "model_host = \<lparr>
     parse_key = decimal_key,
     key_string = (\<lambda>k. show_nat (unat k)),
     wg_open = (\<lambda>_. None),
     wg_configure = (\<lambda>_ c s. (None, apply_config c s)),
     wg_device = (\<lambda>_ _. Inr []),
     link_by_name = (\<lambda>_ _. Inr ''wireguard''),
     link_add = (\<lambda>_ w. (None, w)),
     link_set_mtu = (\<lambda>_ _ w. (None, w)),
     addr_replace = (\<lambda>_ _ _ w. (None, w)),
     link_set_up = (\<lambda>_ w. (None, w)),
     route_replace = (\<lambda>_ _ w. (None, w)) \<rparr>"

definition empty_device :: wg_state where
  "empty_device = \<lparr>ws_private = None, ws_port = None, ws_peers = {}, ws_trie = (\<lambda>_. None)\<rparr>"

lemma model_wg_faultless: "wg_faultless model_host dev (\<lambda>w. w)"
  by (simp add: wg_faultless_def wg_contract_def model_host_def)

lemma model_wg_contract: "wg_contract model_host dev (\<lambda>w. w)"
  using model_wg_faultless by (simp add: wg_faultless_def)

lemma decimal_key_show: "decimal_key (show_nat (unat k)) = Some k"
  using unsigned_less [of k, where ?'a = nat] by (simp add: decimal_key_def)

section \<open>Properties\<close>

text \<open>
  C34: after a successful \<^verbatim>\<open>ReplacePeers\<close> the device sends an address to a peer exactly when it is the
  peer's own address or lies in one of the blocks announced by it, whatever peers the device had
  before (for peers laid out as the address plan has them).
\<close>

theorem ReplacePeers_delivers:
  assumes "wg_contract h dev view" and "plan_ok h ps" and "ReplacePeers h dev ps w = (None, w')"
  shows "delivers (view w') a k \<longleftrightarrow>
    (\<exists>p \<in> set ps. parse_key h (PublicKey p) = Some k \<and>
       (a = PeerIP p \<or> (\<exists>r \<in> set (PeerRoutes p). Contains r a)))"
proof -
  have carried: "carries (view w') (peers_map h ps)"
    by (rule ReplacePeers_carries [OF assms(1) plan_peers_apart [OF assms(2)] assms(3)])
  have allowed: "(\<exists>x \<in> allowed_of ip rs. Contains x a) \<longleftrightarrow> a = ip \<or> (\<exists>r \<in> set rs. Contains r a)" for ip rs
    by (auto simp: allowed_of_def Contains_32)
  have "distinct (map (\<lambda>p. parse_key h (PublicKey p)) ps)" using assms(2) by (simp add: plan_ok_def)
  then have "(\<exists>A. peers_map h ps k = Some A \<and> Q A) \<longleftrightarrow>
      (\<exists>p \<in> set ps. parse_key h (PublicKey p) = Some k \<and> Q (allowed_of (PeerIP p) (PeerRoutes p)))" for Q
    using peers_map_Some [of h ps k] peers_map_mem [of h ps _ k] by metis
  with delivers_iff [OF carried plan_tunnel_apart [OF assms(2)]] allowed show ?thesis by simp
qed

definition demo_peers :: "peer_config list" where
  "demo_peers =
     [\<lparr>PublicKey = ''11'', PeerIP = 0x64400002, PeerRoutes = [Prefix4 0xC6120000 24]\<rparr>,
      \<lparr>PublicKey = ''12'', PeerIP = 0x64400003, PeerRoutes = []\<rparr>]"

lemma demo_keys: "decimal_key ''11'' = Some 11" "decimal_key ''12'' = Some 12"
  by (simp_all add: decimal_key_def parse_nat_def digit_val_def)

lemma demo_peers_plan: "plan_ok model_host demo_peers"
  by (simp add: plan_ok_def demo_peers_def model_host_def demo_keys Contains_def)

theorem ReplacePeers_delivers_witness:
  "\<exists>w. ReplacePeers model_host ''wg0'' demo_peers empty_device = (None, w) \<and>
     delivers w 0xC6120007 11 \<and> delivers w 0x64400003 12 \<and> \<not> delivers w 0xC6120007 12"
proof -
  obtain w where w: "ReplacePeers model_host ''wg0'' demo_peers empty_device = (None, w)"
    by (simp add: ReplacePeers_def demo_peers_def peerConfig_def model_host_def demo_keys)
  have "delivers w a k \<longleftrightarrow> (k = 11 \<and> (a = 0x64400002 \<or> Contains (Prefix4 0xC6120000 24) a)) \<or>
      (k = 12 \<and> a = 0x64400003)" for a k
    using ReplacePeers_delivers [OF model_wg_contract demo_peers_plan w, of a k]
    by (auto simp: demo_peers_def model_host_def demo_keys)
  with w show ?thesis by (intro exI [of _ w]) (simp add: Contains_def)
qed

text \<open>
  Changing the routes of one peer. After a successful \<^verbatim>\<open>SetPeerRoutes\<close> the peer's allowed
  prefixes are exactly its address and the given blocks and those of every other peer are as they
  were; after a successful \<^verbatim>\<open>RemovePeer\<close> the peer has none and the others are as they were.
\<close>

lemma peer_updates_carry:
  assumes "wg_contract h dev view" and "carries (view w) T" and "parse_key h pub = Some k"
    and "\<forall>k' A. k' \<noteq> k \<longrightarrow> T k' = Some A \<longrightarrow> A \<inter> allowed_of ip routes = {}"
  shows "(\<forall>w'. SetPeerRoutes h dev pub ip routes w = (None, w') \<longrightarrow>
      carries (view w') (T(k \<mapsto> allowed_of ip routes))) \<and>
    (\<forall>w'. RemovePeer h dev pub w = (None, w') \<longrightarrow> carries (view w') (T(k := None)))"
  using SetPeerRoutes_carries [OF assms] RemovePeer_carries [OF assms(1-3)] by blast

lemma peer_updates_carry_example:
  "\<exists>w. SetPeerRoutes model_host ''wg0'' ''11'' 0x64400002 [] empty_device = (None, w) \<and>
     carries w [11 \<mapsto> {Prefix4 0x64400002 32}]"
proof -
  have empty: "carries empty_device (\<lambda>_. None)" by (simp add: carries_def empty_device_def)
  have key: "parse_key model_host ''11'' = Some 11" by (simp add: model_host_def demo_keys)
  obtain w where w: "SetPeerRoutes model_host ''wg0'' ''11'' 0x64400002 [] empty_device = (None, w)"
    by (simp add: SetPeerRoutes_def peerConfig_def model_host_def demo_keys)
  from peer_updates_carry [OF model_wg_contract empty key, where ip = "0x64400002" and routes = "[]" and dev = "''wg0''"] w
  show ?thesis by (auto simp: allowed_of_def)
qed

text \<open>
  C35: the server identity is never rotated. Where a key file exists, no call changes its contents
  and none answers with another key than the one in the file; a key that was generated and written
  is the key every later call answers with, in a file only the owner can read, provided the text of
  a key parses back to it.
\<close>

theorem server_key_stable:
  assumes "LoadOrGenerateKey h e drawn kf = (r, kf')"
  shows "(\<forall>f. kf = Some f \<longrightarrow> (\<exists>f'. kf' = Some f' \<and> kf_data f' = kf_data f) \<and>
      (\<forall>key gen. r = Inr (key, gen) \<longrightarrow> \<not> gen \<and> parse_key h (TrimSpace (kf_data f)) = Some key)) \<and>
    (\<forall>key gen e' drawn'. r = Inr (key, gen) \<longrightarrow>
       parse_key h (TrimSpace (key_string h key @ [CHR 0x0A])) = Some key \<longrightarrow>
       (\<exists>f'. kf' = Some f' \<and> kf_perm f' AND 63 = 0) \<and>
       (\<forall>r' kf''. LoadOrGenerateKey h e' drawn' kf' = (r', kf'') \<longrightarrow>
          (case r' of Inl err \<Rightarrow> err \<in> {KeyStat, KeyRead} | Inr x \<Rightarrow> x = (key, False))))"
proof (cases kf)
  case None
  then show ?thesis
    using assms by (auto simp: LoadOrGenerateKey_def Let_def split: option.splits if_splits)
next
  case (Some f)
  have "(384 :: 9 word) AND 63 = 0" by simp
  then show ?thesis
    using assms Some by (auto simp: LoadOrGenerateKey_def Let_def split: option.splits if_splits)
qed

definition no_file_faults :: file_faults where
  "no_file_faults = \<lparr>stat_fault = False, chmod_fault = False, read_fault = False, write_fault = None\<rparr>"

theorem server_key_stable_witness:
  "LoadOrGenerateKey model_host no_file_faults (Some 5) None =
     (Inr (5, True), Some \<lparr>kf_perm = 384, kf_data = ''5'' @ [CHR 0x0A]\<rparr>) \<and>
   fst (LoadOrGenerateKey model_host no_file_faults (Some 6) (Some \<lparr>kf_perm = 384, kf_data = ''5'' @ [CHR 0x0A]\<rparr>)) =
     Inr (5, False)"
proof -
  have "show_nat 5 = ''5''" by code_simp
  then have text5: "key_string model_host 5 = ''5''" by (simp add: model_host_def)
  have trim5: "TrimSpace (''5'' @ [CHR 0x0A]) = ''5''"
    by (rule TrimSpace_newline) (simp_all add: graphic_def)
  have key5: "parse_key model_host ''5'' = Some 5"
    by (simp add: model_host_def decimal_key_def parse_nat_def digit_val_def)
  have first: "LoadOrGenerateKey model_host no_file_faults (Some 5) None =
      (Inr (5, True), Some \<lparr>kf_perm = 384, kf_data = ''5'' @ [CHR 0x0A]\<rparr>)"
    by (simp add: LoadOrGenerateKey_def no_file_faults_def text5)
  have "parse_key model_host (TrimSpace (key_string model_host 5 @ [CHR 0x0A])) = Some 5"
    unfolding text5 trim5 by (rule key5)
  moreover obtain r kf where second: "LoadOrGenerateKey model_host no_file_faults (Some 6)
      (Some \<lparr>kf_perm = 384, kf_data = ''5'' @ [CHR 0x0A]\<rparr>) = (r, kf)" by fastforce
  ultimately have "case r of Inl err \<Rightarrow> err \<in> {KeyStat, KeyRead} | Inr x \<Rightarrow> x = (5, False)"
    using server_key_stable [OF first] by blast
  moreover have "r \<noteq> Inl KeyStat \<and> r \<noteq> Inl KeyRead"
    using second by (auto simp: LoadOrGenerateKey_def no_file_faults_def Let_def split: option.splits)
  ultimately have "r = Inr (5, False)" by (cases r) auto
  with first second show ?thesis by simp
qed

end
