(* ===== verification/Api_Base.thy ===== *)
theory Api_Base
  imports Store_Announcements Netfw_Isolation Wg
begin

text \<open>
  What the handlers of \<^verbatim>\<open>internal/server/api\<close> share: the state they change (the database, the nftables
  kernel state and the WireGuard device), the dependencies of \<^verbatim>\<open>type handlers struct\<close>, the replies of
  \<^verbatim>\<open>writeJSON\<close> and \<^verbatim>\<open>protocol.WriteJSONError\<close>, and the parts of a handler that recur: the identity in
  the request context, the decoded body, a call whose error is a 500, a call whose error is only
  logged. Log output is not modelled. A reply carries the values the JSON encoder renders (a time is
  its second).
\<close>

section \<open>Definitions\<close>

subsection \<open>State and dependencies\<close>

record ('k, 'w) world =
  w_db :: db
  w_nft :: 'k
  w_wg :: 'w

record claims =
  UserID :: int
  Username :: string
  IsAdmin :: bool

text \<open>
  \<^verbatim>\<open>parse_prefix\<close> stands for \<^verbatim>\<open>netip.ParsePrefix\<close>, \<^verbatim>\<open>hash_password\<close> and \<^verbatim>\<open>verify_password\<close> for the argon2
  functions of the \<^verbatim>\<open>auth\<close> package, whose salt is an argument. An invalid announce pool, the zero
  \<^verbatim>\<open>netip.Prefix\<close>, is \<^term>\<open>None\<close>.
\<close>

record ('k, 'w) server =
  sv_nft :: "'k nft"
  sv_table :: string
  sv_host :: "'w host"
  sv_dev :: string
  parse_prefix :: "string \<Rightarrow> netip_prefix option"
  hash_password :: "string \<Rightarrow> string option"
  verify_password :: "string \<Rightarrow> string \<Rightarrow> bool option"
  jwt_issue :: "claims \<Rightarrow> string option"
  jwt_verify :: "string \<Rightarrow> claims option"
  token_digest :: "string \<Rightarrow> string"
  wgNetwork :: string
  wgEndpoint :: string
  wgMTU :: int
  wgPublicKey :: string
  is_online :: "string \<Rightarrow> bool"
  last_handshake :: "string \<Rightarrow> int option"
  maxDevicesPerUser :: int
  maxOwnedZonesPerUser :: int
  announcePool :: "prefix4 option"
  maxAnnouncedSubnetsPerUser :: int
  inviteTTL :: int

subsection \<open>Replies\<close>

record node_item =
  ni_ID :: int
  ni_Name :: string
  ni_IP :: addr
  ni_CreatedAt :: "int option"
  ni_Online :: bool
  ni_LastHandshake :: "int option"
  ni_Platform :: string

record invite_item =
  ii_Code :: string
  ii_Status :: string
  ii_CreatedBy :: "string option"
  ii_CreatedAt :: int
  ii_UsedBy :: "string option"
  ii_UsedAt :: "int option"
  ii_ExpiresAt :: "int option"

record announcement_item =
  ai_ID :: int
  ai_NodeID :: int
  ai_NodeName :: string
  ai_Owner :: string
  ai_Subnet :: prefix4
  ai_Synthetic :: prefix4

datatype payload =
    NoBody
  | ErrorBody string string
  | NodeBody node_item
  | NodeListBody "node_item list"
  | ServerInfoBody string string string int
  | ZoneBody int string bool
  | ZoneListBody "(int \<times> string \<times> bool) list"
  | ZoneMembersBody "zone_member list"
  | AnnouncementBody announcement_item
  | AnnouncementListBody "announcement_item list"
  | LoginBody string string
  | RefreshBody string
  | RegisterBody string bool
  | MeBody int string bool
  | InviteBody string "int option"
  | InviteListBody "invite_item list"
  | HealthBody string string

type_synonym response = "nat \<times> payload"

definition jsonError :: "nat \<Rightarrow> string \<Rightarrow> string \<Rightarrow> response" where
  "jsonError status code message = (status, ErrorBody code message)"

definition serverError :: response where
  "serverError = jsonError 500 ''internal_error'' ''An internal error occurred.''"

definition unauthorized :: response where
  "unauthorized = jsonError 401 ''unauthorized'' ''Authentication required.''"

definition invalid :: "string \<Rightarrow> response" where
  "invalid message = jsonError 400 ''validation_error'' message"

definition notFound :: "string \<Rightarrow> response" where
  "notFound message = jsonError 404 ''not_found'' message"

text \<open>A reply is a success unless it carries the error envelope.\<close>

definition success :: "response \<Rightarrow> bool" where
  "success r = (case snd r of ErrorBody _ _ \<Rightarrow> False | _ \<Rightarrow> True)"

subsection \<open>Parts of a handler\<close>

type_synonym ('k, 'w) outcome = "response \<times> ('k, 'w) world"

definition with_identity ::
  "claims option \<Rightarrow> ('k, 'w) world \<Rightarrow> (claims \<Rightarrow> ('k, 'w) outcome) \<Rightarrow> ('k, 'w) outcome" where
  "with_identity cid W k = (case cid of None \<Rightarrow> (unauthorized, W) | Some i \<Rightarrow> k i)"

definition with_body ::
  "'r option \<Rightarrow> ('k, 'w) world \<Rightarrow> ('r \<Rightarrow> ('k, 'w) outcome) \<Rightarrow> ('k, 'w) outcome" where
  "with_body body W k =
     (case body of None \<Rightarrow> (invalid ''Invalid request body.'', W) | Some r \<Rightarrow> k r)"

definition or_500 ::
  "(store_error, 'a) result \<Rightarrow> ('k, 'w) world \<Rightarrow> ('a \<Rightarrow> ('k, 'w) outcome) \<Rightarrow> ('k, 'w) outcome" where
  "or_500 r W k = (case r of Inl _ \<Rightarrow> (serverError, W) | Inr x \<Rightarrow> k x)"

text \<open>An error that \<^verbatim>\<open>errors.Is\<close> recognises as \<^verbatim>\<open>missing\<close> is a 404, every other a 500.\<close>

definition or_404 ::
  "store_error \<Rightarrow> string \<Rightarrow> (store_error, 'a) result \<Rightarrow> ('k, 'w) world \<Rightarrow> ('a \<Rightarrow> ('k, 'w) outcome)
     \<Rightarrow> ('k, 'w) outcome" where
  "or_404 missing message r W k =
     (case r of
        Inl err \<Rightarrow> (if err = missing then notFound message else serverError, W)
      | Inr x \<Rightarrow> k x)"

text \<open>A store call that changes the database, a netfw call and a call on the WireGuard device.\<close>

definition db_do :: "(db \<Rightarrow> 'a \<times> db) \<Rightarrow> ('k, 'w) world \<Rightarrow> 'a \<times> ('k, 'w) world" where
  "db_do f W = (case f (w_db W) of (r, d) \<Rightarrow> (r, W\<lparr>w_db := d\<rparr>))"

definition nft_do ::
  "('k, 'w) server \<Rightarrow> fw_call \<Rightarrow> ('k, 'w) world \<Rightarrow> string option \<times> ('k, 'w) world" where
  "nft_do sv c W = (case fw_exec (sv_nft sv) (sv_table sv) c (w_nft W) of (r, k) \<Rightarrow> (r, W\<lparr>w_nft := k\<rparr>))"

definition wg_do ::
  "(string \<Rightarrow> 'w \<Rightarrow> string option \<times> 'w) \<Rightarrow> ('k, 'w) server \<Rightarrow> ('k, 'w) world
     \<Rightarrow> string option \<times> ('k, 'w) world" where
  "wg_do f sv W = (case f (sv_dev sv) (w_wg W) of (r, w) \<Rightarrow> (r, W\<lparr>w_wg := w\<rparr>))"

text \<open>The same where the error is only logged.\<close>

definition nft_try :: "('k, 'w) server \<Rightarrow> fw_call \<Rightarrow> ('k, 'w) world \<Rightarrow> ('k, 'w) world" where
  "nft_try sv c W = snd (nft_do sv c W)"

definition wg_remove :: "('k, 'w) server \<Rightarrow> string \<Rightarrow> ('k, 'w) world \<Rightarrow> ('k, 'w) world" where
  "wg_remove sv pub W = snd (wg_do (\<lambda>dev. RemovePeer (sv_host sv) dev pub) sv W)"

definition set_routes ::
  "('k, 'w) server \<Rightarrow> string \<Rightarrow> addr \<Rightarrow> prefix4 list \<Rightarrow> ('k, 'w) world
     \<Rightarrow> string option \<times> ('k, 'w) world" where
  "set_routes sv pub ip routes W =
     wg_do (\<lambda>dev. SetPeerRoutes (sv_host sv) dev pub ip routes) sv W"

text \<open>
  Recomputing a peer's allowed addresses from the database: a failure of the query or of the device
  is only logged.
\<close>

definition recompute_peer ::
  "('k, 'w) server \<Rightarrow> env \<Rightarrow> int \<Rightarrow> string \<Rightarrow> addr \<Rightarrow> ('k, 'w) world \<Rightarrow> ('k, 'w) world" where
  "recompute_peer sv e nid pub ip W =
     (case RoutesForNode e nid (w_db W) of
        Inl _ \<Rightarrow> W
      | Inr routes \<Rightarrow> snd (set_routes sv pub ip routes W))"

text \<open>The cap of a user: an administrator has none.\<close>

definition cap :: "claims \<Rightarrow> int \<Rightarrow> int" where
  "cap i limit = (if IsAdmin i then 0 else limit)"

end
