(* ===== verification/Netfw_Sets.thy ===== *)
theory Netfw_Sets
  imports Netfw_Isolation
begin

text \<open>
  Which sets the isolation table holds besides those of its zones: none. A fresh zone needs this,
  because the kernel keeps the elements of a set that is added a second time. \<open>free_name\<close> says that a
  set does not exist; every operation of the manager keeps it for the sets it does not add.
\<close>

section \<open>Definitions\<close>

definition free_name :: "ruleset \<Rightarrow> string \<Rightarrow> string \<Rightarrow> bool" where
  "free_name v table n = (\<forall>tb. v table = Some tb \<longrightarrow> nt_sets tb n = None)"

fun adds_name :: "string \<Rightarrow> nft_cmd \<Rightarrow> bool" where
  "adds_name n (AddSet t m iv els) = (m = n)"
| "adds_name n _ = False"

definition no_leftovers :: "ruleset \<Rightarrow> string \<Rightarrow> int set \<Rightarrow> bool" where
  "no_leftovers v table D = (\<forall>z. z \<notin> D \<longrightarrow> zone_sets_free v table z)"

section \<open>Lemmas\<close>

lemma zone_sets_free_iff:
  "zone_sets_free v table z \<longleftrightarrow> free_name v table (zoneSetName z) \<and> free_name v table (routesSetName z)"
  by (auto simp: zone_sets_free_def free_name_def split: option.splits)

lemma nft_apply_free:
  "nft_apply c v = Some w \<Longrightarrow> \<not> adds_name n c \<Longrightarrow> free_name v table n \<Longrightarrow> free_name w table n"
  by (cases c) (auto simp: free_name_def upd_sets_def split: option.splits if_splits)

lemma nft_batch_free:
  "nft_batch cs v = Some w \<Longrightarrow> \<forall>c \<in> set cs. \<not> adds_name n c \<Longrightarrow> free_name v table n \<Longrightarrow>
     free_name w table n"
  by (induction cs arbitrary: v) (auto split: option.splits dest: nft_apply_free)

lemma flush_free:
  assumes "nft_contract nft view" and "nft_flush nft cmds k = (r, k')"
    and "\<forall>c \<in> set cmds. \<not> adds_name n c" and "free_name (view k) table n"
  shows "free_name (view k') table n"
proof (cases r)
  case None
  with flush_None [OF assms(1)] assms(2) have "nft_batch cmds (view k) = Some (view k')" by blast
  from nft_batch_free [OF this assms(3,4)] show ?thesis .
next
  case (Some err)
  with flush_Some [OF assms(1)] assms(2,4) show ?thesis by metis
qed

lemma queue_free:
  assumes "nft_contract nft view" and "queue_and_flush nft l cmds k = (r, k')"
    and "\<forall>c \<in> set cmds. \<not> adds_name n c" and "free_name (view k) table n"
  shows "free_name (view k') table n"
proof -
  have "k' = k \<or> (\<exists>q. nft_flush nft cmds k = (q, k'))"
    using assms(2) by (auto simp: queue_and_flush_def split: option.splits prod.splits)
  with flush_free [OF assms(1) _ assms(3,4)] assms(4) show ?thesis by blast
qed

lemma edit_set_free:
  assumes "nft_contract nft view" and "edit_set nft t m l cmd k = (r, k')"
    and "\<not> adds_name n cmd" and "free_name (view k) table n"
  shows "free_name (view k') table n"
proof -
  have "k' = k \<or> (\<exists>q. queue_and_flush nft l [cmd] k = (q, k'))"
    using assms(2) by (auto simp: edit_set_def split: option.splits sum.splits)
  with queue_free [OF assms(1)] assms(3,4) show ?thesis by fastforce
qed

lemma delete_sets_free:
  assumes "nft_contract nft view"
  shows "\<lbrakk>delete_sets nft t ns k = (r, k'); free_name (view k) table n\<rbrakk> \<Longrightarrow> free_name (view k') table n"
proof (induction ns arbitrary: k)
  case (Cons m ns)
  show ?case
  proof (cases "get_set nft t m k")
    case (Inr iv)
    obtain q k1 where fl: "nft_flush nft [DelSet t m] k = (q, k1)" by fastforce
    then have free: "free_name (view k1) table n"
      by (rule flush_free [OF assms(1)]) (simp_all add: Cons.prems(2))
    with Cons fl Inr show ?thesis by (cases q) simp_all
  qed (use Cons in simp)
qed simp

lemma DeleteZone_free:
  assumes "nft_contract nft view" and "DeleteZone nft t z k = (r, k')"
    and "free_name (view k) table n"
  shows "free_name (view k') table n"
proof -
  define ns where "ns = [zoneSetName z, routesSetName z]"
  have step: "free_name (view k1) table n" if "delete_rules nft t rs k = (q, k1)" for q rs k1
  proof (cases "rs = []")
    case False
    with that have "queue_and_flush nft ''flush rule delete''
        (map (\<lambda>rule. DelRule t ''forward'' (fst rule)) rs) k = (q, k1)"
      by (simp add: delete_rules_def)
    then show ?thesis by (rule queue_free [OF assms(1)]) (use assms(3) in auto)
  qed (use that assms(3) in \<open>simp add: delete_rules_def\<close>)
  from assms(2) consider "k' = k" | q rs where "delete_rules nft t rs k = (q, k')"
    | q rs k1 where "delete_rules nft t rs k = (q, k1)" "delete_sets nft t ns k1 = (r, k')"
    unfolding DeleteZone_def ns_def [symmetric]
    by (auto split: option.splits sum.splits prod.splits)
  then show ?thesis
    using assms(3) step delete_sets_free [OF assms(1)] by cases blast+
qed

text \<open>Every call keeps a missing set missing, \<^verbatim>\<open>AddZone\<close> those of other zones.\<close>

lemma fw_exec_free:
  assumes "nft_contract nft view" and "fw_exec nft t c k = (r, k')"
    and "c \<noteq> Call_AddZone z" and "zone_sets_free (view k) table z"
  shows "zone_sets_free (view k') table z"
proof -
  have free: "free_name (view k') table n"
    if n: "n \<in> {zoneSetName z, routesSetName z}" "free_name (view k) table n" for n
  proof (cases c)
    case (Call_AddZone y)
    with assms(3) have "y \<noteq> z" by simp
    have "k' = k \<or> (\<exists>cmds q. queue_and_flush nft ''add zone'' cmds k = (q, k') \<and>
        (\<forall>c \<in> set cmds. \<not> adds_name n c))"
    proof -
      from assms(2) Call_AddZone \<open>y \<noteq> z\<close> n(1) show ?thesis
        by (simp add: AddZone_def split: option.splits sum.splits)
          (force intro!: exI [of _ "[AddSet t (zoneSetName y) False [],
              AddRule t ''forward'' (sameZoneAcceptExprs (zoneSetName y)),
              AddSet t (routesSetName y) True [],
              AddRule t ''forward'' (zoneRouteAcceptExprs (zoneSetName y) (routesSetName y))]"])
    qed
    with queue_free [OF assms(1) _ _ n(2)] n(2) show ?thesis by blast
  next
    case (Call_DeleteZone y)
    with assms(2) DeleteZone_free [OF assms(1) _ n(2)] show ?thesis by simp
  qed (use assms(2) n(2) in \<open>simp_all add: AddMember_def RemoveMember_def AddZoneRoute_def RemoveZoneRoute_def
      edit_set_free [OF assms(1)]\<close>)
  with assms(4) show ?thesis by (simp add: zone_sets_free_iff)
qed

lemma zone_cmds_adds:
  "c \<in> set (zone_cmds t z) \<Longrightarrow> adds_name n c \<Longrightarrow> n \<in> {zoneSetName (fz_ID z), routesSetName (fz_ID z)}"
  by (auto simp: zone_cmds_def Let_def)

text \<open>A rebuild leaves the sets of its zones only.\<close>

lemma Rebuild_no_leftovers:
  assumes "nft_contract nft view" and "Rebuild nft table zs k = (None, k')"
  shows "no_leftovers (view k') table (fz_ID ` set zs)"
  unfolding no_leftovers_def
proof (intro allI impI)
  fix z assume z: "z \<notin> fz_ID ` set zs"
  from assms(2) obtain ts k1 where ts: "list_tables nft k = Inr ts"
    and del: "nft_flush nft (map DelTable (filter (\<lambda>t. t = table) ts)) k = (None, k1)"
    and bld: "queue_and_flush nft ''build nftables table'' (rebuild_cmds table zs) k1 = (None, k')"
    by (auto simp: Rebuild_def split: option.splits sum.splits prod.splits)
  have "view k1 table = None"
  proof (cases "view k table")
    case None
    with list_tables_Inr [OF assms(1) ts] have "filter (\<lambda>t. t = table) ts = []"
      by (auto simp: filter_empty_conv)
    with flush_None [OF assms(1) del] None show ?thesis by simp
  next
    case (Some tb)
    with list_tables_Inr [OF assms(1) ts] have "table \<in> set ts" by auto
    then have some: "map DelTable (filter (\<lambda>t. t = table) ts) \<noteq> []" by (auto simp: filter_empty_conv)
    have "c = DelTable table" if "c \<in> set (map DelTable (filter (\<lambda>t. t = table) ts))" for c
      using that by auto
    with batch_del_table [OF flush_None [OF assms(1) del]] some
    have "view k1 = (view k)(table := None)" by blast
    then show ?thesis by simp
  qed
  then have free: "free_name (view k1) table n" for n by (simp add: free_name_def)
  have "\<not> adds_name n c" if "c \<in> set (rebuild_cmds table zs)" "n \<in> {zoneSetName z, routesSetName z}" for n c
    using that z by (auto simp: rebuild_cmds_def dest!: zone_cmds_adds)
  with queue_free [OF assms(1) bld _ free] show "zone_sets_free (view k') table z"
    by (simp add: zone_sets_free_iff)
qed

end
