(* ===== verification/Dataplane.thy ===== *)
theory Dataplane
  imports Api_Base Netfw_Sets
begin

text \<open>
  \<^verbatim>\<open>internal/server/app/dataplane.go\<close>: the dataplane rebuilt from the database when the server starts,
  and what it means that the dataplane agrees with the database. The database says which addresses
  a zone lets through (\<open>db_zones\<close>) and which prefixes belong to which peer (\<open>db_tunnel\<close>); \<open>synced\<close>
  says that the nftables table and the WireGuard device hold exactly that.
\<close>

section \<open>Definitions\<close>

definition rebuildZoneRules ::
  "('k, 'w) server \<Rightarrow> env \<Rightarrow> ('k, 'w) world \<Rightarrow> string option \<times> ('k, 'w) world" where
  "rebuildZoneRules sv e W =
     (case AllForRebuild e (w_db W) of
        Inl _ \<Rightarrow> (Some ''list zones'', W)
      | Inr states \<Rightarrow>
          (case RoutesByZone e (w_db W) of
             Inl _ \<Rightarrow> (Some ''list zone routes'', W)
           | Inr routes \<Rightarrow>
               (case Rebuild (sv_nft sv) (sv_table sv)
                   (map (\<lambda>s. \<lparr>fz_ID = ZoneID s, fz_MemberIPs = MemberIPs s,
                              fz_RouteCIDRs = routes (ZoneID s)\<rparr>) states) (w_nft W) of
                  (r, k) \<Rightarrow> (r, W\<lparr>w_nft := k\<rparr>))))"

definition peer_of :: "(int \<Rightarrow> prefix4 list) \<Rightarrow> node_row \<Rightarrow> peer_config" where
  "peer_of routes n =
     \<lparr>PublicKey = n_wg_pubkey n, PeerIP = n_ip n, PeerRoutes = routes (n_id n)\<rparr>"

definition rebuildNodePeers ::
  "('k, 'w) server \<Rightarrow> env \<Rightarrow> ('k, 'w) world \<Rightarrow> string option \<times> ('k, 'w) world" where
  "rebuildNodePeers sv e W =
     (case AllForPeers e (w_db W) of
        Inl _ \<Rightarrow> (Some ''list all nodes'', W)
      | Inr ns \<Rightarrow>
          (case RoutesByNode e (w_db W) of
             Inl _ \<Rightarrow> (Some ''list node routes'', W)
           | Inr routes \<Rightarrow>
               wg_do (\<lambda>dev. ReplacePeers (sv_host sv) dev (map (peer_of routes) ns)) sv W))"

text \<open>The two steps of \<^verbatim>\<open>app.Run\<close>; each failure ends the start.\<close>

definition rebuild_dataplane ::
  "('k, 'w) server \<Rightarrow> env \<Rightarrow> ('k, 'w) world \<Rightarrow> string option \<times> ('k, 'w) world" where
  "rebuild_dataplane sv e W =
     (case rebuildNodePeers sv e W of
        (Some _, W1) \<Rightarrow> (Some ''rebuild node peers'', W1)
      | (None, W1) \<Rightarrow>
          (case rebuildZoneRules sv e W1 of
             (Some _, W2) \<Rightarrow> (Some ''rebuild zone rules'', W2)
           | (None, W2) \<Rightarrow> (None, W2)))"

text \<open>
  \<^verbatim>\<open>setupDataPlane\<close>: the server key, the interface, then \<^verbatim>\<open>netfw.EnableIPv4Forward\<close>, one write to a file
  of \<^verbatim>\<open>/proc\<close> that may fail.
\<close>

definition setupDataPlane ::
  "('k, 'w) server \<Rightarrow> wireguard_config \<Rightarrow> file_faults \<Rightarrow> wg_key option \<Rightarrow> bool \<Rightarrow> key_file option
     \<Rightarrow> ('k, 'w) world \<Rightarrow> string option \<times> key_file option \<times> ('k, 'w) world" where
  "setupDataPlane sv cfg faults drawn forward_ok kf W =
     (case LoadOrGenerateKey (sv_host sv) faults drawn kf of
        (Inl _, kf') \<Rightarrow> (Some ''server key'', kf', W)
      | (Inr (key, _), kf') \<Rightarrow>
          (case EnsureInterface (sv_host sv) (parse_prefix sv) cfg key (w_wg W) of
             (Some _, w) \<Rightarrow> (Some ''wireguard interface'', kf', W\<lparr>w_wg := w\<rparr>)
           | (None, w) \<Rightarrow>
               (if forward_ok then None else Some ''ipv4 forwarding'', kf', W\<lparr>w_wg := w\<rparr>)))"

section \<open>The dataplane the database asks for\<close>

definition db_zones :: "db \<Rightarrow> zone_map" where
  "db_zones d = (\<lambda>z. if has_zone d z then Some (zone_ips d z, set (zone_routes d z)) else None)"

definition node_allowed :: "db \<Rightarrow> node_row \<Rightarrow> prefix4 set" where
  "node_allowed d n = allowed_of (n_ip n) (node_routes d (n_id n))"

definition db_tunnel :: "'w host \<Rightarrow> db \<Rightarrow> tunnel_map" where
  "db_tunnel h d =
     (\<lambda>k. map_option (node_allowed d) (find (\<lambda>n. parse_key h (n_wg_pubkey n) = Some k) (nodes d)))"

definition synced ::
  "('k, 'w) server \<Rightarrow> ('k \<Rightarrow> ruleset) \<Rightarrow> ('w \<Rightarrow> wg_state) \<Rightarrow> ('k, 'w) world \<Rightarrow> bool" where
  "synced sv vn vw W =
     (represents (sv_table sv) (vn (w_nft W)) (db_zones (w_db W)) \<and>
      no_leftovers (vn (w_nft W)) (sv_table sv) (z_id ` set (zones (w_db W))) \<and>
      carries (vw (w_wg W)) (db_tunnel (sv_host sv) (w_db W)))"

text \<open>
  What the configuration guarantees (\<^verbatim>\<open>config.Validate\<close>): the node pool is \<open>lo\<close> to \<open>hi\<close>, the synthetic
  pool shares no address with it and does not hold 255.255.255.255.
\<close>

definition pools_ok :: "('k, 'w) server \<Rightarrow> prefix4 \<Rightarrow> addr \<Rightarrow> addr \<Rightarrow> bool" where
  "pools_ok sv pool lo hi =
     (PoolRange (parse_prefix sv) (wgNetwork sv) = Inr (lo, hi) \<and>
      (announcePool sv = None \<or> announcePool sv = Some pool) \<and> PBits pool \<le> 32 \<and>
      (\<forall>a. lo \<le> a \<and> a \<le> hi \<longrightarrow> \<not> Contains pool a) \<and> \<not> Contains pool (- 1))"

text \<open>
  What the database guarantees: the constraints, the address plan, node addresses from the pool, and
  public keys in the form in which the library writes them. The constraint \<^verbatim>\<open>UNIQUE\<close> on the text of a
  key then makes the keys different; for keys in any form it does not.
\<close>

definition keys_ok :: "'w host \<Rightarrow> db \<Rightarrow> bool" where
  "keys_ok h d =
     (distinct (map (\<lambda>n. parse_key h (n_wg_pubkey n)) (nodes d)) \<and>
      (\<forall>n \<in> set (nodes d). parse_key h (n_wg_pubkey n) \<noteq> None))"

definition canonical_keys :: "'w host \<Rightarrow> db \<Rightarrow> bool" where
  "canonical_keys h d =
     (\<forall>n \<in> set (nodes d). \<exists>k. parse_key h (n_wg_pubkey n) = Some k \<and> key_string h k = n_wg_pubkey n)"

definition consistent :: "'w host \<Rightarrow> prefix4 \<Rightarrow> addr \<Rightarrow> addr \<Rightarrow> db \<Rightarrow> bool" where
  "consistent h pool lo hi d =
     (ann_inv pool d \<and> (\<forall>n \<in> set (nodes d). lo \<le> n_ip n \<and> n_ip n \<le> hi) \<and>
      canonical_keys h d)"

section \<open>Lemmas\<close>

subsection \<open>Zones and routes of the database\<close>

lemma consistent_schema: "consistent h pool lo hi d \<Longrightarrow> schema_ok d"
  by (simp add: consistent_def ann_inv_def)

lemma consistent_keys:
  assumes "consistent h pool lo hi d"
  shows "keys_ok h d"
proof -
  have canon: "\<exists>k. parse_key h (n_wg_pubkey n) = Some k \<and> key_string h k = n_wg_pubkey n"
    if "n \<in> set (nodes d)" for n
    using assms that by (simp add: consistent_def canonical_keys_def)
  have "inj_on (\<lambda>n. parse_key h (n_wg_pubkey n)) (set (nodes d))"
  proof (rule inj_onI)
    fix n m assume nm: "n \<in> set (nodes d)" "m \<in> set (nodes d)"
      "parse_key h (n_wg_pubkey n) = parse_key h (n_wg_pubkey m)"
    with canon [of n] canon [of m] have "n_wg_pubkey n = n_wg_pubkey m" by auto
    with consistent_schema [OF assms] nm show "n = m"
      by (auto simp: schema_ok_def uniq_ok_def dest: distinct_map_eqD)
  qed
  moreover have "distinct (nodes d)"
    using consistent_schema [OF assms] by (simp add: schema_ok_def uniq_ok_def distinct_map)
  moreover have "\<forall>n \<in> set (nodes d). parse_key h (n_wg_pubkey n) \<noteq> None" using canon by fastforce
  ultimately show ?thesis by (simp add: keys_ok_def distinct_map)
qed

lemma dom_db_zones: "dom (db_zones d) = z_id ` set (zones d)"
  by (auto simp: db_zones_def dom_def has_zone_def)

definition attached_to :: "db \<Rightarrow> ann_row \<Rightarrow> int \<Rightarrow> bool" where
  "attached_to d a z =
     (a \<in> set (announcements d) \<and> \<lparr>az_ann = a_id a, az_zone = z\<rparr> \<in> set (announcement_zones d))"

lemma attached_to_iff:
  "attached_to d a z \<longleftrightarrow> a \<in> set (announcements d) \<and>
     (\<exists>x \<in> set (announcement_zones d). az_zone x = z \<and> a_id a = az_ann x)"
proof -
  have "\<lparr>az_ann = i, az_zone = z\<rparr> \<in> S \<longleftrightarrow> (\<exists>x \<in> S. az_zone x = z \<and> i = az_ann x)" for i S
    by (metis az_eta az_row.select_convs)
  then show ?thesis unfolding attached_to_def by blast
qed

lemma set_zone_routes: "set (zone_routes d z) = (block_prefix \<circ> ann_synthetic) ` {a. attached_to d a z}"
  by (auto simp: zone_routes_def set_zone_anns attached_to_iff)

lemma set_node_routes:
  "set (node_routes d nid) =
     (block_prefix \<circ> ann_synthetic) ` {a \<in> set (announcements d). a_node a = nid}"
  by (auto simp: node_routes_def blocksToPrefixes_def)

lemma zone_map_eqI:
  assumes "\<And>z. Z z = None \<longleftrightarrow> \<not> has_zone d z"
    and "\<And>z M R. Z z = Some (M, R) \<Longrightarrow> M = zone_ips d z \<and> R = set (zone_routes d z)"
  shows "Z = db_zones d"
proof
  fix z show "Z z = db_zones d z"
    using assms(1) [of z] assms(2) [of z] by (cases "Z z") (auto simp: db_zones_def)
qed

lemma zones_map_Some:
  "distinct (map fz_ID zs) \<Longrightarrow> zones_map zs z = Some (M, R) \<longleftrightarrow>
     (\<exists>x \<in> set zs. fz_ID x = z \<and> M = set (fz_MemberIPs x) \<and> R = set (fz_RouteCIDRs x))"
  by (subst zones_map_def, subst map_of_eq_Some_iff) (auto simp: comp_def)

lemma zones_map_None: "zones_map zs z = None \<longleftrightarrow> z \<notin> fz_ID ` set zs"
  by (simp add: zones_map_def map_of_eq_None_iff image_comp comp_def)

lemma rebuild_zones_map:
  assumes "schema_ok d" and "AllForRebuild e d = Inr states"
  defines "zs \<equiv> map (\<lambda>s. \<lparr>fz_ID = ZoneID s, fz_MemberIPs = MemberIPs s,
      fz_RouteCIDRs = zone_routes d (ZoneID s)\<rparr>) states"
  shows "distinct (map fz_ID zs) \<and> fz_ID ` set zs = z_id ` set (zones d) \<and> zones_map zs = db_zones d"
proof -
  from AllForRebuild_states [OF assms(1,2)] have st: "distinct (map ZoneID states)"
    "ZoneID ` set states = z_id ` set (zones d)"
    "\<forall>st \<in> set states. set (MemberIPs st) = zone_ips d (ZoneID st)" by blast+
  have ids: "map fz_ID zs = map ZoneID states" by (simp add: zs_def)
  then have set_ids: "fz_ID ` set zs = z_id ` set (zones d)" using st(2) by (metis list.set_map)
  have "zones_map zs = db_zones d"
  proof (rule zone_map_eqI)
    fix z
    show "zones_map zs z = None \<longleftrightarrow> \<not> has_zone d z" unfolding zones_map_None set_ids has_zone_def ..
    fix M R assume "zones_map zs z = Some (M, R)"
    with st(1) ids zones_map_Some [of zs z M R] obtain x where
      "x \<in> set zs" "fz_ID x = z" "M = set (fz_MemberIPs x)" "R = set (fz_RouteCIDRs x)" by auto
    with st(3) show "M = zone_ips d z \<and> R = set (zone_routes d z)" by (auto simp: zs_def)
  qed
  with ids st(1) set_ids show ?thesis by simp
qed

subsection \<open>The address plan of a consistent database\<close>

lemma synthetic_in_pool:
  assumes "ann_plan pool d" and "PBits pool \<le> 32" and "a \<in> set (announcements d)"
  shows "aligned (ann_synthetic a)" and "PBits (block_prefix (ann_synthetic a)) \<le> 32"
    and "prefix_addrs (block_prefix (ann_synthetic a)) \<subseteq> prefix_addrs pool"
proof -
  from assms(1,3) show al: "aligned (ann_synthetic a)" by (simp add: ann_plan_def)
  then show "PBits (block_prefix (ann_synthetic a)) \<le> 32" by (simp add: aligned_def block_prefix_def)
  have "unat ` prefix_addrs (block_prefix (ann_synthetic a)) \<subseteq>
      unat ` prefix_addrs (block_prefix (BlockFromPrefix pool))"
    using assms unfolding block_addrs_prefix [OF al, symmetric]
      block_addrs_prefix [OF aligned_BlockFromPrefix [OF assms(2)], symmetric]
    by (simp add: ann_plan_def)
  then have "prefix_addrs (block_prefix (ann_synthetic a)) \<subseteq>
      prefix_addrs (block_prefix (BlockFromPrefix pool))"
    by (simp only: inj_image_subset_iff [OF inj_unsigned])
  also have "block_prefix (BlockFromPrefix pool) = Masked pool"
    by (simp add: block_prefix_def Masked_def)
  finally show "prefix_addrs (block_prefix (ann_synthetic a)) \<subseteq> prefix_addrs pool" by simp
qed

lemma synthetic_disjoint:
  assumes "ann_plan pool d" and "a \<in> set (announcements d)" and "b \<in> set (announcements d)" and "a \<noteq> b"
  shows "prefix_addrs (block_prefix (ann_synthetic a)) \<inter> prefix_addrs (block_prefix (ann_synthetic b)) = {}"
proof -
  from assms have "aligned (ann_synthetic a)" "aligned (ann_synthetic b)"
    "\<not> Overlaps (ann_synthetic a) (ann_synthetic b)" by (simp_all add: ann_plan_def)
  then show ?thesis
    unfolding Overlaps_iff by (auto simp: block_addrs_prefix)
qed

lemma block_end:
  assumes "aligned b" and "\<not> Contains (block_prefix b) (- 1)"
  shows "unat (PAddr (Masked (block_prefix b))) + 2 ^ (32 - PrefixLen b) < 2 ^ 32"
proof -
  have "2 ^ 32 - 1 \<notin> block_addrs b"
  proof
    assume "2 ^ 32 - 1 \<in> block_addrs b"
    then have "unat (- 1 :: addr) \<in> unat ` prefix_addrs (block_prefix b)"
      unfolding block_addrs_prefix [OF assms(1)] by (simp add: unsigned_minus_1_eq_mask mask_eq_exp_minus_1)
    with assms(2) show False
      unfolding inj_image_mem_iff [OF inj_unsigned] by (simp add: prefix_addrs_def)
  qed
  then have "unat (Base b) + block_size b < 2 ^ 32"
    using aligned_end [OF assms(1)] block_size_pos [of b] unfolding block_addrs_def atLeastLessThan_iff
    by linarith
  moreover have "unat (PAddr (Masked (block_prefix b))) = unat (Base b)"
    using assms(1) by (simp add: Masked_def block_prefix_def unat_masked aligned_def block_size_def)
  ultimately show ?thesis by (simp add: block_size_def)
qed

lemma routes_good_zone:
  assumes "ann_plan pool d" and "PBits pool \<le> 32" and "\<not> Contains pool (- 1)"
  shows "routes_good (set (zone_routes d z))"
proof -
  have good: "PBits p \<le> 32 \<and> unat (PAddr (Masked p)) + 2 ^ (32 - PBits p) < 2 ^ 32"
    if "p \<in> set (zone_routes d z)" for p
  proof -
    from that obtain a where a: "a \<in> set (announcements d)" "p = block_prefix (ann_synthetic a)"
      by (auto simp: set_zone_routes attached_to_def)
    note pool = synthetic_in_pool [OF assms(1,2) a(1)]
    have "\<not> Contains p (- 1)" using assms(3) pool(3) a(2) by (auto simp: prefix_addrs_def)
    with block_end [OF pool(1)] pool(2) a(2) show ?thesis by (simp add: block_prefix_def)
  qed
  have "prefix_addrs p \<inter> prefix_addrs q = {}"
    if "p \<in> set (zone_routes d z)" "q \<in> set (zone_routes d z)" "p \<noteq> q" for p q
  proof -
    from that obtain a b where "a \<in> set (announcements d)" "p = block_prefix (ann_synthetic a)"
      "b \<in> set (announcements d)" "q = block_prefix (ann_synthetic b)" "a \<noteq> b"
      by (auto simp: set_zone_routes attached_to_def)
    with synthetic_disjoint [OF assms(1)] show ?thesis by simp
  qed
  with good show ?thesis unfolding routes_good_def by blast
qed

lemma db_zones_good:
  assumes "ann_plan pool d" and "PBits pool \<le> 32" and "\<not> Contains pool (- 1)"
  shows "\<forall>z M R. db_zones d z = Some (M, R) \<longrightarrow> routes_good R"
  using routes_good_zone [OF assms] by (auto simp: db_zones_def split: if_splits)

subsection \<open>The peers of a consistent database\<close>

lemma node_key_unique:
  assumes "keys_ok h d" and "n \<in> set (nodes d)" and "m \<in> set (nodes d)"
    and "parse_key h (n_wg_pubkey n) = parse_key h (n_wg_pubkey m)"
  shows "n = m"
  using assms by (auto simp: keys_ok_def dest: distinct_map_eqD)

lemma db_tunnel_iff:
  assumes "keys_ok h d"
  shows "db_tunnel h d k = Some A \<longleftrightarrow>
    (\<exists>n \<in> set (nodes d). parse_key h (n_wg_pubkey n) = Some k \<and> A = node_allowed d n)"
proof -
  have "find (\<lambda>n. parse_key h (n_wg_pubkey n) = Some k) (nodes d) = Some n \<longleftrightarrow>
      n \<in> set (nodes d) \<and> parse_key h (n_wg_pubkey n) = Some k" for n
    using find_Some_mem [of "\<lambda>n. parse_key h (n_wg_pubkey n) = Some k" "nodes d" n]
      find_unique [of n "nodes d" "\<lambda>n. parse_key h (n_wg_pubkey n) = Some k"]
      node_key_unique [OF assms] by metis
  then show ?thesis by (auto simp: db_tunnel_def)
qed

lemma tunnel_eqI:
  assumes "keys_ok h d"
    and "\<And>k A. T k = Some A \<longleftrightarrow>
      (\<exists>n \<in> set (nodes d). parse_key h (n_wg_pubkey n) = Some k \<and> A = node_allowed d n)"
  shows "T = db_tunnel h d"
proof
  fix k
  have "T k = Some A \<longleftrightarrow> db_tunnel h d k = Some A" for A
    using assms(2) db_tunnel_iff [OF assms(1)] by simp
  then show "T k = db_tunnel h d k" by (metis not_Some_eq)
qed

abbreviation node_peers :: "db \<Rightarrow> peer_config list" where
  "node_peers d \<equiv> map (peer_of (node_routes d)) (sort_key n_id (nodes d))"

lemma node_peers_plan:
  assumes "consistent h pool lo hi d" and "PBits pool \<le> 32"
    and "\<forall>a. lo \<le> a \<and> a \<le> hi \<longrightarrow> \<not> Contains pool a"
  shows "plan_ok h (node_peers d)"
proof -
  have plan: "ann_plan pool d" and keys: "keys_ok h d" and ok: "schema_ok d"
    and ips: "\<forall>n \<in> set (nodes d). lo \<le> n_ip n \<and> n_ip n \<le> hi"
    using assms(1) consistent_keys [OF assms(1)] by (simp_all add: consistent_def ann_inv_def)
  have out: "PBits r \<le> 32 \<and> (\<forall>q \<in> set (node_peers d). \<not> Contains r (PeerIP q))"
    if p: "p \<in> set (node_peers d)" "r \<in> set (PeerRoutes p)" for p r
  proof -
    from p obtain a where a: "a \<in> set (announcements d)" "r = block_prefix (ann_synthetic a)"
      by (auto simp: peer_of_def set_node_routes)
    note pool = synthetic_in_pool [OF plan assms(2) a(1)]
    have "\<not> Contains r (PeerIP q)" if "q \<in> set (node_peers d)" for q
    proof -
      from that ips have "lo \<le> PeerIP q \<and> PeerIP q \<le> hi" by (auto simp: peer_of_def)
      with assms(3) have "\<not> Contains pool (PeerIP q)" by blast
      with pool(3) a(2) show ?thesis by (auto simp: prefix_addrs_def)
    qed
    with pool(2) a(2) show ?thesis by simp
  qed
  have apart: "prefix_addrs r \<inter> prefix_addrs t = {}"
    if p: "p \<in> set (node_peers d)" "q \<in> set (node_peers d)" "p \<noteq> q"
      "r \<in> set (PeerRoutes p)" "t \<in> set (PeerRoutes q)" for p q r t
  proof -
    from p obtain n m where nm: "n \<in> set (nodes d)" "m \<in> set (nodes d)" "n \<noteq> m"
      "p = peer_of (node_routes d) n" "q = peer_of (node_routes d) m" by auto
    with ok have "n_id n \<noteq> n_id m"
      by (auto simp: schema_ok_def uniq_ok_def dest: distinct_map_eqD)
    moreover from p(4,5) nm(4,5) obtain a b where "a \<in> set (announcements d)"
      "r = block_prefix (ann_synthetic a)" "a_node a = n_id n"
      "b \<in> set (announcements d)" "t = block_prefix (ann_synthetic b)" "a_node b = n_id m"
      by (auto simp: peer_of_def set_node_routes)
    moreover from calculation have "a \<noteq> b" by auto
    ultimately show ?thesis using synthetic_disjoint [OF plan] by simp
  qed
  have "distinct (map n_ip (sort_key n_id (nodes d)))"
    "distinct (map (\<lambda>n. parse_key h (n_wg_pubkey n)) (sort_key n_id (nodes d)))"
    using ok keys by (simp_all add: schema_ok_def uniq_ok_def keys_ok_def distinct_map)
  then have "distinct (map PeerIP (node_peers d))"
    "distinct (map (\<lambda>p. parse_key h (PublicKey p)) (node_peers d))"
    by (simp_all add: comp_def peer_of_def)
  with out apart show ?thesis unfolding plan_ok_def by blast
qed

lemma peers_map_db:
  assumes "keys_ok h d"
  shows "peers_map h (node_peers d) = db_tunnel h d"
proof (rule tunnel_eqI [OF assms])
  fix k A
  have dist: "distinct (map (\<lambda>p. parse_key h (PublicKey p)) (node_peers d))"
    using assms by (simp add: keys_ok_def distinct_map comp_def peer_of_def)
  show "peers_map h (node_peers d) k = Some A \<longleftrightarrow>
      (\<exists>n \<in> set (nodes d). parse_key h (n_wg_pubkey n) = Some k \<and> A = node_allowed d n)"
  proof
    assume "peers_map h (node_peers d) k = Some A"
    from peers_map_Some [OF this] show
      "\<exists>n \<in> set (nodes d). parse_key h (n_wg_pubkey n) = Some k \<and> A = node_allowed d n"
      by (auto simp: peer_of_def node_allowed_def)
  next
    assume "\<exists>n \<in> set (nodes d). parse_key h (n_wg_pubkey n) = Some k \<and> A = node_allowed d n"
    then obtain n where n: "n \<in> set (nodes d)" "parse_key h (n_wg_pubkey n) = Some k" "A = node_allowed d n"
      by blast
    then have "peer_of (node_routes d) n \<in> set (node_peers d)" by simp
    from peers_map_mem [OF dist this] n show "peers_map h (node_peers d) k = Some A"
      by (simp add: peer_of_def node_allowed_def)
  qed
qed

subsection \<open>The rebuild\<close>

lemma rebuildNodePeers_synced:
  assumes "wg_contract (sv_host sv) (sv_dev sv) vw" and "consistent (sv_host sv) pool lo hi (w_db W)"
    and "pools_ok sv pool lo hi" and "rebuildNodePeers sv e W = (None, W')"
  shows "w_db W' = w_db W \<and> w_nft W' = w_nft W \<and> carries (vw (w_wg W')) (db_tunnel (sv_host sv) (w_db W))"
proof -
  from assms(4) obtain w where w: "W' = W\<lparr>w_wg := w\<rparr>"
    and r: "ReplacePeers (sv_host sv) (sv_dev sv) (node_peers (w_db W)) (w_wg W) = (None, w)"
    by (auto simp: rebuildNodePeers_def AllForPeers_def RoutesByNode_def wg_do_def
        split: if_splits prod.splits)
  have plan: "plan_ok (sv_host sv) (node_peers (w_db W))"
    using node_peers_plan [OF assms(2)] assms(3) by (simp add: pools_ok_def)
  have "keys_ok (sv_host sv) (w_db W)" by (rule consistent_keys [OF assms(2)])
  with ReplacePeers_carries [OF assms(1) plan_peers_apart [OF plan] r] w show ?thesis
    by (simp add: peers_map_db)
qed

lemma rebuildZoneRules_synced:
  assumes "nft_contract (sv_nft sv) vn" and "schema_ok (w_db W)"
    and "rebuildZoneRules sv e W = (None, W')"
  shows "w_db W' = w_db W \<and> w_wg W' = w_wg W \<and>
    represents (sv_table sv) (vn (w_nft W')) (db_zones (w_db W)) \<and>
    no_leftovers (vn (w_nft W')) (sv_table sv) (z_id ` set (zones (w_db W)))"
proof -
  let ?zs = "\<lambda>states. map (\<lambda>s. \<lparr>fz_ID = ZoneID s, fz_MemberIPs = MemberIPs s,
      fz_RouteCIDRs = zone_routes (w_db W) (ZoneID s)\<rparr>) states"
  from assms(3) obtain states k where st: "AllForRebuild e (w_db W) = Inr states"
    and k: "W' = W\<lparr>w_nft := k\<rparr>" "Rebuild (sv_nft sv) (sv_table sv) (?zs states) (w_nft W) = (None, k)"
    by (auto simp: rebuildZoneRules_def RoutesByZone_def split: sum.splits if_splits prod.splits)
  from rebuild_zones_map [OF assms(2) st] have zs: "distinct (map fz_ID (?zs states))"
    "fz_ID ` set (?zs states) = z_id ` set (zones (w_db W))" "zones_map (?zs states) = db_zones (w_db W)"
    by blast+
  from Rebuild_rep [OF assms(1) zs(1) k(2)] Rebuild_no_leftovers [OF assms(1) k(2)] show ?thesis
    unfolding zs by (simp add: k(1))
qed

lemma rebuild_dataplane_synced:
  assumes "nft_contract (sv_nft sv) vn" and "wg_contract (sv_host sv) (sv_dev sv) vw"
    and "consistent (sv_host sv) pool lo hi (w_db W)" and "pools_ok sv pool lo hi"
    and "rebuild_dataplane sv e W = (None, W')"
  shows "w_db W' = w_db W \<and> synced sv vn vw W'"
proof -
  from assms(5) obtain W1 where 1: "rebuildNodePeers sv e W = (None, W1)" and
    2: "rebuildZoneRules sv e W1 = (None, W')"
    by (auto simp: rebuild_dataplane_def split: prod.splits option.splits)
  note peers = rebuildNodePeers_synced [OF assms(2,3,4) 1]
  have "schema_ok (w_db W1)" using consistent_schema [OF assms(3)] peers by simp
  from rebuildZoneRules_synced [OF assms(1) this 2] peers show ?thesis
    by (simp add: synced_def)
qed

lemma faultless_configure: "wg_faultless h dev vw \<Longrightarrow> \<exists>w'. wg_configure h dev c w = (None, w')"
  unfolding wg_faultless_def by (cases "wg_configure h dev c w") (metis fst_conv)

lemma peer_configs_total:
  "\<forall>p \<in> set ps. parse_key h (PublicKey p) \<noteq> None \<Longrightarrow> \<exists>cs. peer_configs h ps = Inr cs"
  by (induction ps) (auto simp: peerConfig_def)

text \<open>On a host without failures of its own the rebuild goes through.\<close>

lemma rebuild_dataplane_total:
  assumes "nft_faultless (sv_nft sv) vn" and "wg_faultless (sv_host sv) (sv_dev sv) vw"
    and "consistent (sv_host sv) pool lo hi (w_db W)" and "quiet e"
  shows "\<exists>W'. rebuild_dataplane sv e W = (None, W')"
proof -
  let ?d = "w_db W"
  have nf: "db_fault e l i = False" for l i using assms(4) by (simp add: quiet_def)
  have "\<forall>p \<in> set (node_peers ?d). parse_key (sv_host sv) (PublicKey p) \<noteq> None"
    using consistent_keys [OF assms(3)] by (auto simp: keys_ok_def peer_of_def)
  from peer_configs_total [OF this] obtain cs where "peer_configs (sv_host sv) (node_peers ?d) = Inr cs"
    by blast
  moreover obtain w where
    "wg_configure (sv_host sv) (sv_dev sv) (peers_only True cs) (w_wg W) = (None, w)"
    using faultless_configure [OF assms(2)] by blast
  ultimately have
    "ReplacePeers (sv_host sv) (sv_dev sv) (node_peers ?d) (w_wg W) = (None, w)"
    by (simp add: ReplacePeers_def)
  then have 1: "rebuildNodePeers sv e W = (None, W\<lparr>w_wg := w\<rparr>)"
    by (simp add: rebuildNodePeers_def AllForPeers_def RoutesByNode_def wg_do_def nf)
  obtain states where st: "AllForRebuild e ?d = Inr states" by (simp add: AllForRebuild_def nf)
  from Rebuild_ok [OF assms(1) conjunct1 [OF rebuild_zones_map [OF consistent_schema [OF assms(3)] st]]]
  obtain k where
    "Rebuild (sv_nft sv) (sv_table sv) (map (\<lambda>s. \<lparr>fz_ID = ZoneID s, fz_MemberIPs = MemberIPs s,
        fz_RouteCIDRs = zone_routes ?d (ZoneID s)\<rparr>) states) (w_nft W) = (None, k)" by blast
  then have "rebuildZoneRules sv e (W\<lparr>w_wg := w\<rparr>) = (None, W\<lparr>w_wg := w, w_nft := k\<rparr>)"
    by (simp add: rebuildZoneRules_def st RoutesByZone_def nf)
  with 1 show ?thesis by (simp add: rebuild_dataplane_def)
qed

end
