(* ===== verification/Api_Handlers.thy ===== *)
theory Api_Handlers
  imports Api_Base
begin

text \<open>
  The handlers of \<^verbatim>\<open>internal/server/api\<close> that change the dataplane: nodes, zones, announcements and
  user deletion. Each is one request run from its start to its reply; its database statements ask
  the environment for failures one by one, its dataplane calls the kernel and the device. Path
  values and decoded bodies are arguments (a body that does not decode is \<^term>\<open>None\<close>).
\<close>

section \<open>Definitions\<close>

subsection \<open>Nodes\<close>

record register_node_request =
  rn_Name :: string
  rn_WGPubKey :: string
  rn_Platform :: string

definition platformPattern :: "string \<Rightarrow> bool" where
  "platformPattern s =
     (1 \<le> length s \<and> length s \<le> 32 \<and>
      list_all (\<lambda>c. c \<in> set ''abcdefghijklmnopqrstuvwxyz0123456789-'') s)"

definition register_error :: "store_error \<Rightarrow> response" where
  "register_error err =
     (case err of
        ErrNodeNameTaken \<Rightarrow> jsonError 409 ''node_name_taken'' ''You already have a node with that name.''
      | ErrPubKeyTaken \<Rightarrow> jsonError 409 ''pubkey_taken'' ''That public key is already registered.''
      | ErrDeviceLimitReached \<Rightarrow> jsonError 409 ''device_limit_reached'' ''You have reached your device limit.''
      | ErrPoolExhausted \<Rightarrow> jsonError 503 ''pool_exhausted'' ''No addresses are available in the pool.''
      | _ \<Rightarrow> serverError)"

definition node_platform :: "string \<Rightarrow> string" where
  "node_platform s = (if s = '''' then ''unknown'' else s)"

text \<open>\<^verbatim>\<open>registerNode\<close> up to the calls that change state: what is wrong with the request, if anything.\<close>

definition register_invalid :: "('k, 'w) server \<Rightarrow> register_node_request \<Rightarrow> response option" where
  "register_invalid sv req =
     (let name = TrimSpace (rn_Name req)
      in if name = '''' \<or> 64 < length name then Some (invalid ''Node name must be 1-64 characters.'')
         else if parse_key (sv_host sv) (rn_WGPubKey req) = None
         then Some (invalid ''Invalid WireGuard public key.'')
         else if \<not> platformPattern (node_platform (rn_Platform req))
         then Some (invalid ''Platform must be 1-32 lowercase letters, digits or dashes.'')
         else None)"

text \<open>The tunnel peer of a node just stored; when it cannot be added the node is deleted again.\<close>

definition add_node_peer ::
  "('k, 'w) server \<Rightarrow> env \<Rightarrow> int \<Rightarrow> node_row \<Rightarrow> ('k, 'w) world \<Rightarrow> ('k, 'w) outcome" where
  "add_node_peer sv e uid n W =
     (case wg_do (\<lambda>dev. AddPeer (sv_host sv) dev (n_wg_pubkey n) (n_ip n)) sv W of
        (Some _, W') \<Rightarrow> (serverError, snd (db_do (DeleteOwned (at_site ''rollback: '' e) uid (n_id n)) W'))
      | (None, W') \<Rightarrow>
          ((201, NodeBody \<lparr>ni_ID = n_id n, ni_Name = n_name n, ni_IP = n_ip n, ni_CreatedAt = None,
                  ni_Online = False, ni_LastHandshake = None, ni_Platform = n_platform n\<rparr>), W'))"

definition registerNode ::
  "('k, 'w) server \<Rightarrow> env \<Rightarrow> claims option \<Rightarrow> register_node_request option \<Rightarrow> ('k, 'w) world
     \<Rightarrow> ('k, 'w) outcome" where
  "registerNode sv e cid body W =
     with_identity cid W (\<lambda>i. with_body body W (\<lambda>req.
       case register_invalid sv req of
         Some r \<Rightarrow> (r, W)
       | None \<Rightarrow>
           (case PoolRange (parse_prefix sv) (wgNetwork sv) of
              Inl _ \<Rightarrow> (serverError, W)
            | Inr (lo, hi) \<Rightarrow>
                (case db_do (CreateNode e (\<lambda>_ d. d) (UserID i) (TrimSpace (rn_Name req)) (rn_WGPubKey req)
                         (node_platform (rn_Platform req)) lo hi (cap i (maxDevicesPerUser sv))) W of
                   (Inl err, W1) \<Rightarrow> (register_error err, W1)
                 | (Inr n, W1) \<Rightarrow> add_node_peer sv e (UserID i) n W1))))"

definition listNodes ::
  "('k, 'w) server \<Rightarrow> env \<Rightarrow> claims option \<Rightarrow> ('k, 'w) world \<Rightarrow> ('k, 'w) outcome" where
  "listNodes sv e cid W =
     with_identity cid W (\<lambda>i. or_500 (ListByUser e (UserID i) (w_db W)) W (\<lambda>ns.
       ((200, NodeListBody (map (\<lambda>n.
          \<lparr>ni_ID = n_id n, ni_Name = n_name n, ni_IP = n_ip n, ni_CreatedAt = Some (n_created_at n),
           ni_Online = is_online sv (n_wg_pubkey n),
           ni_LastHandshake = last_handshake sv (n_wg_pubkey n), ni_Platform = n_platform n\<rparr>) ns)), W)))"

text \<open>The dataplane of a node that was deleted: peer, set elements and route elements, best effort.\<close>

definition forget_node ::
  "('k, 'w) server \<Rightarrow> node_row \<Rightarrow> int list \<Rightarrow> zone_detachment list \<Rightarrow> ('k, 'w) world \<Rightarrow> ('k, 'w) world" where
  "forget_node sv n zids atts W =
     fold (\<lambda>att. nft_try sv (Call_RemoveZoneRoute (zd_zone att) (zd_synthetic att))) atts
       (fold (\<lambda>zid. nft_try sv (Call_RemoveMember zid (n_ip n))) zids
          (wg_remove sv (n_wg_pubkey n) W))"

definition deleteNode ::
  "('k, 'w) server \<Rightarrow> env \<Rightarrow> claims option \<Rightarrow> string \<Rightarrow> ('k, 'w) world \<Rightarrow> ('k, 'w) outcome" where
  "deleteNode sv e cid path_id W =
     with_identity cid W (\<lambda>i.
       case parse_int64 path_id of
         None \<Rightarrow> (notFound ''Node not found.'', W)
       | Some nid \<Rightarrow>
           or_404 ErrNodeNotFound ''Node not found.'' (GetOwned e (UserID i) nid (w_db W)) W (\<lambda>n.
           or_500 (ZonesForNode e nid (w_db W)) W (\<lambda>zids.
           or_500 (AttachmentsForNode e nid (w_db W)) W (\<lambda>atts.
             case db_do (DeleteOwned e (UserID i) nid) W of
               (r, W1) \<Rightarrow> or_404 ErrNodeNotFound ''Node not found.'' r W1 (\<lambda>_.
                 ((204, NoBody), forget_node sv n zids atts W1))))))"

subsection \<open>Zones\<close>

definition minZonePasswordLen :: nat where "minZonePasswordLen = 8"

record create_zone_request =
  cz_Name :: string
  cz_Password :: string
  cz_NodeID :: int

record join_zone_request =
  jz_NodeID :: int
  jz_Password :: string

definition short_password :: response where
  "short_password = invalid ''Zone password must be at least 8 characters.''"

definition zone_invalid :: "create_zone_request \<Rightarrow> response option" where
  "zone_invalid req =
     (let name = TrimSpace (cz_Name req)
      in if name = '''' \<or> 64 < length name then Some (invalid ''Zone name must be 1-64 characters.'')
         else if length (cz_Password req) < minZonePasswordLen then Some short_password
         else None)"

text \<open>The node to join in \<^verbatim>\<open>createZone\<close>: none asked for, or one of the caller's.\<close>

definition auto_join_node :: "env \<Rightarrow> int \<Rightarrow> int \<Rightarrow> db \<Rightarrow> (store_error, node_row option) result" where
  "auto_join_node e uid nid d =
     (if nid = 0 then Inr None
      else case GetOwned e uid nid d of Inl err \<Rightarrow> Inl err | Inr n \<Rightarrow> Inr (Some n))"

definition create_zone_error :: "store_error \<Rightarrow> response" where
  "create_zone_error err =
     (case err of
        ErrZoneNameTaken \<Rightarrow> jsonError 409 ''zone_name_taken'' ''That zone name is already taken.''
      | ErrOwnedZoneLimitReached \<Rightarrow> jsonError 409 ''zone_limit_reached'' ''You have reached your zone limit.''
      | _ \<Rightarrow> serverError)"

definition rollbackZone :: "('k, 'w) server \<Rightarrow> env \<Rightarrow> int \<Rightarrow> ('k, 'w) world \<Rightarrow> ('k, 'w) world" where
  "rollbackZone sv e zid W =
     nft_try sv (Call_DeleteZone zid) (snd (db_do (DeleteZoneRow (at_site ''rollback: '' e) zid) W))"

text \<open>The last step of \<^verbatim>\<open>createZone\<close>: joining the node, undone with the zone when it fails.\<close>

definition auto_join ::
  "('k, 'w) server \<Rightarrow> env \<Rightarrow> zone_row \<Rightarrow> node_row option \<Rightarrow> ('k, 'w) world \<Rightarrow> ('k, 'w) outcome" where
  "auto_join sv e z member W =
     (let created = (201, ZoneBody (z_id z) (z_name z) True)
      in case member of
        None \<Rightarrow> (created, W)
      | Some n \<Rightarrow>
          (case db_do (Join e (z_id z) (n_id n)) W of
             (Some _, W1) \<Rightarrow> (serverError, rollbackZone sv e (z_id z) W1)
           | (None, W1) \<Rightarrow>
               (case nft_do sv (Call_AddMember (z_id z) (n_ip n)) W1 of
                  (Some _, W2) \<Rightarrow> (serverError, rollbackZone sv e (z_id z) W2)
                | (None, W2) \<Rightarrow> (created, W2))))"

definition createZone ::
  "('k, 'w) server \<Rightarrow> env \<Rightarrow> claims option \<Rightarrow> create_zone_request option \<Rightarrow> ('k, 'w) world
     \<Rightarrow> ('k, 'w) outcome" where
  "createZone sv e cid body W =
     with_identity cid W (\<lambda>i. with_body body W (\<lambda>req.
       case zone_invalid req of
         Some r \<Rightarrow> (r, W)
       | None \<Rightarrow>
           or_404 ErrNodeNotFound ''Node not found.'' (auto_join_node e (UserID i) (cz_NodeID req) (w_db W)) W (\<lambda>member.
           case hash_password sv (cz_Password req) of
             None \<Rightarrow> (serverError, W)
           | Some hash \<Rightarrow>
               (case db_do (CreateZone e (UserID i) (TrimSpace (cz_Name req)) hash
                        (cap i (maxOwnedZonesPerUser sv))) W of
                  (Inl err, W1) \<Rightarrow> (create_zone_error err, W1)
                | (Inr z, W1) \<Rightarrow>
                    (case nft_do sv (Call_AddZone (z_id z)) W1 of
                       (Some _, W2) \<Rightarrow>
                         (serverError, snd (db_do (DeleteZoneRow (at_site ''rollback: '' e) (z_id z)) W2))
                     | (None, W2) \<Rightarrow> auto_join sv e z member W2)))))"

definition zoneOrPassword :: response where
  "zoneOrPassword = jsonError 403 ''invalid_zone_or_password'' ''Invalid zone or password.''"

definition joinZone ::
  "('k, 'w) server \<Rightarrow> env \<Rightarrow> claims option \<Rightarrow> string \<Rightarrow> join_zone_request option \<Rightarrow> ('k, 'w) world
     \<Rightarrow> ('k, 'w) outcome" where
  "joinZone sv e cid path_name body W =
     with_identity cid W (\<lambda>i. with_body body W (\<lambda>req.
       if jz_NodeID req = 0 \<or> jz_Password req = ''''
       then (invalid ''node_id and password are required.'', W)
       else or_500 (GetByName e path_name (w_db W)) W (\<lambda>found.
         case found of
           None \<Rightarrow> (zoneOrPassword, W)
         | Some z \<Rightarrow>
             if verify_password sv (jz_Password req) (z_password_hash z) \<noteq> Some True
             then (zoneOrPassword, W)
             else or_404 ErrNodeNotFound ''Node not found.''
                    (GetOwned e (UserID i) (jz_NodeID req) (w_db W)) W (\<lambda>n.
               case db_do (Join e (z_id z) (n_id n)) W of
                 (Some _, W1) \<Rightarrow> (serverError, W1)
               | (None, W1) \<Rightarrow>
                   (case nft_do sv (Call_AddMember (z_id z) (n_ip n)) W1 of
                      (Some _, W2) \<Rightarrow>
                        (serverError, snd (db_do (Leave (at_site ''rollback: '' e) (z_id z) (n_id n)) W2))
                    | (None, W2) \<Rightarrow> ((200, NoBody), W2))))))"

text \<open>
  \<^verbatim>\<open>cascadeNodeZoneAnnouncements\<close>: the announcements of a node that left a zone go with it.
\<close>

definition cascadeNodeZoneAnnouncements ::
  "('k, 'w) server \<Rightarrow> env \<Rightarrow> node_row \<Rightarrow> int \<Rightarrow> ('k, 'w) world \<Rightarrow> ('k, 'w) world" where
  "cascadeNodeZoneAnnouncements sv e n zid W =
     (case db_do (DetachAllForNodeZone e (n_id n) zid) W of
        (Inl _, W1) \<Rightarrow> W1
      | (Inr dets, W1) \<Rightarrow>
          (let W2 = fold (\<lambda>det. nft_try sv (Call_RemoveZoneRoute zid (dr_synthetic det))) dets W1
           in if list_ex dr_reclaimed dets
              then recompute_peer sv e (n_id n) (n_wg_pubkey n) (n_ip n) W2
              else W2))"

text \<open>The common end of \<^verbatim>\<open>leaveZone\<close> and \<^verbatim>\<open>kickMember\<close>.\<close>

definition remove_member ::
  "('k, 'w) server \<Rightarrow> env \<Rightarrow> zone_row \<Rightarrow> node_row \<Rightarrow> ('k, 'w) world \<Rightarrow> ('k, 'w) outcome" where
  "remove_member sv e z n W =
     (case db_do (Leave e (z_id z) (n_id n)) W of
        (Some err, W1) \<Rightarrow> (if err = ErrNotMember then notFound ''Not found.'' else serverError, W1)
      | (None, W1) \<Rightarrow>
          ((204, NoBody),
           cascadeNodeZoneAnnouncements sv e n (z_id z)
             (nft_try sv (Call_RemoveMember (z_id z) (n_ip n)) W1)))"

definition leaveZone ::
  "('k, 'w) server \<Rightarrow> env \<Rightarrow> claims option \<Rightarrow> string \<Rightarrow> int option \<Rightarrow> ('k, 'w) world
     \<Rightarrow> ('k, 'w) outcome" where
  "leaveZone sv e cid path_name body W =
     with_identity cid W (\<lambda>i. with_body body W (\<lambda>nid.
       or_500 (GetByName e path_name (w_db W)) W (\<lambda>found.
         case found of
           None \<Rightarrow> (notFound ''Not found.'', W)
         | Some z \<Rightarrow>
             or_404 ErrNodeNotFound ''Not found.'' (GetOwned e (UserID i) nid (w_db W)) W (\<lambda>n.
               remove_member sv e z n W))))"

definition listZones ::
  "env \<Rightarrow> claims option \<Rightarrow> ('k, 'w) world \<Rightarrow> ('k, 'w) outcome" where
  "listZones e cid W =
     with_identity cid W (\<lambda>i. or_500 (ListForUser e (UserID i) (w_db W)) W (\<lambda>zs.
       ((200, ZoneListBody (map (\<lambda>(z, own). (z_id z, z_name z, own)) zs)), W)))"

text \<open>\<^verbatim>\<open>ownedZone\<close> and \<^verbatim>\<open>memberZone\<close>: the path's zone, for its owner or for a participant.\<close>

definition ownedZone ::
  "env \<Rightarrow> string \<Rightarrow> int \<Rightarrow> ('k, 'w) world \<Rightarrow> (zone_row \<Rightarrow> ('k, 'w) outcome) \<Rightarrow> ('k, 'w) outcome" where
  "ownedZone e path_name uid W k =
     or_500 (GetByName e path_name (w_db W)) W (\<lambda>found.
       case found of
         None \<Rightarrow> (notFound ''Not found.'', W)
       | Some z \<Rightarrow>
           if z_owner z \<noteq> uid
           then (jsonError 403 ''forbidden'' ''Only the zone owner may perform this operation.'', W)
           else k z)"

definition memberZone ::
  "env \<Rightarrow> string \<Rightarrow> int \<Rightarrow> ('k, 'w) world \<Rightarrow> (zone_row \<Rightarrow> ('k, 'w) outcome) \<Rightarrow> ('k, 'w) outcome" where
  "memberZone e path_name uid W k =
     or_500 (GetByName e path_name (w_db W)) W (\<lambda>found.
       case found of
         None \<Rightarrow> (notFound ''Not found.'', W)
       | Some z \<Rightarrow>
           or_500 (IsParticipant e (z_id z) uid (w_db W)) W (\<lambda>participant.
             if \<not> participant then (notFound ''Not found.'', W) else k z))"

definition zoneMembers ::
  "env \<Rightarrow> claims option \<Rightarrow> string \<Rightarrow> ('k, 'w) world \<Rightarrow> ('k, 'w) outcome" where
  "zoneMembers e cid path_name W =
     with_identity cid W (\<lambda>i. memberZone e path_name (UserID i) W (\<lambda>z.
       or_500 (MembersByZone e (z_id z) (w_db W)) W (\<lambda>ms. ((200, ZoneMembersBody ms), W))))"

definition changeZonePassword ::
  "('k, 'w) server \<Rightarrow> env \<Rightarrow> claims option \<Rightarrow> string \<Rightarrow> string option \<Rightarrow> ('k, 'w) world
     \<Rightarrow> ('k, 'w) outcome" where
  "changeZonePassword sv e cid path_name body W =
     with_identity cid W (\<lambda>i. ownedZone e path_name (UserID i) W (\<lambda>z.
       with_body body W (\<lambda>password.
         if length password < minZonePasswordLen then (short_password, W)
         else case hash_password sv password of
           None \<Rightarrow> (serverError, W)
         | Some hash \<Rightarrow>
             (case db_do (UpdatePassword e (z_id z) hash) W of
                (Some _, W1) \<Rightarrow> (serverError, W1)
              | (None, W1) \<Rightarrow> ((200, NoBody), W1)))))"

definition kickMember ::
  "('k, 'w) server \<Rightarrow> env \<Rightarrow> claims option \<Rightarrow> string \<Rightarrow> string \<Rightarrow> ('k, 'w) world
     \<Rightarrow> ('k, 'w) outcome" where
  "kickMember sv e cid path_name path_node W =
     with_identity cid W (\<lambda>i. ownedZone e path_name (UserID i) W (\<lambda>z.
       case parse_int64 path_node of
         None \<Rightarrow> (notFound ''Not found.'', W)
       | Some nid \<Rightarrow>
           or_404 ErrNodeNotFound ''Not found.'' (GetNodeByID e nid (w_db W)) W (\<lambda>n.
             remove_member sv e z n W)))"

text \<open>\<^verbatim>\<open>recomputeReclaimedPeers\<close>: the \<^verbatim>\<open>seen\<close> map lets every node through once.\<close>

fun recompute_loop ::
  "('k, 'w) server \<Rightarrow> env \<Rightarrow> int set \<Rightarrow> zone_detachment list \<Rightarrow> ('k, 'w) world \<Rightarrow> ('k, 'w) world" where
  "recompute_loop sv e seen [] W = W"
| "recompute_loop sv e seen (det # dets) W =
     (if \<not> zd_reclaimed det \<or> zd_node det \<in> seen then recompute_loop sv e seen dets W
      else
        recompute_loop sv e (insert (zd_node det) seen) dets
          (case GetNodeByID e (zd_node det) (w_db W) of
             Inl _ \<Rightarrow> W
           | Inr n \<Rightarrow> recompute_peer sv e (zd_node det) (n_wg_pubkey n) (n_ip n) W))"

definition recomputeReclaimedPeers ::
  "('k, 'w) server \<Rightarrow> env \<Rightarrow> zone_detachment list \<Rightarrow> ('k, 'w) world \<Rightarrow> ('k, 'w) world" where
  "recomputeReclaimedPeers sv e dets W = recompute_loop sv e {} dets W"

definition deleteZone ::
  "('k, 'w) server \<Rightarrow> env \<Rightarrow> claims option \<Rightarrow> string \<Rightarrow> ('k, 'w) world \<Rightarrow> ('k, 'w) outcome" where
  "deleteZone sv e cid path_name W =
     with_identity cid W (\<lambda>i. ownedZone e path_name (UserID i) W (\<lambda>z.
       case db_do (DetachAllForZone e (z_id z)) W of
         (Inl _, W1) \<Rightarrow> (serverError, W1)
       | (Inr dets, W1) \<Rightarrow>
           (case db_do (DeleteZoneRow e (z_id z)) W1 of
              (Some _, W2) \<Rightarrow> (serverError, W2)
            | (None, W2) \<Rightarrow>
                ((204, NoBody),
                 recomputeReclaimedPeers sv e dets (nft_try sv (Call_DeleteZone (z_id z)) W2)))))"

subsection \<open>Announcements\<close>

record create_announcement_request =
  ca_NodeID :: int
  ca_Subnet :: string

definition announcePlatforms :: "string \<Rightarrow> bool" where
  "announcePlatforms platform = (platform = ''openwrt'')"

text \<open>The message for a subnet that may not be announced, \<^term>\<open>None\<close> for one that may.\<close>

definition validAnnouncedSubnet :: "('k, 'w) server \<Rightarrow> prefix4 \<Rightarrow> string option" where
  "validAnnouncedSubnet sv p =
     (if PBits p < 16 \<or> 30 < PBits p then Some ''Subnet prefix length must be between /16 and /30.''
      else if \<not> IsRFC1918 p then Some ''Subnet must be a private (RFC1918) range.''
      else if (case parse_prefix sv (wgNetwork sv) of
                 Some (P4 vpn) \<Rightarrow> Overlaps (BlockFromPrefix p) (BlockFromPrefix vpn)
               | _ \<Rightarrow> False)
      then Some ''Subnet overlaps the VPN address pool.''
      else if (case announcePool sv of
                 Some pool \<Rightarrow> Overlaps (BlockFromPrefix p) (BlockFromPrefix pool)
               | None \<Rightarrow> False)
      then Some ''Subnet overlaps the synthetic address pool.''
      else None)"

definition rollbackAnnouncement ::
  "('k, 'w) server \<Rightarrow> env \<Rightarrow> int \<Rightarrow> int \<Rightarrow> node_row \<Rightarrow> ('k, 'w) world \<Rightarrow> ('k, 'w) world" where
  "rollbackAnnouncement sv e zid aid n W =
     (case db_do (Detach (at_site ''rollback: '' e) zid aid) W of
        (Inl _, W1) \<Rightarrow> W1
      | (Inr _, W1) \<Rightarrow>
          recompute_peer sv (at_site ''rollback: '' e) (n_id n) (n_wg_pubkey n) (n_ip n) W1)"

text \<open>The dataplane of a fresh attachment: peer routes, then the zone's routes set.\<close>

definition grow_dataplane ::
  "('k, 'w) server \<Rightarrow> env \<Rightarrow> int \<Rightarrow> node_row \<Rightarrow> announcement \<Rightarrow> ('k, 'w) world
     \<Rightarrow> bool \<times> ('k, 'w) world" where
  "grow_dataplane sv e zid n ann W =
     (case RoutesForNode e (n_id n) (w_db W) of
        Inl _ \<Rightarrow> (False, rollbackAnnouncement sv e zid (AnnID ann) n W)
      | Inr routes \<Rightarrow>
          (case set_routes sv (n_wg_pubkey n) (n_ip n) routes W of
             (Some _, W1) \<Rightarrow> (False, rollbackAnnouncement sv e zid (AnnID ann) n W1)
           | (None, W1) \<Rightarrow>
               (case nft_do sv (Call_AddZoneRoute zid (block_prefix (Synthetic ann))) W1 of
                  (Some _, W2) \<Rightarrow> (False, rollbackAnnouncement sv e zid (AnnID ann) n W2)
                | (None, W2) \<Rightarrow> (True, W2))))"

definition announce_error :: "store_error \<Rightarrow> response" where
  "announce_error err =
     (case err of
        ErrNotMember \<Rightarrow> notFound ''Node is not a member of this zone.''
      | ErrSubnetOverlap \<Rightarrow>
          jsonError 409 ''subnet_overlap'' ''The subnet overlaps another announcement of the same node.''
      | ErrAnnounceLimit \<Rightarrow>
          jsonError 409 ''announce_limit_reached'' ''You have reached your announced subnet limit.''
      | ErrSyntheticPoolExhausted \<Rightarrow>
          jsonError 503 ''synthetic_pool_exhausted'' ''No synthetic address block of that size is available.''
      | _ \<Rightarrow> serverError)"

definition createAnnouncement ::
  "('k, 'w) server \<Rightarrow> env \<Rightarrow> claims option \<Rightarrow> string \<Rightarrow> create_announcement_request option
     \<Rightarrow> ('k, 'w) world \<Rightarrow> ('k, 'w) outcome" where
  "createAnnouncement sv e cid path_name body W =
     with_identity cid W (\<lambda>i. memberZone e path_name (UserID i) W (\<lambda>z. with_body body W (\<lambda>req.
       case announcePool sv of
         None \<Rightarrow> (jsonError 503 ''announce_disabled''
             ''Subnet announcements are disabled on this server (no synthetic pool configured).'', W)
       | Some pool \<Rightarrow>
           or_404 ErrNodeNotFound ''Node not found.'' (GetOwned e (UserID i) (ca_NodeID req) (w_db W)) W (\<lambda>n.
           if \<not> announcePlatforms (n_platform n)
           then (jsonError 409 ''platform_unsupported'' (''This node's platform cannot announce subnets '' @
               ''(requires a router client that performs address translation).''), W)
           else case parse_prefix sv (ca_Subnet req) of
             Some (P4 p) \<Rightarrow>
               (case validAnnouncedSubnet sv (Masked p) of
                  Some message \<Rightarrow> (jsonError 400 ''subnet_invalid'' message, W)
                | None \<Rightarrow>
                    (case db_do (CreateAnnouncement e (UserID i) (n_id n) (BlockFromPrefix (Masked p))
                             (z_id z) (cap i (maxAnnouncedSubnetsPerUser sv)) (P4 pool)) W of
                       (Inl err, W1) \<Rightarrow> (announce_error err, W1)
                     | (Inr (ann, attached), W1) \<Rightarrow>
                         (case (if attached then grow_dataplane sv e (z_id z) n ann W1 else (True, W1)) of
                            (False, W2) \<Rightarrow> (serverError, W2)
                          | (True, W2) \<Rightarrow>
                              ((201, AnnouncementBody
                                  \<lparr>ai_ID = AnnID ann, ai_NodeID = n_id n, ai_NodeName = n_name n,
                                   ai_Owner = Username i, ai_Subnet = block_prefix (Real ann),
                                   ai_Synthetic = block_prefix (Synthetic ann)\<rparr>), W2))))
           | _ \<Rightarrow> (invalid ''Subnet must be an IPv4 CIDR like 192.168.1.0/24.'', W)))))"

definition deleteAnnouncement ::
  "('k, 'w) server \<Rightarrow> env \<Rightarrow> claims option \<Rightarrow> string \<Rightarrow> string \<Rightarrow> ('k, 'w) world
     \<Rightarrow> ('k, 'w) outcome" where
  "deleteAnnouncement sv e cid path_name path_id W =
     with_identity cid W (\<lambda>i. memberZone e path_name (UserID i) W (\<lambda>z.
       case parse_int64 path_id of
         None \<Rightarrow> (notFound ''Not found.'', W)
       | Some aid \<Rightarrow>
           or_404 ErrAnnouncementNotFound ''Not found.'' (GetAnnouncement e aid (w_db W)) W (\<lambda>ann.
           or_500 (GetNodeByID e (AnnNodeID ann) (w_db W)) W (\<lambda>n.
             if n_user_id n \<noteq> UserID i \<and> z_owner z \<noteq> UserID i then (notFound ''Not found.'', W)
             else case db_do (Detach (at_site ''handler: '' e) (z_id z) aid) W of
               (r, W1) \<Rightarrow> or_404 ErrAnnouncementNotFound ''Not found.'' r W1 (\<lambda>(_, reclaimed).
                 let W2 = nft_try sv (Call_RemoveZoneRoute (z_id z) (block_prefix (Synthetic ann))) W1
                 in ((204, NoBody),
                     if reclaimed then recompute_peer sv e (n_id n) (n_wg_pubkey n) (n_ip n) W2
                     else W2))))))"

definition listAnnouncements ::
  "env \<Rightarrow> claims option \<Rightarrow> string \<Rightarrow> ('k, 'w) world \<Rightarrow> ('k, 'w) outcome" where
  "listAnnouncements e cid path_name W =
     with_identity cid W (\<lambda>i. memberZone e path_name (UserID i) W (\<lambda>z.
       or_500 (ListByZone e (z_id z) (w_db W)) W (\<lambda>anns.
         ((200, AnnouncementListBody (map (\<lambda>a.
            \<lparr>ai_ID = AnnID a, ai_NodeID = AnnNodeID a, ai_NodeName = AnnNodeName a,
             ai_Owner = AnnOwner a, ai_Subnet = block_prefix (Real a),
             ai_Synthetic = block_prefix (Synthetic a)\<rparr>) anns)), W))))"

subsection \<open>Deleting a user\<close>

text \<open>The dataplane of a deletion, in the order of the handler, best effort.\<close>

definition forget_user ::
  "('k, 'w) server \<Rightarrow> env \<Rightarrow> deletion_result \<Rightarrow> ('k, 'w) world \<Rightarrow> ('k, 'w) world" where
  "forget_user sv e r W =
     fold (\<lambda>n. recompute_peer sv e (rn_id n) (rn_pubkey n) (rn_ip n)) (RouteRecomputeNodes r)
       (fold (\<lambda>x. nft_try sv (Call_RemoveZoneRoute (sr_zone x) (sr_synthetic x))) (SurvivingZoneRoutes r)
          (fold (\<lambda>zid. nft_try sv (Call_DeleteZone zid)) (OwnedZoneIDs r)
             (fold (\<lambda>m. nft_try sv (Call_RemoveMember (sm_zone m) (sm_ip m))) (SurvivingMemberships r)
                (fold (wg_remove sv) (NodePubKeys r) W))))"

definition deleteUser ::
  "('k, 'w) server \<Rightarrow> env \<Rightarrow> claims option \<Rightarrow> string \<Rightarrow> ('k, 'w) world \<Rightarrow> ('k, 'w) outcome" where
  "deleteUser sv e cid path_id W =
     with_identity cid W (\<lambda>i.
       case parse_int64 path_id of
         None \<Rightarrow> (notFound ''User not found.'', W)
       | Some target \<Rightarrow>
           if target = UserID i
           then (jsonError 403 ''cannot_delete_self'' ''You cannot delete your own account.'', W)
           else case db_do (DeleteCascade e target) W of
             (Inl ErrUserNotFound, W1) \<Rightarrow> (notFound ''User not found.'', W1)
           | (Inl ErrLastAdmin, W1) \<Rightarrow>
               (jsonError 409 ''last_admin'' ''Cannot delete the last administrator.'', W1)
           | (Inl _, W1) \<Rightarrow> (serverError, W1)
           | (Inr r, W1) \<Rightarrow> ((204, NoBody), forget_user sv e r W1))"

end
