(* ===== verification/Api_Calls.thy ===== *)
theory Api_Calls
  imports Dataplane Api_Handlers
begin

text \<open>
  The dataplane calls of the handlers on a host without failures of its own: what a call, and each
  of the best-effort loops, makes of the zones the table stands for and of the prefixes the device
  carries. \<open>dp sv vn vw W Z D T\<close> is the state of both between two calls.
\<close>

section \<open>Definitions\<close>

definition faultless ::
  "('k, 'w) server \<Rightarrow> ('k \<Rightarrow> ruleset) \<Rightarrow> ('w \<Rightarrow> wg_state) \<Rightarrow> bool" where
  "faultless sv vn vw = (nft_faultless (sv_nft sv) vn \<and> wg_faultless (sv_host sv) (sv_dev sv) vw)"

definition dp ::
  "('k, 'w) server \<Rightarrow> ('k \<Rightarrow> ruleset) \<Rightarrow> ('w \<Rightarrow> wg_state) \<Rightarrow> ('k, 'w) world \<Rightarrow> zone_map \<Rightarrow> int set
     \<Rightarrow> tunnel_map \<Rightarrow> bool" where
  "dp sv vn vw W Z D T =
     (represents (sv_table sv) (vn (w_nft W)) Z \<and> no_leftovers (vn (w_nft W)) (sv_table sv) D \<and>
      carries (vw (w_wg W)) T)"

section \<open>Lemmas\<close>

lemma synced_dp:
  "synced sv vn vw W \<longleftrightarrow>
     dp sv vn vw W (db_zones (w_db W)) (z_id ` set (zones (w_db W))) (db_tunnel (sv_host sv) (w_db W))"
  by (simp add: synced_def dp_def)

lemma dp_frame [simp]: "dp sv vn vw (W\<lparr>w_db := d\<rparr>) Z D T = dp sv vn vw W Z D T"
  by (simp add: dp_def)

lemma faultless_wg: "faultless sv vn vw \<Longrightarrow> wg_contract (sv_host sv) (sv_dev sv) vw"
  and faultless_nft: "faultless sv vn vw \<Longrightarrow> nft_contract (sv_nft sv) vn"
  by (simp_all add: faultless_def wg_faultless_def faultless_contract)

lemma call_frame [frame_simps]:
  "w_db (nft_try sv c W) = w_db W" "w_wg (nft_try sv c W) = w_wg W"
  "w_db (wg_remove sv pub W) = w_db W" "w_nft (wg_remove sv pub W) = w_nft W"
  "w_db (snd (set_routes sv pub ip rs W)) = w_db W" "w_nft (snd (set_routes sv pub ip rs W)) = w_nft W"
  "w_db (recompute_peer sv e nid pub ip W) = w_db W"
  by (simp_all add: nft_try_def nft_do_def wg_remove_def set_routes_def wg_do_def recompute_peer_def
      split: prod.split sum.split)

lemma tries_frame [frame_simps]:
  "w_db (fold (nft_try sv) cs W) = w_db W" "w_wg (fold (nft_try sv) cs W) = w_wg W"
  by (induction cs arbitrary: W) (simp_all add: frame_simps)

lemma db_do_quiet: "f (w_db W) = (r, d) \<Longrightarrow> db_do f W = (r, W\<lparr>w_db := d\<rparr>)"
  by (simp add: db_do_def)

lemma quiet_at_site [simp]: "quiet e \<Longrightarrow> quiet (at_site s e)"
  by (simp add: quiet_def at_site_def)

lemma quiet_fault: "quiet e \<Longrightarrow> db_fault e l i = False"
  by (simp add: quiet_def)

subsection \<open>One call\<close>

lemma nft_do_dp:
  assumes "faultless sv vn vw" and "dp sv vn vw W Z D T"
    and "fw_ready (sv_table sv) c (vn (w_nft W)) Z"
  shows "\<exists>W'. nft_do sv c W = (None, W') \<and> nft_try sv c W = W' \<and> w_db W' = w_db W \<and> w_wg W' = w_wg W \<and>
    represents (sv_table sv) (vn (w_nft W')) (fw_effect c Z) \<and> carries (vw (w_wg W')) T \<and>
    (\<forall>z. c \<noteq> Call_AddZone z \<longrightarrow> z \<notin> D \<longrightarrow> zone_sets_free (vn (w_nft W')) (sv_table sv) z)"
proof -
  have rep: "represents (sv_table sv) (vn (w_nft W)) Z" and tun: "carries (vw (w_wg W)) T"
    and left: "no_leftovers (vn (w_nft W)) (sv_table sv) D"
    using assms(2) by (simp_all add: dp_def)
  have nf: "nft_faultless (sv_nft sv) vn" using assms(1) by (simp add: faultless_def)
  from fw_exec_progress [OF nf rep assms(3)] obtain k where
    k: "fw_exec (sv_nft sv) (sv_table sv) c (w_nft W) = (None, k)" by blast
  from fw_exec_success [OF faultless_contract [OF nf] rep assms(3) k] tun left
    fw_exec_free [OF faultless_contract [OF nf] k] show ?thesis
    by (simp add: nft_do_def nft_try_def k no_leftovers_def)
qed

lemma nft_edit_dp:
  assumes "faultless sv vn vw" and "dp sv vn vw W Z D T"
    and "fw_ready (sv_table sv) c (vn (w_nft W)) Z" and "\<forall>z. c \<noteq> Call_AddZone z"
  shows "\<exists>W'. nft_do sv c W = (None, W') \<and> nft_try sv c W = W' \<and> w_db W' = w_db W \<and>
    dp sv vn vw W' (fw_effect c Z) D T"
  using nft_do_dp [OF assms(1-3)] assms(4) by (auto simp: dp_def no_leftovers_def)

lemma nft_try_dp:
  assumes "faultless sv vn vw" and "dp sv vn vw W Z D T"
    and "fw_ready (sv_table sv) c (vn (w_nft W)) Z" and "\<forall>z. c \<noteq> Call_AddZone z"
  shows "dp sv vn vw (nft_try sv c W) (fw_effect c Z) D T"
  using nft_edit_dp [OF assms] by auto

lemma add_zone_dp:
  assumes "faultless sv vn vw" and "dp sv vn vw W Z D T" and "z \<notin> D" and "Z z = None"
  shows "\<exists>W'. nft_do sv (Call_AddZone z) W = (None, W') \<and> w_db W' = w_db W \<and>
    dp sv vn vw W' (Z(z \<mapsto> ({}, {}))) (insert z D) T"
proof -
  have "zone_sets_free (vn (w_nft W)) (sv_table sv) z"
    using assms(2,3) by (simp add: dp_def no_leftovers_def)
  with nft_do_dp [OF assms(1,2), of "Call_AddZone z"] assms(4) show ?thesis
    by (auto simp: dp_def no_leftovers_def)
qed

lemma delete_zone_dp:
  assumes "faultless sv vn vw" and "dp sv vn vw W Z D T"
  shows "dp sv vn vw (nft_try sv (Call_DeleteZone z) W) (Z(z := None)) (D - {z}) T"
proof -
  let ?W = "nft_try sv (Call_DeleteZone z) W"
  have rep: "represents (sv_table sv) (vn (w_nft W)) Z" and nf: "nft_faultless (sv_nft sv) vn"
    using assms by (simp_all add: dp_def faultless_def)
  from nft_try_dp [OF assms, of "Call_DeleteZone z"] have dp: "dp sv vn vw ?W (Z(z := None)) D T" by simp
  from DeleteZone_ok [OF nf rep, of z] obtain k tb where
    "DeleteZone (sv_nft sv) (sv_table sv) z (w_nft W) = (None, k)" "vn k (sv_table sv) = Some tb"
    "nt_sets tb (zoneSetName z) = None" "nt_sets tb (routesSetName z) = None" by blast
  then have "zone_sets_free (vn (w_nft ?W)) (sv_table sv) z"
    by (simp add: nft_try_def nft_do_def zone_sets_free_def)
  with dp show ?thesis by (auto simp: dp_def no_leftovers_def)
qed

subsection \<open>The loops\<close>

lemma remove_members_dp:
  assumes "faultless sv vn vw"
  shows "\<lbrakk>dp sv vn vw W Z D T; distinct ps; \<forall>(z, a) \<in> set ps. \<exists>M R. Z z = Some (M, R) \<and> a \<in> M\<rbrakk> \<Longrightarrow>
    dp sv vn vw (fold (nft_try sv) (map (\<lambda>(z, a). Call_RemoveMember z a) ps) W)
      (\<lambda>z. map_option (apfst (\<lambda>M. M - {a. (z, a) \<in> set ps})) (Z z)) D T"
proof (induction ps arbitrary: W Z)
  case Nil
  then show ?case by (simp add: apfst_def map_prod_def option.map_ident)
next
  case (Cons p ps)
  obtain z a where p: "p = (z, a)" by fastforce
  from Cons.prems(3) p obtain M R where Z: "Z z = Some (M, R)" "a \<in> M" by auto
  let ?Z = "Z(z \<mapsto> (M - {a}, R))"
  from nft_try_dp [OF assms Cons.prems(1), of "Call_RemoveMember z a"] Z
  have step: "dp sv vn vw (nft_try sv (Call_RemoveMember z a) W) ?Z D T"
    by (simp add: on_zone_def)
  have "\<exists>M R. ?Z y = Some (M, R) \<and> b \<in> M" if "(y, b) \<in> set ps" for y b
  proof -
    from that Cons.prems(2) p have "(y, b) \<noteq> (z, a)" by auto
    moreover from that Cons.prems(3) have "\<exists>M R. Z y = Some (M, R) \<and> b \<in> M" by auto
    ultimately show ?thesis using Z by auto
  qed
  with Cons.IH [OF step] Cons.prems(2) have
    "dp sv vn vw (fold (nft_try sv) (map (\<lambda>(z, a). Call_RemoveMember z a) ps)
        (nft_try sv (Call_RemoveMember z a) W))
      (\<lambda>y. map_option (apfst (\<lambda>M. M - {b. (y, b) \<in> set ps})) (?Z y)) D T" by fastforce
  moreover have "(\<lambda>y. map_option (apfst (\<lambda>M. M - {b. (y, b) \<in> set ps})) (?Z y)) =
      (\<lambda>y. map_option (apfst (\<lambda>M. M - {b. (y, b) \<in> set (p # ps)})) (Z y))"
    using Z by (auto simp: fun_eq_iff p apfst_def map_prod_def split: option.split)
  ultimately show ?case by (simp add: p)
qed

lemma routes_good_subset: "routes_good R \<Longrightarrow> S \<subseteq> R \<Longrightarrow> routes_good S"
  unfolding routes_good_def by blast

lemma remove_routes_dp:
  assumes "faultless sv vn vw"
  shows "\<lbrakk>dp sv vn vw W Z D T; distinct ps; \<forall>z M R. Z z = Some (M, R) \<longrightarrow> routes_good R;
      \<forall>(z, q) \<in> set ps. \<exists>M R. Z z = Some (M, R) \<and> q \<in> R\<rbrakk> \<Longrightarrow>
    dp sv vn vw (fold (nft_try sv) (map (\<lambda>(z, q). Call_RemoveZoneRoute z q) ps) W)
      (\<lambda>z. map_option (apsnd (\<lambda>R. R - {q. (z, q) \<in> set ps})) (Z z)) D T"
proof (induction ps arbitrary: W Z)
  case Nil
  then show ?case by (simp add: apsnd_def map_prod_def option.map_ident)
next
  case (Cons p ps)
  obtain z q where p: "p = (z, q)" by fastforce
  from Cons.prems(4) p obtain M R where Z: "Z z = Some (M, R)" "q \<in> R" by auto
  let ?Z = "Z(z \<mapsto> (M, R - {q}))"
  from Cons.prems(3) Z have good: "routes_good R" by blast
  from nft_try_dp [OF assms Cons.prems(1), of "Call_RemoveZoneRoute z q"] Z good
  have step: "dp sv vn vw (nft_try sv (Call_RemoveZoneRoute z q) W) ?Z D T"
    by (simp add: on_zone_def)
  have "\<exists>M R. ?Z y = Some (M, R) \<and> b \<in> R" if "(y, b) \<in> set ps" for y b
  proof -
    from that Cons.prems(2) p have "(y, b) \<noteq> (z, q)" by auto
    moreover from that Cons.prems(4) have "\<exists>M R. Z y = Some (M, R) \<and> b \<in> R" by auto
    ultimately show ?thesis using Z by auto
  qed
  moreover have "\<forall>y M' R'. ?Z y = Some (M', R') \<longrightarrow> routes_good R'"
    using Cons.prems(3) good routes_good_subset [of R "R - {q}"] by auto
  ultimately have
    "dp sv vn vw (fold (nft_try sv) (map (\<lambda>(z, q). Call_RemoveZoneRoute z q) ps)
        (nft_try sv (Call_RemoveZoneRoute z q) W))
      (\<lambda>y. map_option (apsnd (\<lambda>R. R - {b. (y, b) \<in> set ps})) (?Z y)) D T"
    using Cons.IH [OF step] Cons.prems(2) by fastforce
  moreover have "(\<lambda>y. map_option (apsnd (\<lambda>R. R - {b. (y, b) \<in> set ps})) (?Z y)) =
      (\<lambda>y. map_option (apsnd (\<lambda>R. R - {b. (y, b) \<in> set (p # ps)})) (Z y))"
    using Z by (auto simp: fun_eq_iff p apsnd_def map_prod_def split: option.split)
  ultimately show ?case by (simp add: p)
qed

lemma delete_zones_dp:
  assumes "faultless sv vn vw"
  shows "dp sv vn vw W Z D T \<Longrightarrow>
    dp sv vn vw (fold (nft_try sv) (map Call_DeleteZone zs) W)
      (\<lambda>z. if z \<in> set zs then None else Z z) (D - set zs) T"
proof (induction zs arbitrary: W Z D)
  case (Cons z zs)
  from Cons.IH [OF delete_zone_dp [OF assms Cons.prems, of z]]
  have "dp sv vn vw (fold (nft_try sv) (map Call_DeleteZone (z # zs)) W)
      (\<lambda>y. if y \<in> set zs then None else (Z(z := None)) y) (D - {z} - set zs) T" by simp
  moreover have "(\<lambda>y. if y \<in> set zs then None else (Z(z := None)) y) =
      (\<lambda>y. if y \<in> set (z # zs) then None else Z y)" by auto
  moreover have "D - {z} - set zs = D - set (z # zs)" by auto
  ultimately show ?case by simp
qed simp

subsection \<open>Peers\<close>

lemma set_routes_dp:
  assumes "faultless sv vn vw" and "dp sv vn vw W Z D T" and "parse_key (sv_host sv) pub = Some k"
    and "\<forall>k' A. k' \<noteq> k \<longrightarrow> T k' = Some A \<longrightarrow> A \<inter> allowed_of ip routes = {}"
  shows "\<exists>W'. set_routes sv pub ip routes W = (None, W') \<and> w_db W' = w_db W \<and>
    dp sv vn vw W' Z D (T(k \<mapsto> allowed_of ip routes))"
proof -
  let ?h = "sv_host sv"
  have tun: "carries (vw (w_wg W)) T" using assms(2) by (simp add: dp_def)
  have wf: "wg_faultless ?h (sv_dev sv) vw" using assms(1) by (simp add: faultless_def)
  obtain pc where pc: "peerConfig ?h pub ip routes = Inr pc" using assms(3) by (simp add: peerConfig_def)
  obtain w where "wg_configure ?h (sv_dev sv) (peers_only False [pc]) (w_wg W) = (None, w)"
    using faultless_configure [OF wf] by blast
  then have s: "SetPeerRoutes ?h (sv_dev sv) pub ip routes (w_wg W) = (None, w)"
    by (simp add: SetPeerRoutes_def pc)
  from SetPeerRoutes_carries [OF faultless_wg [OF assms(1)] tun assms(3,4) s] assms(2) show ?thesis
    by (simp add: set_routes_def wg_do_def s dp_def)
qed

text \<open>A peer that only loses prefixes cannot take any from another one.\<close>

lemma shrink_dp:
  assumes "faultless sv vn vw" and "dp sv vn vw W Z D T" and "parse_key (sv_host sv) pub = Some k"
    and "T k = Some B" and "allowed_of ip (node_routes (w_db W) nid) \<subseteq> B" and "quiet e"
  shows "dp sv vn vw (recompute_peer sv e nid pub ip W) Z D
    (T(k \<mapsto> allowed_of ip (node_routes (w_db W) nid)))"
proof -
  have "carries (vw (w_wg W)) T" using assms(2) by (simp add: dp_def)
  from carries_disjoint [OF this _ assms(4)] assms(5)
  have "\<forall>k' A. k' \<noteq> k \<longrightarrow> T k' = Some A \<longrightarrow> A \<inter> allowed_of ip (node_routes (w_db W) nid) = {}" by blast
  from set_routes_dp [OF assms(1-3) this] show ?thesis
    by (auto simp: recompute_peer_def RoutesForNode_def quiet_fault [OF assms(6)])
qed

lemma wg_remove_dp:
  assumes "faultless sv vn vw" and "dp sv vn vw W Z D T" and "parse_key (sv_host sv) pub = Some k"
  shows "dp sv vn vw (wg_remove sv pub W) Z D (T(k := None))"
proof -
  let ?h = "sv_host sv" and ?c = "\<lparr>wp_key = k, wp_remove = True, wp_replace_ips = False, wp_allowed = []\<rparr>"
  have tun: "carries (vw (w_wg W)) T" using assms(2) by (simp add: dp_def)
  have wf: "wg_faultless ?h (sv_dev sv) vw" using assms(1) by (simp add: faultless_def)
  obtain w where "wg_configure ?h (sv_dev sv) (peers_only False [?c]) (w_wg W) = (None, w)"
    using faultless_configure [OF wf] by blast
  then have r: "RemovePeer ?h (sv_dev sv) pub (w_wg W) = (None, w)"
    by (simp add: RemovePeer_def assms(3))
  from RemovePeer_carries [OF faultless_wg [OF assms(1)] tun assms(3) r] assms(2) show ?thesis
    by (simp add: wg_remove_def wg_do_def r dp_def)
qed

lemma wg_removes_dp:
  assumes "faultless sv vn vw"
  shows "\<lbrakk>dp sv vn vw W Z D T; \<forall>pub \<in> set pubs. parse_key (sv_host sv) pub \<noteq> None\<rbrakk> \<Longrightarrow>
    dp sv vn vw (fold (wg_remove sv) pubs W) Z D
      (\<lambda>k. if Some k \<in> parse_key (sv_host sv) ` set pubs then None else T k)"
proof (induction pubs arbitrary: W T)
  case (Cons pub pubs)
  then obtain k where k: "parse_key (sv_host sv) pub = Some k" by auto
  from Cons.IH [OF wg_remove_dp [OF assms Cons.prems(1) k]] Cons.prems(2)
  have "dp sv vn vw (fold (wg_remove sv) (pub # pubs) W) Z D
      (\<lambda>k'. if Some k' \<in> parse_key (sv_host sv) ` set pubs then None else (T(k := None)) k')" by simp
  moreover have "(\<lambda>k'. if Some k' \<in> parse_key (sv_host sv) ` set pubs then None else (T(k := None)) k') =
      (\<lambda>k'. if Some k' \<in> parse_key (sv_host sv) ` set (pub # pubs) then None else T k')"
    using k by (auto simp: fun_eq_iff)
  ultimately show ?case by simp
qed simp

lemma wg_removes_frame [frame_simps]: "w_db (fold (wg_remove sv) pubs W) = w_db W"
  by (induction pubs arbitrary: W) (simp_all add: frame_simps)

end
