(* ===== verification/Api_Plan.thy ===== *)
theory Api_Plan
  imports Api_Calls
begin

text \<open>
  What the database operations of the handlers make of the dataplane the database asks for: for each
  of them the new \<open>db_zones\<close> and \<open>db_tunnel\<close> in terms of the old, and that the database stays
  consistent.
\<close>

section \<open>Lemmas\<close>

subsection \<open>Rows that go\<close>

lemma synthetic_inj:
  assumes "schema_ok d" and "a \<in> set (announcements d)" and "b \<in> set (announcements d)"
    and "block_prefix (ann_synthetic a) = block_prefix (ann_synthetic b)"
  shows "a = b"
proof (rule distinct_map_eqD [OF _ assms(2,3)])
  show "distinct (map (\<lambda>a. (a_synthetic_base a, a_prefix_len a)) (announcements d))"
    using assms(1) by (simp add: schema_ok_def uniq_ok_def)
qed (use assms(4) in \<open>simp add: block_prefix_def ann_synthetic_def\<close>)

lemma routes_minus:
  assumes "schema_ok d" and "\<And>a. attached_to d' a z \<longleftrightarrow> attached_to d a z \<and> \<not> gone a"
  shows "set (zone_routes d' z) =
    set (zone_routes d z) - (block_prefix \<circ> ann_synthetic) ` {a. attached_to d a z \<and> gone a}"
proof -
  have "inj_on (block_prefix \<circ> ann_synthetic) {a. attached_to d a z}"
    by (rule inj_onI) (auto simp: attached_to_def intro: synthetic_inj [OF assms(1)])
  moreover have "{a. attached_to d' a z} = {a. attached_to d a z} - {a. attached_to d a z \<and> gone a}"
    using assms(2) by blast
  ultimately show ?thesis
    unfolding set_zone_routes by (simp only:) (rule inj_on_image_set_diff, blast+)
qed

lemma ips_minus:
  assumes "schema_ok d" and "\<And>n. n \<in> set (nodes d') \<and> is_member d' z (n_id n) \<longleftrightarrow>
      n \<in> set (nodes d) \<and> is_member d z (n_id n) \<and> \<not> gone n"
  shows "zone_ips d' z = zone_ips d z - n_ip ` {n \<in> set (nodes d). is_member d z (n_id n) \<and> gone n}"
proof -
  have "inj_on n_ip (set (nodes d))" using assms(1) by (simp add: schema_ok_def uniq_ok_def distinct_map)
  then have "inj_on n_ip {n \<in> set (nodes d). is_member d z (n_id n)}" by (rule inj_on_subset) blast
  moreover have "{n \<in> set (nodes d'). is_member d' z (n_id n)} =
      {n \<in> set (nodes d). is_member d z (n_id n)} -
      {n \<in> set (nodes d). is_member d z (n_id n) \<and> gone n}"
    using assms(2) by blast
  ultimately show ?thesis
    unfolding zone_ips_def by (simp only:) (rule inj_on_image_set_diff, blast+)
qed

lemma node_allowed_eq:
  "node_allowed d n = insert (Prefix4 (n_ip n) 32)
     ((Masked \<circ> block_prefix \<circ> ann_synthetic) ` {a \<in> set (announcements d). a_node a = n_id n})"
  by (simp add: node_allowed_def allowed_of_def set_node_routes image_comp comp_assoc)

lemma node_allowed_cong:
  "{a \<in> set (announcements d). a_node a = n_id n} = {a \<in> set (announcements d'). a_node a = n_id n} \<Longrightarrow>
     node_allowed d n = node_allowed d' n"
  by (simp only: node_allowed_eq)

lemma node_allowed_mono:
  "set (announcements d') \<subseteq> set (announcements d) \<Longrightarrow> node_allowed d' n \<subseteq> node_allowed d n"
  unfolding node_allowed_eq by blast

text \<open>A database with fewer rows stays consistent if nothing hangs in the air.\<close>

lemma ann_inv_shrink:
  assumes "ann_inv pool d" and "schema_ok d'" and "no_orphans d'"
    and "set (announcements d') \<subseteq> set (announcements d)"
    and "\<And>a z. attached_to d' a z \<Longrightarrow> is_member d' z (a_node a)"
  shows "ann_inv pool d'"
proof -
  have "attached_members d'"
    unfolding attached_members_def using assms(5) by (auto simp: attached_to_iff)
  moreover have "ann_plan pool d'"
    using assms(1) by (intro ann_plan_subset [OF _ assms(4)]) (simp add: ann_inv_def)
  ultimately show ?thesis using assms(2,3) by (simp add: ann_inv_def)
qed

lemma attached_is_member: "ann_inv pool d \<Longrightarrow> attached_to d a z \<Longrightarrow> is_member d z (a_node a)"
  by (auto simp: ann_inv_def attached_members_def attached_to_iff)

lemma consistent_shrink:
  assumes "consistent h pool lo hi d" and "schema_ok d'" and "no_orphans d'"
    and "set (nodes d') \<subseteq> set (nodes d)" and "set (announcements d') \<subseteq> set (announcements d)"
    and "\<And>a z. attached_to d' a z \<Longrightarrow> is_member d' z (a_node a)"
  shows "consistent h pool lo hi d'"
  using assms ann_inv_shrink [OF _ assms(2,3,5,6), of pool]
  by (auto simp: consistent_def canonical_keys_def)

lemma is_member_iff: "is_member d z n \<longleftrightarrow> (\<exists>m \<in> set (zone_members d). zm_zone m = z \<and> zm_node m = n)"
  by (auto simp: is_member_def)

subsection \<open>A new node\<close>

lemma node_added_plan:
  assumes "node_added e uid name pub pf ip mx d n d'" and "consistent h pool lo hi d"
    and "schema_ok d'" and "parse_key h pub = Some k" and "key_string h k = pub"
    and "lo \<le> ip" and "ip \<le> hi"
  shows "consistent h pool lo hi d' \<and> db_zones d' = db_zones d \<and> zones d' = zones d \<and>
    db_tunnel h d' = (db_tunnel h d)(k \<mapsto> allowed_of ip []) \<and> db_tunnel h d k = None"
proof -
  from assms(1) have n: "n_id n = node_seq d + 1" "n_ip n = ip" "n_wg_pubkey n = pub"
    and d': "d' = d\<lparr>nodes := nodes d @ [n], node_seq := node_seq d + 1\<rparr>"
    and fresh: "pub \<notin> n_wg_pubkey ` set (nodes d)"
    by (simp_all add: node_added_def)
  have ok: "schema_ok d" by (rule consistent_schema [OF assms(2)])
  have mem: "is_member d' = is_member d" by (simp add: d' is_member_def fun_eq_iff)
  have att: "attached_to d' = attached_to d" by (simp add: d' attached_to_def fun_eq_iff)
  have old: "i \<noteq> n_id n" if "has_node d i" for i
    using ok that by (auto simp: has_node_def schema_ok_def seq_ok_def n(1))
  have "\<not> is_member d z (n_id n)" for z
    using ok old by (auto simp: is_member_iff schema_ok_def fk_ok_def)
  then have ips: "zone_ips d' z = zone_ips d z" for z
    unfolding zone_ips_def mem by (auto simp: d')
  have routes: "set (zone_routes d' z) = set (zone_routes d z)" for z
    unfolding set_zone_routes att ..
  have zones: "db_zones d' = db_zones d"
    unfolding db_zones_def ips routes by (simp add: d' has_zone_def fun_eq_iff)
  have "no_orphans d'" using assms(2) by (simp add: d' consistent_def ann_inv_def no_orphans_iff)
  moreover have "is_member d' z (a_node a)" if "attached_to d' a z" for a z
    using that assms(2) attached_is_member unfolding mem att consistent_def by blast
  moreover have "ann_inv pool d" using assms(2) by (simp add: consistent_def)
  moreover have "set (announcements d') \<subseteq> set (announcements d)" by (simp add: d')
  ultimately have "ann_inv pool d'" using ann_inv_shrink assms(3) by metis
  then have con: "consistent h pool lo hi d'"
    using assms(2,4-7) n by (auto simp: consistent_def d' canonical_keys_def)
  have none: "db_tunnel h d k = None"
  proof (rule ccontr)
    assume "db_tunnel h d k \<noteq> None"
    then obtain m where m: "m \<in> set (nodes d)" "parse_key h (n_wg_pubkey m) = Some k"
      using db_tunnel_iff [OF consistent_keys [OF assms(2)]] by blast
    with assms(2,5) fresh show False by (force simp: consistent_def canonical_keys_def)
  qed
  have no_anns: "{a \<in> set (announcements d'). a_node a = n_id n} = {}"
    using ok old by (auto simp: d' schema_ok_def fk_ok_def)
  have new: "node_allowed d' n = allowed_of ip []"
    unfolding node_allowed_eq no_anns by (simp add: n allowed_of_def)
  have same: "node_allowed d' m = node_allowed d m" for m
    by (rule node_allowed_cong) (simp add: d')
  have "(db_tunnel h d)(k \<mapsto> allowed_of ip []) = db_tunnel h d'"
  proof (rule tunnel_eqI [OF consistent_keys [OF con]])
    fix k' A
    have "(\<exists>m \<in> set (nodes d'). parse_key h (n_wg_pubkey m) = Some k' \<and> A = node_allowed d' m) \<longleftrightarrow>
        k = k' \<and> A = allowed_of ip [] \<or> db_tunnel h d k' = Some A"
      unfolding db_tunnel_iff [OF consistent_keys [OF assms(2)]] same
      by (simp add: d' new [unfolded same] n(3) assms(4))
    then show "((db_tunnel h d)(k \<mapsto> allowed_of ip [])) k' = Some A \<longleftrightarrow>
        (\<exists>m \<in> set (nodes d'). parse_key h (n_wg_pubkey m) = Some k' \<and> A = node_allowed d' m)"
      using none by auto
  qed
  with con zones none show ?thesis by (simp add: d')
qed

subsection \<open>A node that goes\<close>

lemma node_id_unique: "schema_ok d \<Longrightarrow> n \<in> set (nodes d) \<Longrightarrow> m \<in> set (nodes d) \<Longrightarrow> n_id n = n_id m \<Longrightarrow> n = m"
  by (rule distinct_map_eqD [of n_id "nodes d"]) (simp_all add: schema_ok_def uniq_ok_def)

lemma tunnel_without:
  assumes "keys_ok h d" and "keys_ok h d'" and "n \<in> set (nodes d)" and "parse_key h (n_wg_pubkey n) = Some k"
    and "set (nodes d') = set (nodes d) - {n}"
    and "\<And>m. m \<in> set (nodes d') \<Longrightarrow> node_allowed d' m = node_allowed d m"
  shows "(db_tunnel h d)(k := None) = db_tunnel h d'"
proof (rule tunnel_eqI [OF assms(2)])
  fix k' A
  have key: "parse_key h (n_wg_pubkey m) = Some k \<longleftrightarrow> m = n" if "m \<in> set (nodes d)" for m
    using node_key_unique [OF assms(1) that assms(3)] assms(4) by auto
  have "((db_tunnel h d)(k := None)) k' = Some A \<longleftrightarrow> k' \<noteq> k \<and>
      (\<exists>m \<in> set (nodes d). parse_key h (n_wg_pubkey m) = Some k' \<and> A = node_allowed d m)"
    using db_tunnel_iff [OF assms(1)] by simp
  also have "\<dots> \<longleftrightarrow> (\<exists>m \<in> set (nodes d). m \<noteq> n \<and> parse_key h (n_wg_pubkey m) = Some k' \<and> A = node_allowed d m)"
    using key assms(4) by (metis option.inject)
  also have "\<dots> \<longleftrightarrow> (\<exists>m \<in> set (nodes d'). parse_key h (n_wg_pubkey m) = Some k' \<and> A = node_allowed d' m)"
    using assms(5,6) by auto
  finally show "((db_tunnel h d)(k := None)) k' = Some A \<longleftrightarrow>
      (\<exists>m \<in> set (nodes d'). parse_key h (n_wg_pubkey m) = Some k' \<and> A = node_allowed d' m)" .
qed

lemma no_orphans_attached: "no_orphans d \<longleftrightarrow> (\<forall>a \<in> set (announcements d). \<exists>z. attached_to d a z)"
  unfolding no_orphans_def orphan_def attached_to_iff image_iff by blast

lemma ann_id_unique:
  "schema_ok d \<Longrightarrow> a \<in> set (announcements d) \<Longrightarrow> b \<in> set (announcements d) \<Longrightarrow> a_id a = a_id b \<Longrightarrow> a = b"
  by (rule distinct_map_eqD [of a_id "announcements d"]) (simp_all add: schema_ok_def uniq_ok_def)

text \<open>The attachments after nodes were deleted: those of the announcements of the other nodes.\<close>

lemma delete_nodes_attached:
  assumes "schema_ok d"
  shows "attached_to (delete_nodes P d) a z \<longleftrightarrow>
    attached_to d a z \<and> a_node a \<notin> n_id ` {n \<in> set (nodes d). P n}"
proof -
  let ?gone = "{b \<in> set (announcements d). a_node b \<in> n_id ` {n \<in> set (nodes d). P n}}"
  have "a_id a \<in> a_id ` ?gone \<longleftrightarrow> a \<in> ?gone" if "a \<in> set (announcements d)"
    using that ann_id_unique [OF assms] by (auto simp: image_iff)
  then show ?thesis by (auto simp: attached_to_def delete_nodes_sel)
qed

lemma delete_node_plan:
  assumes "consistent h pool lo hi d" and "n \<in> set (nodes d)" and "parse_key h (n_wg_pubkey n) = Some k"
  defines "d' \<equiv> delete_nodes (\<lambda>m. n_id m = n_id n \<and> n_user_id m = n_user_id n) d"
  shows "consistent h pool lo hi d' \<and> zones d' = zones d \<and>
    (\<forall>z. zone_ips d' z = zone_ips d z - (if is_member d z (n_id n) then {n_ip n} else {})) \<and>
    (\<forall>z. set (zone_routes d' z) = set (zone_routes d z) -
       (block_prefix \<circ> ann_synthetic) ` {a. attached_to d a z \<and> a_node a = n_id n}) \<and>
    db_tunnel h d' = (db_tunnel h d)(k := None)"
proof -
  have ok: "schema_ok d" and inv: "ann_inv pool d"
    using assms(1) consistent_schema [OF assms(1)] by (simp_all add: consistent_def)
  have gone: "{m \<in> set (nodes d). n_id m = n_id n \<and> n_user_id m = n_user_id n} = {n}"
    using assms(2) node_id_unique [OF ok] by blast
  have ids: "n_id ` {m \<in> set (nodes d). n_id m = n_id n \<and> n_user_id m = n_user_id n} = {n_id n}"
    unfolding gone by simp
  have nodes: "set (nodes d') = set (nodes d) - {n}"
    using gone unfolding d'_def delete_nodes_sel set_filter by blast
  have anns: "set (announcements d') = {a \<in> set (announcements d). a_node a \<noteq> n_id n}"
    unfolding d'_def delete_nodes_sel ids by auto
  have mem: "is_member d' z j \<longleftrightarrow> is_member d z j \<and> j \<noteq> n_id n" for z j
    unfolding d'_def is_member_iff delete_nodes_sel ids by auto
  have att: "attached_to d' a z \<longleftrightarrow> attached_to d a z \<and> \<not> a_node a = n_id n" for a z
    unfolding d'_def delete_nodes_attached [OF ok] ids by simp
  have ok': "schema_ok d'" unfolding d'_def by (rule delete_nodes_ok [OF ok])
  have "no_orphans d'"
    using inv unfolding no_orphans_attached anns att by (auto simp: ann_inv_def no_orphans_attached)
  moreover have "is_member d' z (a_node a)" if "attached_to d' a z" for a z
    using that attached_is_member [OF inv] unfolding mem att by blast
  ultimately have con: "consistent h pool lo hi d'"
    using nodes anns by (intro consistent_shrink [OF assms(1) ok']) auto
  have "zone_ips d' z = zone_ips d z - n_ip ` {m \<in> set (nodes d). is_member d z (n_id m) \<and> m = n}" for z
    by (rule ips_minus [OF ok]) (use nodes mem node_id_unique [OF ok _ assms(2)] in auto)
  moreover have "{m \<in> set (nodes d). is_member d z (n_id m) \<and> m = n} =
      (if is_member d z (n_id n) then {n} else {})" for z
    using assms(2) by auto
  ultimately have ips: "zone_ips d' z = zone_ips d z - (if is_member d z (n_id n) then {n_ip n} else {})" for z
    by simp
  have routes: "set (zone_routes d' z) = set (zone_routes d z) -
      (block_prefix \<circ> ann_synthetic) ` {a. attached_to d a z \<and> a_node a = n_id n}" for z
    by (rule routes_minus [OF ok att])
  have "node_allowed d' m = node_allowed d m" if "m \<in> set (nodes d')" for m
  proof -
    from that nodes have "n_id m \<noteq> n_id n" using node_id_unique [OF ok _ assms(2), of m] by blast
    then have "{a \<in> set (announcements d'). a_node a = n_id m} = {a \<in> set (announcements d). a_node a = n_id m}"
      unfolding anns by auto
    then show ?thesis by (rule node_allowed_cong)
  qed
  from tunnel_without [OF consistent_keys [OF assms(1)] consistent_keys [OF con] assms(2,3) nodes this]
  show ?thesis using con ips routes by (simp add: d'_def delete_nodes_sel)
qed

subsection \<open>Zones and memberships\<close>

lemma db_tunnel_frame:
  "nodes d' = nodes d \<Longrightarrow> announcements d' = announcements d \<Longrightarrow> db_tunnel h d' = db_tunnel h d"
  by (simp add: db_tunnel_def node_allowed_def [abs_def] node_routes_def)

lemma consistent_frame:
  assumes "consistent h pool lo hi d" and "schema_ok d'" and "nodes d' = nodes d"
    and "announcements d' = announcements d" and "announcement_zones d' = announcement_zones d"
    and "\<And>z n. is_member d z n \<Longrightarrow> is_member d' z n"
  shows "consistent h pool lo hi d'"
proof (rule consistent_shrink [OF assms(1,2)])
  have inv: "ann_inv pool d" using assms(1) by (simp add: consistent_def)
  then show "no_orphans d'" by (simp add: assms(4,5) ann_inv_def no_orphans_iff)
  fix a z assume "attached_to d' a z"
  then have "attached_to d a z" by (simp add: attached_to_def assms(4,5))
  then show "is_member d' z (a_node a)" using attached_is_member [OF inv] assms(6) by blast
qed (simp_all add: assms(3,4))

lemma new_zone_plan:
  assumes "CreateZone e owner name hash mx d = (Inr z, d')" and "consistent h pool lo hi d"
  shows "consistent h pool lo hi d' \<and> z_id z \<notin> z_id ` set (zones d) \<and> nodes d' = nodes d \<and>
    z_id ` set (zones d') = insert (z_id z) (z_id ` set (zones d)) \<and>
    db_zones d' = (db_zones d)(z_id z \<mapsto> ({}, {})) \<and> db_tunnel h d' = db_tunnel h d"
proof -
  have ok: "schema_ok d" by (rule consistent_schema [OF assms(2)])
  from assms(1) have z: "z_id z = zone_seq d + 1"
    and d': "d' = d\<lparr>zones := zones d @ [z], zone_seq := zone_seq d + 1\<rparr>"
    by (auto simp: CreateZone_def insertZone_def bind_res_Inr_iff insert_zone_row_def checked_insert_Inr Let_def
        split: sum.splits option.splits if_splits sql_error.splits constraint.splits)
  have "schema_ok d'" using CreateZone_ok [OF ok, of e owner name hash mx] assms(1) by simp
  then have con: "consistent h pool lo hi d'"
    by (rule consistent_frame [OF assms(2)]) (simp_all add: d' is_member_def)
  have new: "z_id z \<notin> z_id ` set (zones d)"
    using ok by (auto simp: schema_ok_def seq_ok_def z)
  have mem: "is_member d' = is_member d" by (simp add: d' is_member_def fun_eq_iff)
  have att: "attached_to d' = attached_to d" by (simp add: d' attached_to_def fun_eq_iff)
  have ips: "zone_ips d' y = zone_ips d y" for y unfolding zone_ips_def mem by (simp add: d')
  have routes: "set (zone_routes d' y) = set (zone_routes d y)" for y
    unfolding set_zone_routes att ..
  have "\<forall>m \<in> set (zone_members d). zm_zone m \<noteq> z_id z" "\<forall>x \<in> set (announcement_zones d). az_zone x \<noteq> z_id z"
    using ok new unfolding schema_ok_def fk_ok_def has_zone_def by metis+
  then have "zone_ips d (z_id z) = {}" "set (zone_routes d (z_id z)) = {}"
    by (auto simp: zone_ips_def is_member_iff set_zone_routes attached_to_iff)
  then have "db_zones d' = (db_zones d)(z_id z \<mapsto> ({}, {}))"
    unfolding db_zones_def ips routes by (auto simp: fun_eq_iff d' has_zone_def)
  moreover have "db_tunnel h d' = db_tunnel h d" by (rule db_tunnel_frame) (simp_all add: d')
  ultimately show ?thesis using con new by (simp add: d')
qed

lemma join_plan:
  assumes "Join e zid (n_id n) d = (None, d')" and "consistent h pool lo hi d" and "n \<in> set (nodes d)"
  shows "consistent h pool lo hi d' \<and> zones d' = zones d \<and> nodes d' = nodes d \<and>
    db_zones d' = on_zone (apfst (insert (n_ip n))) zid (db_zones d) \<and> db_tunnel h d' = db_tunnel h d"
proof -
  have ok: "schema_ok d" by (rule consistent_schema [OF assms(2)])
  from assms(1) have frame: "zones d' = zones d" "nodes d' = nodes d" "announcements d' = announcements d"
    "announcement_zones d' = announcement_zones d"
    by (auto simp: Join_def insert_member_def Let_def split: sum.splits if_splits)
  note mem = Join_member [OF assms(1)]
  have "schema_ok d'" using Join_ok [OF ok, of e zid "n_id n"] assms(1) by simp
  then have con: "consistent h pool lo hi d'"
    by (rule consistent_frame [OF assms(2)]) (simp_all add: frame mem)
  have ips: "zone_ips d' z = (if z = zid then insert (n_ip n) (zone_ips d z) else zone_ips d z)" for z
    using assms(3) node_id_unique [OF ok _ assms(3)] unfolding zone_ips_def mem frame by auto
  have att: "attached_to d' = attached_to d" by (simp add: frame attached_to_def fun_eq_iff)
  have routes: "set (zone_routes d' y) = set (zone_routes d y)" for y
    unfolding set_zone_routes att ..
  have "db_zones d' = on_zone (apfst (insert (n_ip n))) zid (db_zones d)"
    unfolding db_zones_def ips routes on_zone_def by (auto simp: fun_eq_iff frame has_zone_def)
  with con frame db_tunnel_frame [OF frame(2,3)] show ?thesis by simp
qed

lemma leave_plan:
  assumes "Leave e zid (n_id n) d = (None, d')" and "schema_ok d" and "n \<in> set (nodes d)"
  shows "is_member d zid (n_id n) \<and> schema_ok d' \<and> zones d' = zones d \<and> nodes d' = nodes d \<and>
    announcements d' = announcements d \<and> announcement_zones d' = announcement_zones d \<and>
    db_zones d' = on_zone (apfst (\<lambda>M. M - {n_ip n})) zid (db_zones d)"
proof -
  from assms(1) have mbr: "is_member d zid (n_id n)" and frame: "zones d' = zones d" "nodes d' = nodes d"
    "announcements d' = announcements d" "announcement_zones d' = announcement_zones d"
    by (auto simp: Leave_def split: if_splits)
  note mem = Leave_member [OF assms(1)]
  have ok': "schema_ok d'" using Leave_ok [OF assms(2), of e zid "n_id n"] assms(1) by simp
  have "zone_ips d' z = zone_ips d z -
      n_ip ` {m \<in> set (nodes d). is_member d z (n_id m) \<and> (z, n_id m) = (zid, n_id n)}" for z
    by (rule ips_minus [OF assms(2)]) (auto simp: frame mem)
  moreover have "{m \<in> set (nodes d). is_member d z (n_id m) \<and> (z, n_id m) = (zid, n_id n)} =
      (if z = zid then {n} else {})" for z
    using assms(3) mbr node_id_unique [OF assms(2) _ assms(3)] by auto
  ultimately have ips: "zone_ips d' z = (if z = zid then zone_ips d z - {n_ip n} else zone_ips d z)" for z
    by simp
  have att: "attached_to d' = attached_to d" by (simp add: frame attached_to_def fun_eq_iff)
  have routes: "set (zone_routes d' y) = set (zone_routes d y)" for y
    unfolding set_zone_routes att ..
  have "db_zones d' = on_zone (apfst (\<lambda>M. M - {n_ip n})) zid (db_zones d)"
    unfolding db_zones_def ips routes on_zone_def by (auto simp: fun_eq_iff frame has_zone_def)
  with mbr ok' frame show ?thesis by simp
qed

subsection \<open>Attachments that go\<close>

lemma drop_plan:
  assumes "schema_ok d"
  shows "attached_to (drop_attachments P d) a z \<longleftrightarrow>
      attached_to d a z \<and> \<not> P \<lparr>az_ann = a_id a, az_zone = z\<rparr>"
    and "zone_ips (drop_attachments P d) z = zone_ips d z"
    and "has_zone (drop_attachments P d) = has_zone d"
    and "set (zone_routes (drop_attachments P d) z) = set (zone_routes d z) -
       (block_prefix \<circ> ann_synthetic) ` {a. attached_to d a z \<and> P \<lparr>az_ann = a_id a, az_zone = z\<rparr>}"
proof -
  show att: "attached_to (drop_attachments P d) a z \<longleftrightarrow>
      attached_to d a z \<and> \<not> P \<lparr>az_ann = a_id a, az_zone = z\<rparr>" for a
    by (force simp: attached_to_def frame_simps image_iff)
  show "zone_ips (drop_attachments P d) z = zone_ips d z"
    by (simp add: zone_ips_def frame_simps)
  show "has_zone (drop_attachments P d) = has_zone d"
    by (simp add: has_zone_def frame_simps fun_eq_iff)
  show "set (zone_routes (drop_attachments P d) z) = set (zone_routes d z) -
       (block_prefix \<circ> ann_synthetic) ` {a. attached_to d a z \<and> P \<lparr>az_ann = a_id a, az_zone = z\<rparr>}"
    by (rule routes_minus [OF assms att])
qed

lemma drop_consistent:
  assumes "schema_ok d" and "ann_plan pool d" and "canonical_keys h d"
    and "\<forall>n \<in> set (nodes d). lo \<le> n_ip n \<and> n_ip n \<le> hi"
    and "\<And>a z. attached_to d a z \<Longrightarrow> \<not> P \<lparr>az_ann = a_id a, az_zone = z\<rparr> \<Longrightarrow> is_member d z (a_node a)"
  shows "consistent h pool lo hi (drop_attachments P d)"
proof -
  have "is_member d z (a_node a)" if "attached_to (drop_attachments P d) a z" for a z
    using that assms(5) unfolding drop_plan(1) [OF assms(1)] by blast
  then have "attached_members (drop_attachments P d)"
    unfolding attached_members_def is_member_drop by (auto simp: attached_to_iff)
  then show ?thesis
    using assms(1-4) by (simp add: consistent_def ann_inv_def drop_attachments_ok ann_plan_drop
        canonical_keys_def frame_simps)
qed

lemma delete_zone_plan:
  assumes "consistent h pool lo hi d"
    and d'_def: "d' = delete_zones (\<lambda>z. z_id z = zid) (drop_attachments (\<lambda>x. az_zone x = zid) d)"
  shows "consistent h pool lo hi d' \<and> nodes d' = nodes d \<and>
    z_id ` set (zones d') = z_id ` set (zones d) - {zid} \<and>
    announcements d' = announcements (drop_attachments (\<lambda>x. az_zone x = zid) d) \<and>
    db_zones d' = (db_zones d)(zid := None)"
proof -
  let ?d1 = "drop_attachments (\<lambda>x. az_zone x = zid) d"
  have ok: "schema_ok d" and inv: "ann_inv pool d"
    using assms(1) consistent_schema [OF assms(1)] by (simp_all add: consistent_def)
  have gone: "z_id ` {z \<in> set (zones ?d1). z_id z = zid} = {zid} \<inter> z_id ` set (zones d)"
    by (auto simp: frame_simps)
  have az: "announcement_zones d' = announcement_zones ?d1"
    unfolding d'_def delete_zones_sel gone drop_attachments_sel filter_filter
    by (intro filter_cong refl) blast
  have frame: "nodes d' = nodes d" "announcements d' = announcements ?d1"
    "z_id ` set (zones d') = z_id ` set (zones d) - {zid}"
    by (auto simp: d'_def frame_simps)
  have mem: "is_member d' z j \<longleftrightarrow> is_member d z j \<and> z \<noteq> zid" for z j
  proof -
    have "has_zone d z" if "is_member d z j"
      using ok that by (auto simp: is_member_iff schema_ok_def fk_ok_def)
    moreover have "is_member d' z j \<longleftrightarrow> is_member d z j \<and> z \<notin> {zid} \<inter> z_id ` set (zones d)"
      unfolding d'_def is_member_iff delete_zones_sel gone drop_attachments_sel set_filter by blast
    ultimately show ?thesis unfolding has_zone_def by blast
  qed
  have att: "attached_to d' a z \<longleftrightarrow> attached_to d a z \<and> z \<noteq> zid" for a z
    using drop_plan(1) [OF ok, of "\<lambda>x. az_zone x = zid" a z] unfolding attached_to_def az frame by simp
  have ok': "schema_ok d'" unfolding d'_def by (intro delete_zones_ok drop_attachments_ok ok)
  have con: "consistent h pool lo hi d'"
  proof (rule consistent_shrink [OF assms(1) ok'])
    show "no_orphans d'"
      using drop_no_orphans [of "\<lambda>x. az_zone x = zid" d] unfolding no_orphans_iff az frame .
    show "is_member d' z (a_node a)" if "attached_to d' a z" for a z
      using that attached_is_member [OF inv] unfolding att mem by blast
  qed (auto simp: frame frame_simps)
  have "zone_ips d' z = zone_ips d z \<and> set (zone_routes d' z) = set (zone_routes d z)" if "z \<noteq> zid" for z
    using that unfolding zone_ips_def set_zone_routes mem att frame by simp
  moreover have "has_zone d' z \<longleftrightarrow> has_zone d z \<and> z \<noteq> zid" for z
    unfolding has_zone_def frame by blast
  ultimately have "db_zones d' = (db_zones d)(zid := None)"
    unfolding db_zones_def by (auto simp: fun_eq_iff)
  with con frame show ?thesis by simp
qed

subsection \<open>A new attachment\<close>

lemma announcedD:
  "announced e uid nid real zid limit pool d ann d' \<Longrightarrow> \<exists>b. a_node b = nid \<and> ann = ann_of_row b \<and>
     d' = d\<lparr>announcements := announcements d @ [b], ann_seq := ann_seq d + 1,
            announcement_zones := announcement_zones d @ [\<lparr>az_ann = a_id b, az_zone = zid\<rparr>]\<rparr>"
  unfolding announced_def
proof (elim exE conjE)
  fix a synth assume a: "a = \<lparr>a_id = ann_seq d + 1, a_node = nid, a_real_base = Base real,
      a_prefix_len = PrefixLen real, a_synthetic_base = Base synth, a_created_at = now e\<rparr>"
    and res: "ann = ann_of_row a"
      "d' = d\<lparr>announcements := announcements d @ [a], ann_seq := ann_seq d + 1,
         announcement_zones := announcement_zones d @ [\<lparr>az_ann = a_id a, az_zone = zid\<rparr>]\<rparr>"
  show ?thesis by (rule exI [of _ a], intro conjI, simp only: a ann_row.select_convs) (rule res)+
qed

lemma announce_plan:
  assumes "CreateAnnouncement e uid (n_id n) real zid limit (P4 pool) d = (Inr (ann, fresh), d')"
    and "consistent h pool lo hi d" and "PBits pool \<le> 32" and "n \<in> set (nodes d)"
    and "parse_key h (n_wg_pubkey n) = Some k"
  shows "consistent h pool lo hi d' \<and> zones d' = zones d \<and> nodes d' = nodes d \<and>
    (\<not> fresh \<longrightarrow> d' = d) \<and>
    (fresh \<longrightarrow> has_zone d zid \<and>
       db_zones d' = on_zone (apsnd (insert (block_prefix (Synthetic ann)))) zid (db_zones d)) \<and>
    db_tunnel h d' = (db_tunnel h d)(k \<mapsto> node_allowed d' n)"
proof -
  have ok: "schema_ok d" and inv: "ann_inv pool d"
    using assms(2) consistent_schema [OF assms(2)] by (simp_all add: consistent_def)
  from CreateAnnouncement_Inr [OF assms(1) ok] have mem: "is_member d zid (n_id n)" and ok': "schema_ok d'"
    and res: "attached_known (n_id n) real zid d ann fresh d' \<or>
      fresh \<and> announced e uid (n_id n) real zid limit (P4 pool) d ann d'" by blast+
  have inv': "ann_inv pool d'"
    using res attached_known_inv [OF _ mem inv ok'] announced_inv [OF _ mem inv ok' assms(3)] by blast
  have zone: "has_zone d zid" using ok mem by (auto simp: is_member_iff schema_ok_def fk_ok_def)
  obtain a where a: "block_prefix (Synthetic ann) = block_prefix (ann_synthetic a)" "a_node a = n_id n"
    and frame: "zones d' = zones d" "nodes d' = nodes d" "zone_members d' = zone_members d"
    and anns: "set (announcements d') = insert a (set (announcements d))"
    and az: "fresh \<longrightarrow> set (announcement_zones d') =
        insert \<lparr>az_ann = a_id a, az_zone = zid\<rparr> (set (announcement_zones d))"
    and stale: "\<not> fresh \<longrightarrow> d' = d"
  proof -
    have syn: "Synthetic (ann_of_row b) = ann_synthetic b" for b
      by (simp add: ann_of_row_def announcementFromRow_def ann_synthetic_def ann_real_def)
    from res show thesis
    proof
      assume "attached_known (n_id n) real zid d ann fresh d'"
      then obtain b where "b \<in> set (announcements d)" "a_node b = n_id n" "ann = ann_of_row b"
        "d' = (if fresh then d\<lparr>announcement_zones :=
                announcement_zones d @ [\<lparr>az_ann = a_id b, az_zone = zid\<rparr>]\<rparr> else d)"
        unfolding attached_known_def by blast
      then show thesis by (intro that [of b]) (auto simp: syn)
    next
      assume "fresh \<and> announced e uid (n_id n) real zid limit (P4 pool) d ann d'"
      then obtain b where "fresh" "a_node b = n_id n" "ann = ann_of_row b"
        "d' = d\<lparr>announcements := announcements d @ [b], ann_seq := ann_seq d + 1,
               announcement_zones := announcement_zones d @ [\<lparr>az_ann = a_id b, az_zone = zid\<rparr>]\<rparr>"
         using announcedD by blast
      then show thesis by (intro that [of b]) (auto simp: syn)
    qed
  qed
  have con: "consistent h pool lo hi d'"
    using assms(2) inv' by (simp add: consistent_def canonical_keys_def frame)
  have zones: "db_zones d' = on_zone (apsnd (insert (block_prefix (Synthetic ann)))) zid (db_zones d)" if fresh
  proof -
    have new: "b = a" if "b \<in> set (announcements d')" "a_id b = a_id a" for b
      using that ann_id_unique [OF ok'] anns by blast
    have "attached_to d' b z \<longleftrightarrow> attached_to d b z \<or> (b = a \<and> z = zid)" for b z
    proof -
      have "\<lparr>az_ann = a_id b, az_zone = z\<rparr> \<in> set (announcement_zones d) \<Longrightarrow> has_ann d (a_id b)"
        using ok by (force simp: schema_ok_def fk_ok_def)
      then have "attached_to d b z" if "b \<in> set (announcements d')"
        "\<lparr>az_ann = a_id b, az_zone = z\<rparr> \<in> set (announcement_zones d)"
        using that ann_id_unique [OF ok'] anns unfolding attached_to_def has_ann_def
        by (metis image_iff insertCI)
      then show ?thesis
        using az \<open>fresh\<close> anns new unfolding attached_to_def by auto
    qed
    then have "{b. attached_to d' b z} = (if z = zid then insert a {b. attached_to d b z} else {b. attached_to d b z})" for z
      by auto
    then have "set (zone_routes d' z) = (if z = zid then insert (block_prefix (Synthetic ann)) (set (zone_routes d z))
        else set (zone_routes d z))" for z
      unfolding set_zone_routes a(1) by simp
    moreover have "zone_ips d' z = zone_ips d z" for z
      by (simp add: zone_ips_def is_member_def frame)
    ultimately show ?thesis
      unfolding db_zones_def on_zone_def by (auto simp: fun_eq_iff has_zone_def frame)
  qed
  have "(db_tunnel h d)(k \<mapsto> node_allowed d' n) = db_tunnel h d'"
  proof (rule tunnel_eqI [OF consistent_keys [OF con]])
    fix k' A
    have key: "parse_key h (n_wg_pubkey m) = Some k \<longleftrightarrow> m = n" if "m \<in> set (nodes d)" for m
      using node_key_unique [OF consistent_keys [OF assms(2)] that assms(4)] assms(5) by auto
    have same: "node_allowed d' m = node_allowed d m" if "m \<in> set (nodes d)" "m \<noteq> n" for m
    proof -
      have "n_id m \<noteq> n_id n" using that node_id_unique [OF ok _ assms(4)] by blast
      then have "{b \<in> set (announcements d'). a_node b = n_id m} = {b \<in> set (announcements d). a_node b = n_id m}"
        unfolding anns using a(2) by auto
      then show ?thesis by (rule node_allowed_cong)
    qed
    have "(\<exists>m \<in> set (nodes d'). parse_key h (n_wg_pubkey m) = Some k' \<and> A = node_allowed d' m) \<longleftrightarrow>
        (if k' = k then A = node_allowed d' n
         else \<exists>m \<in> set (nodes d). parse_key h (n_wg_pubkey m) = Some k' \<and> A = node_allowed d m)"
      unfolding frame using key same assms(4,5) by (auto split: if_splits) (metis option.inject)+
    then show "((db_tunnel h d)(k \<mapsto> node_allowed d' n)) k' = Some A \<longleftrightarrow>
        (\<exists>m \<in> set (nodes d'). parse_key h (n_wg_pubkey m) = Some k' \<and> A = node_allowed d' m)"
      using db_tunnel_iff [OF consistent_keys [OF assms(2)], of k' A] by auto
  qed
  with con zones zone stale frame show ?thesis by simp
qed

end
