(* ===== verification/Api_Cascade.thy ===== *)
theory Api_Cascade
  imports Api_Plan
begin

text \<open>
  The lists with which the deleting handlers update the dataplane: what the store returns names every
  stale element once, and recomputing peers one by one brings the device to the prefixes the database
  asks for.
\<close>

section \<open>Lemmas\<close>

subsection \<open>Joins without duplicates\<close>

lemma distinct_join:
  "\<lbrakk>distinct xs; \<forall>x \<in> set xs. distinct (f x);
    \<forall>x \<in> set xs. \<forall>y \<in> set xs. \<forall>c. c \<in> set (f x) \<longrightarrow> c \<in> set (f y) \<longrightarrow> x = y\<rbrakk> \<Longrightarrow>
   distinct (concat (map f xs))"
  by (induction xs) fastforce+

lemma distinct_keyed:
  assumes "distinct (map key ys)" and "\<And>y. y \<in> set ys \<Longrightarrow> key y = c \<Longrightarrow> distinct (f y)"
  shows "distinct (concat (map (\<lambda>y. if key y = c then f y else []) ys))"
  using assms by (intro distinct_join) (auto simp: distinct_map dest: inj_onD)

lemma schema_distinct:
  assumes "schema_ok d"
  shows "distinct (nodes d)" "distinct (zones d)" "distinct (zone_members d)"
    "distinct (announcements d)" "distinct (announcement_zones d)"
  using assms by (simp_all add: schema_ok_def uniq_ok_def distinct_map)

lemma node_ip_unique:
  "schema_ok d \<Longrightarrow> n \<in> set (nodes d) \<Longrightarrow> m \<in> set (nodes d) \<Longrightarrow> n_ip n = n_ip m \<Longrightarrow> n = m"
  by (rule distinct_map_eqD [of n_ip "nodes d"]) (simp_all add: schema_ok_def uniq_ok_def)

lemma zone_id_unique:
  "schema_ok d \<Longrightarrow> y \<in> set (zones d) \<Longrightarrow> z \<in> set (zones d) \<Longrightarrow> z_id y = z_id z \<Longrightarrow> y = z"
  by (rule distinct_map_eqD [of z_id "zones d"]) (simp_all add: schema_ok_def uniq_ok_def)

lemma member_unique:
  "schema_ok d \<Longrightarrow> m \<in> set (zone_members d) \<Longrightarrow> m' \<in> set (zone_members d) \<Longrightarrow>
     zm_zone m = zm_zone m' \<Longrightarrow> zm_node m = zm_node m' \<Longrightarrow> m = m'"
  by (rule distinct_map_eqD [of "\<lambda>m. (zm_zone m, zm_node m)" "zone_members d"])
    (simp_all add: schema_ok_def uniq_ok_def)

lemma az_unique: "az_ann x = az_ann y \<Longrightarrow> az_zone x = az_zone y \<Longrightarrow> x = (y :: az_row)"
  by simp

lemma distinct_zones_for_node:
  "schema_ok d \<Longrightarrow> distinct (map zm_zone (filter (\<lambda>m. zm_node m = nid) (zone_members d)))"
  using schema_distinct(3) member_unique by (fastforce simp: distinct_map inj_on_def)

lemma schema_keys:
  assumes "schema_ok d"
  shows "distinct (map n_id (nodes d))" "distinct (map z_id (zones d))" "distinct (map a_id (announcements d))"
  using assms by (simp_all add: schema_ok_def uniq_ok_def)

lemma distinct_gather_memberships:
  assumes "schema_ok d"
  shows "distinct (gather_memberships i d)"
  unfolding gather_memberships_def
proof (rule distinct_join; (intro ballI allI impI)?)
  fix m m' c assume m: "m \<in> set (zone_members d)" "m' \<in> set (zone_members d)"
    and c: "c \<in> set [\<lparr>sm_ip = n_ip n, sm_zone = zm_zone m\<rparr>. n \<leftarrow> nodes d, n_id n = zm_node m,
        z \<leftarrow> zones d, z_id z = zm_zone m, n_user_id n = i \<and> z_owner z \<noteq> i]"
      "c \<in> set [\<lparr>sm_ip = n_ip n, sm_zone = zm_zone m'\<rparr>. n \<leftarrow> nodes d, n_id n = zm_node m',
        z \<leftarrow> zones d, z_id z = zm_zone m', n_user_id n = i \<and> z_owner z \<noteq> i]"
  from c(1) obtain n where n: "n \<in> set (nodes d)" "n_id n = zm_node m" "c = \<lparr>sm_ip = n_ip n, sm_zone = zm_zone m\<rparr>"
    by (auto split: if_splits)
  from c(2) obtain n' where n': "n' \<in> set (nodes d)" "n_id n' = zm_node m'"
    "c = \<lparr>sm_ip = n_ip n', sm_zone = zm_zone m'\<rparr>"
    by (auto split: if_splits)
  from n n' node_ip_unique [OF assms n(1) n'(1)] have "n = n'" "zm_zone m = zm_zone m'" by simp_all
  with n(2) n'(2) show "m = m'" by (intro member_unique [OF assms m]) simp_all
next
  show "distinct [\<lparr>sm_ip = n_ip n, sm_zone = zm_zone m\<rparr>. n \<leftarrow> nodes d, n_id n = zm_node m,
        z \<leftarrow> zones d, z_id z = zm_zone m, n_user_id n = i \<and> z_owner z \<noteq> i]" for m
    by (intro distinct_keyed schema_keys [OF assms]) simp
qed (rule schema_distinct [OF assms])

lemma distinct_gather_routes:
  assumes "schema_ok d"
  shows "distinct (gather_routes i d)"
  unfolding gather_routes_def
proof (rule distinct_join; (intro ballI allI impI)?)
  fix x y c assume xy: "x \<in> set (announcement_zones d)" "y \<in> set (announcement_zones d)"
    and c: "c \<in> set [\<lparr>sr_zone = az_zone x, sr_synthetic = block_prefix (ann_synthetic a)\<rparr>.
        a \<leftarrow> announcements d, a_id a = az_ann x, n \<leftarrow> nodes d, n_id n = a_node a,
        z \<leftarrow> zones d, z_id z = az_zone x, n_user_id n = i \<and> z_owner z \<noteq> i]"
      "c \<in> set [\<lparr>sr_zone = az_zone y, sr_synthetic = block_prefix (ann_synthetic a)\<rparr>.
        a \<leftarrow> announcements d, a_id a = az_ann y, n \<leftarrow> nodes d, n_id n = a_node a,
        z \<leftarrow> zones d, z_id z = az_zone y, n_user_id n = i \<and> z_owner z \<noteq> i]"
  from c(1) obtain a where a: "a \<in> set (announcements d)" "a_id a = az_ann x"
    "c = \<lparr>sr_zone = az_zone x, sr_synthetic = block_prefix (ann_synthetic a)\<rparr>"
    by (auto split: if_splits)
  from c(2) obtain b where b: "b \<in> set (announcements d)" "a_id b = az_ann y"
    "c = \<lparr>sr_zone = az_zone y, sr_synthetic = block_prefix (ann_synthetic b)\<rparr>"
    by (auto split: if_splits)
  from a b synthetic_inj [OF assms a(1) b(1)] show "x = y" by simp
next
  show "distinct [\<lparr>sr_zone = az_zone x, sr_synthetic = block_prefix (ann_synthetic a)\<rparr>.
        a \<leftarrow> announcements d, a_id a = az_ann x, n \<leftarrow> nodes d, n_id n = a_node a,
        z \<leftarrow> zones d, z_id z = az_zone x, n_user_id n = i \<and> z_owner z \<noteq> i]" for x
    by (intro distinct_keyed schema_keys [OF assms]) simp
qed (rule schema_distinct [OF assms])

subsection \<open>Recomputing peers\<close>

text \<open>A tunnel map with the peers of another and at least their prefixes.\<close>

definition above :: "tunnel_map \<Rightarrow> tunnel_map \<Rightarrow> bool" where
  "above T U = (dom T = dom U \<and> (\<forall>k A B. T k = Some B \<longrightarrow> U k = Some A \<longrightarrow> A \<subseteq> B))"

lemma above_upd: "above T U \<Longrightarrow> above (T(k := U k)) U"
  by (auto simp: above_def dom_def split: if_splits)

lemma above_same:
  assumes "above T U" and "\<And>k A. k \<notin> K \<Longrightarrow> U k = Some A \<Longrightarrow> T k = Some A"
  shows "(\<lambda>k. if k \<in> K then U k else T k) = U"
proof
  fix k
  have "T k = None \<longleftrightarrow> U k = None" using assms(1) unfolding above_def by (metis domIff)
  with assms(2) [of k] show "(if k \<in> K then U k else T k) = U k" by (cases "U k") auto
qed

lemma db_tunnel_node:
  assumes "keys_ok h d" and "n \<in> set (nodes d)" and "parse_key h (n_wg_pubkey n) = Some k"
  shows "db_tunnel h d k = Some (node_allowed d n)"
  using db_tunnel_iff [OF assms(1)] assms(2,3) by blast

lemma recompute_node_dp:
  assumes "faultless sv vn vw" and "quiet e" and "dp sv vn vw W Z D T" and "w_db W = d"
    and "keys_ok (sv_host sv) d" and "above T (db_tunnel (sv_host sv) d)"
    and "n \<in> set (nodes d)" and "parse_key (sv_host sv) (n_wg_pubkey n) = Some k"
  shows "dp sv vn vw (recompute_peer sv e (n_id n) (n_wg_pubkey n) (n_ip n) W) Z D
    (T(k := db_tunnel (sv_host sv) d k))"
proof -
  note U = db_tunnel_node [OF assms(5,7,8)]
  with assms(6) obtain B where "T k = Some B" "node_allowed d n \<subseteq> B"
    unfolding above_def by (metis domD domI)
  with shrink_dp [OF assms(1,3,8), of B "n_ip n" "n_id n" e] assms(2,4) U show ?thesis
    by (simp add: node_allowed_def)
qed

text \<open>A loop over nodes of the database, given by id, key and address.\<close>

definition names_nodes :: "db \<Rightarrow> recompute_node list \<Rightarrow> bool" where
  "names_nodes d rns = (\<forall>r \<in> set rns. \<exists>n \<in> set (nodes d).
     r = \<lparr>rn_id = n_id n, rn_pubkey = n_wg_pubkey n, rn_ip = n_ip n\<rparr>)"

abbreviation recompute :: "('k, 'w) server \<Rightarrow> env \<Rightarrow> recompute_node \<Rightarrow> ('k, 'w) world \<Rightarrow> ('k, 'w) world" where
  "recompute sv e \<equiv> \<lambda>r. recompute_peer sv e (rn_id r) (rn_pubkey r) (rn_ip r)"

lemma recomputes_dp:
  assumes "faultless sv vn vw" and "quiet e" and "keys_ok (sv_host sv) d"
  shows "\<lbrakk>dp sv vn vw W Z D T; w_db W = d; above T (db_tunnel (sv_host sv) d); names_nodes d rns\<rbrakk> \<Longrightarrow>
    w_db (fold (recompute sv e) rns W) = d \<and>
    dp sv vn vw (fold (recompute sv e) rns W) Z D
      (\<lambda>k. if k \<in> {k. \<exists>r \<in> set rns. parse_key (sv_host sv) (rn_pubkey r) = Some k}
           then db_tunnel (sv_host sv) d k else T k)"
proof (induction rns arbitrary: W T)
  case (Cons r rns)
  let ?h = "sv_host sv"
  from Cons.prems(4) obtain n where n: "n \<in> set (nodes d)"
    "r = \<lparr>rn_id = n_id n, rn_pubkey = n_wg_pubkey n, rn_ip = n_ip n\<rparr>" "names_nodes d rns"
    by (auto simp: names_nodes_def)
  from n(1) assms(3) obtain k where k: "parse_key ?h (n_wg_pubkey n) = Some k"
    by (auto simp: keys_ok_def)
  have rec: "recompute sv e r W = recompute_peer sv e (n_id n) (n_wg_pubkey n) (n_ip n) W"
    by (simp add: n(2))
  have db: "w_db (recompute sv e r W) = d" using Cons.prems(2) by (simp add: frame_simps)
  have step: "dp sv vn vw (recompute sv e r W) Z D (T(k := db_tunnel ?h d k))"
    unfolding rec by (rule recompute_node_dp [OF assms(1,2) Cons.prems(1,2) assms(3) Cons.prems(3) n(1) k])
  note IH = Cons.IH [OF step db above_upd [OF Cons.prems(3)] n(3)]
  have "(\<lambda>k'. if k' \<in> {k. \<exists>r \<in> set rns. parse_key ?h (rn_pubkey r) = Some k}
           then db_tunnel ?h d k' else (T(k := db_tunnel ?h d k)) k') =
      (\<lambda>k'. if k' \<in> {k. \<exists>r \<in> set (r # rns). parse_key ?h (rn_pubkey r) = Some k}
           then db_tunnel ?h d k' else T k')"
    using k by (auto simp: fun_eq_iff n(2))
  with IH show ?case by simp
qed simp

text \<open>After it the device carries what the database asks for, if the other peers lost nothing.\<close>

lemma recomputes_settle:
  assumes "faultless sv vn vw" and "quiet e" and "keys_ok (sv_host sv) d"
    and "dp sv vn vw W Z D T" and "w_db W = d" and "above T (db_tunnel (sv_host sv) d)"
    and "names_nodes d rns"
    and "\<And>n k. \<lbrakk>n \<in> set (nodes d); parse_key (sv_host sv) (n_wg_pubkey n) = Some k;
        n_id n \<notin> rn_id ` set rns\<rbrakk> \<Longrightarrow> T k = Some (node_allowed d n)"
    and "schema_ok d"
  shows "dp sv vn vw (fold (recompute sv e) rns W) Z D (db_tunnel (sv_host sv) d)"
proof -
  let ?h = "sv_host sv" and ?K = "{k. \<exists>r \<in> set rns. parse_key (sv_host sv) (rn_pubkey r) = Some k}"
  have "T k = Some A" if "k \<notin> ?K" "db_tunnel ?h d k = Some A" for k A
  proof -
    from that(2) obtain n where n: "n \<in> set (nodes d)" "parse_key ?h (n_wg_pubkey n) = Some k"
      "A = node_allowed d n" using db_tunnel_iff [OF assms(3)] by blast
    have "n_id n \<notin> rn_id ` set rns"
    proof
      assume "n_id n \<in> rn_id ` set rns"
      then obtain r where r: "r \<in> set rns" "n_id n = rn_id r" by blast
      with assms(7) obtain m where m: "m \<in> set (nodes d)"
        "r = \<lparr>rn_id = n_id m, rn_pubkey = n_wg_pubkey m, rn_ip = n_ip m\<rparr>"
        unfolding names_nodes_def by blast
      have "n_id m = n_id n" unfolding r(2) m(2) by simp
      from node_id_unique [OF assms(9) m(1) n(1) this] have "m = n" .
      with r(1) m(2) n(2) that(1) show False by auto
    qed
    with assms(8) n show ?thesis by blast
  qed
  then have "(\<lambda>k. if k \<in> ?K then db_tunnel ?h d k else T k) = db_tunnel ?h d"
    by (rule above_same [OF assms(6)])
  with recomputes_dp [OF assms(1-3,4-7)] show ?thesis by simp
qed

subsection \<open>Deleting a user\<close>

lemma collect_orphans_entries:
  "r \<in> set (snd (collect_orphans rows seen (ids, rns))) \<Longrightarrow> r \<in> set rns \<or>
     (\<exists>(a, n) \<in> set rows. r = \<lparr>rn_id = a_node a, rn_pubkey = n_wg_pubkey n, rn_ip = n_ip n\<rparr>)"
  by (induction rows seen "(ids, rns)" arbitrary: ids rns rule: collect_orphans.induct)
    (auto split: if_splits)

lemma delete_announcements_attached:
  assumes "schema_ok d"
  shows "attached_to (delete_announcements P d) a z \<longleftrightarrow> attached_to d a z \<and> \<not> P a"
proof -
  have "a_id a \<in> a_id ` {b \<in> set (announcements d). P b} \<longleftrightarrow> P a" if "a \<in> set (announcements d)"
    using that ann_id_unique [OF assms that] by (auto simp: image_iff)
  then show ?thesis by (auto simp: attached_to_def delete_announcements_sel)
qed

lemma delete_user_attached:
  assumes "schema_ok d"
  shows "attached_to (delete_user i d) a z \<longleftrightarrow> attached_to d a z \<and>
    a_node a \<notin> n_id ` {n \<in> set (nodes d). n_user_id n = i} \<and>
    z \<notin> z_id ` {z \<in> set (zones d). z_owner z = i}"
  using delete_nodes_attached [OF assms, of "\<lambda>n. n_user_id n = i" a z]
  by (auto simp: attached_to_def delete_user_sel delete_zones_sel delete_nodes_sel)

text \<open>The rows of a user's nodes in the zones of others, as the result of the store lists them.\<close>

lemma set_gather_memberships:
  "(z, a) \<in> (\<lambda>m. (sm_zone m, sm_ip m)) ` set (gather_memberships i d) \<longleftrightarrow>
     (\<exists>n \<in> set (nodes d). n_user_id n = i \<and> n_ip n = a \<and> is_member d z (n_id n) \<and>
        (\<exists>y \<in> set (zones d). z_id y = z \<and> z_owner y \<noteq> i))"
  unfolding gather_memberships_def is_member_iff by (force split: if_splits)

lemma set_gather_routes:
  "(z, q) \<in> (\<lambda>x. (sr_zone x, sr_synthetic x)) ` set (gather_routes i d) \<longleftrightarrow>
     (\<exists>a. attached_to d a z \<and> q = block_prefix (ann_synthetic a) \<and>
        a_node a \<in> n_id ` {n \<in> set (nodes d). n_user_id n = i} \<and>
        (\<exists>y \<in> set (zones d). z_id y = z \<and> z_owner y \<noteq> i))"
  unfolding gather_routes_def attached_to_iff by (force split: if_splits)

lemma DeleteCascade_result:
  assumes "DeleteCascade e i d = (Inr r, d')"
  shows "NodePubKeys r = map n_wg_pubkey (filter (\<lambda>n. n_user_id n = i) (nodes d)) \<and>
    SurvivingMemberships r = gather_memberships i d \<and>
    OwnedZoneIDs r = map z_id (filter (\<lambda>z. z_owner z = i) (zones d)) \<and>
    SurvivingZoneRoutes r = gather_routes i d \<and>
    RouteRecomputeNodes r = snd (collect_orphans (orphan_rows (delete_user i d)) {} ([], []))"
  using assms by (auto simp: DeleteCascade_def Let_def split: if_splits option.splits sum.splits prod.splits)

lemma recompute_names:
  "names_nodes d (snd (collect_orphans (orphan_rows d) {} ([], [])))"
  unfolding names_nodes_def by (auto simp: set_orphan_rows dest!: collect_orphans_entries) metis

lemma user_plan_db:
  assumes "DeleteCascade e i d = (Inr r, d')" and "consistent h pool lo hi d"
  shows "consistent h pool lo hi d' \<and>
    (\<forall>a z. attached_to d' a z \<longleftrightarrow> attached_to d a z \<and>
       a_node a \<notin> n_id ` {n \<in> set (nodes d). n_user_id n = i} \<and>
       z \<notin> z_id ` {z \<in> set (zones d). z_owner z = i}) \<and>
    (\<forall>z j. is_member d' z j \<longleftrightarrow> is_member d z j \<and>
       j \<notin> n_id ` {n \<in> set (nodes d). n_user_id n = i} \<and>
       z \<notin> z_id ` {z \<in> set (zones d). z_owner z = i}) \<and>
    nodes d' = filter (\<lambda>n. n_user_id n \<noteq> i) (nodes d) \<and>
    zones d' = filter (\<lambda>z. z_owner z \<noteq> i) (zones d) \<and>
    set (announcements d') \<subseteq> set (announcements d)"
proof -
  let ?d1 = "delete_user i d"
  have ok: "schema_ok d" and inv: "ann_inv pool d"
    using assms(2) consistent_schema [OF assms(2)] by (simp_all add: consistent_def)
  have ok1: "schema_ok ?d1" by (rule delete_user_ok [OF ok])
  from DeleteCascade_success [OF assms(1) ok] have
    d': "d' = delete_announcements (\<lambda>a. a_id a \<in> orphan_ids ?d1) ?d1" by blast
  have ok': "schema_ok d'" unfolding d' by (intro delete_announcements_ok ok1)
  have keep: "a_id a \<notin> orphan_ids ?d1" if "attached_to ?d1 a z" for a z
  proof
    assume "a_id a \<in> orphan_ids ?d1"
    then obtain b where b: "b \<in> set (announcements ?d1)" "orphan ?d1 b" "a_id b = a_id a"
      by (auto simp: orphan_ids_def)
    with that show False by (auto simp: orphan_def attached_to_iff)
  qed
  then have att: "attached_to d' a z \<longleftrightarrow> attached_to d a z \<and>
       a_node a \<notin> n_id ` {n \<in> set (nodes d). n_user_id n = i} \<and>
       z \<notin> z_id ` {z \<in> set (zones d). z_owner z = i}" for a z
    unfolding d' delete_announcements_attached [OF ok1] delete_user_attached [OF ok, symmetric] by blast
  have mem: "is_member d' z j \<longleftrightarrow> is_member d z j \<and>
       j \<notin> n_id ` {n \<in> set (nodes d). n_user_id n = i} \<and>
       z \<notin> z_id ` {z \<in> set (zones d). z_owner z = i}" for z j
    unfolding d' is_member_iff delete_announcements_sel delete_user_sel delete_zones_sel delete_nodes_sel
      set_filter by blast
  have sub: "set (announcements d') \<subseteq> set (announcements d)"
    unfolding d' delete_announcements_sel delete_user_sel delete_nodes_sel by auto
  have frame: "nodes d' = filter (\<lambda>n. n_user_id n \<noteq> i) (nodes d)"
    "zones d' = filter (\<lambda>z. z_owner z \<noteq> i) (zones d)"
    by (simp_all add: d' delete_announcements_sel delete_user_sel)
  have "consistent h pool lo hi d'"
  proof (rule consistent_shrink [OF assms(2) ok' _ _ sub])
    show "no_orphans d'" unfolding d' by (rule no_orphans_reclaimed)
    show "is_member d' z (a_node a)" if "attached_to d' a z" for a z
      using that attached_is_member [OF inv] unfolding att mem by blast
  qed (simp add: frame)
  with att mem frame sub show ?thesis by blast
qed

text \<open>The zones afterwards are the old ones after the three loops of the handler.\<close>

lemma user_plan_zones:
  assumes "DeleteCascade e i d = (Inr r, d')" and "consistent h pool lo hi d"
  shows "db_zones d' = (\<lambda>z. map_option (apsnd (\<lambda>R. R -
        {q. (z, q) \<in> (\<lambda>x. (sr_zone x, sr_synthetic x)) ` set (SurvivingZoneRoutes r)}))
      (if z \<in> set (OwnedZoneIDs r) then None
       else map_option (apfst (\<lambda>M. M -
         {a. (z, a) \<in> (\<lambda>m. (sm_zone m, sm_ip m)) ` set (SurvivingMemberships r)})) (db_zones d z)))"
proof -
  let ?mine = "n_id ` {n \<in> set (nodes d). n_user_id n = i}"
  let ?owned = "z_id ` {z \<in> set (zones d). z_owner z = i}"
  have ok: "schema_ok d" by (rule consistent_schema [OF assms(2)])
  note res = DeleteCascade_result [OF assms(1)]
  from user_plan_db [OF assms] have
    att: "\<And>a z. attached_to d' a z \<longleftrightarrow> attached_to d a z \<and> a_node a \<notin> ?mine \<and> z \<notin> ?owned" and
    mem: "\<And>z j. is_member d' z j \<longleftrightarrow> is_member d z j \<and> j \<notin> ?mine \<and> z \<notin> ?owned" and
    frame: "nodes d' = filter (\<lambda>n. n_user_id n \<noteq> i) (nodes d)" "zones d' = filter (\<lambda>z. z_owner z \<noteq> i) (zones d)"
    by blast+
  have mine: "n_id n \<in> ?mine \<longleftrightarrow> n_user_id n = i" if "n \<in> set (nodes d)" for n
    using that node_id_unique [OF ok that] by blast
  have owned: "set (OwnedZoneIDs r) = ?owned" by (auto simp: res)
  have other: "(\<exists>y \<in> set (zones d). z_id y = z \<and> z_owner y \<noteq> i) \<longleftrightarrow> has_zone d z \<and> z \<notin> ?owned" for z
    using zone_id_unique [OF ok] unfolding has_zone_def by blast
  have has: "has_zone d' z \<longleftrightarrow> has_zone d z \<and> z \<notin> ?owned" for z
    unfolding other [symmetric] by (auto simp: has_zone_def frame)
  have ips: "zone_ips d' z = zone_ips d z -
      {a. (z, a) \<in> (\<lambda>m. (sm_zone m, sm_ip m)) ` set (SurvivingMemberships r)}"
    if "has_zone d z" "z \<notin> ?owned" for z
  proof -
    have "zone_ips d' z = zone_ips d z - n_ip ` {n \<in> set (nodes d). is_member d z (n_id n) \<and> n_user_id n = i}"
      by (rule ips_minus [OF ok]) (use that mine in \<open>auto simp: frame mem\<close>)
    moreover have "n_ip ` {n \<in> set (nodes d). is_member d z (n_id n) \<and> n_user_id n = i} =
        {a. (z, a) \<in> (\<lambda>m. (sm_zone m, sm_ip m)) ` set (SurvivingMemberships r)}"
      unfolding res [THEN conjunct2, THEN conjunct1] set_gather_memberships other using that by blast
    ultimately show ?thesis by simp
  qed
  have routes: "set (zone_routes d' z) = set (zone_routes d z) -
      {q. (z, q) \<in> (\<lambda>x. (sr_zone x, sr_synthetic x)) ` set (SurvivingZoneRoutes r)}"
    if "has_zone d z" "z \<notin> ?owned" for z
  proof -
    have "set (zone_routes d' z) = set (zone_routes d z) -
        (block_prefix \<circ> ann_synthetic) ` {a. attached_to d a z \<and> a_node a \<in> ?mine}"
      by (rule routes_minus [OF ok]) (use that in \<open>simp add: att\<close>)
    moreover have "(block_prefix \<circ> ann_synthetic) ` {a. attached_to d a z \<and> a_node a \<in> ?mine} =
        {q. (z, q) \<in> (\<lambda>x. (sr_zone x, sr_synthetic x)) ` set (SurvivingZoneRoutes r)}"
      unfolding res [THEN conjunct2, THEN conjunct2, THEN conjunct2, THEN conjunct1] set_gather_routes other
      using that by auto
    ultimately show ?thesis by simp
  qed
  show ?thesis
  proof
    fix z
    show "db_zones d' z = map_option (apsnd (\<lambda>R. R -
        {q. (z, q) \<in> (\<lambda>x. (sr_zone x, sr_synthetic x)) ` set (SurvivingZoneRoutes r)}))
      (if z \<in> set (OwnedZoneIDs r) then None
       else map_option (apfst (\<lambda>M. M -
         {a. (z, a) \<in> (\<lambda>m. (sm_zone m, sm_ip m)) ` set (SurvivingMemberships r)})) (db_zones d z))"
      using ips [of z] routes [of z] unfolding db_zones_def owned has by simp
  qed
qed

text \<open>The peers afterwards: those of the user are gone, those listed have fewer prefixes.\<close>

lemma user_plan_tunnel:
  assumes "DeleteCascade e i d = (Inr r, d')" and "consistent h pool lo hi d"
  defines "T \<equiv> \<lambda>k. if Some k \<in> parse_key h ` set (NodePubKeys r) then None else db_tunnel h d k"
  shows "above T (db_tunnel h d')" and "names_nodes d' (RouteRecomputeNodes r)"
    and "\<lbrakk>n \<in> set (nodes d'); parse_key h (n_wg_pubkey n) = Some k; n_id n \<notin> rn_id ` set (RouteRecomputeNodes r)\<rbrakk> \<Longrightarrow>
      T k = Some (node_allowed d' n)"
    and "\<forall>pub \<in> set (NodePubKeys r). parse_key h pub \<noteq> None"
proof -
  let ?d1 = "delete_user i d"
  have ok: "schema_ok d" by (rule consistent_schema [OF assms(2)])
  note keys = consistent_keys [OF assms(2)]
  note res = DeleteCascade_result [OF assms(1)]
  from user_plan_db [OF assms(1,2)] have con: "consistent h pool lo hi d'"
    and nodes: "nodes d' = filter (\<lambda>n. n_user_id n \<noteq> i) (nodes d)"
    and sub: "set (announcements d') \<subseteq> set (announcements d)" by blast+
  from DeleteCascade_success [OF assms(1) ok] have
    d': "d' = delete_announcements (\<lambda>a. a_id a \<in> orphan_ids ?d1) ?d1" by blast
  note keys' = consistent_keys [OF con]
  have mine: "Some k \<in> parse_key h ` set (NodePubKeys r) \<longleftrightarrow> n_user_id n = i"
    if "n \<in> set (nodes d)" "parse_key h (n_wg_pubkey n) = Some k" for n k
  proof -
    have "n_user_id m = i \<longleftrightarrow> n_user_id n = i" if "m \<in> set (nodes d)" "parse_key h (n_wg_pubkey m) = Some k" for m
      using node_key_unique [OF keys \<open>n \<in> set (nodes d)\<close> that(1)] that(2)
        \<open>parse_key h (n_wg_pubkey n) = Some k\<close> by simp
    moreover have "Some k \<in> parse_key h ` set (NodePubKeys r) \<longleftrightarrow>
        (\<exists>m \<in> set (nodes d). n_user_id m = i \<and> parse_key h (n_wg_pubkey m) = Some k)"
      unfolding res [THEN conjunct1] by (force simp: image_iff)
    ultimately show ?thesis using that by blast
  qed
  have T: "T k = Some A \<longleftrightarrow> (\<exists>n \<in> set (nodes d'). parse_key h (n_wg_pubkey n) = Some k \<and> A = node_allowed d n)" for k A
    unfolding T_def using db_tunnel_iff [OF keys, of k A] mine by (auto simp: nodes)
  show "above T (db_tunnel h d')"
    unfolding above_def
  proof (intro conjI allI impI)
    show "dom T = dom (db_tunnel h d')" by (auto simp: dom_def T db_tunnel_iff [OF keys'])
    fix k A B assume "T k = Some B" "db_tunnel h d' k = Some A"
    then obtain n m where "n \<in> set (nodes d')" "parse_key h (n_wg_pubkey n) = Some k" "B = node_allowed d n"
      "m \<in> set (nodes d')" "parse_key h (n_wg_pubkey m) = Some k" "A = node_allowed d' m"
      unfolding T db_tunnel_iff [OF keys'] by blast
    with node_key_unique [OF keys', of n m] node_allowed_mono [OF sub] show "A \<subseteq> B" by simp
  qed
  show "names_nodes d' (RouteRecomputeNodes r)"
    using recompute_names [of ?d1] by (simp add: res names_nodes_def nodes delete_user_sel)
  show "\<forall>pub \<in> set (NodePubKeys r). parse_key h pub \<noteq> None"
    using keys by (auto simp: res keys_ok_def)
  assume n: "n \<in> set (nodes d')" "parse_key h (n_wg_pubkey n) = Some k"
    "n_id n \<notin> rn_id ` set (RouteRecomputeNodes r)"
  have rows: "\<forall>(a, n) \<in> set (orphan_rows ?d1). n_id n = a_node a" by (auto simp: set_orphan_rows)
  have ids: "rn_id ` set (RouteRecomputeNodes r) = (a_node \<circ> fst) ` set (orphan_rows ?d1)"
    using collect_orphans_nodes [OF rows, of "{}" "[]" "[]"] by (simp add: res)
  have nd: "n \<in> set (nodes ?d1)" "n \<in> set (nodes d)" "n_user_id n \<noteq> i"
    using n(1) by (simp_all add: nodes delete_user_sel)
  have "a \<in> set (announcements d')" if a: "a \<in> set (announcements d)" "a_node a = n_id n" for a
  proof -
    have "a_node a \<notin> n_id ` {m \<in> set (nodes d). n_user_id m = i}"
    proof
      assume "a_node a \<in> n_id ` {m \<in> set (nodes d). n_user_id m = i}"
      then obtain m where m: "m \<in> set (nodes d)" "n_user_id m = i" "n_id m = n_id n" using a(2) by auto
      from node_id_unique [OF ok nd(2) m(1)] m nd(3) show False by simp
    qed
    then have a1: "a \<in> set (announcements ?d1)" using a by (simp add: delete_user_sel delete_nodes_sel)
    have "\<not> orphan ?d1 a"
    proof
      assume "orphan ?d1 a"
      with a1 a(2) nd have "(a, n) \<in> set (orphan_rows ?d1)" by (simp add: set_orphan_rows)
      then have "n_id n \<in> (a_node \<circ> fst) ` set (orphan_rows ?d1)" using a(2) by force
      with n(3) ids show False by simp
    qed
    then have "a_id a \<notin> orphan_ids ?d1"
      using ann_id_unique [OF delete_user_ok [OF ok] a1] by (auto simp: orphan_ids_def)
    with a1 show ?thesis by (simp add: d' delete_announcements_sel)
  qed
  with sub have "{a \<in> set (announcements d). a_node a = n_id n} = {a \<in> set (announcements d'). a_node a = n_id n}"
    by blast
  from node_allowed_cong [OF this] T [of k "node_allowed d n"] n show "T k = Some (node_allowed d' n)" by auto
qed

end
