(* ===== verification/Api_Sync.thy ===== *)
theory Api_Sync
  imports Api_Cascade
begin

text \<open>
  Every state-changing handler keeps the kernel in step with the database when no call fails: the
  database stays consistent, and the nftables table and the tunnel stay those it asks for.
\<close>

section \<open>Definitions\<close>

definition in_sync ::
  "('k, 'w) server \<Rightarrow> ('k \<Rightarrow> ruleset) \<Rightarrow> ('w \<Rightarrow> wg_state) \<Rightarrow> prefix4 \<Rightarrow> addr \<Rightarrow> addr
     \<Rightarrow> ('k, 'w) world \<Rightarrow> bool" where
  "in_sync sv vn vw pool lo hi W =
     (consistent (sv_host sv) pool lo hi (w_db W) \<and> synced sv vn vw W)"

definition steady ::
  "('k, 'w) server \<Rightarrow> env \<Rightarrow> ('k \<Rightarrow> ruleset) \<Rightarrow> ('w \<Rightarrow> wg_state) \<Rightarrow> prefix4 \<Rightarrow> addr \<Rightarrow> addr \<Rightarrow> bool" where
  "steady sv e vn vw pool lo hi = (faultless sv vn vw \<and> quiet e \<and> pools_ok sv pool lo hi)"

section \<open>Lemmas\<close>

subsection \<open>States in step\<close>

lemma in_sync_dp:
  "in_sync sv vn vw pool lo hi W \<longleftrightarrow> consistent (sv_host sv) pool lo hi (w_db W) \<and>
     dp sv vn vw W (db_zones (w_db W)) (z_id ` set (zones (w_db W))) (db_tunnel (sv_host sv) (w_db W))"
  by (simp add: in_sync_def synced_dp)

lemma steadyD:
  assumes "steady sv e vn vw pool lo hi"
  shows "faultless sv vn vw" "quiet e" "pools_ok sv pool lo hi" "PBits pool \<le> 32" "\<not> Contains pool (- 1)"
  using assms by (simp_all add: steady_def pools_ok_def)

lemma sync_frame:
  assumes "in_sync sv vn vw pool lo hi W" and "consistent (sv_host sv) pool lo hi d'"
    and "db_zones d' = db_zones (w_db W)" and "z_id ` set (zones d') = z_id ` set (zones (w_db W))"
    and "db_tunnel (sv_host sv) d' = db_tunnel (sv_host sv) (w_db W)"
  shows "in_sync sv vn vw pool lo hi (W\<lparr>w_db := d'\<rparr>)"
  using assms by (simp add: in_sync_dp)

lemma dp_only: "w_nft W' = w_nft W \<Longrightarrow> w_wg W' = w_wg W \<Longrightarrow> dp sv vn vw W' Z D T = dp sv vn vw W Z D T"
  by (simp add: dp_def)

subsection \<open>The branches of a handler\<close>

text \<open>
  A property of what a handler ends in, reply and state: a refusal ends in the state it was met in,
  every other branch is the continuation.
\<close>

named_theorems branch_rules

definition ends_with ::
  "(response \<Rightarrow> ('k, 'w) world \<Rightarrow> bool) \<Rightarrow> ('k, 'w) outcome \<Rightarrow> bool" where
  "ends_with Q out = Q (fst out) (snd out)"

abbreviation ends_in :: "(('k, 'w) world \<Rightarrow> bool) \<Rightarrow> ('k, 'w) outcome \<Rightarrow> bool" where
  "ends_in P \<equiv> ends_with (\<lambda>_. P)"

lemma ends_in_def: "ends_in P out = P (snd out)"
  by (simp add: ends_with_def)

lemma refusals [simp]:
  "\<not> success serverError" "\<not> success unauthorized" "\<not> success (invalid m)" "\<not> success (notFound m)"
  "\<not> success (jsonError s c m)"
  by (simp_all add: success_def serverError_def unauthorized_def invalid_def notFound_def jsonError_def)

lemma ends_in_reply [branch_rules]: "Q r W \<Longrightarrow> ends_with Q (r, W)"
  by (simp add: ends_with_def)

lemma ends_in_if [branch_rules]:
  "\<lbrakk>c \<Longrightarrow> ends_with Q x; \<not> c \<Longrightarrow> ends_with Q y\<rbrakk> \<Longrightarrow> ends_with Q (if c then x else y)"
  by simp

lemma ends_in_let [branch_rules]: "(\<And>y. y = x \<Longrightarrow> ends_with Q (f y)) \<Longrightarrow> ends_with Q (let y = x in f y)"
  by simp

lemma ends_in_option [branch_rules]:
  "\<lbrakk>x = None \<Longrightarrow> ends_with Q a; \<And>y. x = Some y \<Longrightarrow> ends_with Q (f y)\<rbrakk> \<Longrightarrow>
     ends_with Q (case x of None \<Rightarrow> a | Some y \<Rightarrow> f y)"
  by (simp split: option.split)

lemma ends_in_sum [branch_rules]:
  "\<lbrakk>\<And>y. x = Inl y \<Longrightarrow> ends_with Q (g y); \<And>y. x = Inr y \<Longrightarrow> ends_with Q (f y)\<rbrakk> \<Longrightarrow>
     ends_with Q (case x of Inl y \<Rightarrow> g y | Inr y \<Rightarrow> f y)"
  by (simp split: sum.split)

lemma ends_in_pair [branch_rules]:
  "(\<And>a b. x = (a, b) \<Longrightarrow> ends_with Q (f a b)) \<Longrightarrow> ends_with Q (case x of (a, b) \<Rightarrow> f a b)"
  by (simp split: prod.split)

lemma ends_in_prefix [branch_rules]:
  "\<lbrakk>\<And>p. x = P4 p \<Longrightarrow> ends_with Q (f p); \<And>a b. x = P6 a b \<Longrightarrow> ends_with Q (g a b)\<rbrakk> \<Longrightarrow>
     ends_with Q (case x of P4 p \<Rightarrow> f p | P6 a b \<Rightarrow> g a b)"
  by (simp split: netip_prefix.split)

lemma ends_in_bool [branch_rules]:
  "\<lbrakk>x \<Longrightarrow> ends_with Q a; \<not> x \<Longrightarrow> ends_with Q b\<rbrakk> \<Longrightarrow> ends_with Q (case x of True \<Rightarrow> a | False \<Rightarrow> b)"
  by (simp split: bool.split)

lemma ends_in_identity [branch_rules]:
  "\<lbrakk>\<And>r. \<not> success r \<Longrightarrow> Q r W; \<And>i. cid = Some i \<Longrightarrow> ends_with Q (k i)\<rbrakk> \<Longrightarrow>
     ends_with Q (with_identity cid W k)"
  by (simp add: with_identity_def ends_with_def split: option.split)

lemma ends_in_body [branch_rules]:
  "\<lbrakk>\<And>r. \<not> success r \<Longrightarrow> Q r W; \<And>x. body = Some x \<Longrightarrow> ends_with Q (k x)\<rbrakk> \<Longrightarrow>
     ends_with Q (with_body body W k)"
  by (simp add: with_body_def ends_with_def split: option.split)

lemma ends_in_500 [branch_rules]:
  "\<lbrakk>\<And>err r. s = Inl err \<Longrightarrow> \<not> success r \<Longrightarrow> Q r W; \<And>x. s = Inr x \<Longrightarrow> ends_with Q (k x)\<rbrakk> \<Longrightarrow>
     ends_with Q (or_500 s W k)"
  by (simp add: or_500_def ends_with_def split: sum.split)

lemma ends_in_404 [branch_rules]:
  "\<lbrakk>\<And>err r. s = Inl err \<Longrightarrow> \<not> success r \<Longrightarrow> Q r W; \<And>x. s = Inr x \<Longrightarrow> ends_with Q (k x)\<rbrakk> \<Longrightarrow>
     ends_with Q (or_404 missing message s W k)"
  by (simp add: or_404_def ends_with_def split: sum.split)

lemma ends_in_owned [branch_rules]:
  "\<lbrakk>\<And>r. \<not> success r \<Longrightarrow> Q r W;
     \<And>z. \<lbrakk>z \<in> set (zones (w_db W)); z_name z = name; z_owner z = uid\<rbrakk> \<Longrightarrow> ends_with Q (k z)\<rbrakk> \<Longrightarrow>
     ends_with Q (ownedZone e name uid W k)"
  by (auto simp: ownedZone_def or_500_def GetByName_def find_Some_iff ends_with_def split: option.split)

lemma ends_in_member [branch_rules]:
  "\<lbrakk>\<And>r. \<not> success r \<Longrightarrow> Q r W;
     \<And>z. \<lbrakk>z \<in> set (zones (w_db W)); z_name z = name; IsParticipant e (z_id z) uid (w_db W) = Inr True\<rbrakk> \<Longrightarrow>
       ends_with Q (k z)\<rbrakk> \<Longrightarrow>
     ends_with Q (memberZone e name uid W k)"
  by (auto simp: memberZone_def or_500_def GetByName_def find_Some_iff ends_with_def split: option.split sum.split)

lemma db_do_result: "db_do f W = (r, W') \<longleftrightarrow> (\<exists>d. f (w_db W) = (r, d) \<and> W' = W\<lparr>w_db := d\<rparr>)"
  by (auto simp: db_do_def split: prod.split)

lemma GetOwned_Inr: "GetOwned e uid nid d = Inr n \<Longrightarrow> n \<in> set (nodes d) \<and> n_id n = nid \<and> n_user_id n = uid"
  by (auto simp: GetOwned_def dest: find_Some_mem split: if_splits option.splits)

lemma GetNodeByID_Inr: "GetNodeByID e nid d = Inr n \<Longrightarrow> n \<in> set (nodes d) \<and> n_id n = nid"
  by (auto simp: GetNodeByID_def dest: find_Some_mem split: if_splits option.splits)

lemma GetByName_Some: "GetByName e name d = Inr (Some z) \<Longrightarrow> z \<in> set (zones d) \<and> z_name z = name"
  by (auto simp: GetByName_def dest: find_Some_mem split: if_splits)

lemma node_key:
  assumes "consistent h pool lo hi d" and "n \<in> set (nodes d)"
  obtains k where "parse_key h (n_wg_pubkey n) = Some k"
  using consistent_keys [OF assms(1)] assms(2) by (auto simp: keys_ok_def)

subsection \<open>Nodes\<close>

lemma insertNode_Inl_keeps:
  "insertNode e uid name pk pf ip mx d = Inr (None, d') \<Longrightarrow> d' = d"
  using insertNode_None by blast

lemma create_node_alone:
  "create_node_loop m e (\<lambda>_ d. d) k uid name pk pf lo hi mx d = (r, d') \<Longrightarrow>
     case r of Inl _ \<Rightarrow> d' = d
     | Inr n \<Rightarrow> lo \<le> n_ip n \<and> n_ip n \<le> hi \<and> node_added e uid name pk pf (n_ip n) mx d n d'"
proof (induction m arbitrary: k)
  case (Suc m)
  show ?case
  proof (cases "lowestFree e lo hi d")
    case (Inr q)
    show ?thesis
    proof (cases q)
      case None
      with Suc.prems Inr show ?thesis by (auto split: sum.splits)
    next
      case (Some ip)
      with Inr have ip: "lo \<le> ip" "ip \<le> hi"
        using lowestFree_Some by (auto simp: least_free_def)
      have ad: "n_ip n = ip" if "node_added e uid name pk pf ip mx d n x" for n x
        using that by (simp add: node_added_def)
      show ?thesis
      proof (cases "insertNode e uid name pk pf ip mx d")
        case (Inl err)
        with Suc.prems Suc.IH Inr Some show ?thesis
          by (auto split: sum.splits sql_error.splits constraint.splits)
      next
        case ins: (Inr p)
        obtain no d2 where p: "p = (no, d2)" by fastforce
        show ?thesis
        proof (cases no)
          case None
          with ins p insertNode_Inl_keeps have "d2 = d" by blast
          with Suc.prems Inr Some ins p None show ?thesis by auto
        next
          case (Some n)
          with ins p have added: "node_added e uid name pk pf ip mx d n d2"
            by (simp add: insertNode_Some)
          with Suc.prems Inr \<open>q = Some ip\<close> ins p Some ip ad [OF added] show ?thesis by auto
        qed
      qed
    qed
  next
    case (Inl err)
    with Suc.prems show ?thesis by (auto split: sum.splits)
  qed
qed (auto split: sum.splits)

lemma CreateNode_alone:
  "CreateNode e (\<lambda>_ d. d) uid name pk pf lo hi mx d = (r, d') \<Longrightarrow>
     case r of Inl _ \<Rightarrow> d' = d
     | Inr n \<Rightarrow> lo \<le> n_ip n \<and> n_ip n \<le> hi \<and> node_added e uid name pk pf (n_ip n) mx d n d'"
  unfolding CreateNode_def by (rule create_node_alone)

lemma allowed_nil: "allowed_of ip [] = {Prefix4 ip 32}"
  by (simp add: allowed_of_def)

text \<open>The address of a new node is in no other peer's prefixes.\<close>

lemma new_address_apart:
  assumes "consistent h pool lo hi d" and "\<forall>a. lo \<le> a \<and> a \<le> hi \<longrightarrow> \<not> Contains pool a" and "PBits pool \<le> 32"
    and "lo \<le> ip" and "ip \<le> hi" and "ip \<notin> used_ips d"
    and "db_tunnel h d k = Some A"
  shows "A \<inter> allowed_of ip [] = {}"
proof -
  from assms(7) obtain n where n: "n \<in> set (nodes d)" "A = node_allowed d n"
    unfolding db_tunnel_iff [OF consistent_keys [OF assms(1)]] by blast
  have "Prefix4 ip 32 \<noteq> Masked (block_prefix (ann_synthetic a))" if "a \<in> set (announcements d)" for a
  proof
    have plan: "ann_plan pool d" using assms(1) by (simp add: consistent_def ann_inv_def)
    assume "Prefix4 ip 32 = Masked (block_prefix (ann_synthetic a))"
    then have "Contains (block_prefix (ann_synthetic a)) ip"
      by (metis Contains_Masked Contains_32)
    with synthetic_in_pool(3) [OF plan assms(3) that] have "Contains pool ip"
      by (auto simp: prefix_addrs_def)
    with assms(2,4,5) show False by blast
  qed
  moreover from assms(6) n have "n_ip n \<noteq> ip" by auto
  ultimately show ?thesis unfolding n(2) node_allowed_eq allowed_nil by auto
qed

lemma add_peer_routes: "wg_do (\<lambda>dev. AddPeer (sv_host sv) dev pub ip) sv W = set_routes sv pub ip [] W"
  by (simp add: set_routes_def wg_do_def AddPeer_def)

lemma add_node_peer_sync:
  assumes st: "steady sv e vn vw pool lo hi" and sync: "in_sync sv vn vw pool lo hi W"
    and new: "CreateNode e (\<lambda>_ d. d) uid name pub pf lo hi mx (w_db W) = (Inr n, d')"
    and key: "parse_key (sv_host sv) pub = Some k" "key_string (sv_host sv) k = pub"
  shows "ends_in (in_sync sv vn vw pool lo hi) (add_node_peer sv e uid n (W\<lparr>w_db := d'\<rparr>))"
proof -
  let ?d = "w_db W" and ?h = "sv_host sv"
  have con: "consistent ?h pool lo hi ?d" and dp: "dp sv vn vw W (db_zones ?d) (z_id ` set (zones ?d)) (db_tunnel ?h ?d)"
    using sync by (simp_all add: in_sync_dp)
  from CreateNode_alone [OF new] have ip: "lo \<le> n_ip n" "n_ip n \<le> hi"
    and ad: "node_added e uid name pub pf (n_ip n) mx ?d n d'" by simp_all
  then have n: "n_wg_pubkey n = pub" and free: "n_ip n \<notin> used_ips ?d"
    unfolding node_added_def by (metis node_row.select_convs(4), blast)
  have "schema_ok d'"
    using CreateNode_ok [OF consistent_schema [OF con], of "\<lambda>_ d. d" e uid name pub pf lo hi mx] new by simp
  note plan = node_added_plan [OF ad con this key ip]
  have apart: "\<forall>k' A. k' \<noteq> k \<longrightarrow> db_tunnel ?h ?d k' = Some A \<longrightarrow> A \<inter> allowed_of (n_ip n) [] = {}"
    using new_address_apart [OF con _ steadyD(4) [OF st] ip free] steadyD(3) [OF st] by (simp add: pools_ok_def)
  obtain W' where W': "set_routes sv pub (n_ip n) [] (W\<lparr>w_db := d'\<rparr>) = (None, W')" "w_db W' = d'"
    "dp sv vn vw W' (db_zones ?d) (z_id ` set (zones ?d)) ((db_tunnel ?h ?d)(k \<mapsto> allowed_of (n_ip n) []))"
    using set_routes_dp [OF steadyD(1) [OF st], of "W\<lparr>w_db := d'\<rparr>", OF _ key(1) apart] dp by auto
  then have "in_sync sv vn vw pool lo hi W'" using plan by (simp add: in_sync_dp)
  with W'(1) show ?thesis by (simp add: add_node_peer_def add_peer_routes n ends_in_def)
qed

lemma registerNode_sync:
  assumes st: "steady sv e vn vw pool lo hi" and sync: "in_sync sv vn vw pool lo hi W"
    and canon: "\<And>req k. body = Some req \<Longrightarrow> parse_key (sv_host sv) (rn_WGPubKey req) = Some k \<Longrightarrow>
      key_string (sv_host sv) k = rn_WGPubKey req"
  shows "ends_in (in_sync sv vn vw pool lo hi) (registerNode sv e cid body W)"
  unfolding registerNode_def
proof (intro branch_rules)
  fix i req p lo' hi' r W'
  assume req: "body = Some req" and none: "register_invalid sv req = None"
    and p: "PoolRange (parse_prefix sv) (wgNetwork sv) = Inr p" "p = (lo', hi')"
    and new: "db_do (CreateNode e (\<lambda>_ d. d) (UserID i) (TrimSpace (rn_Name req)) (rn_WGPubKey req)
        (node_platform (rn_Platform req)) lo' hi' (cap i (maxDevicesPerUser sv))) W = (r, W')"
  from none obtain k where k: "parse_key (sv_host sv) (rn_WGPubKey req) = Some k"
    by (auto simp: register_invalid_def Let_def split: if_splits)
  have range: "lo' = lo" "hi' = hi" using steadyD(3) [OF st] p by (simp_all add: pools_ok_def)
  from new obtain d' where d': "CreateNode e (\<lambda>_ d. d) (UserID i) (TrimSpace (rn_Name req)) (rn_WGPubKey req)
      (node_platform (rn_Platform req)) lo hi (cap i (maxDevicesPerUser sv)) (w_db W) = (r, d')" "W' = W\<lparr>w_db := d'\<rparr>"
    by (auto simp: db_do_result range)
  {
    fix err assume "r = Inl err"
    with CreateNode_alone [OF d'(1)] sync d'(2) show "in_sync sv vn vw pool lo hi W'" by simp
  next
    fix n assume "r = Inr n"
    from add_node_peer_sync [OF st sync d'(1) [unfolded this] k canon [OF req k]]
    show "ends_in (in_sync sv vn vw pool lo hi) (add_node_peer sv e (UserID i) n W')" by (simp add: d'(2))
  }
qed (use sync in simp_all)

subsection \<open>Zones that lose members and routes\<close>

lemma member_zone: "schema_ok d \<Longrightarrow> is_member d z nid \<Longrightarrow> has_zone d z"
  by (auto simp: is_member_iff schema_ok_def fk_ok_def)

lemma attached_zone: "schema_ok d \<Longrightarrow> attached_to d a z \<Longrightarrow> has_zone d z"
  by (force simp: attached_to_def schema_ok_def fk_ok_def)

lemma attached_route: "attached_to d a z \<Longrightarrow> block_prefix (ann_synthetic a) \<in> set (zone_routes d z)"
  unfolding set_zone_routes by force

lemma member_ip: "is_member d z (n_id n) \<Longrightarrow> n \<in> set (nodes d) \<Longrightarrow> n_ip n \<in> zone_ips d z"
  by (auto simp: zone_ips_def)

lemma consistent_good:
  assumes "consistent h pool lo hi d" and "PBits pool \<le> 32" and "\<not> Contains pool (- 1)"
  shows "\<forall>z M R. db_zones d z = Some (M, R) \<longrightarrow> routes_good R"
  using assms by (intro db_zones_good) (simp_all add: consistent_def ann_inv_def)

abbreviation remove_members ::
  "('k, 'w) server \<Rightarrow> (int \<times> addr) list \<Rightarrow> ('k, 'w) world \<Rightarrow> ('k, 'w) world" where
  "remove_members sv ms \<equiv> fold (nft_try sv) (map (\<lambda>(z, a). Call_RemoveMember z a) ms)"

abbreviation remove_routes ::
  "('k, 'w) server \<Rightarrow> (int \<times> prefix4) list \<Rightarrow> ('k, 'w) world \<Rightarrow> ('k, 'w) world" where
  "remove_routes sv rs \<equiv> fold (nft_try sv) (map (\<lambda>(z, q). Call_RemoveZoneRoute z q) rs)"

lemma shrink_zones_dp:
  assumes st: "steady sv e vn vw pool lo hi" and con: "consistent h pool lo hi d"
    and dp: "dp sv vn vw W (db_zones d) D T" and dist: "distinct ms" "distinct rs"
    and ms: "\<forall>(z, a) \<in> set ms. has_zone d z \<and> a \<in> zone_ips d z"
    and rs: "\<forall>(z, q) \<in> set rs. has_zone d z \<and> q \<in> set (zone_routes d z)"
    and zs: "has_zone d' = has_zone d"
    and ips: "\<And>z. has_zone d z \<Longrightarrow> zone_ips d' z = zone_ips d z - {a. (z, a) \<in> set ms}"
    and routes: "\<And>z. has_zone d z \<Longrightarrow> set (zone_routes d' z) = set (zone_routes d z) - {q. (z, q) \<in> set rs}"
  shows "dp sv vn vw (remove_routes sv rs (remove_members sv ms W)) (db_zones d') D T"
proof -
  let ?Z1 = "\<lambda>z. map_option (apfst (\<lambda>M. M - {a. (z, a) \<in> set ms})) (db_zones d z)"
  have "\<forall>(z, a) \<in> set ms. \<exists>M R. db_zones d z = Some (M, R) \<and> a \<in> M"
    using ms by (simp add: db_zones_def split: prod.splits) blast
  note d1 = remove_members_dp [OF steadyD(1) [OF st] dp dist(1) this]
  have "routes_good R" if "?Z1 z = Some (M, R)" for z M R
  proof -
    from that obtain p where p: "db_zones d z = Some p" "apfst (\<lambda>M. M - {a. (z, a) \<in> set ms}) p = (M, R)"
      unfolding map_option_eq_Some by blast
    from arg_cong [OF p(2), of snd] have "snd p = R" by simp
    then have "db_zones d z = Some (fst p, R)" using p(1) by auto
    with consistent_good [OF con steadyD(4,5) [OF st]] show ?thesis by blast
  qed
  then have good: "\<forall>z M R. ?Z1 z = Some (M, R) \<longrightarrow> routes_good R" by blast
  have "\<forall>(z, q) \<in> set rs. \<exists>M R. ?Z1 z = Some (M, R) \<and> q \<in> R"
    using rs by (simp add: db_zones_def split: prod.splits) blast
  note d2 = remove_routes_dp [OF steadyD(1) [OF st] d1 dist(2) good this]
  have "(\<lambda>z. map_option (apsnd (\<lambda>R. R - {q. (z, q) \<in> set rs})) (?Z1 z)) = db_zones d'"
    using ips routes by (auto simp: db_zones_def zs fun_eq_iff)
  with d2 show ?thesis by simp
qed

lemma attachments_of_node:
  "AttachmentsForNode e nid d = Inr atts \<Longrightarrow>
     atts = concat (map (\<lambda>x. concat (map (\<lambda>a. if a_id a = az_ann x \<and> a_node a = nid
       then [\<lparr>zd_ann = a_id a, zd_node = nid, zd_zone = az_zone x,
              zd_synthetic = block_prefix (ann_synthetic a), zd_reclaimed = False\<rparr>] else []) (announcements d)))
       (announcement_zones d))"
  by (simp add: AttachmentsForNode_def split: if_splits)

lemma set_attachments:
  assumes "AttachmentsForNode e nid d = Inr atts"
  shows "(z, q) \<in> (\<lambda>x. (zd_zone x, zd_synthetic x)) ` set atts \<longleftrightarrow>
    (\<exists>a. attached_to d a z \<and> a_node a = nid \<and> q = block_prefix (ann_synthetic a))"
proof -
  have "(z, q) \<in> (\<lambda>x. (zd_zone x, zd_synthetic x)) ` set atts \<longleftrightarrow>
      (\<exists>x \<in> set (announcement_zones d). \<exists>a \<in> set (announcements d). a_id a = az_ann x \<and> a_node a = nid \<and>
        z = az_zone x \<and> q = block_prefix (ann_synthetic a))"
    unfolding attachments_of_node [OF assms] by (force simp: image_iff split: if_splits)
  moreover have "attached_to d a z \<longleftrightarrow> a \<in> set (announcements d) \<and>
      (\<exists>x \<in> set (announcement_zones d). z = az_zone x \<and> a_id a = az_ann x)" for a
    unfolding attached_to_iff by blast
  ultimately show ?thesis by blast
qed

lemma distinct_attachments:
  assumes "schema_ok d" and "AttachmentsForNode e nid d = Inr atts"
  shows "distinct (map (\<lambda>x. (zd_zone x, zd_synthetic x)) atts)"
proof -
  let ?row = "\<lambda>x. concat (map (\<lambda>a. if a_id a = az_ann x \<and> a_node a = nid
      then [(az_zone x, block_prefix (ann_synthetic a))] else []) (announcements d))"
  have "map (\<lambda>x. (zd_zone x, zd_synthetic x)) atts = concat (map ?row (announcement_zones d))"
    unfolding attachments_of_node [OF assms(2)] map_concat map_map comp_def
    by (intro arg_cong [where f = concat] map_cong refl) simp
  moreover have "distinct (concat (map ?row (announcement_zones d)))"
  proof (rule distinct_join; (intro ballI allI impI)?)
    fix x y :: az_row and c assume c: "c \<in> set (?row x)" "c \<in> set (?row y)"
    from c(1) obtain a where a: "a \<in> set (announcements d)" "a_id a = az_ann x"
      "c = (az_zone x, block_prefix (ann_synthetic a))" by (auto split: if_splits)
    from c(2) obtain b where b: "b \<in> set (announcements d)" "a_id b = az_ann y"
      "c = (az_zone y, block_prefix (ann_synthetic b))" by (auto split: if_splits)
    from a b synthetic_inj [OF assms(1) a(1) b(1)] show "x = y" by simp
  next
    fix x
    have "distinct (concat (map (\<lambda>a. if a_id a = az_ann x then
        (if a_node a = nid then [(az_zone x, block_prefix (ann_synthetic a))] else []) else []) (announcements d)))"
      by (rule distinct_keyed [OF schema_keys(3) [OF assms(1)]]) simp
    moreover have "(\<lambda>a. if a_id a = az_ann x \<and> a_node a = nid then [(az_zone x, block_prefix (ann_synthetic a))] else []) =
        (\<lambda>a. if a_id a = az_ann x then
          (if a_node a = nid then [(az_zone x, block_prefix (ann_synthetic a))] else []) else [])" by auto
    ultimately show "distinct (?row x)" by (simp only:)
  qed (rule schema_distinct [OF assms(1)])
  ultimately show ?thesis by simp
qed

lemma deleteNode_sync:
  assumes st: "steady sv e vn vw pool lo hi" and sync: "in_sync sv vn vw pool lo hi W"
  shows "ends_in (in_sync sv vn vw pool lo hi) (deleteNode sv e cid path W)"
  unfolding deleteNode_def
proof (intro branch_rules)
  fix i nid n zids atts r W'
  assume "GetOwned e (UserID i) nid (w_db W) = Inr n"
    and zids: "ZonesForNode e nid (w_db W) = Inr zids" and atts: "AttachmentsForNode e nid (w_db W) = Inr atts"
    and del: "db_do (DeleteOwned e (UserID i) nid) W = (r, W')"
  from GetOwned_Inr [OF this(1)] have n: "n \<in> set (nodes (w_db W))" "nid = n_id n" "UserID i = n_user_id n" by simp_all
  let ?d = "w_db W" and ?h = "sv_host sv"
  let ?d' = "delete_nodes (\<lambda>m. n_id m = n_id n \<and> n_user_id m = n_user_id n) ?d"
  have con: "consistent ?h pool lo hi ?d"
    and dp: "dp sv vn vw W (db_zones ?d) (z_id ` set (zones ?d)) (db_tunnel ?h ?d)"
    using sync by (simp_all add: in_sync_dp)
  have ok: "schema_ok ?d" by (rule consistent_schema [OF con])
  obtain k where k: "parse_key ?h (n_wg_pubkey n) = Some k" using node_key [OF con n(1)] by blast
  {
    fix err assume "r = Inl err"
    with del sync show "in_sync sv vn vw pool lo hi W'"
      by (auto simp: db_do_result DeleteOwned_def split: option.splits if_splits)
  next
    fix pub assume "r = Inr pub"
    with del n(2,3) have W': "W' = W\<lparr>w_db := ?d'\<rparr>"
      by (auto simp: db_do_result DeleteOwned_def split: option.splits if_splits)
    note plan = delete_node_plan [OF con n(1) k]
    let ?ms = "map (\<lambda>z. (z, n_ip n)) zids" and ?rs = "map (\<lambda>x. (zd_zone x, zd_synthetic x)) atts"
    have zs: "z \<in> set zids \<longleftrightarrow> is_member ?d z (n_id n)" for z
      using zids n(2) by (auto simp: ZonesForNode_def is_member_iff split: if_splits)
    have dz: "distinct zids"
      using zids distinct_zones_for_node [OF ok] by (auto simp: ZonesForNode_def split: if_splits)
    have rs: "(z, q) \<in> set ?rs \<longleftrightarrow> (\<exists>a. attached_to ?d a z \<and> a_node a = n_id n \<and> q = block_prefix (ann_synthetic a))"
      for z q using set_attachments [OF atts, of z q] n(2) by simp
    have "dp sv vn vw (remove_routes sv ?rs (remove_members sv ?ms (wg_remove sv (n_wg_pubkey n) W')))
        (db_zones ?d') (z_id ` set (zones ?d)) ((db_tunnel ?h ?d)(k := None))"
    proof (rule shrink_zones_dp [OF st con wg_remove_dp [OF steadyD(1) [OF st] _ k]])
      show "dp sv vn vw W' (db_zones ?d) (z_id ` set (zones ?d)) (db_tunnel ?h ?d)" using dp by (simp add: W')
      show "distinct ?ms" using dz by (simp add: distinct_map inj_on_def)
      show "distinct ?rs" by (rule distinct_attachments [OF ok atts])
      show "\<forall>(z, a) \<in> set ?ms. has_zone ?d z \<and> a \<in> zone_ips ?d z"
        using zs member_zone [OF ok] member_ip [OF _ n(1)] by auto
      show "\<forall>(z, q) \<in> set ?rs. has_zone ?d z \<and> q \<in> set (zone_routes ?d z)"
      proof (intro ballI case_prodI2)
        fix p z q assume "p \<in> set ?rs" "p = (z, q)"
        with rs obtain a where "attached_to ?d a z" "q = block_prefix (ann_synthetic a)" by blast
        then show "has_zone ?d z \<and> q \<in> set (zone_routes ?d z)"
          using attached_zone [OF ok] attached_route by blast
      qed
      show "has_zone ?d' = has_zone ?d" using plan by (simp add: has_zone_def fun_eq_iff)
      fix z assume "has_zone ?d z"
      have "{a. (z, a) \<in> set ?ms} = (if is_member ?d z (n_id n) then {n_ip n} else {})" using zs by auto
      with plan show "zone_ips ?d' z = zone_ips ?d z - {a. (z, a) \<in> set ?ms}" by presburger
      have "{q. (z, q) \<in> set ?rs} = (block_prefix \<circ> ann_synthetic) ` {a. attached_to ?d a z \<and> a_node a = n_id n}"
        using rs by (auto simp: image_iff)
      with plan show "set (zone_routes ?d' z) = set (zone_routes ?d z) - {q. (z, q) \<in> set ?rs}" by presburger
    qed
    moreover have "forget_node sv n zids atts W' =
        remove_routes sv ?rs (remove_members sv ?ms (wg_remove sv (n_wg_pubkey n) W'))"
      by (simp add: forget_node_def fold_map comp_def)
    ultimately show "in_sync sv vn vw pool lo hi (forget_node sv n zids atts W')"
      using plan by (simp add: in_sync_dp frame_simps W')
  }
qed (use sync in simp_all)

end
