(* ===== verification/Api_Sync_Zones.thy ===== *)
theory Api_Sync_Zones
  imports Api_Sync
begin

text \<open>
  The zone and announcement handlers keep the kernel in step with the database: creating, joining,
  leaving, kicking, deleting a zone, announcing and detaching.
\<close>

section \<open>Lemmas\<close>

subsection \<open>Peers after announcements went\<close>

lemma shrink_above:
  assumes "keys_ok h d" and "keys_ok h d'" and "nodes d' = nodes d"
    and "set (announcements d') \<subseteq> set (announcements d)"
  shows "above (db_tunnel h d) (db_tunnel h d')"
proof -
  have "dom (db_tunnel h d) = dom (db_tunnel h d')"
    by (auto simp: dom_def db_tunnel_iff [OF assms(1)] db_tunnel_iff [OF assms(2)] assms(3))
  moreover have "A \<subseteq> B" if "db_tunnel h d k = Some B" "db_tunnel h d' k = Some A" for k A B
  proof -
    from that obtain n m where "n \<in> set (nodes d)" "parse_key h (n_wg_pubkey n) = Some k" "B = node_allowed d n"
      "m \<in> set (nodes d)" "parse_key h (n_wg_pubkey m) = Some k" "A = node_allowed d' m"
      unfolding db_tunnel_iff [OF assms(1)] db_tunnel_iff [OF assms(2)] assms(3) by blast
    with node_key_unique [OF assms(1), of n m] node_allowed_mono [OF assms(4)] show ?thesis by simp
  qed
  ultimately show ?thesis unfolding above_def by blast
qed

lemma drop_settle:
  assumes st: "steady sv e vn vw pool lo hi"
    and con: "consistent (sv_host sv) pool lo hi d" "consistent (sv_host sv) pool lo hi d'"
    and frame: "nodes d' = nodes d" "set (announcements d') \<subseteq> set (announcements d)"
    and dp: "dp sv vn vw W Z D (db_tunnel (sv_host sv) d)" "w_db W = d'"
    and rns: "names_nodes d' rns"
    and lost: "\<And>a. a \<in> set (announcements d) \<Longrightarrow> a \<notin> set (announcements d') \<Longrightarrow> a_node a \<in> rn_id ` set rns"
  shows "dp sv vn vw (fold (recompute sv e) rns W) Z D (db_tunnel (sv_host sv) d')"
proof (rule recomputes_settle [OF steadyD(1,2) [OF st] _ dp _ rns])
  let ?h = "sv_host sv"
  note keys = consistent_keys [OF con(1)] consistent_keys [OF con(2)]
  show "keys_ok ?h d'" by (rule keys(2))
  show "above (db_tunnel ?h d) (db_tunnel ?h d')" by (rule shrink_above [OF keys frame])
  show "schema_ok d'" by (rule consistent_schema [OF con(2)])
  fix n k assume n: "n \<in> set (nodes d')" "parse_key ?h (n_wg_pubkey n) = Some k" "n_id n \<notin> rn_id ` set rns"
  have "{a \<in> set (announcements d). a_node a = n_id n} = {a \<in> set (announcements d'). a_node a = n_id n}"
    using lost frame(2) n(3) by force
  from node_allowed_cong [OF this] db_tunnel_node [OF keys(1), of n k] n frame(1)
  show "db_tunnel ?h d k = Some (node_allowed d' n)" by simp
qed

abbreviation node_entry :: "node_row \<Rightarrow> recompute_node" where
  "node_entry n \<equiv> \<lparr>rn_id = n_id n, rn_pubkey = n_wg_pubkey n, rn_ip = n_ip n\<rparr>"


subsection \<open>Creating and joining\<close>

lemma Join_quiet:
  "quiet e \<Longrightarrow> has_zone d zid \<Longrightarrow> has_node d nid \<Longrightarrow> fst (Join e zid nid d) = None"
  by (simp add: Join_def insert_member_def Let_def quiet_fault)

lemma node_known: "n \<in> set (nodes d) \<Longrightarrow> has_node d (n_id n)"
  by (simp add: has_node_def)

lemma join_sync:
  assumes st: "steady sv e vn vw pool lo hi" and sync: "in_sync sv vn vw pool lo hi W"
    and n: "n \<in> set (nodes (w_db W))" and z: "has_zone (w_db W) zid"
  shows "\<exists>W1 W2. db_do (Join e zid (n_id n)) W = (None, W1) \<and>
    nft_do sv (Call_AddMember zid (n_ip n)) W1 = (None, W2) \<and> in_sync sv vn vw pool lo hi W2"
proof -
  let ?d = "w_db W" and ?h = "sv_host sv"
  have con: "consistent ?h pool lo hi ?d"
    and dp: "dp sv vn vw W (db_zones ?d) (z_id ` set (zones ?d)) (db_tunnel ?h ?d)"
    using sync by (simp_all add: in_sync_dp)
  from Join_quiet [OF steadyD(2) [OF st] z node_known [OF n]] obtain d' where
    d': "Join e zid (n_id n) ?d = (None, d')" by (metis prod.exhaust_sel)
  note plan = join_plan [OF d' con n]
  have "fw_ready (sv_table sv) (Call_AddMember zid (n_ip n)) (vn (w_nft W)) (db_zones ?d)"
    using z by (simp add: db_zones_def)
  with nft_edit_dp [OF steadyD(1) [OF st], of "W\<lparr>w_db := d'\<rparr>" _ _ _ "Call_AddMember zid (n_ip n)"] dp
  obtain W2 where "nft_do sv (Call_AddMember zid (n_ip n)) (W\<lparr>w_db := d'\<rparr>) = (None, W2)" "w_db W2 = d'"
    "dp sv vn vw W2 (on_zone (apfst (insert (n_ip n))) zid (db_zones ?d)) (z_id ` set (zones ?d)) (db_tunnel ?h ?d)"
    by fastforce
  then show ?thesis using d' plan by (auto simp: db_do_result in_sync_dp)
qed

lemma joinZone_sync:
  assumes st: "steady sv e vn vw pool lo hi" and sync: "in_sync sv vn vw pool lo hi W"
  shows "ends_in (in_sync sv vn vw pool lo hi) (joinZone sv e cid name body W)"
  unfolding joinZone_def
proof (intro branch_rules)
  fix i req found z n r W1
  assume "GetByName e name (w_db W) = Inr found" "found = Some z"
    and "GetOwned e (UserID i) (jz_NodeID req) (w_db W) = Inr n"
    and join: "db_do (Join e (z_id z) (n_id n)) W = (r, W1)"
  then have "n \<in> set (nodes (w_db W))" "has_zone (w_db W) (z_id z)"
    using GetOwned_Inr GetByName_Some by (auto simp: has_zone_def)
  from join_sync [OF st sync this] join obtain W2 where r: "r = None"
    and add: "nft_do sv (Call_AddMember (z_id z) (n_ip n)) W1 = (None, W2)"
    and fin: "in_sync sv vn vw pool lo hi W2" by auto
  {
    fix err assume "r = Some err"
    with r show "in_sync sv vn vw pool lo hi W1" by simp
  next
    fix q W3 assume c: "nft_do sv (Call_AddMember (z_id z) (n_ip n)) W1 = (q, W3)"
    {
      assume "q = None"
      with c add fin show "in_sync sv vn vw pool lo hi W3" by simp
    next
      fix err assume "q = Some err"
      with c add show "in_sync sv vn vw pool lo hi
          (snd (db_do (Leave (at_site ''rollback: '' e) (z_id z) (n_id n)) W3))" by simp
    }
  }
qed (use sync in simp_all)

lemma auto_join_sync:
  assumes st: "steady sv e vn vw pool lo hi" and sync: "in_sync sv vn vw pool lo hi W"
    and z: "has_zone (w_db W) (z_id z)" and n: "\<And>n. member = Some n \<Longrightarrow> n \<in> set (nodes (w_db W))"
  shows "ends_in (in_sync sv vn vw pool lo hi) (auto_join sv e z member W)"
proof (cases member)
  case (Some n)
  from join_sync [OF st sync n [OF Some] z] Some show ?thesis
    by (auto simp: auto_join_def ends_in_def)
qed (use sync in \<open>simp add: auto_join_def ends_in_def\<close>)

lemma createZone_sync:
  assumes st: "steady sv e vn vw pool lo hi" and sync: "in_sync sv vn vw pool lo hi W"
  shows "ends_in (in_sync sv vn vw pool lo hi) (createZone sv e cid body W)"
  unfolding createZone_def
proof (intro branch_rules)
  fix i req member hash r W1
  assume joined: "auto_join_node e (UserID i) (cz_NodeID req) (w_db W) = Inr member"
    and new: "db_do (CreateZone e (UserID i) (TrimSpace (cz_Name req)) hash (cap i (maxOwnedZonesPerUser sv))) W = (r, W1)"
  let ?d = "w_db W" and ?h = "sv_host sv"
  have con: "consistent ?h pool lo hi ?d"
    and dp: "dp sv vn vw W (db_zones ?d) (z_id ` set (zones ?d)) (db_tunnel ?h ?d)"
    using sync by (simp_all add: in_sync_dp)
  from new obtain d' where d': "CreateZone e (UserID i) (TrimSpace (cz_Name req)) hash
      (cap i (maxOwnedZonesPerUser sv)) ?d = (r, d')" "W1 = W\<lparr>w_db := d'\<rparr>" by (auto simp: db_do_result)
  {
    fix err assume "r = Inl err"
    with d' have "d' = ?d"
      by (auto simp: CreateZone_def insertZone_def bind_res_Inr_iff
          split: sum.splits option.splits if_splits sql_error.splits constraint.splits)
    with d'(2) sync show "in_sync sv vn vw pool lo hi W1" by simp
  next
    fix z q W2
    assume "r = Inr z" and c: "nft_do sv (Call_AddZone (z_id z)) W1 = (q, W2)"
    with d' have "CreateZone e (UserID i) (TrimSpace (cz_Name req)) hash
        (cap i (maxOwnedZonesPerUser sv)) ?d = (Inr z, d')" by simp
    note plan = new_zone_plan [OF this con]
    have free: "z_id z \<notin> z_id ` set (zones ?d)" using plan by blast
    then have "db_zones ?d (z_id z) = None" by (simp add: db_zones_def has_zone_def)
    moreover have "dp sv vn vw W1 (db_zones ?d) (z_id ` set (zones ?d)) (db_tunnel ?h ?d)"
      using dp by (simp add: d'(2))
    ultimately obtain W2' where "nft_do sv (Call_AddZone (z_id z)) W1 = (None, W2')" "w_db W2' = w_db W1"
      "dp sv vn vw W2' ((db_zones ?d)(z_id z \<mapsto> ({}, {}))) (insert (z_id z) (z_id ` set (zones ?d))) (db_tunnel ?h ?d)"
      using add_zone_dp [OF steadyD(1) [OF st] _ free] by blast
    with c have q: "q = None" and W2: "w_db W2 = d'" "dp sv vn vw W2 ((db_zones ?d)(z_id z \<mapsto> ({}, {})))
        (insert (z_id z) (z_id ` set (zones ?d))) (db_tunnel ?h ?d)"
      by (simp_all add: d'(2))
    with plan have sync2: "in_sync sv vn vw pool lo hi W2" by (simp add: in_sync_dp)
    {
      fix err assume "q = Some err"
      with q show "in_sync sv vn vw pool lo hi (snd (db_do (DeleteZoneRow (at_site ''rollback: '' e) (z_id z)) W2))"
        by simp
    next
      have "has_zone (w_db W2) (z_id z)" using plan W2(1) by (auto simp: has_zone_def)
      moreover have "n \<in> set (nodes (w_db W2))" if "member = Some n" for n
        using joined that plan W2(1) GetOwned_Inr by (auto simp: auto_join_node_def split: if_splits sum.splits)
      ultimately show "ends_in (in_sync sv vn vw pool lo hi) (auto_join sv e z member W2)"
        by (rule auto_join_sync [OF st sync2])
    }
  }
qed (use sync in simp_all)

subsection \<open>Attachments that go\<close>

lemma concat_if_filter: "concat (map (\<lambda>x. if Q x then f x else []) xs) = concat (map f (filter Q xs))"
  by (induction xs) simp_all

lemma distinct_zone_anns:
  assumes "schema_ok d"
  shows "distinct (zone_anns d zid)"
proof -
  let ?row = "\<lambda>x. concat (map (\<lambda>a. if a_id a = az_ann x then [a] else []) (announcements d))"
  have "zone_anns d zid = concat (map ?row (filter (\<lambda>x. az_zone x = zid) (announcement_zones d)))"
    unfolding zone_anns_def by (rule concat_if_filter)
  moreover have "distinct \<dots>"
  proof (rule distinct_join; (intro ballI allI impI)?)
    fix x y :: az_row and c
    assume "x \<in> set (filter (\<lambda>x. az_zone x = zid) (announcement_zones d))"
      "y \<in> set (filter (\<lambda>x. az_zone x = zid) (announcement_zones d))" "c \<in> set (?row x)" "c \<in> set (?row y)"
    then show "x = y" by (auto split: if_splits)
  next
    fix x show "distinct (?row x)" by (rule distinct_keyed [OF schema_keys(3) [OF assms]]) simp
  next
    show "distinct (filter (\<lambda>x. az_zone x = zid) (announcement_zones d))"
      by (rule distinct_filter [OF schema_distinct(5) [OF assms]])
  qed
  ultimately show ?thesis by simp
qed

lemma attached_zone_anns: "a \<in> set (zone_anns d z) \<longleftrightarrow> attached_to d a z"
  unfolding set_zone_anns attached_to_iff by blast

lemma distinct_routes_of:
  assumes "schema_ok d" and "distinct as" and "set as \<subseteq> set (announcements d)"
  shows "distinct (map (\<lambda>a. (zid, block_prefix (ann_synthetic a))) as)"
  using assms(2,3) synthetic_inj [OF assms(1)] by (auto simp: distinct_map intro!: inj_onI)

text \<open>
  Attachments to one zone dropped: the routes go, then the peers in \<open>rns\<close> are recomputed. The dropped
  attachments may leave members out of step in between (a node that just left), so \<open>d\<close> need not be
  consistent itself.
\<close>

lemma drop_one_zone_dp:
  assumes st: "steady sv e vn vw pool lo hi" and con: "consistent (sv_host sv) pool lo hi d0"
    and dp: "dp sv vn vw W (db_zones d0) D T"
    and d: "schema_ok d" "announcements d = announcements d0" "announcement_zones d = announcement_zones d0"
      "zones d = zones d0"
    and ms: "distinct ms" "\<forall>(z, a) \<in> set ms. has_zone d0 z \<and> a \<in> zone_ips d0 z"
      "\<And>z. has_zone d0 z \<Longrightarrow> zone_ips d z = zone_ips d0 z - {a. (z, a) \<in> set ms}"
    and as: "distinct as" "\<And>a. a \<in> set as \<longleftrightarrow> attached_to d a zid \<and> P \<lparr>az_ann = a_id a, az_zone = zid\<rparr>"
      "\<And>x. P x \<Longrightarrow> az_zone x = zid"
  shows "dp sv vn vw
    (remove_routes sv (map (\<lambda>a. (zid, block_prefix (ann_synthetic a))) as) (remove_members sv ms W))
    (db_zones (drop_attachments P d)) D T"
proof (rule shrink_zones_dp [OF st con dp ms(1) _ ms(2)])
  let ?rs = "map (\<lambda>a. (zid, block_prefix (ann_synthetic a))) as" and ?d' = "drop_attachments P d"
  have att: "attached_to d0 = attached_to d" by (simp add: attached_to_def d(2,3) fun_eq_iff)
  have ok: "schema_ok d0" by (rule consistent_schema [OF con])
  have "set as \<subseteq> set (announcements d)" using as(2) by (auto simp: attached_to_def)
  then show "distinct ?rs" by (rule distinct_routes_of [OF d(1) as(1)])
  have rs: "(z, q) \<in> set ?rs \<longleftrightarrow> (\<exists>a. attached_to d a z \<and> P \<lparr>az_ann = a_id a, az_zone = z\<rparr> \<and>
      q = block_prefix (ann_synthetic a))" for z q
    using as(2,3) by fastforce
  show "\<forall>(z, q) \<in> set ?rs. has_zone d0 z \<and> q \<in> set (zone_routes d0 z)"
  proof (intro ballI case_prodI2)
    fix p z q assume "p \<in> set ?rs" "p = (z, q)"
    with rs obtain a where "attached_to d a z" "q = block_prefix (ann_synthetic a)" by blast
    then show "has_zone d0 z \<and> q \<in> set (zone_routes d0 z)"
      using attached_zone [OF ok] attached_route [of d0] unfolding att by blast
  qed
  show zs: "has_zone ?d' = has_zone d0" using drop_plan(3) [OF d(1)] by (simp add: has_zone_def d(4) fun_eq_iff)
  fix z assume z: "has_zone d0 z"
  show "zone_ips ?d' z = zone_ips d0 z - {a. (z, a) \<in> set ms}"
    using ms(3) [OF z] drop_plan(2) [OF d(1)] by simp
  have "{q. (z, q) \<in> set ?rs} = (block_prefix \<circ> ann_synthetic) `
      {a. attached_to d a z \<and> P \<lparr>az_ann = a_id a, az_zone = z\<rparr>}" using rs by (auto simp: image_iff)
  moreover have "set (zone_routes d0 z) = set (zone_routes d z)" unfolding set_zone_routes att ..
  ultimately show "set (zone_routes ?d' z) = set (zone_routes d0 z) - {q. (z, q) \<in> set ?rs}"
    using drop_plan(4) [OF d(1), of P z] by presburger
qed

lemma nft_try_db: "nft_try sv c (W\<lparr>w_db := d\<rparr>) = (nft_try sv c W)\<lparr>w_db := d\<rparr>"
  by (simp add: nft_try_def nft_do_def split: prod.split)

lemma remove_routes_map:
  "map dr_synthetic dets = map (block_prefix \<circ> ann_synthetic) as \<Longrightarrow>
     fold (\<lambda>det. nft_try sv (Call_RemoveZoneRoute zid (dr_synthetic det))) dets W =
     remove_routes sv (map (\<lambda>a. (zid, block_prefix (ann_synthetic a))) as) W"
proof -
  assume eq: "map dr_synthetic dets = map (block_prefix \<circ> ann_synthetic) as"
  have "fold (\<lambda>det. nft_try sv (Call_RemoveZoneRoute zid (dr_synthetic det))) dets W =
      fold (\<lambda>q. nft_try sv (Call_RemoveZoneRoute zid q)) (map dr_synthetic dets) W"
    by (simp add: fold_map comp_def)
  then show ?thesis unfolding eq by (simp add: fold_map comp_def)
qed

lemma leave_sync:
  assumes st: "steady sv e vn vw pool lo hi" and sync: "in_sync sv vn vw pool lo hi W"
    and n: "n \<in> set (nodes (w_db W))" and z: "z \<in> set (zones (w_db W))"
    and leave: "Leave e (z_id z) (n_id n) (w_db W) = (None, d1)"
  shows "in_sync sv vn vw pool lo hi (cascadeNodeZoneAnnouncements sv e n (z_id z)
    (nft_try sv (Call_RemoveMember (z_id z) (n_ip n)) (W\<lparr>w_db := d1\<rparr>)))"
proof -
  let ?d = "w_db W" and ?h = "sv_host sv" and ?P = "node_zone_attachment d1 (n_id n) (z_id z)"
  let ?as = "node_zone_anns d1 (n_id n) (z_id z)"
  have con: "consistent ?h pool lo hi ?d"
    and dp: "dp sv vn vw W (db_zones ?d) (z_id ` set (zones ?d)) (db_tunnel ?h ?d)"
    using sync by (simp_all add: in_sync_dp)
  have ok: "schema_ok ?d" by (rule consistent_schema [OF con])
  note plan = leave_plan [OF leave ok n]
  then have ok1: "schema_ok d1" and frame: "zones d1 = zones ?d" "nodes d1 = nodes ?d"
    "announcements d1 = announcements ?d" "announcement_zones d1 = announcement_zones ?d" by simp_all
  have att: "attached_to d1 = attached_to ?d" by (simp add: attached_to_def frame fun_eq_iff)
  have no: "no_orphans d1" using con by (simp add: consistent_def ann_inv_def no_orphans_iff frame)
  obtain dets d2 where det: "DetachAllForNodeZone e (n_id n) (z_id z) d1 = (Inr dets, d2)"
    using DetachAllForNodeZone_quiet [OF steadyD(2) [OF st], of "n_id n" "z_id z" d1] by (metis prod.collapse)
  note dets = DetachAllForNodeZone_success [OF no det]
  then have d2: "d2 = drop_attachments ?P d1" by blast
  have P: "?P \<lparr>az_ann = a_id a, az_zone = y\<rparr> \<longleftrightarrow> y = z_id z \<and> a_node a = n_id n"
    if "a \<in> set (announcements d1)" for a y
    using that ann_id_unique [OF ok1 that] by (auto simp: node_zone_attachment_def)
  have mem: "is_member d1 y j \<longleftrightarrow> is_member ?d y j \<and> \<not> (y = z_id z \<and> j = n_id n)" for y j
    using Leave_member [OF leave] by simp
  have inv: "ann_inv pool ?d" using con by (simp add: consistent_def)
  have con2: "consistent ?h pool lo hi d2"
    unfolding d2
  proof (rule drop_consistent [OF ok1])
    show "ann_plan pool d1" using con by (simp add: consistent_def ann_inv_def ann_plan_def frame)
    show "canonical_keys ?h d1" using con by (simp add: consistent_def canonical_keys_def frame)
    show "\<forall>n \<in> set (nodes d1). lo \<le> n_ip n \<and> n_ip n \<le> hi" using con by (simp add: consistent_def frame)
    fix a y assume a: "attached_to d1 a y" "\<not> ?P \<lparr>az_ann = a_id a, az_zone = y\<rparr>"
    then have "\<not> (y = z_id z \<and> a_node a = n_id n)" using P [of a y] by (auto simp: attached_to_def)
    with attached_is_member [OF inv] a(1) show "is_member d1 y (a_node a)" unfolding att mem by blast
  qed
  let ?W2 = "W\<lparr>w_db := d2\<rparr>"
  let ?rs = "map (\<lambda>a. (z_id z, block_prefix (ann_synthetic a))) ?as"
  let ?W3 = "remove_routes sv ?rs (remove_members sv [(z_id z, n_ip n)] ?W2)"
  let ?rns = "if list_ex dr_reclaimed dets then [node_entry n] else []"
  have step: "dp sv vn vw ?W3 (db_zones d2) (z_id ` set (zones ?d)) (db_tunnel ?h ?d)"
    unfolding d2
  proof (rule drop_one_zone_dp [OF st con _ ok1])
    show "dp sv vn vw (W\<lparr>w_db := drop_attachments ?P d1\<rparr>) (db_zones ?d) (z_id ` set (zones ?d)) (db_tunnel ?h ?d)"
      using dp by simp
    show "announcements d1 = announcements ?d" "announcement_zones d1 = announcement_zones ?d" "zones d1 = zones ?d"
      by (fact frame)+
    show "distinct [(z_id z, n_ip n)]" by simp
    have "is_member ?d (z_id z) (n_id n)" using plan by blast
    from member_zone [OF ok this] member_ip [OF this n]
    show "\<forall>(y, a) \<in> set [(z_id z, n_ip n)]. has_zone ?d y \<and> a \<in> zone_ips ?d y" by simp
    fix y assume y: "has_zone ?d y"
    have here: "has_zone ?d (z_id z)" "has_zone d1 = has_zone ?d" using z by (simp_all add: has_zone_def frame fun_eq_iff)
    from plan have "db_zones d1 y = on_zone (apfst (\<lambda>M. M - {n_ip n})) (z_id z) (db_zones ?d) y" by simp
    with y here show "zone_ips d1 y = zone_ips ?d y - {a. (y, a) \<in> set [(z_id z, n_ip n)]}"
      by (cases "y = z_id z") (simp_all add: db_zones_def on_zone_def)
  next
    show "distinct ?as" by (simp add: node_zone_anns_def distinct_zone_anns [OF ok1])
    show "a \<in> set ?as \<longleftrightarrow> attached_to d1 a (z_id z) \<and> ?P \<lparr>az_ann = a_id a, az_zone = z_id z\<rparr>" for a
      using P [of a "z_id z"] by (auto simp: node_zone_anns_def attached_zone_anns attached_to_def)
    show "az_zone x = z_id z" if "?P x" for x using that by (simp add: node_zone_attachment_def)
  qed
  have settled: "dp sv vn vw (fold (recompute sv e) ?rns ?W3) (db_zones d2) (z_id ` set (zones ?d)) (db_tunnel ?h d2)"
  proof (rule drop_settle [OF st con con2 _ _ step])
    show "nodes d2 = nodes ?d" "w_db ?W3 = d2" by (simp_all add: d2 frame_simps frame)
    show "set (announcements d2) \<subseteq> set (announcements ?d)" by (auto simp: d2 frame_simps frame)
    show "names_nodes d2 ?rns" using n by (auto simp: names_nodes_def d2 frame_simps frame)
    fix a assume a: "a \<in> set (announcements ?d)" "a \<notin> set (announcements d2)"
    then have gone: "a_id a \<notin> az_ann ` set (announcement_zones d2)"
      by (auto simp: d2 frame_simps frame)
    from a(1) no obtain y where y: "attached_to d1 a y" unfolding no_orphans_attached frame by blast
    with gone have "?P \<lparr>az_ann = a_id a, az_zone = y\<rparr>" by (force simp: attached_to_def d2 frame_simps)
    with P [of a y] a(1) have here: "y = z_id z" "a_node a = n_id n" by (simp_all add: frame)
    with y have "a \<in> set ?as" by (simp add: node_zone_anns_def attached_zone_anns)
    then have "a_id a \<in> dr_ann ` set dets" using dets by (metis image_eqI list.set_map)
    then obtain x where x: "x \<in> set dets" "dr_ann x = a_id a" by force
    with dets gone have "dr_reclaimed x" by simp
    with x(1) have "list_ex dr_reclaimed dets" unfolding list_ex_iff by blast
    with here show "a_node a \<in> rn_id ` set ?rns" by simp
  qed
  have "cascadeNodeZoneAnnouncements sv e n (z_id z)
      (nft_try sv (Call_RemoveMember (z_id z) (n_ip n)) (W\<lparr>w_db := d1\<rparr>)) = fold (recompute sv e) ?rns ?W3"
    using det dets by (simp add: cascadeNodeZoneAnnouncements_def db_do_def call_frame nft_try_db
        remove_routes_map [where as = ?as])
  moreover have "w_db (fold (recompute sv e) ?rns ?W3) = d2" by (simp add: call_frame tries_frame)
  moreover have "zones d2 = zones ?d" by (simp add: d2 frame_simps frame)
  ultimately show ?thesis using con2 settled by (simp only: in_sync_dp)
qed

lemma Leave_keeps: "Leave e zid nid d = (Some err, d') \<Longrightarrow> d' = d"
  by (auto simp: Leave_def split: if_splits)

lemma remove_member_sync:
  assumes st: "steady sv e vn vw pool lo hi" and sync: "in_sync sv vn vw pool lo hi W"
    and n: "n \<in> set (nodes (w_db W))" and z: "z \<in> set (zones (w_db W))"
  shows "ends_in (in_sync sv vn vw pool lo hi) (remove_member sv e z n W)"
  unfolding remove_member_def
proof (intro branch_rules)
  fix r W1 assume "db_do (Leave e (z_id z) (n_id n)) W = (r, W1)"
  then obtain d1 where d1: "Leave e (z_id z) (n_id n) (w_db W) = (r, d1)" "W1 = W\<lparr>w_db := d1\<rparr>"
    by (auto simp: db_do_result)
  {
    assume "r = None"
    with d1 leave_sync [OF st sync n z] show "in_sync sv vn vw pool lo hi (cascadeNodeZoneAnnouncements sv e n (z_id z)
        (nft_try sv (Call_RemoveMember (z_id z) (n_ip n)) W1))" by simp
  next
    fix err assume "r = Some err"
    with d1 Leave_keeps sync show "in_sync sv vn vw pool lo hi W1" by fastforce
  }
qed

lemma leaveZone_sync:
  assumes "steady sv e vn vw pool lo hi" and "in_sync sv vn vw pool lo hi W"
  shows "ends_in (in_sync sv vn vw pool lo hi) (leaveZone sv e cid name body W)"
  unfolding leaveZone_def
proof (intro branch_rules)
  fix i nid found z n
  assume "GetByName e name (w_db W) = Inr found" "found = Some z" "GetOwned e (UserID i) nid (w_db W) = Inr n"
  then have "n \<in> set (nodes (w_db W))" "z \<in> set (zones (w_db W))" using GetOwned_Inr GetByName_Some by auto
  then show "ends_in (in_sync sv vn vw pool lo hi) (remove_member sv e z n W)"
    by (rule remove_member_sync [OF assms])
qed (use assms(2) in simp_all)

lemma kickMember_sync:
  assumes "steady sv e vn vw pool lo hi" and "in_sync sv vn vw pool lo hi W"
  shows "ends_in (in_sync sv vn vw pool lo hi) (kickMember sv e cid name path W)"
  unfolding kickMember_def
proof (intro branch_rules)
  fix i z nid n
  assume z: "z \<in> set (zones (w_db W))" and "GetNodeByID e nid (w_db W) = Inr n"
  then have "n \<in> set (nodes (w_db W))" using GetNodeByID_Inr by auto
  then show "ends_in (in_sync sv vn vw pool lo hi) (remove_member sv e z n W)"
    by (rule remove_member_sync [OF assms _ z])
qed (use assms(2) in simp_all)

lemma changeZonePassword_sync:
  assumes st: "steady sv e vn vw pool lo hi" and sync: "in_sync sv vn vw pool lo hi W"
  shows "ends_in (in_sync sv vn vw pool lo hi) (changeZonePassword sv e cid name body W)"
  unfolding changeZonePassword_def
proof (intro branch_rules)
  fix z hash r W1 assume "db_do (UpdatePassword e (z_id z) hash) W = (r, W1)"
  then obtain d1 where d1: "UpdatePassword e (z_id z) hash (w_db W) = (r, d1)" "W1 = W\<lparr>w_db := d1\<rparr>"
    by (auto simp: db_do_result)
  let ?d = "w_db W" and ?f = "\<lambda>y. if z_id y = z_id z then y\<lparr>z_password_hash := hash\<rparr> else y"
  have con: "consistent (sv_host sv) pool lo hi ?d" using sync by (simp add: in_sync_def)
  have eq: "d1 = ?d\<lparr>zones := map ?f (zones ?d)\<rparr>"
    using d1(1) quiet_fault [OF steadyD(2) [OF st]] by (simp add: UpdatePassword_def)
  have "schema_ok d1" using UpdatePassword_ok [OF consistent_schema [OF con], of e "z_id z" hash] d1(1) by simp
  then have con1: "consistent (sv_host sv) pool lo hi d1"
    by (rule consistent_frame [OF con]) (simp_all add: eq is_member_def)
  have ids: "z_id ` set (zones d1) = z_id ` set (zones ?d)" 
  proof -
    have "map z_id (map ?f (zones ?d)) = map z_id (zones ?d)" by simp
    moreover have "zones d1 = map ?f (zones ?d)" by (simp add: eq)
    ultimately show ?thesis by (metis set_map)
  qed
  have mem: "is_member d1 = is_member ?d" "attached_to d1 = attached_to ?d" "nodes d1 = nodes ?d"
    by (simp_all add: eq is_member_def attached_to_def fun_eq_iff)
  have "zone_ips d1 y = zone_ips ?d y" "set (zone_routes d1 y) = set (zone_routes ?d y)" for y
    unfolding zone_ips_def set_zone_routes mem by (rule refl)+
  then have "db_zones d1 = db_zones ?d" by (simp add: db_zones_def fun_eq_iff has_zone_def ids)
  moreover have "db_tunnel (sv_host sv) d1 = db_tunnel (sv_host sv) ?d" by (rule db_tunnel_frame) (simp_all add: eq)
  ultimately show "in_sync sv vn vw pool lo hi W1" "in_sync sv vn vw pool lo hi W1"
    unfolding d1(2) by (rule sync_frame [OF sync con1 _ ids])+
qed (use sync in simp_all)

lemma drop_keeps_consistent:
  assumes "consistent h pool lo hi d"
  shows "consistent h pool lo hi (drop_attachments P d)"
proof (rule drop_consistent [OF consistent_schema [OF assms]])
  have inv: "ann_inv pool d" using assms by (simp add: consistent_def)
  show "is_member d z (a_node a)" if "attached_to d a z" for a z by (rule attached_is_member [OF inv that])
qed (use assms in \<open>simp_all add: consistent_def ann_inv_def\<close>)

lemma GetAnnouncement_Inr:
  "GetAnnouncement e aid d = Inr ann \<Longrightarrow> \<exists>a \<in> set (announcements d). a_id a = aid \<and> ann = ann_of_row a"
  by (auto simp: GetAnnouncement_def dest: find_Some_mem split: if_splits option.splits)

lemma ann_of_row_sel [simp]:
  "AnnID (ann_of_row a) = a_id a" "AnnNodeID (ann_of_row a) = a_node a" "Synthetic (ann_of_row a) = ann_synthetic a"
  by (simp_all add: ann_of_row_def announcementFromRow_def ann_synthetic_def ann_real_def)

lemma detach_sync:
  assumes st: "steady sv e vn vw pool lo hi" and sync: "in_sync sv vn vw pool lo hi W"
    and a: "a \<in> set (announcements (w_db W))" and n: "n \<in> set (nodes (w_db W))" "n_id n = a_node a"
    and detach: "Detach e' zid (a_id a) (w_db W) = (Inr (ann, reclaimed), d')"
  shows "in_sync sv vn vw pool lo hi
    (let W2 = nft_try sv (Call_RemoveZoneRoute zid (block_prefix (ann_synthetic a))) (W\<lparr>w_db := d'\<rparr>)
     in if reclaimed then recompute_peer sv e (n_id n) (n_wg_pubkey n) (n_ip n) W2 else W2)"
proof -
  let ?d = "w_db W" and ?h = "sv_host sv" and ?P = "\<lambda>x. az_ann x = a_id a \<and> az_zone x = zid"
  have con: "consistent ?h pool lo hi ?d"
    and dp: "dp sv vn vw W (db_zones ?d) (z_id ` set (zones ?d)) (db_tunnel ?h ?d)"
    using sync by (simp_all add: in_sync_dp)
  have ok: "schema_ok ?d" by (rule consistent_schema [OF con])
  have no: "no_orphans ?d" using con by (simp add: consistent_def ann_inv_def)
  from Detach_cases [OF ok no detach] have az: "\<lparr>az_ann = a_id a, az_zone = zid\<rparr> \<in> set (announcement_zones ?d)"
    and d': "d' = drop_attachments ?P ?d" and rec: "reclaimed \<longleftrightarrow> \<not> has_ann d' (a_id a)" by simp_all
  have con': "consistent ?h pool lo hi d'" unfolding d' by (rule drop_keeps_consistent [OF con])
  let ?W2 = "remove_routes sv [(zid, block_prefix (ann_synthetic a))] (remove_members sv [] (W\<lparr>w_db := d'\<rparr>))"
  let ?rns = "if reclaimed then [node_entry n] else []"
  have "dp sv vn vw (remove_routes sv (map (\<lambda>a. (zid, block_prefix (ann_synthetic a))) [a])
      (remove_members sv [] (W\<lparr>w_db := d'\<rparr>))) (db_zones (drop_attachments ?P ?d)) (z_id ` set (zones ?d)) (db_tunnel ?h ?d)"
  proof (rule drop_one_zone_dp [OF st con _ ok])
    show "b \<in> set [a] \<longleftrightarrow> attached_to ?d b zid \<and> ?P \<lparr>az_ann = a_id b, az_zone = zid\<rparr>" for b
    proof
      assume "b \<in> set [a]"
      then have "b = a" by simp
      with a az show "attached_to ?d b zid \<and> ?P \<lparr>az_ann = a_id b, az_zone = zid\<rparr>" by (simp add: attached_to_def)
    next
      assume "attached_to ?d b zid \<and> ?P \<lparr>az_ann = a_id b, az_zone = zid\<rparr>"
      then have "b \<in> set (announcements ?d)" "a_id a = a_id b" by (simp_all add: attached_to_def)
      from ann_id_unique [OF ok a this] show "b \<in> set [a]" by simp
    qed
  qed (use dp in simp_all)
  then have step: "dp sv vn vw ?W2 (db_zones d') (z_id ` set (zones ?d)) (db_tunnel ?h ?d)" by (simp add: d')
  have settled: "dp sv vn vw (fold (recompute sv e) ?rns ?W2) (db_zones d') (z_id ` set (zones ?d)) (db_tunnel ?h d')"
  proof (rule drop_settle [OF st con con' _ _ step])
    show "nodes d' = nodes ?d" "w_db ?W2 = d'" by (simp_all add: d' frame_simps)
    show "set (announcements d') \<subseteq> set (announcements ?d)" by (auto simp: d' frame_simps)
    show "names_nodes d' ?rns" using n(1) by (auto simp: names_nodes_def d' frame_simps)
    fix b assume b: "b \<in> set (announcements ?d)" "b \<notin> set (announcements d')"
    from b(1) no obtain y where y: "attached_to ?d b y" unfolding no_orphans_attached by blast
    with b(2) have "?P \<lparr>az_ann = a_id b, az_zone = y\<rparr>" by (force simp: attached_to_def d' frame_simps)
    with ann_id_unique [OF ok a b(1)] have "b = a" by simp
    with b(2) ann_id_unique [OF ok a] have "\<not> has_ann d' (a_id a)" by (auto simp: has_ann_def d' frame_simps)
    with rec \<open>b = a\<close> n(2) show "a_node b \<in> rn_id ` set ?rns" by simp
  qed
  have "(let W2 = nft_try sv (Call_RemoveZoneRoute zid (block_prefix (ann_synthetic a))) (W\<lparr>w_db := d'\<rparr>)
     in if reclaimed then recompute_peer sv e (n_id n) (n_wg_pubkey n) (n_ip n) W2 else W2) =
     fold (recompute sv e) ?rns ?W2" by simp
  moreover have "w_db (fold (recompute sv e) ?rns ?W2) = d'" by (simp add: call_frame tries_frame)
  moreover have "zones d' = zones ?d" by (simp add: d' frame_simps)
  ultimately show ?thesis using con' settled by (simp only: in_sync_dp)
qed

lemma deleteAnnouncement_sync:
  assumes st: "steady sv e vn vw pool lo hi" and sync: "in_sync sv vn vw pool lo hi W"
  shows "ends_in (in_sync sv vn vw pool lo hi) (deleteAnnouncement sv e cid name path W)"
  unfolding deleteAnnouncement_def
proof (intro branch_rules)
  fix z aid ann n r W1
  assume "GetAnnouncement e aid (w_db W) = Inr ann" and n: "GetNodeByID e (AnnNodeID ann) (w_db W) = Inr n"
    and c: "db_do (Detach (at_site ''handler: '' e) (z_id z) aid) W = (r, W1)"
  from GetAnnouncement_Inr [OF this(1)] obtain a where
    a: "a \<in> set (announcements (w_db W))" "aid = a_id a" "ann = ann_of_row a" by auto
  from GetNodeByID_Inr [OF n] a have n: "n \<in> set (nodes (w_db W))" "n_id n = a_node a" by simp_all
  from c obtain d' where d': "Detach (at_site ''handler: '' e) (z_id z) (a_id a) (w_db W) = (r, d')" "W1 = W\<lparr>w_db := d'\<rparr>"
    by (auto simp: db_do_result a)
  have con: "consistent (sv_host sv) pool lo hi (w_db W)" using sync by (simp add: in_sync_def)
  {
    fix err assume "r = Inl err"
    with Detach_cases [OF consistent_schema [OF con] _ d'(1)] con have "d' = w_db W"
      by (simp add: consistent_def ann_inv_def)
    with d'(2) sync show "in_sync sv vn vw pool lo hi W1" by simp
  next
    fix p detached reclaimed W2 assume "r = Inr p" "p = (detached, reclaimed)"
      and W2: "W2 = nft_try sv (Call_RemoveZoneRoute (z_id z) (block_prefix (Synthetic ann))) W1"
    with d' have "Detach (at_site ''handler: '' e) (z_id z) (a_id a) (w_db W) = (Inr (detached, reclaimed), d')" by simp
    from detach_sync [OF st sync a(1) n this] show "in_sync sv vn vw pool lo hi
        (if reclaimed then recompute_peer sv e (n_id n) (n_wg_pubkey n) (n_ip n) W2 else W2)"
      unfolding W2 d'(2) a(3) ann_of_row_sel Let_def .
  }
qed (use sync in simp_all)

end
