(* ===== verification/Api_Sync_Cascade.thy ===== *)
theory Api_Sync_Cascade
  imports Api_Sync_Zones
begin

text \<open>
  The handlers whose changes reach several peers keep the kernel in step with the database:
  announcing a subnet, deleting a zone, deleting a user.
\<close>

section \<open>Lemmas\<close>

subsection \<open>Announcing\<close>

text \<open>The peers a consistent database asks for do not compete for an address.\<close>

lemma db_tunnel_apart:
  assumes con: "consistent (sv_host sv) pool lo hi d" and pools: "pools_ok sv pool lo hi"
  shows "tunnel_apart (db_tunnel (sv_host sv) d)"
proof -
  have "plan_ok (sv_host sv) (node_peers d)"
    using node_peers_plan [OF con] pools by (simp add: pools_ok_def)
  from plan_tunnel_apart [OF this] show ?thesis by (simp add: peers_map_db [OF consistent_keys [OF con]])
qed

lemma announce_sync:
  assumes st: "steady sv e vn vw pool lo hi" and sync: "in_sync sv vn vw pool lo hi W"
    and n: "n \<in> set (nodes (w_db W))"
    and ann: "CreateAnnouncement e' uid (n_id n) real zid limit (P4 pool) (w_db W) = (Inr (ann, True), d')"
  shows "\<exists>W'. grow_dataplane sv e zid n ann (W\<lparr>w_db := d'\<rparr>) = (True, W') \<and> in_sync sv vn vw pool lo hi W'"
proof -
  let ?d = "w_db W" and ?h = "sv_host sv" and ?W1 = "W\<lparr>w_db := d'\<rparr>"
  have con: "consistent ?h pool lo hi ?d"
    and dp: "dp sv vn vw W (db_zones ?d) (z_id ` set (zones ?d)) (db_tunnel ?h ?d)"
    using sync by (simp_all add: in_sync_dp)
  obtain k where k: "parse_key ?h (n_wg_pubkey n) = Some k" using node_key [OF con n] by blast
  note plan = announce_plan [OF ann con steadyD(4) [OF st] n k]
  have con': "consistent ?h pool lo hi d'" and T': "db_tunnel ?h d' = (db_tunnel ?h ?d)(k \<mapsto> node_allowed d' n)"
    using plan by blast+
  have zid: "has_zone ?d zid" and Z': "db_zones d' = on_zone (apsnd (insert (block_prefix (Synthetic ann)))) zid (db_zones ?d)"
    using plan by simp_all
  have frame: "zones d' = zones ?d" "nodes d' = nodes ?d" using plan by blast+
  have "A \<inter> node_allowed d' n = {}" if "k' \<noteq> k" "db_tunnel ?h ?d k' = Some A" for k' A
  proof -
    from that have "db_tunnel ?h d' k' = Some A" "db_tunnel ?h d' k = Some (node_allowed d' n)"
      by (simp_all add: T')
    with db_tunnel_apart [OF con' steadyD(3) [OF st]] that(1)
    have "prefix_addrs x \<inter> prefix_addrs x = {}" if "x \<in> A" "x \<in> node_allowed d' n" for x
      using that unfolding tunnel_apart_def by metis
    then show ?thesis using prefix_addrs_nonempty by blast
  qed
  then have "\<forall>k' A. k' \<noteq> k \<longrightarrow> db_tunnel ?h ?d k' = Some A \<longrightarrow>
      A \<inter> allowed_of (n_ip n) (node_routes d' (n_id n)) = {}" by (simp add: node_allowed_def)
  from set_routes_dp [OF steadyD(1) [OF st] _ k this, of ?W1] dp obtain W2 where
    W2: "set_routes sv (n_wg_pubkey n) (n_ip n) (node_routes d' (n_id n)) ?W1 = (None, W2)" "w_db W2 = d'"
      "dp sv vn vw W2 (db_zones ?d) (z_id ` set (zones ?d)) (db_tunnel ?h d')"
    by (auto simp: T' node_allowed_def)
  have "fw_ready (sv_table sv) (Call_AddZoneRoute zid (block_prefix (Synthetic ann))) (vn (w_nft W2)) (db_zones ?d)"
    using zid by (simp add: db_zones_def)
  from nft_edit_dp [OF steadyD(1) [OF st] W2(3) this] obtain W3 where
    W3: "nft_do sv (Call_AddZoneRoute zid (block_prefix (Synthetic ann))) W2 = (None, W3)" "w_db W3 = d'"
      "dp sv vn vw W3 (db_zones d') (z_id ` set (zones d')) (db_tunnel ?h d')"
    by (auto simp: Z' W2(2) frame)
  then have "in_sync sv vn vw pool lo hi W3" using con' by (simp add: in_sync_dp)
  with W2 W3 show ?thesis
    by (simp add: grow_dataplane_def RoutesForNode_def quiet_fault [OF steadyD(2) [OF st]])
qed

lemma createAnnouncement_sync:
  assumes st: "steady sv e vn vw pool lo hi" and sync: "in_sync sv vn vw pool lo hi W"
  shows "ends_in (in_sync sv vn vw pool lo hi) (createAnnouncement sv e cid name body W)"
  unfolding createAnnouncement_def
proof (intro branch_rules)
  fix i z req pool' n p r W1
  assume pool: "announcePool sv = Some pool'"
    and n: "GetOwned e (UserID i) (ca_NodeID req) (w_db W) = Inr n"
    and ann: "db_do (CreateAnnouncement e (UserID i) (n_id n) (BlockFromPrefix (Masked p)) (z_id z)
        (cap i (maxAnnouncedSubnetsPerUser sv)) (P4 pool')) W = (r, W1)"
  have same: "pool' = pool" using pool steadyD(3) [OF st] by (simp add: pools_ok_def)
  have n: "n \<in> set (nodes (w_db W))" using GetOwned_Inr [OF n] by blast
  from ann obtain d' where d': "CreateAnnouncement e (UserID i) (n_id n) (BlockFromPrefix (Masked p)) (z_id z)
      (cap i (maxAnnouncedSubnetsPerUser sv)) (P4 pool) (w_db W) = (r, d')" "W1 = W\<lparr>w_db := d'\<rparr>"
    by (auto simp: db_do_result same)
  {
    fix err assume "r = Inl err"
    with d' CreateAnnouncement_Inl have "d' = w_db W" by blast
    with d'(2) sync show "in_sync sv vn vw pool lo hi W1" by simp
  next
    fix a ann attached ended W2
    assume r: "r = Inr a" "a = (ann, attached)"
      and g: "(if attached then grow_dataplane sv e (z_id z) n ann W1 else (True, W1)) = (ended, W2)"
    have c: "CreateAnnouncement e (UserID i) (n_id n) (BlockFromPrefix (Masked p)) (z_id z)
        (cap i (maxAnnouncedSubnetsPerUser sv)) (P4 pool) (w_db W) = (Inr (ann, attached), d')"
      using d'(1) r by simp
    have fin: "in_sync sv vn vw pool lo hi W2 \<and> ended"
    proof (cases attached)
      case att: True
      then have True: "attached = True" by simp
      from announce_sync [OF st sync n c [unfolded True]] obtain W' where
        "grow_dataplane sv e (z_id z) n ann (W\<lparr>w_db := d'\<rparr>) = (True, W')" "in_sync sv vn vw pool lo hi W'" by auto
      with g True d'(2) show ?thesis by simp
    next
      case False
      have con: "consistent (sv_host sv) pool lo hi (w_db W)" using sync by (simp add: in_sync_def)
      obtain k where k: "parse_key (sv_host sv) (n_wg_pubkey n) = Some k" using node_key [OF con n] by blast
      from announce_plan [OF c con steadyD(4) [OF st] n k] False have "d' = w_db W" by blast
      with g False d'(2) sync show ?thesis by simp
    qed
    { assume "ended" with fin show "in_sync sv vn vw pool lo hi W2" by blast }
    { assume "\<not> ended" with fin show "in_sync sv vn vw pool lo hi W2" by blast }
  }
qed (use sync in simp_all)

subsection \<open>Deleting a zone\<close>

text \<open>The peers the \<^verbatim>\<open>seen\<close> loop recomputes, in its order.\<close>

fun reclaimed_nodes :: "db \<Rightarrow> int set \<Rightarrow> zone_detachment list \<Rightarrow> recompute_node list" where
  "reclaimed_nodes d seen [] = []"
| "reclaimed_nodes d seen (det # dets) =
     (if \<not> zd_reclaimed det \<or> zd_node det \<in> seen then reclaimed_nodes d seen dets
      else map node_entry (filter (\<lambda>n. n_id n = zd_node det) (nodes d))
        @ reclaimed_nodes d (insert (zd_node det) seen) dets)"

lemma filter_unique:
  assumes "distinct (map f xs)" and "x \<in> set xs" and "f x = c"
  shows "filter (\<lambda>y. f y = c) xs = [x]"
proof -
  have "set (filter (\<lambda>y. f y = c) xs) = {x}"
  proof (intro equalityI subsetI)
    fix y assume "y \<in> set (filter (\<lambda>y. f y = c) xs)"
    then have "y \<in> set xs" "f y = f x" using assms(3) by simp_all
    with distinct_map_eqD [OF assms(1) _ assms(2)] show "y \<in> {x}" by simp
  qed (use assms in simp)
  moreover have "distinct (filter (\<lambda>y. f y = c) xs)" using assms(1) by (simp add: distinct_map)
  ultimately show ?thesis by (rule distinct_singleton [rotated])
qed

lemma recompute_loop_fold:
  assumes "quiet e" and "schema_ok d"
  shows "w_db W = d \<Longrightarrow> recompute_loop sv e seen dets W = fold (recompute sv e) (reclaimed_nodes d seen dets) W"
proof (induction dets arbitrary: seen W)
  case (Cons det dets)
  show ?case
  proof (cases "find (\<lambda>n. n_id n = zd_node det) (nodes d)")
    case None
    then have "filter (\<lambda>n. n_id n = zd_node det) (nodes d) = []" by (auto simp: find_None_iff filter_empty_conv)
    with None Cons show ?thesis by (simp add: GetNodeByID_def quiet_fault [OF assms(1)])
  next
    case (Some n)
    then have "n \<in> set (nodes d)" "n_id n = zd_node det" using find_Some_mem [OF Some] by simp_all
    then have "filter (\<lambda>n. n_id n = zd_node det) (nodes d) = [n]" by (rule filter_unique [OF schema_keys(1) [OF assms(2)]])
    with Some Cons \<open>n_id n = zd_node det\<close> show ?thesis
      by (simp add: GetNodeByID_def quiet_fault [OF assms(1)] call_frame)
  qed
qed simp

lemma reclaimed_names: "names_nodes d (reclaimed_nodes d seen dets)"
proof (induction dets arbitrary: seen)
  case (Cons det dets)
  have "names_nodes d (xs @ ys) \<longleftrightarrow> names_nodes d xs \<and> names_nodes d ys" for xs ys
    by (auto simp: names_nodes_def)
  moreover have "names_nodes d (map node_entry (filter (\<lambda>n. n_id n = zd_node det) (nodes d)))"
    unfolding names_nodes_def set_map set_filter by blast
  ultimately show ?case using Cons by simp
qed (simp add: names_nodes_def)

lemma reclaimed_covers:
  "\<lbrakk>det \<in> set dets; zd_reclaimed det; zd_node det \<notin> seen; has_node d (zd_node det)\<rbrakk> \<Longrightarrow>
     zd_node det \<in> rn_id ` set (reclaimed_nodes d seen dets)"
proof (induction dets arbitrary: seen)
  case (Cons x dets)
  show ?case
  proof (cases "zd_reclaimed x \<and> zd_node x \<notin> seen \<and> zd_node x = zd_node det")
    case True
    with Cons.prems(4) show ?thesis by (force simp: has_node_def image_iff)
  next
    case False
    with Cons.prems have "det \<in> set dets" by auto
    with False Cons.IH [of seen] Cons.IH [of "insert (zd_node x) seen"] Cons.prems show ?thesis
      by (auto simp: image_Un)
  qed
qed simp

lemma DetachAllForZone_out:
  assumes "DetachAllForZone e zid d = (Inr out, d')" and "a \<in> set (zone_anns d zid)"
  shows "\<exists>det \<in> set out. zd_ann det = a_id a \<and> zd_node det = a_node a"
proof -
  from assms(1) obtain d1 d2 where "reclaim_loop e (zone_dets d zid) d1 = Inr (out, d2)"
    by (auto simp: DetachAllForZone_def split: if_splits sum.splits)
  from reclaim_loop_spec [OF this] have
    out: "out = map (\<lambda>x. x\<lparr>zd_reclaimed := zd_ann x \<notin> az_ann ` set (announcement_zones d1)\<rparr>) (zone_dets d zid)" by blast
  show ?thesis unfolding out zone_dets_def using assms(2) by force
qed

lemma delete_zone_sync:
  assumes st: "steady sv e vn vw pool lo hi" and sync: "in_sync sv vn vw pool lo hi W"
    and detach: "DetachAllForZone e zid (w_db W) = (Inr dets, d1)"
    and del: "DeleteZoneRow e zid d1 = (None, d2)"
  shows "in_sync sv vn vw pool lo hi
    (recomputeReclaimedPeers sv e dets (nft_try sv (Call_DeleteZone zid) (W\<lparr>w_db := d2\<rparr>)))"
proof -
  let ?d = "w_db W" and ?h = "sv_host sv" and ?W2 = "nft_try sv (Call_DeleteZone zid) (W\<lparr>w_db := d2\<rparr>)"
  have con: "consistent ?h pool lo hi ?d"
    and dp: "dp sv vn vw W (db_zones ?d) (z_id ` set (zones ?d)) (db_tunnel ?h ?d)"
    using sync by (simp_all add: in_sync_dp)
  have ok: "schema_ok ?d" by (rule consistent_schema [OF con])
  have no: "no_orphans ?d" using con by (simp add: consistent_def ann_inv_def)
  note dets = DetachAllForZone_success [OF ok no detach]
  then have d1: "d1 = drop_attachments (\<lambda>x. az_zone x = zid) ?d" by blast
  have d2: "d2 = delete_zones (\<lambda>z. z_id z = zid) (drop_attachments (\<lambda>x. az_zone x = zid) ?d)"
    using del by (simp add: DeleteZoneRow_def d1 split: if_splits)
  note plan = delete_zone_plan [OF con d2]
  then have con2: "consistent ?h pool lo hi d2" and anns: "announcements d2 = announcements d1"
    and frame: "nodes d2 = nodes ?d" by (simp_all add: d1)
  let ?rns = "reclaimed_nodes d2 {} dets"
  from delete_zone_dp [OF steadyD(1) [OF st], of "W\<lparr>w_db := d2\<rparr>" _ _ _ zid] dp plan
  have step: "dp sv vn vw ?W2 (db_zones d2) (z_id ` set (zones d2)) (db_tunnel ?h ?d)" by simp
  have "dp sv vn vw (fold (recompute sv e) ?rns ?W2) (db_zones d2) (z_id ` set (zones d2)) (db_tunnel ?h d2)"
  proof (rule drop_settle [OF st con con2 frame _ step])
    show "set (announcements d2) \<subseteq> set (announcements ?d)" by (auto simp: anns d1 frame_simps)
    show "w_db ?W2 = d2" by (simp add: call_frame)
    show "names_nodes d2 ?rns" by (rule reclaimed_names)
    fix a assume a: "a \<in> set (announcements ?d)" "a \<notin> set (announcements d2)"
    then have gone: "a_id a \<notin> az_ann ` set (announcement_zones d1)" by (auto simp: anns d1 frame_simps)
    from a(1) no obtain y where y: "attached_to ?d a y" unfolding no_orphans_attached by blast
    with gone have "y = zid" by (force simp: attached_to_def d1 frame_simps)
    with y have "a \<in> set (zone_anns ?d zid)" by (simp add: attached_zone_anns)
    from DetachAllForZone_out [OF detach this] obtain det where
      det: "det \<in> set dets" "zd_ann det = a_id a" "zd_node det = a_node a" by blast
    with dets gone have "zd_reclaimed det" by simp
    moreover have "has_node d2 (zd_node det)"
      using ok a(1) by (simp add: schema_ok_def fk_ok_def det(3) has_node_def frame)
    ultimately show "a_node a \<in> rn_id ` set ?rns"
      using reclaimed_covers [OF det(1), of "{}"] det(3) by simp
  qed
  moreover have "recomputeReclaimedPeers sv e dets ?W2 = fold (recompute sv e) ?rns ?W2"
    unfolding recomputeReclaimedPeers_def
    by (rule recompute_loop_fold [OF steadyD(2) [OF st] consistent_schema [OF con2]]) (simp add: call_frame)
  moreover have "w_db (fold (recompute sv e) ?rns ?W2) = d2"
  proof -
    have "w_db (fold (recompute sv e) rns V) = w_db V" for rns V
      by (induction rns arbitrary: V) (simp_all add: call_frame)
    then show ?thesis by (simp add: call_frame)
  qed
  ultimately show ?thesis using con2 by (simp only: in_sync_dp)
qed

lemma DetachAllForZone_keeps: "DetachAllForZone e zid d = (Inl err, d') \<Longrightarrow> d' = d"
  by (auto simp: DetachAllForZone_def split: if_splits sum.splits)

lemma deleteZone_sync:
  assumes st: "steady sv e vn vw pool lo hi" and sync: "in_sync sv vn vw pool lo hi W"
  shows "ends_in (in_sync sv vn vw pool lo hi) (deleteZone sv e cid name W)"
  unfolding deleteZone_def
proof (intro branch_rules)
  fix z r W1 assume "db_do (DetachAllForZone e (z_id z)) W = (r, W1)"
  then obtain d1 where d1: "DetachAllForZone e (z_id z) (w_db W) = (r, d1)" "W1 = W\<lparr>w_db := d1\<rparr>"
    by (auto simp: db_do_result)
  {
    fix err assume "r = Inl err"
    with d1 DetachAllForZone_keeps have "d1 = w_db W" by blast
    with d1(2) sync show "in_sync sv vn vw pool lo hi W1" by simp
  next
    fix dets q W2 assume r: "r = Inr dets" and "db_do (DeleteZoneRow e (z_id z)) W1 = (q, W2)"
    then obtain d2 where d2: "DeleteZoneRow e (z_id z) d1 = (q, d2)" "W2 = W\<lparr>w_db := d2\<rparr>"
      using d1(2) by (auto simp: db_do_result)
    have q: "q = None" using d2(1) quiet_fault [OF steadyD(2) [OF st]] by (simp add: DeleteZoneRow_def)
    {
      assume "q = None"
      with d2 delete_zone_sync [OF st sync d1(1) [unfolded r]] show "in_sync sv vn vw pool lo hi
          (recomputeReclaimedPeers sv e dets (nft_try sv (Call_DeleteZone (z_id z)) W2))" by simp
    next
      fix err assume "q = Some err"
      with q show "in_sync sv vn vw pool lo hi W2" by simp
    }
  }
qed (use sync in simp_all)

subsection \<open>Deleting a user\<close>

lemma recomputes_frame: "w_db (fold (recompute sv e) rns W) = w_db W"
  by (induction rns arbitrary: W) (simp_all add: call_frame)

lemma gathered_membership:
  assumes "(z, a) \<in> (\<lambda>m. (sm_zone m, sm_ip m)) ` set (gather_memberships i d)" and "schema_ok d"
  shows "has_zone d z \<and> a \<in> zone_ips d z"
  using assms(1) member_zone [OF assms(2)] member_ip unfolding set_gather_memberships by blast

lemma gathered_route:
  assumes "(z, q) \<in> (\<lambda>x. (sr_zone x, sr_synthetic x)) ` set (gather_routes i d)" and "schema_ok d"
  shows "has_zone d z \<and> q \<in> set (zone_routes d z) \<and> z \<notin> z_id ` {z \<in> set (zones d). z_owner z = i}"
proof -
  from assms(1) obtain a y where a: "attached_to d a z" "q = block_prefix (ann_synthetic a)"
    and y: "y \<in> set (zones d)" "z_id y = z" "z_owner y \<noteq> i" unfolding set_gather_routes by blast
  have "z \<notin> z_id ` {z \<in> set (zones d). z_owner z = i}"
    using zone_id_unique [OF assms(2) y(1)] y(2,3) by blast
  with attached_zone [OF assms(2) a(1)] attached_route [OF a(1)] a(2) show ?thesis by blast
qed

lemma forget_user_dp:
  assumes st: "steady sv e vn vw pool lo hi" and con: "consistent (sv_host sv) pool lo hi d"
    and dp: "dp sv vn vw W (db_zones d) (z_id ` set (zones d)) (db_tunnel (sv_host sv) d)" "w_db W = d'"
    and del: "DeleteCascade e' i d = (Inr r, d')"
  shows "w_db (forget_user sv e r W) = d' \<and>
    dp sv vn vw (forget_user sv e r W) (db_zones d') (z_id ` set (zones d')) (db_tunnel (sv_host sv) d')"
proof -
  let ?h = "sv_host sv"
  let ?ms = "map (\<lambda>m. (sm_zone m, sm_ip m)) (SurvivingMemberships r)"
  let ?rs = "map (\<lambda>x. (sr_zone x, sr_synthetic x)) (SurvivingZoneRoutes r)"
  let ?T = "\<lambda>k. if Some k \<in> parse_key ?h ` set (NodePubKeys r) then None else db_tunnel ?h d k"
  let ?W1 = "fold (wg_remove sv) (NodePubKeys r) W"
  let ?W2 = "remove_members sv ?ms ?W1"
  let ?W3 = "fold (nft_try sv) (map Call_DeleteZone (OwnedZoneIDs r)) ?W2"
  let ?W4 = "remove_routes sv ?rs ?W3"
  let ?Z2 = "\<lambda>z. map_option (apfst (\<lambda>M. M - {a. (z, a) \<in> set ?ms})) (db_zones d z)"
  let ?Z3 = "\<lambda>z. if z \<in> set (OwnedZoneIDs r) then None else ?Z2 z"
  have ok: "schema_ok d" by (rule consistent_schema [OF con])
  note res = DeleteCascade_result [OF del]
  have owned: "set (OwnedZoneIDs r) = z_id ` {z \<in> set (zones d). z_owner z = i}" by (auto simp: res)
  note tun = user_plan_tunnel [OF del con]
  have w1: "dp sv vn vw ?W1 (db_zones d) (z_id ` set (zones d)) ?T"
    using tun(4) by (intro wg_removes_dp [OF steadyD(1) [OF st] dp(1)]) blast
  have w2: "dp sv vn vw ?W2 ?Z2 (z_id ` set (zones d)) ?T"
  proof (rule remove_members_dp [OF steadyD(1) [OF st] w1])
    show "distinct ?ms"
      using distinct_gather_memberships [OF ok, of i] by (simp add: res distinct_map inj_on_def)
    show "\<forall>(z, a) \<in> set ?ms. \<exists>M R. db_zones d z = Some (M, R) \<and> a \<in> M"
    proof (intro ballI case_prodI2)
      fix p z a assume "p \<in> set ?ms" "p = (z, a)"
      then have "(z, a) \<in> (\<lambda>m. (sm_zone m, sm_ip m)) ` set (gather_memberships i d)" by (simp add: res)
      from gathered_membership [OF this ok] show "\<exists>M R. db_zones d z = Some (M, R) \<and> a \<in> M"
        by (simp add: db_zones_def)
    qed
  qed
  note w3 = delete_zones_dp [OF steadyD(1) [OF st] w2, of "OwnedZoneIDs r"]
  have w4: "dp sv vn vw ?W4 (\<lambda>z. map_option (apsnd (\<lambda>R. R - {q. (z, q) \<in> set ?rs})) (?Z3 z))
      (z_id ` set (zones d) - set (OwnedZoneIDs r)) ?T"
  proof (rule remove_routes_dp [OF steadyD(1) [OF st] w3])
    show "distinct ?rs"
      using distinct_gather_routes [OF ok, of i] by (simp add: res distinct_map inj_on_def)
    show "\<forall>z M R. ?Z3 z = Some (M, R) \<longrightarrow> routes_good R"
    proof (intro allI impI)
      fix z M R assume "?Z3 z = Some (M, R)"
      then have "?Z2 z = Some (M, R)" by (simp split: if_splits)
      then obtain p where p: "db_zones d z = Some p" "apfst (\<lambda>M. M - {a. (z, a) \<in> set ?ms}) p = (M, R)"
        unfolding map_option_eq_Some by blast
      from arg_cong [OF p(2), of snd] have "snd p = R" by simp
      then have "db_zones d z = Some (fst p, R)" using p(1) by auto
      with consistent_good [OF con steadyD(4,5) [OF st]] show "routes_good R" by blast
    qed
    show "\<forall>(z, q) \<in> set ?rs. \<exists>M R. ?Z3 z = Some (M, R) \<and> q \<in> R"
    proof (intro ballI case_prodI2)
      fix p z q assume "p \<in> set ?rs" "p = (z, q)"
      then have "(z, q) \<in> (\<lambda>x. (sr_zone x, sr_synthetic x)) ` set (gather_routes i d)" by (simp add: res)
      from gathered_route [OF this ok] show "\<exists>M R. ?Z3 z = Some (M, R) \<and> q \<in> R"
        by (simp add: db_zones_def owned)
    qed
  qed
  have "(\<lambda>z. map_option (apsnd (\<lambda>R. R - {q. (z, q) \<in> set ?rs})) (?Z3 z)) = db_zones d'"
    unfolding user_plan_zones [OF del con] set_map by (rule refl)
  moreover from user_plan_db [OF del con] have con': "consistent ?h pool lo hi d'"
    and zs: "zones d' = filter (\<lambda>z. z_owner z \<noteq> i) (zones d)" by blast+
  have "z_id ` set (zones d') = z_id ` set (zones d) - set (OwnedZoneIDs r)"
    using zone_id_unique [OF ok] by (auto simp: zs owned)
  ultimately have w4': "dp sv vn vw ?W4 (db_zones d') (z_id ` set (zones d')) ?T" using w4 by simp
  have db: "w_db ?W4 = d'" using dp(2) by (simp add: tries_frame wg_removes_frame)
  have "dp sv vn vw (fold (recompute sv e) (RouteRecomputeNodes r) ?W4) (db_zones d') (z_id ` set (zones d'))
      (db_tunnel ?h d')"
    by (rule recomputes_settle [OF steadyD(1,2) [OF st] consistent_keys [OF con'] w4' db tun(1) tun(2) _
          consistent_schema [OF con']]) (rule tun(3))
  moreover have "forget_user sv e r W = fold (recompute sv e) (RouteRecomputeNodes r) ?W4"
    by (simp add: forget_user_def fold_map comp_def)
  ultimately show ?thesis using db by (simp only: recomputes_frame)
qed

lemma DeleteCascade_keeps: "DeleteCascade e i d = (Inl err, d') \<Longrightarrow> d' = d"
  by (auto simp: DeleteCascade_def Let_def split: if_splits sum.splits option.splits prod.splits)

lemma ends_in_deletion:
  "\<lbrakk>\<And>err W1. x = (Inl err, W1) \<Longrightarrow> P W1; \<And>r W1. x = (Inr r, W1) \<Longrightarrow> ends_in P (f r W1)\<rbrakk> \<Longrightarrow>
     ends_in P (case x of (Inl ErrUserNotFound, W1) \<Rightarrow> (a, W1) | (Inl ErrLastAdmin, W1) \<Rightarrow> (b, W1)
       | (Inl _, W1) \<Rightarrow> (c, W1) | (Inr r, W1) \<Rightarrow> f r W1)"
  by (simp add: ends_in_def split: prod.split sum.split store_error.split)

lemma deleteUser_sync:
  assumes st: "steady sv e vn vw pool lo hi" and sync: "in_sync sv vn vw pool lo hi W"
  shows "ends_in (in_sync sv vn vw pool lo hi) (deleteUser sv e cid path W)"
proof -
  have con: "consistent (sv_host sv) pool lo hi (w_db W)"
    and dp: "dp sv vn vw W (db_zones (w_db W)) (z_id ` set (zones (w_db W))) (db_tunnel (sv_host sv) (w_db W))"
    using sync by (simp_all add: in_sync_dp)
  have fin: "in_sync sv vn vw pool lo hi (forget_user sv e r (W\<lparr>w_db := d'\<rparr>))"
    if "DeleteCascade e i (w_db W) = (Inr r, d')" for i r d'
  proof -
    have "dp sv vn vw (W\<lparr>w_db := d'\<rparr>) (db_zones (w_db W)) (z_id ` set (zones (w_db W)))
        (db_tunnel (sv_host sv) (w_db W))" using dp by simp
    note forget = forget_user_dp [OF st con this _ that]
    from user_plan_db [OF that con] have "consistent (sv_host sv) pool lo hi d'" by blast
    with forget show ?thesis by (simp add: in_sync_dp)
  qed
  show ?thesis
    unfolding deleteUser_def
  proof (intro ends_in_identity ends_in_option ends_in_if ends_in_reply ends_in_deletion)
    fix i target err W1 assume "db_do (DeleteCascade e target) W = (Inl err, W1)"
    then have "W1 = W" by (auto simp: db_do_result dest: DeleteCascade_keeps)
    with sync show "in_sync sv vn vw pool lo hi W1" by simp
  next
    fix i target r W1 assume "db_do (DeleteCascade e target) W = (Inr r, W1)"
    with fin show "in_sync sv vn vw pool lo hi (forget_user sv e r W1)" by (auto simp: db_do_result)
  qed (use sync in simp_all)
qed

end
