(* ===== verification/PasswordPolicy.thy ===== *)
theory PasswordPolicy
  imports LW_Prelude
begin

text \<open>
  \<^verbatim>\<open>pkg/passwordpolicy\<close>: the account-password policy shared by the register handler and the client
  wizard. A password is its list of bytes.
\<close>

section \<open>Definitions\<close>

datatype Reason =
    ReasonOK
  | ReasonCharset
  | ReasonTooShort
  | ReasonTooLong
  | ReasonNoUpper
  | ReasonNoLower
  | ReasonNoDigit

fun reason_string :: "Reason \<Rightarrow> string" where
  "reason_string ReasonOK = ''ok''"
| "reason_string ReasonCharset = ''charset''"
| "reason_string ReasonTooShort = ''too_short''"
| "reason_string ReasonTooLong = ''too_long''"
| "reason_string ReasonNoUpper = ''no_upper''"
| "reason_string ReasonNoLower = ''no_lower''"
| "reason_string ReasonNoDigit = ''no_digit''"

definition minLen :: nat where "minLen = 8"
definition maxLen :: nat where "maxLen = 64"

definition byte_in :: "nat \<Rightarrow> nat \<Rightarrow> char \<Rightarrow> bool" where
  "byte_in lo hi c = (lo \<le> of_char c \<and> of_char c \<le> hi)"

definition is_upper :: "char \<Rightarrow> bool" where "is_upper = byte_in 65 90"
definition is_lower :: "char \<Rightarrow> bool" where "is_lower = byte_in 97 122"
definition is_digit :: "char \<Rightarrow> bool" where "is_digit = byte_in 48 57"
definition printable :: "char \<Rightarrow> bool" where "printable = byte_in 0x21 0x7E"

text \<open>
  The scan over the bytes: \<^term>\<open>None\<close> is the early return with \<^verbatim>\<open>ReasonCharset\<close>, otherwise the
  three flags. The flags are set by the cases of a \<^verbatim>\<open>switch\<close>, in its order.
\<close>

fun scan :: "string \<Rightarrow> bool \<times> bool \<times> bool \<Rightarrow> (bool \<times> bool \<times> bool) option" where
  "scan [] flags = Some flags"
| "scan (b # bs) (up, lo, di) =
     (if \<not> printable b then None
      else if is_upper b then scan bs (True, lo, di)
      else if is_lower b then scan bs (up, True, di)
      else if is_digit b then scan bs (up, lo, True)
      else scan bs (up, lo, di))"

definition Validate :: "string \<Rightarrow> Reason \<times> bool" where
  "Validate pw =
     (case scan pw (False, False, False) of
        None \<Rightarrow> (ReasonCharset, False)
      | Some (up, lo, di) \<Rightarrow>
          if length pw < minLen then (ReasonTooShort, False)
          else if length pw > maxLen then (ReasonTooLong, False)
          else if \<not> up then (ReasonNoUpper, False)
          else if \<not> lo then (ReasonNoLower, False)
          else if \<not> di then (ReasonNoDigit, False)
          else (ReasonOK, True))"

section \<open>Lemmas\<close>

text \<open>The rules in the order the policy documents them, each a predicate on the whole password.\<close>

definition policy :: "(Reason \<times> (string \<Rightarrow> bool)) list" where
  "policy =
     [(ReasonCharset, list_all printable),
      (ReasonTooShort, \<lambda>pw. 8 \<le> length pw),
      (ReasonTooLong, \<lambda>pw. length pw \<le> 64),
      (ReasonNoUpper, list_ex is_upper),
      (ReasonNoLower, list_ex is_lower),
      (ReasonNoDigit, list_ex is_digit)]"

definition first_broken :: "string \<Rightarrow> Reason" where
  "first_broken pw =
     (case find (\<lambda>(r, ok). \<not> ok pw) policy of None \<Rightarrow> ReasonOK | Some (r, _) \<Rightarrow> r)"

lemma classes_disjoint:
  "is_upper c \<Longrightarrow> \<not> is_lower c" "is_upper c \<Longrightarrow> \<not> is_digit c" "is_lower c \<Longrightarrow> \<not> is_digit c"
  by (simp_all add: is_upper_def is_lower_def is_digit_def byte_in_def)

lemma scan_eq:
  "scan pw (up, lo, di) =
     (if list_all printable pw
      then Some (up \<or> list_ex is_upper pw, lo \<or> list_ex is_lower pw, di \<or> list_ex is_digit pw)
      else None)"
  by (induction pw arbitrary: up lo di) (auto dest: classes_disjoint)

text \<open>
  C36: \<^verbatim>\<open>Validate\<close> reports the first rule, in the documented order (charset, length, upper, lower,
  digit), that the password breaks, and accepts exactly the passwords that break none: the single
  pass over the bytes computes the six rules, each stated on the whole password.
\<close>

theorem Validate_first_broken_rule:
  "Validate pw = (first_broken pw, first_broken pw = ReasonOK)"
  by (auto simp: Validate_def scan_eq first_broken_def policy_def minLen_def maxLen_def)

text \<open>
  An accepted password consists of 8 to 64 printable ASCII bytes without a space, with at
  least one upper-case letter, one lower-case letter and one digit, and every such password is
  accepted.
\<close>

lemma Validate_accepts_iff:
  "snd (Validate pw) \<longleftrightarrow>
     (\<forall>c \<in> set pw. 0x21 \<le> (of_char c :: nat) \<and> (of_char c :: nat) \<le> 0x7E) \<and>
     8 \<le> length pw \<and> length pw \<le> 64 \<and>
     (\<exists>c \<in> set pw. is_upper c) \<and> (\<exists>c \<in> set pw. is_lower c) \<and> (\<exists>c \<in> set pw. is_digit c)"
  by (auto simp: Validate_def scan_eq minLen_def maxLen_def list_all_iff list_ex_iff printable_def
      byte_in_def)

end
