(* ===== verification/Api_Accounts.thy ===== *)
theory Api_Accounts
  imports Api_Handlers PasswordPolicy
begin

text \<open>
  The remaining handlers of \<^verbatim>\<open>internal/server/api\<close> (accounts, invites, server information), the
  middlewares and the routing table: \<^verbatim>\<open>auth_handlers.go\<close>, \<^verbatim>\<open>invite_handlers.go\<close>,
  \<^verbatim>\<open>server_handler.go\<close>, \<^verbatim>\<open>health.go\<close>, \<^verbatim>\<open>middleware_auth.go\<close>, \<^verbatim>\<open>middleware.go\<close>, \<^verbatim>\<open>routes.go\<close> and
  \<^verbatim>\<open>router.go\<close>. The timing equaliser \<^verbatim>\<open>DummyVerify\<close> has no result and is left out.
\<close>

section \<open>Definitions\<close>

subsection \<open>Sessions\<close>

record login_request =
  lr_Username :: string
  lr_Password :: string

definition invalid_credentials :: response where
  "invalid_credentials = jsonError 401 ''invalid_credentials'' ''Invalid username or password.''"

definition invalid_refresh :: response where
  "invalid_refresh = jsonError 401 ''invalid_refresh_token'' ''Refresh token is invalid or expired.''"

definition claims_of :: "user_row \<Rightarrow> claims" where
  "claims_of u = \<lparr>UserID = u_id u, Username = u_username u, IsAdmin = u_is_admin u\<rparr>"

definition login ::
  "('k, 'w) server \<Rightarrow> env \<Rightarrow> string option \<Rightarrow> login_request option \<Rightarrow> ('k, 'w) world
     \<Rightarrow> ('k, 'w) outcome" where
  "login sv e drawn body W =
     with_body body W (\<lambda>req.
       if lr_Username req = '''' \<or> lr_Password req = ''''
       then (invalid ''Username and password are required.'', W)
       else or_500 (GetByUsername e (lr_Username req) (w_db W)) W (\<lambda>found.
         case found of
           None \<Rightarrow> (invalid_credentials, W)
         | Some u \<Rightarrow>
             if verify_password sv (lr_Password req) (u_password_hash u) \<noteq> Some True
             then (invalid_credentials, W)
             else case jwt_issue sv (claims_of u) of
               None \<Rightarrow> (serverError, W)
             | Some token \<Rightarrow>
                 (case db_do (IssueToken e (token_digest sv) drawn (u_id u)) W of
                    (Inl _, W1) \<Rightarrow> (serverError, W1)
                  | (Inr refreshToken, W1) \<Rightarrow> ((200, LoginBody token refreshToken), W1))))"

definition refresh ::
  "('k, 'w) server \<Rightarrow> env \<Rightarrow> string option \<Rightarrow> ('k, 'w) world \<Rightarrow> ('k, 'w) outcome" where
  "refresh sv e body W =
     with_body body W (\<lambda>rt.
       if rt = '''' then (invalid ''A refresh token is required.'', W)
       else case db_do (ValidateToken e (token_digest sv) rt) W of
         (Inl err, W1) \<Rightarrow> (if err = ErrRefreshInvalid then invalid_refresh else serverError, W1)
       | (Inr uid, W1) \<Rightarrow>
           or_500 (GetUserByID e uid (w_db W1)) W1 (\<lambda>found.
             case found of
               None \<Rightarrow> (invalid_refresh, W1)
             | Some u \<Rightarrow>
                 (case jwt_issue sv (claims_of u) of
                    None \<Rightarrow> (serverError, W1)
                  | Some token \<Rightarrow> ((200, RefreshBody token), W1))))"

definition logout ::
  "('k, 'w) server \<Rightarrow> env \<Rightarrow> string option \<Rightarrow> ('k, 'w) world \<Rightarrow> ('k, 'w) outcome" where
  "logout sv e body W =
     with_body body W (\<lambda>rt.
       if rt = '''' then (invalid ''A refresh token is required.'', W)
       else case db_do (RevokeToken e (token_digest sv) rt) W of
         (Some _, W1) \<Rightarrow> (serverError, W1)
       | (None, W1) \<Rightarrow> ((204, NoBody), W1))"

definition me :: "claims option \<Rightarrow> ('k, 'w) world \<Rightarrow> ('k, 'w) outcome" where
  "me cid W = with_identity cid W (\<lambda>i. ((200, MeBody (UserID i) (Username i) (IsAdmin i)), W))"

subsection \<open>Registration and invites\<close>

record register_request =
  rr_InviteCode :: string
  rr_Username :: string
  rr_Password :: string

definition passwordPolicyMessage :: "Reason \<Rightarrow> string" where
  "passwordPolicyMessage reason =
     (case reason of
        ReasonCharset \<Rightarrow> ''Password may only contain ASCII letters, digits, and symbols (no spaces).''
      | ReasonTooShort \<Rightarrow> ''Password must be 8-64 characters.''
      | ReasonTooLong \<Rightarrow> ''Password must be 8-64 characters.''
      | _ \<Rightarrow> ''Password must include an uppercase letter, a lowercase letter, and a digit.'')"

definition registration_invalid :: "register_request \<Rightarrow> response option" where
  "registration_invalid req =
     (let username = TrimSpace (rr_Username req)
      in if username = '''' \<or> 64 < length username
         then Some (invalid ''Username must be 1-64 characters.'')
         else case Validate (rr_Password req) of
           (reason, False) \<Rightarrow> Some (invalid (passwordPolicyMessage reason))
         | (_, True) \<Rightarrow>
             if rr_InviteCode req = '''' then Some (invalid ''An invite code is required.'') else None)"

definition registration_error :: "store_error \<Rightarrow> response" where
  "registration_error err =
     (case err of
        ErrInviteInvalid \<Rightarrow> jsonError 422 ''invite_invalid'' ''Invite code is invalid or already used.''
      | ErrUserExists \<Rightarrow> jsonError 409 ''username_taken'' ''That username is already taken.''
      | _ \<Rightarrow> serverError)"

definition register_account ::
  "('k, 'w) server \<Rightarrow> env \<Rightarrow> register_request option \<Rightarrow> ('k, 'w) world \<Rightarrow> ('k, 'w) outcome" where
  "register_account sv e body W =
     with_body body W (\<lambda>req.
       case registration_invalid req of
         Some r \<Rightarrow> (r, W)
       | None \<Rightarrow>
           (case hash_password sv (rr_Password req) of
              None \<Rightarrow> (serverError, W)
            | Some hash \<Rightarrow>
                (case db_do (Register e (TrimSpace (rr_Username req)) hash (rr_InviteCode req)) W of
                   (Inl err, W1) \<Rightarrow> (registration_error err, W1)
                 | (Inr u, W1) \<Rightarrow> ((201, RegisterBody (u_username u) (u_is_admin u)), W1))))"

text \<open>The codes drawn for an invite, one per attempt, are an argument.\<close>

definition createInvite ::
  "('k, 'w) server \<Rightarrow> env \<Rightarrow> (nat \<Rightarrow> string option) \<Rightarrow> claims option \<Rightarrow> ('k, 'w) world
     \<Rightarrow> ('k, 'w) outcome" where
  "createInvite sv e gen cid W =
     with_identity cid W (\<lambda>i.
       case db_do (CreateInvite e gen (UserID i) (inviteTTL sv)) W of
         (Inl _, W1) \<Rightarrow> (serverError, W1)
       | (Inr (code, expiresAt), W1) \<Rightarrow> ((201, InviteBody code expiresAt), W1))"

text \<open>
  \<^verbatim>\<open>time.Now\<close> is finer than the stored seconds: \<open>nanos\<close> is the clock in nanoseconds.
\<close>

definition toInviteListItem :: "int \<Rightarrow> invite_info \<Rightarrow> invite_item" where
  "toInviteListItem nanos info =
     (let v = inv_row info
      in \<lparr>ii_Code = i_code v,
          ii_Status =
            (if i_used_at v \<noteq> None then ''used''
             else case i_expires_at v of
               Some x \<Rightarrow> if x * 1000000000 < nanos then ''expired'' else ''unused''
             | None \<Rightarrow> ''unused''),
          ii_CreatedBy = CreatedByName info, ii_CreatedAt = i_created_at v,
          ii_UsedBy = UsedByName info, ii_UsedAt = i_used_at v, ii_ExpiresAt = i_expires_at v\<rparr>)"

definition listInvites :: "env \<Rightarrow> int \<Rightarrow> ('k, 'w) world \<Rightarrow> ('k, 'w) outcome" where
  "listInvites e nanos W =
     or_500 (ListInvites e (w_db W)) W (\<lambda>invs.
       ((200, InviteListBody (map (toInviteListItem nanos) invs)), W))"

subsection \<open>Server information\<close>

definition serverInfo :: "('k, 'w) server \<Rightarrow> ('k, 'w) world \<Rightarrow> ('k, 'w) outcome" where
  "serverInfo sv W =
     ((200, ServerInfoBody (wgPublicKey sv) (wgEndpoint sv) (wgNetwork sv) (wgMTU sv)), W)"

definition healthz :: "string \<Rightarrow> string \<Rightarrow> ('k, 'w) world \<Rightarrow> ('k, 'w) outcome" where
  "healthz version meth W =
     (if meth \<noteq> ''GET'' then (jsonError 405 ''method_not_allowed'' ''Method not allowed.'', W)
      else ((200, HealthBody ''ok'' version), W))"

subsection \<open>Middlewares\<close>

definition AuthRequired ::
  "('k, 'w) server \<Rightarrow> string \<Rightarrow> (claims option \<Rightarrow> ('k, 'w) world \<Rightarrow> ('k, 'w) outcome)
     \<Rightarrow> ('k, 'w) world \<Rightarrow> ('k, 'w) outcome" where
  "AuthRequired sv authz next W =
     (if \<not> has_prefix authz ''Bearer '' then (unauthorized, W)
      else case jwt_verify sv (TrimSpace (drop (length ''Bearer '') authz)) of
        None \<Rightarrow> (unauthorized, W)
      | Some claims \<Rightarrow> next (Some claims) W)"

definition AdminRequired ::
  "(claims option \<Rightarrow> ('k, 'w) world \<Rightarrow> ('k, 'w) outcome) \<Rightarrow> claims option \<Rightarrow> ('k, 'w) world
     \<Rightarrow> ('k, 'w) outcome" where
  "AdminRequired next cid W =
     with_identity cid W (\<lambda>claims.
       if \<not> IsAdmin claims then (jsonError 403 ''forbidden'' ''Administrator privileges required.'', W)
       else next cid W)"

definition RateLimit ::
  "bool \<Rightarrow> (('k, 'w) world \<Rightarrow> ('k, 'w) outcome) \<Rightarrow> ('k, 'w) world \<Rightarrow> ('k, 'w) outcome" where
  "RateLimit allowed next W =
     (if \<not> allowed
      then (jsonError 429 ''rate_limited'' ''Too many requests. Please retry shortly.'', W)
      else next W)"

subsection \<open>The routing table\<close>

text \<open>
  One constructor per pattern of \<^verbatim>\<open>routes\<close>, with the path values and the decoded body; every other
  path falls through to \<^verbatim>\<open>notFound\<close>.
\<close>

datatype api_request =
    Healthz string
  | PostLogin "login_request option"
  | PostRegister "register_request option"
  | PostRefresh "string option"
  | PostLogout "string option"
  | GetMe
  | GetServer
  | PostNodes "register_node_request option"
  | GetNodes
  | DeleteNode string
  | PostZones "create_zone_request option"
  | GetZones
  | PostJoin string "join_zone_request option"
  | PostLeave string "int option"
  | GetMembers string
  | PostAnnouncements string "create_announcement_request option"
  | GetAnnouncements string
  | DeleteAnnouncement string string
  | PatchZone string "string option"
  | DeleteZone' string
  | DeleteMember string string
  | PostInvites
  | GetInvites
  | DeleteUser string
  | OtherPath

text \<open>What a request draws from the random source and the clock beyond seconds.\<close>

record draws =
  dr_token :: "string option"
  dr_invite :: "nat \<Rightarrow> string option"
  dr_nanos :: int

fun routes ::
  "('k, 'w) server \<Rightarrow> string \<Rightarrow> env \<Rightarrow> draws \<Rightarrow> string \<Rightarrow> api_request \<Rightarrow> ('k, 'w) world
     \<Rightarrow> ('k, 'w) outcome" where
  "routes sv version e dr authz (Healthz meth) = healthz version meth"
| "routes sv version e dr authz (PostLogin body) = login sv e (dr_token dr) body"
| "routes sv version e dr authz (PostRegister body) = register_account sv e body"
| "routes sv version e dr authz (PostRefresh body) = refresh sv e body"
| "routes sv version e dr authz (PostLogout body) = logout sv e body"
| "routes sv version e dr authz GetMe = AuthRequired sv authz me"
| "routes sv version e dr authz GetServer = AuthRequired sv authz (\<lambda>_. serverInfo sv)"
| "routes sv version e dr authz (PostNodes body) = AuthRequired sv authz (\<lambda>cid. registerNode sv e cid body)"
| "routes sv version e dr authz GetNodes = AuthRequired sv authz (listNodes sv e)"
| "routes sv version e dr authz (DeleteNode i) = AuthRequired sv authz (\<lambda>cid. deleteNode sv e cid i)"
| "routes sv version e dr authz (PostZones body) = AuthRequired sv authz (\<lambda>cid. createZone sv e cid body)"
| "routes sv version e dr authz GetZones = AuthRequired sv authz (listZones e)"
| "routes sv version e dr authz (PostJoin name body) =
     AuthRequired sv authz (\<lambda>cid. joinZone sv e cid name body)"
| "routes sv version e dr authz (PostLeave name body) =
     AuthRequired sv authz (\<lambda>cid. leaveZone sv e cid name body)"
| "routes sv version e dr authz (GetMembers name) = AuthRequired sv authz (\<lambda>cid. zoneMembers e cid name)"
| "routes sv version e dr authz (PostAnnouncements name body) =
     AuthRequired sv authz (\<lambda>cid. createAnnouncement sv e cid name body)"
| "routes sv version e dr authz (GetAnnouncements name) =
     AuthRequired sv authz (\<lambda>cid. listAnnouncements e cid name)"
| "routes sv version e dr authz (DeleteAnnouncement name i) =
     AuthRequired sv authz (\<lambda>cid. deleteAnnouncement sv e cid name i)"
| "routes sv version e dr authz (PatchZone name body) =
     AuthRequired sv authz (\<lambda>cid. changeZonePassword sv e cid name body)"
| "routes sv version e dr authz (DeleteZone' name) =
     AuthRequired sv authz (\<lambda>cid. deleteZone sv e cid name)"
| "routes sv version e dr authz (DeleteMember name i) =
     AuthRequired sv authz (\<lambda>cid. kickMember sv e cid name i)"
| "routes sv version e dr authz PostInvites =
     AuthRequired sv authz (AdminRequired (createInvite sv e (dr_invite dr)))"
| "routes sv version e dr authz GetInvites =
     AuthRequired sv authz (AdminRequired (\<lambda>_. listInvites e (dr_nanos dr)))"
| "routes sv version e dr authz (DeleteUser i) =
     AuthRequired sv authz (AdminRequired (\<lambda>cid. deleteUser sv e cid i))"
| "routes sv version e dr authz OtherPath =
     (\<lambda>W. (jsonError 404 ''not_found'' ''The requested resource was not found.'', W))"

text \<open>\<^verbatim>\<open>NewRouter\<close>: the rate limiter in front of the table.\<close>

definition serve ::
  "('k, 'w) server \<Rightarrow> string \<Rightarrow> env \<Rightarrow> draws \<Rightarrow> bool \<Rightarrow> string \<Rightarrow> api_request \<Rightarrow> ('k, 'w) world
     \<Rightarrow> ('k, 'w) outcome" where
  "serve sv version e dr allowed authz req = RateLimit allowed (routes sv version e dr authz req)"

end
