(* ===== verification/Api_Reachable.thy ===== *)
theory Api_Reachable
  imports Api_Sync_Cascade Api_Accounts
begin

text \<open>
  The control plane as a state machine: it starts with the rebuild of \<^verbatim>\<open>app.Run\<close> from a consistent
  database and takes one request after the other through the router. In every reachable state the
  kernel forwards and the tunnel delivers what the database says.
\<close>

section \<open>Definitions\<close>

text \<open>
  The requests the invariant is about: a node is registered with the canonical spelling of its key.
  (\<^verbatim>\<open>wgtypes.ParseKey\<close> takes several spellings of one key, and the \<^verbatim>\<open>UNIQUE\<close> constraint compares
  spellings; see \<open>Api_Failures\<close>.)
\<close>

definition canonical_request :: "'w host \<Rightarrow> api_request \<Rightarrow> bool" where
  "canonical_request h req =
     (case req of
        PostNodes (Some r) \<Rightarrow>
          (case parse_key h (rn_WGPubKey r) of None \<Rightarrow> True | Some k \<Rightarrow> key_string h k = rn_WGPubKey r)
      | _ \<Rightarrow> True)"

inductive reachable ::
  "('k, 'w) server \<Rightarrow> string \<Rightarrow> ('k \<Rightarrow> ruleset) \<Rightarrow> ('w \<Rightarrow> wg_state) \<Rightarrow> prefix4 \<Rightarrow> addr \<Rightarrow> addr
     \<Rightarrow> ('k, 'w) world \<Rightarrow> bool"
  for sv version vn vw pool lo hi where
  started: "\<lbrakk>consistent (sv_host sv) pool lo hi (w_db W); rebuild_dataplane sv e W = (None, W')\<rbrakk> \<Longrightarrow>
    reachable sv version vn vw pool lo hi W'"
| served: "\<lbrakk>reachable sv version vn vw pool lo hi W; quiet e; canonical_request (sv_host sv) req;
      serve sv version e dr allowed authz req W = (r, W')\<rbrakk> \<Longrightarrow>
    reachable sv version vn vw pool lo hi W'"

section \<open>Lemmas\<close>

subsection \<open>Requests that leave the network alone\<close>

definition network_same :: "db \<Rightarrow> db \<Rightarrow> bool" where
  "network_same d d' =
     (nodes d' = nodes d \<and> zones d' = zones d \<and> zone_members d' = zone_members d \<and>
      announcements d' = announcements d \<and> announcement_zones d' = announcement_zones d)"

lemma network_same_refl [simp]: "network_same d d"
  by (simp add: network_same_def)

lemma network_same_sync:
  assumes "in_sync sv vn vw pool lo hi W" and "network_same (w_db W) d'" and "schema_ok d'"
  shows "in_sync sv vn vw pool lo hi (W\<lparr>w_db := d'\<rparr>)"
proof -
  let ?d = "w_db W"
  have con: "consistent (sv_host sv) pool lo hi ?d" using assms(1) by (simp add: in_sync_def)
  have frame: "nodes d' = nodes ?d" "zones d' = zones ?d" "zone_members d' = zone_members ?d"
    "announcements d' = announcements ?d" "announcement_zones d' = announcement_zones ?d"
    using assms(2) by (simp_all add: network_same_def)
  have mem: "is_member d' = is_member ?d" "attached_to d' = attached_to ?d" "has_zone d' = has_zone ?d"
    by (simp_all add: is_member_def attached_to_def has_zone_def frame fun_eq_iff)
  have "zone_ips d' z = zone_ips ?d z" "set (zone_routes d' z) = set (zone_routes ?d z)" for z
    unfolding zone_ips_def set_zone_routes mem frame by (rule refl)+
  then have "db_zones d' = db_zones ?d" by (simp add: db_zones_def mem fun_eq_iff)
  moreover have "consistent (sv_host sv) pool lo hi d'"
    by (rule consistent_frame [OF con assms(3)]) (simp_all add: frame mem)
  moreover have "db_tunnel (sv_host sv) d' = db_tunnel (sv_host sv) ?d" by (rule db_tunnel_frame) (fact frame)+
  ultimately show ?thesis by (intro sync_frame [OF assms(1)]) (simp_all add: frame)
qed

lemma insert_user_same: "insert_user e l name hash adm d = Inr (u, d') \<Longrightarrow> network_same d d'"
  by (auto simp: insert_user_Inr network_same_def)

lemma Register_same: "network_same d (snd (Register e u h c d))"
proof -
  obtain r d' where R: "Register e u h c d = (r, d')" by fastforce
  from Register_cases [OF R] show ?thesis
    by (auto simp: R consume_invite_def insert_user_Inr network_same_def)
qed

lemma create_invite_loop_same: "network_same d (snd (create_invite_loop m e gen k adm ex d))"
  by (induction m e gen k adm ex d rule: create_invite_loop.induct)
    (auto simp: insert_invite_def checked_insert_Inr Let_def network_same_def
      split: option.split sum.split sql_error.split)

lemma CreateInvite_same: "network_same d (snd (CreateInvite e gen adm ttl d))"
  unfolding CreateInvite_def by (rule create_invite_loop_same)

lemma tokens_same:
  "network_same d (snd (IssueToken e sha p uid d))" "network_same d (snd (ValidateToken e sha q d))"
  "network_same d (snd (RevokeToken e sha q d))"
  by (auto simp: IssueToken_def ValidateToken_def RevokeToken_def insert_token_def checked_insert_Inr Let_def
      network_same_def split: option.split sum.split)

text \<open>A store call of the account handlers keeps the world in step.\<close>

lemma account_call_sync:
  assumes "in_sync sv vn vw pool lo hi W" and "db_do f W = (r, W')"
    and "\<And>d. network_same d (snd (f d))" and "\<And>d. schema_ok d \<Longrightarrow> schema_ok (snd (f d))"
  shows "in_sync sv vn vw pool lo hi W'"
proof -
  have "schema_ok (w_db W)" using assms(1) by (auto simp: in_sync_def intro: consistent_schema)
  from network_same_sync [OF assms(1) assms(3) assms(4) [OF this]] assms(2) show ?thesis
    by (auto simp: db_do_result)
qed

lemma login_sync:
  assumes "in_sync sv vn vw pool lo hi W"
  shows "ends_in (in_sync sv vn vw pool lo hi) (login sv e drawn body W)"
  unfolding login_def
  by (intro branch_rules)
    (use assms in \<open>auto intro: account_call_sync [OF assms] tokens_same IssueToken_ok\<close>)

lemma refresh_sync:
  assumes "in_sync sv vn vw pool lo hi W"
  shows "ends_in (in_sync sv vn vw pool lo hi) (refresh sv e body W)"
  unfolding refresh_def
  by (intro branch_rules)
    (use assms in \<open>auto intro: account_call_sync [OF assms] tokens_same ValidateToken_ok\<close>)

lemma logout_sync:
  assumes "in_sync sv vn vw pool lo hi W"
  shows "ends_in (in_sync sv vn vw pool lo hi) (logout sv e body W)"
  unfolding logout_def
  by (intro branch_rules)
    (use assms in \<open>auto intro: account_call_sync [OF assms] tokens_same RevokeToken_ok\<close>)

lemma register_account_sync:
  assumes "in_sync sv vn vw pool lo hi W"
  shows "ends_in (in_sync sv vn vw pool lo hi) (register_account sv e body W)"
  unfolding register_account_def
  by (intro branch_rules)
    (use assms in \<open>auto intro: account_call_sync [OF assms] Register_same Register_ok\<close>)

lemma createInvite_sync:
  assumes "in_sync sv vn vw pool lo hi W"
  shows "ends_in (in_sync sv vn vw pool lo hi) (createInvite sv e gen cid W)"
  unfolding createInvite_def
  by (intro branch_rules)
    (use assms in \<open>auto intro: account_call_sync [OF assms] CreateInvite_same CreateInvite_ok\<close>)

text \<open>The handlers that only read.\<close>

lemma reads_keep:
  assumes "P W"
  shows "ends_in P (me cid W)" "ends_in P (serverInfo sv W)" "ends_in P (healthz v meth W)"
    "ends_in P (listInvites e t W)" "ends_in P (listNodes sv e cid W)" "ends_in P (listZones e cid W)"
    "ends_in P (zoneMembers e cid name W)" "ends_in P (listAnnouncements e cid name W)"
  unfolding me_def serverInfo_def healthz_def listInvites_def listNodes_def listZones_def zoneMembers_def
    listAnnouncements_def
  by (intro branch_rules; simp add: assms)+

subsection \<open>The router\<close>

lemma AuthRequired_keeps [branch_rules]:
  "\<lbrakk>\<And>r. \<not> success r \<Longrightarrow> Q r W;
     \<And>c. jwt_verify sv (TrimSpace (drop (length ''Bearer '') authz)) = Some c \<Longrightarrow> ends_with Q (next (Some c) W)\<rbrakk> \<Longrightarrow>
     ends_with Q (AuthRequired sv authz next W)"
  by (simp add: AuthRequired_def ends_with_def split: option.split)

lemma AdminRequired_keeps [branch_rules]:
  "\<lbrakk>\<And>r. \<not> success r \<Longrightarrow> Q r W; \<And>c. cid = Some c \<Longrightarrow> IsAdmin c \<Longrightarrow> ends_with Q (next cid W)\<rbrakk> \<Longrightarrow>
     ends_with Q (AdminRequired next cid W)"
  by (simp add: AdminRequired_def with_identity_def ends_with_def split: option.split)

lemmas handlers_sync = deleteNode_sync joinZone_sync createZone_sync leaveZone_sync kickMember_sync
  changeZonePassword_sync deleteAnnouncement_sync createAnnouncement_sync deleteZone_sync deleteUser_sync

lemmas accounts_sync = login_sync refresh_sync logout_sync register_account_sync createInvite_sync

lemma routes_sync:
  assumes st: "steady sv e vn vw pool lo hi" and sync: "in_sync sv vn vw pool lo hi W"
    and canon: "canonical_request (sv_host sv) req"
  shows "ends_in (in_sync sv vn vw pool lo hi) (routes sv version e dr authz req W)"
proof (cases req)
  case (PostNodes body)
  have "ends_in (in_sync sv vn vw pool lo hi) (registerNode sv e cid body W)" for cid
    by (rule registerNode_sync [OF st sync])
      (use canon PostNodes in \<open>simp add: canonical_request_def split: option.splits\<close>)
  then show ?thesis unfolding PostNodes by (simp, intro AuthRequired_keeps sync)
qed (use sync in \<open>simp; intro AuthRequired_keeps AdminRequired_keeps handlers_sync [OF st] accounts_sync reads_keep
      ends_in_reply sync\<close>)+

lemma serve_sync:
  assumes "steady sv e vn vw pool lo hi" and "in_sync sv vn vw pool lo hi W"
    and "canonical_request (sv_host sv) req" and "serve sv version e dr allowed authz req W = (r, W')"
  shows "in_sync sv vn vw pool lo hi W'"
proof -
  from routes_sync [OF assms(1-3)] assms(2)
  have "ends_in (in_sync sv vn vw pool lo hi) (serve sv version e dr allowed authz req W)"
    by (auto simp: serve_def RateLimit_def ends_in_def)
  with assms(4) show ?thesis by (simp add: ends_in_def)
qed

lemma reachable_sync:
  assumes "reachable sv version vn vw pool lo hi W" and "faultless sv vn vw" and "pools_ok sv pool lo hi"
  shows "in_sync sv vn vw pool lo hi W"
  using assms(1)
proof (induction rule: reachable.induct)
  case (started W e W')
  from rebuild_dataplane_synced [OF faultless_nft [OF assms(2)] faultless_wg [OF assms(2)] started(1) assms(3) started(2)]
    started(1) show ?case by (simp add: in_sync_def)
next
  case (served W e req dr allowed authz r W')
  have "steady sv e vn vw pool lo hi" using served(2) assms(2,3) by (simp add: steady_def)
  from serve_sync [OF this served(5,3,4)] show ?case .
qed

subsection \<open>What being in step means\<close>

lemma in_sync_forwards:
  assumes "in_sync sv vn vw pool lo hi W" and "pools_ok sv pool lo hi"
  shows "forwarded (vn (w_nft W)) (sv_table sv) p \<longleftrightarrow> may_pass (db_zones (w_db W)) p"
proof (rule represents_forwarded)
  show "represents (sv_table sv) (vn (w_nft W)) (db_zones (w_db W))"
    using assms(1) by (simp add: in_sync_def synced_def)
  show "\<forall>z M R. db_zones (w_db W) z = Some (M, R) \<longrightarrow> routes_good R"
    using assms by (intro consistent_good) (auto simp: in_sync_def pools_ok_def)
qed

lemma in_sync_delivers:
  assumes "in_sync sv vn vw pool lo hi W" and "pools_ok sv pool lo hi"
  shows "delivers (vw (w_wg W)) a k \<longleftrightarrow>
    (\<exists>n \<in> set (nodes (w_db W)). parse_key (sv_host sv) (n_wg_pubkey n) = Some k \<and>
       (a = n_ip n \<or> (\<exists>q \<in> set (node_routes (w_db W) (n_id n)). Contains q a)))"
proof -
  have con: "consistent (sv_host sv) pool lo hi (w_db W)"
    and car: "carries (vw (w_wg W)) (db_tunnel (sv_host sv) (w_db W))"
    using assms(1) by (simp_all add: in_sync_def synced_def)
  have "(\<exists>p \<in> node_allowed (w_db W) n. Contains p a) \<longleftrightarrow>
      a = n_ip n \<or> (\<exists>q \<in> set (node_routes (w_db W) (n_id n)). Contains q a)" for n
    by (auto simp: node_allowed_def allowed_of_def Contains_32)
  then show ?thesis
    unfolding delivers_iff [OF car db_tunnel_apart [OF con assms(2)]] db_tunnel_iff [OF consistent_keys [OF con]]
    by blast
qed

end
