(* ===== verification/Api_Tenants.thy ===== *)
theory Api_Tenants
  imports Api_Reachable
begin

text \<open>
  Who may change what: a request of an ordinary user leaves the nodes and zones of the other users,
  their memberships in each other's zones and their announcements there as they were, whatever
  statement or kernel call fails on the way.
\<close>

section \<open>Definitions\<close>

definition others_nodes :: "int \<Rightarrow> db \<Rightarrow> node_row set" where
  "others_nodes u d = {n \<in> set (nodes d). n_user_id n \<noteq> u}"

definition others_zones :: "int \<Rightarrow> db \<Rightarrow> zone_row set" where
  "others_zones u d = {z \<in> set (zones d). z_owner z \<noteq> u}"

definition others_members :: "int \<Rightarrow> db \<Rightarrow> member_row set" where
  "others_members u d =
     {m \<in> set (zone_members d). zm_zone m \<in> z_id ` others_zones u d \<and> zm_node m \<in> n_id ` others_nodes u d}"

definition others_anns :: "int \<Rightarrow> db \<Rightarrow> ann_row set" where
  "others_anns u d = {a \<in> set (announcements d). a_node a \<in> n_id ` others_nodes u d}"

definition others_attachments :: "int \<Rightarrow> db \<Rightarrow> (ann_row \<times> int) set" where
  "others_attachments u d =
     {(a, z). a \<in> others_anns u d \<and> z \<in> z_id ` others_zones u d \<and>
        \<lparr>az_ann = a_id a, az_zone = z\<rparr> \<in> set (announcement_zones d)}"

text \<open>
  An announcement of another user may only disappear, and only when no zone of another user has it:
  the owner of a zone may take it out of that zone.
\<close>

definition leaves_others :: "int \<Rightarrow> db \<Rightarrow> db \<Rightarrow> bool" where
  "leaves_others u d d' =
     (others_nodes u d' = others_nodes u d \<and> others_zones u d' = others_zones u d \<and>
      others_members u d' = others_members u d \<and> others_attachments u d' = others_attachments u d \<and>
      others_anns u d' \<subseteq> others_anns u d)"

text \<open>The session a request carries, and the requests that need none or an administrator's.\<close>

definition session :: "('k, 'w) server \<Rightarrow> string \<Rightarrow> claims option" where
  "session sv authz =
     (if has_prefix authz ''Bearer '' then jwt_verify sv (TrimSpace (drop (length ''Bearer '') authz))
      else None)"

fun public_request :: "api_request \<Rightarrow> bool" where
  "public_request (Healthz _) = True"
| "public_request (PostLogin _) = True"
| "public_request (PostRegister _) = True"
| "public_request (PostRefresh _) = True"
| "public_request (PostLogout _) = True"
| "public_request OtherPath = True"
| "public_request _ = False"

fun admin_request :: "api_request \<Rightarrow> bool" where
  "admin_request PostInvites = True"
| "admin_request GetInvites = True"
| "admin_request (DeleteUser _) = True"
| "admin_request _ = False"

section \<open>Lemmas\<close>

subsection \<open>The store operations\<close>

lemma leaves_others_refl [simp]: "leaves_others u d d"
  by (simp add: leaves_others_def)

lemma leaves_others_trans: "leaves_others u d d1 \<Longrightarrow> leaves_others u d1 d2 \<Longrightarrow> leaves_others u d d2"
  unfolding leaves_others_def by (metis order_trans)

lemma leaves_others_same: "network_same d d' \<Longrightarrow> leaves_others u d d'"
  by (simp add: network_same_def leaves_others_def others_nodes_def others_zones_def others_members_def
      others_anns_def others_attachments_def)

lemma leaves_othersI:
  assumes "others_nodes u d' = others_nodes u d" and "others_zones u d' = others_zones u d"
    and "\<And>m. zm_zone m \<in> z_id ` others_zones u d \<Longrightarrow> zm_node m \<in> n_id ` others_nodes u d \<Longrightarrow>
      m \<in> set (zone_members d') \<longleftrightarrow> m \<in> set (zone_members d)"
    and "\<And>a. a_node a \<in> n_id ` others_nodes u d \<Longrightarrow> a \<in> set (announcements d') \<Longrightarrow> a \<in> set (announcements d)"
    and "\<And>a z. \<lbrakk>a_node a \<in> n_id ` others_nodes u d; a \<in> set (announcements d); z \<in> z_id ` others_zones u d\<rbrakk> \<Longrightarrow>
      a \<in> set (announcements d') \<and> \<lparr>az_ann = a_id a, az_zone = z\<rparr> \<in> set (announcement_zones d') \<longleftrightarrow>
      \<lparr>az_ann = a_id a, az_zone = z\<rparr> \<in> set (announcement_zones d)"
  shows "leaves_others u d d'"
proof -
  have "others_members u d' = others_members u d" unfolding others_members_def assms(1,2) using assms(3) by blast
  moreover have "others_anns u d' \<subseteq> others_anns u d" unfolding others_anns_def assms(1) using assms(4) by blast
  moreover have "others_attachments u d' = others_attachments u d"
    unfolding others_attachments_def others_anns_def assms(1,2) using assms(4,5) by blast
  ultimately show ?thesis using assms(1,2) by (simp add: leaves_others_def)
qed

lemma own_id:
  assumes "distinct (map f xs)" and "x \<in> set xs" and "\<not> P x"
  shows "f x \<notin> f ` {y \<in> set xs. P y}"
proof
  assume "f x \<in> f ` {y \<in> set xs. P y}"
  then obtain y where "y \<in> set xs" "P y" "f x = f y" by blast
  with distinct_map_eqD [OF assms(1) assms(2), of y] assms(3) show False by simp
qed

lemma own_zone_id:
  assumes "schema_ok d" and "z \<in> set (zones d)" and "z_owner z = u"
  shows "z_id z \<notin> z_id ` others_zones u d"
  using assms unfolding others_zones_def by (intro own_id) (simp_all add: schema_ok_def uniq_ok_def)

lemma own_node_id:
  assumes "schema_ok d" and "n \<in> set (nodes d)" and "n_user_id n = u"
  shows "n_id n \<notin> n_id ` others_nodes u d"
  using assms unfolding others_nodes_def by (intro own_id) (simp_all add: schema_ok_def uniq_ok_def)

lemma own_ann_id:
  assumes "schema_ok d" and "a \<in> set (announcements d)" and "a_node a \<notin> n_id ` others_nodes u d"
  shows "a_id a \<notin> a_id ` others_anns u d"
  using assms unfolding others_anns_def by (intro own_id) (simp_all add: schema_ok_def uniq_ok_def)

lemma Join_others:
  assumes "nid \<notin> n_id ` others_nodes u d"
  shows "leaves_others u d (snd (Join e zid nid d))"
proof -
  have "snd (Join e zid nid d) = d \<or> snd (Join e zid nid d) =
      d\<lparr>zone_members := zone_members d @ [\<lparr>zm_zone = zid, zm_node = nid, zm_joined_at = now e\<rparr>]\<rparr>"
    by (simp add: Join_def insert_member_def Let_def)
  then show ?thesis using assms
    by (elim disjE) (auto intro!: leaves_othersI simp: others_nodes_def others_zones_def)
qed

lemma Leave_others:
  assumes "zid \<notin> z_id ` others_zones u d \<or> nid \<notin> n_id ` others_nodes u d"
  shows "leaves_others u d (snd (Leave e zid nid d))"
proof -
  have "snd (Leave e zid nid d) = d \<or> snd (Leave e zid nid d) =
      d\<lparr>zone_members := filter (\<lambda>m. \<not> (zm_zone m = zid \<and> zm_node m = nid)) (zone_members d)\<rparr>"
    by (simp add: Leave_def)
  then show ?thesis using assms
    by (elim disjE) (auto intro!: leaves_othersI simp: others_nodes_def others_zones_def)
qed

lemma CreateNode_others: "leaves_others u d (snd (CreateNode e (\<lambda>_ d. d) u name pk pf lo hi mx d))"
proof -
  obtain r d' where c: "CreateNode e (\<lambda>_ d. d) u name pk pf lo hi mx d = (r, d')" by fastforce
  show ?thesis
  proof (cases r)
    case (Inl err)
    with CreateNode_alone [OF c] show ?thesis by (simp add: c)
  next
    case (Inr n)
    with CreateNode_alone [OF c] have "node_added e u name pk pf (n_ip n) mx d n d'" by simp
    then have "n_user_id n = u" "d' = d\<lparr>nodes := nodes d @ [n], node_seq := node_seq d + 1\<rparr>"
      unfolding node_added_def by (metis node_row.select_convs(2), blast)
    then show ?thesis unfolding c snd_conv
      by (intro leaves_othersI) (auto simp: others_nodes_def others_zones_def)
  qed
qed

lemma CreateZone_owner: "CreateZone e owner name hash mx d = (Inr z, d') \<Longrightarrow> z \<in> set (zones d') \<and> z_owner z = owner"
  by (auto simp: CreateZone_def insertZone_def bind_res_Inr_iff insert_zone_row_def checked_insert_Inr Let_def
      split: sum.splits option.splits sql_error.splits constraint.splits if_splits)

lemma CreateZone_others: "leaves_others u d (snd (CreateZone e u name hash mx d))"
proof -
  have "leaves_others u d d'" if "insertZone e u name hash mx d = Inr (r, d')" for r d'
  proof (cases r)
    case None
    with that have "d' = d" by (auto simp: insertZone_def bind_res_Inr_iff split: if_splits)
    then show ?thesis by simp
  next
    case (Some z)
    with that have "z_owner z = u" "d' = d\<lparr>zones := zones d @ [z], zone_seq := z_id z\<rparr>"
      by (auto simp: insertZone_def bind_res_Inr_iff insert_zone_row_def checked_insert_Inr Let_def split: if_splits)
    then show ?thesis by (intro leaves_othersI) (auto simp: others_nodes_def others_zones_def)
  qed
  then show ?thesis
    by (simp add: CreateZone_def split: sum.split option.split sql_error.split constraint.split)
qed

lemma UpdatePassword_others:
  assumes "zid \<notin> z_id ` others_zones u d"
  shows "leaves_others u d (snd (UpdatePassword e zid hash d))"
proof -
  let ?f = "\<lambda>z. if z_id z = zid then z\<lparr>z_password_hash := hash\<rparr> else z"
  have "others_zones u (d\<lparr>zones := map ?f (zones d)\<rparr>) = others_zones u d"
    using assms by (force simp: others_zones_def)
  then have "leaves_others u d (d\<lparr>zones := map ?f (zones d)\<rparr>)"
    by (intro leaves_othersI) (simp_all add: others_nodes_def)
  then show ?thesis by (simp add: UpdatePassword_def)
qed

lemma DeleteOwned_others:
  assumes "schema_ok d"
  shows "leaves_others u d (snd (DeleteOwned e u i d))"
proof -
  let ?P = "\<lambda>n. n_id n = i \<and> n_user_id n = u" and ?gone = "n_id ` {n \<in> set (nodes d). n_id n = i \<and> n_user_id n = u}"
  have apart: "x \<notin> ?gone" if "x \<in> n_id ` others_nodes u d" for x
  proof
    assume "x \<in> ?gone"
    then obtain n where "n \<in> set (nodes d)" "n_user_id n = u" "x = n_id n" by blast
    with own_node_id [OF assms this(1,2)] that show False by simp
  qed
  have ids: "distinct (map a_id (announcements d))" using assms by (simp add: schema_ok_def uniq_ok_def)
  have kept: "a_id a \<notin> a_id ` {a \<in> set (announcements d). a_node a \<in> ?gone}"
    if "a \<in> set (announcements d)" "a_node a \<in> n_id ` others_nodes u d" for a
  proof
    assume "a_id a \<in> a_id ` {a \<in> set (announcements d). a_node a \<in> ?gone}"
    then obtain b where "b \<in> set (announcements d)" "a_id b = a_id a" "a_node b \<in> ?gone" by force
    with distinct_map_eqD [OF ids] that apart show False by blast
  qed
  have "leaves_others u d (delete_nodes ?P d)"
  proof (rule leaves_othersI)
    show "others_nodes u (delete_nodes ?P d) = others_nodes u d" by (auto simp: others_nodes_def frame_simps)
    show "others_zones u (delete_nodes ?P d) = others_zones u d" by (simp add: others_zones_def frame_simps)
  qed (use apart kept in \<open>simp_all add: frame_simps\<close>)
  then show ?thesis by (auto simp: DeleteOwned_def split: option.split)
qed

lemma DeleteZoneRow_others:
  assumes "zid \<notin> z_id ` others_zones u d"
  shows "leaves_others u d (snd (DeleteZoneRow e zid d))"
proof -
  have apart: "x \<notin> z_id ` {z \<in> set (zones d). z_id z = zid}" if "x \<in> z_id ` others_zones u d" for x
    using assms that by (auto simp: image_iff)
  have "leaves_others u d (delete_zones (\<lambda>z. z_id z = zid) d)"
  proof (rule leaves_othersI)
    show "others_zones u (delete_zones (\<lambda>z. z_id z = zid) d) = others_zones u d"
      using assms by (force simp: others_zones_def frame_simps)
    show "others_nodes u (delete_zones (\<lambda>z. z_id z = zid) d) = others_nodes u d"
      by (simp add: others_nodes_def frame_simps)
  qed (use apart in \<open>simp_all add: frame_simps\<close>)
  then show ?thesis by (simp add: DeleteZoneRow_def)
qed

lemma detach_row_others:
  "zid \<notin> z_id ` others_zones u d \<or> aid \<notin> a_id ` others_anns u d \<Longrightarrow> leaves_others u d (detach_row aid zid d)"
  by (rule leaves_othersI) (auto simp: detach_row_def others_nodes_def others_zones_def others_anns_def)

lemma reclaim_others:
  assumes "reclaimIfOrphaned e aid d = Inr (r, d1)"
  shows "leaves_others u d d1"
proof (cases r)
  case True
  have d1: "d1 = delete_announcements (\<lambda>a. a_id a = aid) d" and
    gone: "aid \<notin> az_ann ` set (announcement_zones d)"
    using reclaimIfOrphaned_Inr [OF assms] True by simp_all
  have "a_id a \<noteq> aid" if "\<lparr>az_ann = a_id a, az_zone = z\<rparr> \<in> set (announcement_zones d)" for a z
    using gone imageI [OF that, of az_ann] by auto
  then show ?thesis unfolding d1
    by (intro leaves_othersI) (auto simp: frame_simps others_nodes_def others_zones_def)
next
  case False
  with reclaimIfOrphaned_Inr [OF assms] show ?thesis by simp
qed

lemma leaves_others_own:
  assumes "leaves_others u d d1"
  shows "z_id ` others_zones u d1 = z_id ` others_zones u d" "a_id ` others_anns u d1 \<subseteq> a_id ` others_anns u d"
  using assms by (auto simp: leaves_others_def)

lemma detach_loop_others:
  "\<lbrakk>detach_loop e zid as d = Inr (out, d'); zid \<notin> z_id ` others_zones u d \<or> a_id ` set as \<inter> a_id ` others_anns u d = {}\<rbrakk> \<Longrightarrow>
     leaves_others u d d'"
proof (induction as arbitrary: d out)
  case (Cons a as)
  from Cons.prems(1) obtain r d1 out' where
    1: "reclaimIfOrphaned e (a_id a) (detach_row (a_id a) zid d) = Inr (r, d1)" and
    2: "detach_loop e zid as d1 = Inr (out', d')" by (auto split: if_splits sum.splits)
  have "leaves_others u d (detach_row (a_id a) zid d)"
    by (rule detach_row_others) (use Cons.prems(2) in auto)
  from leaves_others_trans [OF this reclaim_others [OF 1]] have first: "leaves_others u d d1" .
  have "zid \<notin> z_id ` others_zones u d1 \<or> a_id ` set as \<inter> a_id ` others_anns u d1 = {}"
    using Cons.prems(2) leaves_others_own [OF first] by (simp only: set_simps image_insert) blast
  from leaves_others_trans [OF first Cons.IH [OF 2 this]] show ?case .
qed simp

lemma DetachAllForNodeZone_others:
  assumes "schema_ok d" and "zid \<notin> z_id ` others_zones u d \<or> nid \<notin> n_id ` others_nodes u d"
  shows "leaves_others u d (snd (DetachAllForNodeZone e nid zid d))"
proof -
  have "a_id a \<notin> a_id ` others_anns u d"
    if "a \<in> set (node_zone_anns d nid zid)" "nid \<notin> n_id ` others_nodes u d" for a
    using that by (intro own_ann_id [OF assms(1)]) (auto simp: node_zone_anns_def set_zone_anns)
  then have "zid \<notin> z_id ` others_zones u d \<or> a_id ` set (node_zone_anns d nid zid) \<inter> a_id ` others_anns u d = {}"
    using assms(2) by blast
  then show ?thesis
    by (auto simp: DetachAllForNodeZone_def split: sum.split intro: detach_loop_others)
qed

lemma Detach_others:
  assumes "zid \<notin> z_id ` others_zones u d \<or> aid \<notin> a_id ` others_anns u d"
  shows "leaves_others u d (snd (Detach e zid aid d))"
  by (auto simp: Detach_def split: sum.split
      intro: leaves_others_trans [OF detach_row_others [OF assms] reclaim_others])

lemma reclaim_loop_others: "reclaim_loop e dets d = Inr (out, d') \<Longrightarrow> leaves_others u d d'"
proof (induction dets arbitrary: d out)
  case (Cons x xs)
  then obtain r d1 out' where "reclaimIfOrphaned e (zd_ann x) d = Inr (r, d1)" "reclaim_loop e xs d1 = Inr (out', d')"
    by (auto split: sum.splits)
  from leaves_others_trans [OF reclaim_others [OF this(1)] Cons.IH [OF this(2)]] show ?case .
qed simp

lemma DetachAllForZone_others:
  assumes "zid \<notin> z_id ` others_zones u d"
  shows "leaves_others u d (snd (DetachAllForZone e zid d))"
proof -
  have "leaves_others u d (d\<lparr>announcement_zones := filter (\<lambda>x. az_zone x \<noteq> zid) (announcement_zones d)\<rparr>)"
    by (rule leaves_othersI) (use assms in \<open>auto simp: others_nodes_def others_zones_def\<close>)
  then show ?thesis
    by (auto simp: DetachAllForZone_def split: sum.split intro: leaves_others_trans [OF _ reclaim_loop_others])
qed

lemma CreateAnnouncement_others:
  assumes "schema_ok d" and "nid \<notin> n_id ` others_nodes u d"
  shows "leaves_others u d (snd (CreateAnnouncement e uid nid real zid limit pool d))"
proof (cases "CreateAnnouncement e uid nid real zid limit pool d")
  case (Pair r d')
  show ?thesis
  proof (cases r)
    case (Inl err)
    with CreateAnnouncement_Inl Pair show ?thesis by fastforce
  next
    case (Inr x)
    obtain ann fresh where x: "x = (ann, fresh)" by fastforce
    from CreateAnnouncement_Inr [OF _ assms(1)] Pair Inr x have
      cases: "attached_known nid real zid d ann fresh d' \<or> announced e uid nid real zid limit pool d ann d'" by blast
    have attach: "leaves_others u d (d\<lparr>announcements := as, ann_seq := q,
        announcement_zones := announcement_zones d @ [\<lparr>az_ann = i, az_zone = zid\<rparr>]\<rparr>)"
      if "as = announcements d \<or> (\<exists>a. a_node a = nid \<and> as = announcements d @ [a])"
        and "i \<notin> a_id ` others_anns u d" for as q i
      by (rule leaves_othersI) (use that assms(2) in \<open>auto simp: others_nodes_def others_zones_def others_anns_def\<close>)
    from cases show ?thesis
    proof
      assume "attached_known nid real zid d ann fresh d'"
      then obtain a where a: "a \<in> set (announcements d)" "a_node a = nid" and d': "d' = (if fresh then d\<lparr>announcement_zones :=
          announcement_zones d @ [\<lparr>az_ann = a_id a, az_zone = zid\<rparr>]\<rparr> else d)"
        unfolding attached_known_def by blast
      have "a_id a \<notin> a_id ` others_anns u d" by (rule own_ann_id [OF assms(1) a(1)]) (use a assms(2) in simp)
      from attach [OF _ this, of "announcements d" "ann_seq d"] show ?thesis by (simp add: Pair d')
    next
      assume "announced e uid nid real zid limit pool d ann d'"
      then obtain a where a: "a_id a = ann_seq d + 1" "a_node a = nid" and d': "d' = d\<lparr>announcements := announcements d @ [a],
          ann_seq := ann_seq d + 1, announcement_zones := announcement_zones d @ [\<lparr>az_ann = a_id a, az_zone = zid\<rparr>]\<rparr>"
        unfolding announced_def by force
      have "a_id b \<noteq> a_id a" if "b \<in> set (announcements d)" for b
        using assms(1) that a(1) by (force simp: schema_ok_def seq_ok_def)
      then have "a_id a \<notin> a_id ` others_anns u d" by (force simp: others_anns_def)
      from attach [OF _ this] a(2) show ?thesis by (auto simp: Pair d')
    qed
  qed
qed

subsection \<open>The schema survives detaching with failures\<close>

lemma detach_row_ok: "schema_ok d \<Longrightarrow> schema_ok (detach_row aid zid d)"
  by (simp add: detach_row_def schema_defs)

lemma reclaim_ok: "reclaimIfOrphaned e aid d = Inr (r, d1) \<Longrightarrow> schema_ok d \<Longrightarrow> schema_ok d1"
  using reclaimIfOrphaned_Inr by (fastforce intro: delete_announcements_ok)

lemma detach_loop_ok: "detach_loop e zid as d = Inr (out, d') \<Longrightarrow> schema_ok d \<Longrightarrow> schema_ok d'"
proof (induction as arbitrary: d out)
  case (Cons a as)
  from Cons.prems(1) obtain r d1 out' where
    1: "reclaimIfOrphaned e (a_id a) (detach_row (a_id a) zid d) = Inr (r, d1)" and
    2: "detach_loop e zid as d1 = Inr (out', d')" by (auto split: if_splits sum.splits)
  from Cons.IH [OF 2 reclaim_ok [OF 1 detach_row_ok [OF Cons.prems(2)]]] show ?case .
qed simp

lemma reclaim_loop_ok: "reclaim_loop e dets d = Inr (out, d') \<Longrightarrow> schema_ok d \<Longrightarrow> schema_ok d'"
proof (induction dets arbitrary: d out)
  case (Cons x xs)
  then obtain r d1 out' where 1: "reclaimIfOrphaned e (zd_ann x) d = Inr (r, d1)" "reclaim_loop e xs d1 = Inr (out', d')"
    by (auto split: sum.splits)
  from Cons.IH [OF 1(2) reclaim_ok [OF 1(1) Cons.prems(2)]] show ?case .
qed simp

lemma detaches_ok:
  assumes "schema_ok d"
  shows "schema_ok (snd (Detach e zid aid d))" "schema_ok (snd (DetachAllForNodeZone e nid zid d))"
    "schema_ok (snd (DetachAllForZone e zid d))"
proof -
  have "schema_ok (d\<lparr>announcement_zones := filter (\<lambda>x. az_zone x \<noteq> zid) (announcement_zones d)\<rparr>)"
    using assms by (simp add: schema_defs)
  then show "schema_ok (snd (Detach e zid aid d))" "schema_ok (snd (DetachAllForNodeZone e nid zid d))"
    "schema_ok (snd (DetachAllForZone e zid d))"
    using assms by (auto simp: Detach_def DetachAllForNodeZone_def DetachAllForZone_def split: sum.split
        intro: detach_loop_ok reclaim_loop_ok reclaim_ok detach_row_ok)
qed

lemma CreateAnnouncement_ok:
  assumes "schema_ok d"
  shows "schema_ok (snd (CreateAnnouncement e uid nid real zid limit pool d))"
proof (cases "CreateAnnouncement e uid nid real zid limit pool d")
  case (Pair r d')
  with assms CreateAnnouncement_Inl [of e uid nid real zid limit pool d]
    CreateAnnouncement_Inr [of e uid nid real zid limit pool d] show ?thesis
    by (cases r) auto
qed

subsection \<open>The handlers\<close>

definition others_safe :: "int \<Rightarrow> db \<Rightarrow> ('k, 'w) world \<Rightarrow> bool" where
  "others_safe u d W = (schema_ok (w_db W) \<and> leaves_others u d (w_db W))"

lemma others_safe_same: "w_db W' = w_db W \<Longrightarrow> others_safe u d W' = others_safe u d W"
  by (simp add: others_safe_def)

lemma others_safe_db:
  assumes "others_safe u d W" and "db_do f W = (r, W')"
    and "schema_ok (w_db W) \<Longrightarrow> schema_ok (snd (f (w_db W)))"
    and "schema_ok (w_db W) \<Longrightarrow> leaves_others u (w_db W) (snd (f (w_db W)))"
  shows "others_safe u d W'"
  using assms leaves_others_trans by (fastforce simp: others_safe_def db_do_result)

lemma calls_keep_db:
  "nft_do sv c W = (r, W') \<Longrightarrow> w_db W' = w_db W"
  "wg_do f sv W = (r, W') \<Longrightarrow> w_db W' = w_db W"
  "set_routes sv pub ip rs W = (r, W') \<Longrightarrow> w_db W' = w_db W"
  by (auto simp: nft_do_def wg_do_def set_routes_def split: prod.splits)

lemma with_identity_Some [simp]: "with_identity (Some i) W k = k i"
  by (simp add: with_identity_def)

lemma safe_ids:
  assumes "others_safe u d W"
  shows "n \<in> set (nodes (w_db W)) \<Longrightarrow> n_user_id n = u \<Longrightarrow> n_id n \<notin> n_id ` others_nodes u d"
    and "z \<in> set (zones (w_db W)) \<Longrightarrow> z_owner z = u \<Longrightarrow> z_id z \<notin> z_id ` others_zones u d"
    and "a \<in> set (announcements (w_db W)) \<Longrightarrow> a_node a \<notin> n_id ` others_nodes u d \<Longrightarrow>
      a_id a \<notin> a_id ` others_anns u (w_db W)"
  using assms own_node_id [of "w_db W" n u] own_zone_id [of "w_db W" z u] own_ann_id [of "w_db W" a u]
  by (auto simp: others_safe_def leaves_others_def)

lemma others_safeI:
  assumes "others_safe u d W" and "schema_ok (w_db W) \<Longrightarrow> schema_ok (snd (f (w_db W)))"
    and "\<lbrakk>schema_ok (w_db W); others_nodes u (w_db W) = others_nodes u d; others_zones u (w_db W) = others_zones u d\<rbrakk> \<Longrightarrow>
      leaves_others u (w_db W) (snd (f (w_db W)))"
  shows "others_safe u d (snd (db_do f W))"
proof (rule others_safe_db [OF assms(1), where f = f and r = "fst (db_do f W)"])
  assume "schema_ok (w_db W)"
  with assms(1) show "leaves_others u (w_db W) (snd (f (w_db W)))"
    by (intro assms(3)) (auto simp: others_safe_def leaves_others_def)
qed (simp_all add: assms(2))

lemma safe_do:
  assumes "others_safe u d W"
  shows "others_safe u d (snd (db_do (CreateNode e (\<lambda>_ d. d) u name pk pf lo hi mx) W))"
    and "others_safe u d (snd (db_do (DeleteOwned e u i) W))"
    and "others_safe u d (snd (db_do (CreateZone e u name hash mx) W))"
    and "zid \<notin> z_id ` others_zones u d \<Longrightarrow> others_safe u d (snd (db_do (UpdatePassword e zid hash) W))"
    and "zid \<notin> z_id ` others_zones u d \<Longrightarrow> others_safe u d (snd (db_do (DeleteZoneRow e zid) W))"
    and "nid \<notin> n_id ` others_nodes u d \<Longrightarrow> others_safe u d (snd (db_do (Join e zid nid) W))"
    and "zid \<notin> z_id ` others_zones u d \<or> nid \<notin> n_id ` others_nodes u d \<Longrightarrow>
      others_safe u d (snd (db_do (Leave e zid nid) W))"
    and "zid \<notin> z_id ` others_zones u d \<or> nid \<notin> n_id ` others_nodes u d \<Longrightarrow>
      others_safe u d (snd (db_do (DetachAllForNodeZone e nid zid) W))"
    and "zid \<notin> z_id ` others_zones u d \<Longrightarrow> others_safe u d (snd (db_do (DetachAllForZone e zid) W))"
    and "zid \<notin> z_id ` others_zones u d \<or> aid \<notin> a_id ` others_anns u (w_db W) \<Longrightarrow>
      others_safe u d (snd (db_do (Detach e zid aid) W))"
    and "nid \<notin> n_id ` others_nodes u d \<Longrightarrow>
      others_safe u d (snd (db_do (CreateAnnouncement e uid nid real zid limit pool) W))"
  by (rule others_safeI [OF assms]; simp add: CreateNode_ok DeleteOwned_ok CreateZone_ok UpdatePassword_ok
      DeleteZoneRow_ok Join_ok Leave_ok detaches_ok CreateAnnouncement_ok CreateNode_others DeleteOwned_others
      CreateZone_others UpdatePassword_others DeleteZoneRow_others Join_others Leave_others
      DetachAllForNodeZone_others DetachAllForZone_others Detach_others CreateAnnouncement_others)+

lemma safe_result: "others_safe u d (snd (db_do f W)) \<Longrightarrow> db_do f W = (r, W') \<Longrightarrow> others_safe u d W'"
  by simp

text \<open>The same as elimination rules: the call just made is the first premise.\<close>

lemmas safe_step = safe_do [THEN safe_result, rotated -1]

lemma safe_calls:
  "nft_do sv c W = (r, W') \<Longrightarrow> others_safe u d W \<Longrightarrow> others_safe u d W'"
  "wg_do f sv W = (s, W') \<Longrightarrow> others_safe u d W \<Longrightarrow> others_safe u d W'"
  "set_routes sv pub ip rs W = (s, W') \<Longrightarrow> others_safe u d W \<Longrightarrow> others_safe u d W'"
  by (metis calls_keep_db others_safe_same)+

lemma safe_tries [simp]:
  "others_safe u d (nft_try sv c W) = others_safe u d W"
  "others_safe u d (recompute_peer sv e nid pub ip W) = others_safe u d W"
  "others_safe u d (wg_remove sv pub W) = others_safe u d W"
  by (rule others_safe_same; simp add: frame_simps)+

lemma safe_folds [simp]:
  "others_safe u d (fold (\<lambda>x. nft_try sv (c x)) xs W) = others_safe u d W"
  by (induction xs arbitrary: W) simp_all

lemma registerNode_others:
  assumes "others_safe (UserID i) d W"
  shows "ends_in (others_safe (UserID i) d) (registerNode sv e (Some i) body W)"
  unfolding registerNode_def add_node_peer_def with_identity_Some
  by (intro branch_rules; (rule safe_do)?; (elim safe_step safe_calls)?; simp add: assms)

lemma deleteNode_others:
  assumes "others_safe (UserID i) d W"
  shows "ends_in (others_safe (UserID i) d) (deleteNode sv e (Some i) path W)"
  unfolding deleteNode_def forget_node_def with_identity_Some
  by (intro branch_rules; simp?; (elim safe_step)?; simp add: assms)

lemma rollbackZone_others:
  "\<lbrakk>others_safe u d W; zid \<notin> z_id ` others_zones u d\<rbrakk> \<Longrightarrow> others_safe u d (rollbackZone sv e zid W)"
  by (simp add: rollbackZone_def safe_do)

lemma auto_join_others:
  assumes "others_safe u d W" and "z_id z \<notin> z_id ` others_zones u d"
    and "\<And>n. member = Some n \<Longrightarrow> n_id n \<notin> n_id ` others_nodes u d"
  shows "ends_in (others_safe u d) (auto_join sv e z member W)"
  unfolding auto_join_def Let_def
  by (intro branch_rules; (rule rollbackZone_others)?; (elim safe_step safe_calls)?; simp add: assms)

lemma safe_new_zone:
  assumes "db_do (CreateZone e u name hash mx) W = (Inr z, W1)" and "others_safe u d W"
  shows "z_id z \<notin> z_id ` others_zones u d"
proof -
  have "others_safe u d W1" using assms by (elim safe_step)
  moreover have "z \<in> set (zones (w_db W1)) \<and> z_owner z = u"
    using assms(1) by (auto simp: db_do_result dest: CreateZone_owner)
  ultimately show ?thesis using safe_ids(2) [of u d W1 z] by simp
qed

lemma createZone_others:
  assumes safe: "others_safe (UserID i) d W"
  shows "ends_in (others_safe (UserID i) d) (createZone sv e (Some i) body W)"
  unfolding createZone_def with_identity_Some
proof (intro branch_rules auto_join_others)
  fix req member hash r W1 z r2 W2
  assume m: "auto_join_node e (UserID i) (cz_NodeID req) (w_db W) = Inr member"
    and "db_do (CreateZone e (UserID i) (TrimSpace (cz_Name req)) hash (cap i (maxOwnedZonesPerUser sv))) W = (r, W1)"
    and "r = Inr z"
  then have new: "db_do (CreateZone e (UserID i) (TrimSpace (cz_Name req)) hash (cap i (maxOwnedZonesPerUser sv))) W =
      (Inr z, W1)" by simp
  show own: "z_id z \<notin> z_id ` others_zones (UserID i) d" by (rule safe_new_zone [OF new safe])
  {
    fix n assume "member = Some n"
    with m have "GetOwned e (UserID i) (cz_NodeID req) (w_db W) = Inr n"
      by (auto simp: auto_join_node_def split: if_splits sum.splits)
    from GetOwned_Inr [OF this] show "n_id n \<notin> n_id ` others_nodes (UserID i) d"
      using safe_ids(1) [OF safe, of n] by simp
  next
    assume "nft_do sv (Call_AddZone (z_id z)) W1 = (r2, W2)"
    then show "others_safe (UserID i) d W2" using safe new by (elim safe_step safe_calls)
    with own show "others_safe (UserID i) d (snd (db_do (DeleteZoneRow (at_site ''rollback: '' e) (z_id z)) W2))"
      by (simp add: safe_do)
  }
qed (use safe in \<open>(elim safe_step)?; simp\<close>)+

lemma joinZone_others:
  assumes safe: "others_safe (UserID i) d W"
  shows "ends_in (others_safe (UserID i) d) (joinZone sv e (Some i) name body W)"
proof -
  have own: "n_id n \<notin> n_id ` others_nodes (UserID i) d" if "GetOwned e (UserID i) nid (w_db W) = Inr n" for nid n
    using GetOwned_Inr [OF that] safe_ids(1) [OF safe, of n] by simp
  show ?thesis
    unfolding joinZone_def with_identity_Some
    by (intro branch_rules; (rule safe_do)?; (elim safe_step safe_calls)?; simp add: safe own)
qed

lemma cascade_others:
  assumes "others_safe u d W" and "zid \<notin> z_id ` others_zones u d \<or> n_id n \<notin> n_id ` others_nodes u d"
  shows "others_safe u d (cascadeNodeZoneAnnouncements sv e n zid W)"
proof (cases "db_do (DetachAllForNodeZone e (n_id n) zid) W")
  case (Pair r W1)
  have "others_safe u d W1" using Pair assms by (elim safe_step)
  then show ?thesis by (simp add: cascadeNodeZoneAnnouncements_def Pair Let_def split: sum.split)
qed

lemma remove_member_others:
  assumes "others_safe u d W" and "z_id z \<notin> z_id ` others_zones u d \<or> n_id n \<notin> n_id ` others_nodes u d"
  shows "ends_in (others_safe u d) (remove_member sv e z n W)"
  unfolding remove_member_def
  by (intro branch_rules; (rule cascade_others [OF _ assms(2)])?; simp?; (elim safe_step)?;
      (rule assms)?; simp add: assms(1))

lemma leaveZone_others:
  assumes safe: "others_safe (UserID i) d W"
  shows "ends_in (others_safe (UserID i) d) (leaveZone sv e (Some i) name body W)"
proof -
  have own: "n_id n \<notin> n_id ` others_nodes (UserID i) d" if "GetOwned e (UserID i) nid (w_db W) = Inr n" for nid n
    using GetOwned_Inr [OF that] safe_ids(1) [OF safe, of n] by simp
  show ?thesis
    unfolding leaveZone_def with_identity_Some
    by (intro branch_rules remove_member_others; simp add: safe own)
qed

lemma kickMember_others:
  assumes safe: "others_safe (UserID i) d W"
  shows "ends_in (others_safe (UserID i) d) (kickMember sv e (Some i) name path W)"
  unfolding kickMember_def with_identity_Some
  by (intro branch_rules remove_member_others; simp add: safe safe_ids(2) [OF safe])

lemma changeZonePassword_others:
  assumes safe: "others_safe (UserID i) d W"
  shows "ends_in (others_safe (UserID i) d) (changeZonePassword sv e (Some i) name body W)"
  unfolding changeZonePassword_def with_identity_Some
  by (intro branch_rules; (elim safe_step)?; simp add: safe safe_ids(2) [OF safe])

lemma recompute_loop_others [simp]:
  "others_safe u d (recompute_loop sv e seen dets W) = others_safe u d W"
  by (induction sv e seen dets W rule: recompute_loop.induct) (auto split: sum.split)

lemma deleteZone_others:
  assumes safe: "others_safe (UserID i) d W"
  shows "ends_in (others_safe (UserID i) d) (deleteZone sv e (Some i) name W)"
  unfolding deleteZone_def recomputeReclaimedPeers_def with_identity_Some
  by (intro branch_rules; simp?; (elim safe_step)?; simp add: safe safe_ids(2) [OF safe])

lemma deleteAnnouncement_others:
  assumes safe: "others_safe (UserID i) d W"
  shows "ends_in (others_safe (UserID i) d) (deleteAnnouncement sv e (Some i) name path W)"
  unfolding deleteAnnouncement_def with_identity_Some
proof (intro branch_rules)
  fix z aid ann n r W1
  assume z: "z \<in> set (zones (w_db W))" and ann: "GetAnnouncement e aid (w_db W) = Inr ann"
    and n: "GetNodeByID e (AnnNodeID ann) (w_db W) = Inr n"
    and may: "\<not> (n_user_id n \<noteq> UserID i \<and> z_owner z \<noteq> UserID i)"
    and det: "db_do (Detach (at_site ''handler: '' e) (z_id z) aid) W = (r, W1)"
  from GetAnnouncement_Inr [OF ann] obtain a where a: "a \<in> set (announcements (w_db W))" "a_id a = aid"
    "ann = ann_of_row a" by blast
  have "z_id z \<notin> z_id ` others_zones (UserID i) d \<or> aid \<notin> a_id ` others_anns (UserID i) (w_db W)"
    using may safe_ids(1) [OF safe, of n] safe_ids(2) [OF safe z] safe_ids(3) [OF safe a(1)]
      GetNodeByID_Inr [OF n] a(2,3) by auto
  then have W1: "others_safe (UserID i) d W1" using det safe by (elim safe_step)
  then show "others_safe (UserID i) d W1" .
  fix x routed reclaimed W2
  assume "W2 = nft_try sv (Call_RemoveZoneRoute (z_id z) (block_prefix (Synthetic ann))) W1"
  then show "others_safe (UserID i) d
      (if reclaimed then recompute_peer sv e (n_id n) (n_wg_pubkey n) (n_ip n) W2 else W2)"
    using W1 by simp
qed (use safe in simp_all)

lemma CreateAnnouncement_id:
  assumes "CreateAnnouncement e uid nid real zid limit pool d = (Inr (ann, fresh), d')" and "schema_ok d"
  shows "\<exists>a \<in> set (announcements d'). a_id a = AnnID ann \<and> a_node a = nid"
  using CreateAnnouncement_Inr [OF assms] by (auto simp: attached_known_def announced_def)

lemma rollbackAnnouncement_others:
  assumes "others_safe u d W" and "aid \<notin> a_id ` others_anns u (w_db W)"
  shows "others_safe u d (rollbackAnnouncement sv e zid aid n W)"
proof (cases "db_do (Detach (at_site ''rollback: '' e) zid aid) W")
  case (Pair r W1)
  have "others_safe u d (snd (db_do (Detach (at_site ''rollback: '' e) zid aid) W))"
    by (rule safe_do(10) [OF assms(1)]) (simp add: assms(2))
  then show ?thesis by (simp add: rollbackAnnouncement_def Pair split: sum.split)
qed

lemma grow_dataplane_others:
  assumes "others_safe u d W" and "AnnID ann \<notin> a_id ` others_anns u (w_db W)"
    and "grow_dataplane sv e zid n ann W = (ok, W')"
  shows "others_safe u d W'"
proof -
  have roll: "others_safe u d (rollbackAnnouncement sv e zid (AnnID ann) n V)" if "w_db V = w_db W" for V
    using assms(1,2) that by (intro rollbackAnnouncement_others) (simp_all add: others_safe_def)
  have "w_db V = w_db W \<Longrightarrow> others_safe u d V" for V using assms(1) by (simp add: others_safe_def)
  with roll assms(3) show ?thesis
    by (auto simp: grow_dataplane_def dest!: calls_keep_db split: sum.splits prod.splits option.splits)
qed

lemma createAnnouncement_others:
  assumes safe: "others_safe (UserID i) d W"
  shows "ends_in (others_safe (UserID i) d) (createAnnouncement sv e (Some i) name body W)"
  unfolding createAnnouncement_def with_identity_Some
proof (intro branch_rules)
  fix z n r W1 real lim pool req
  assume n: "GetOwned e (UserID i) (ca_NodeID req) (w_db W) = Inr n"
    and new: "db_do (CreateAnnouncement e (UserID i) (n_id n) real (z_id z) lim pool) W = (r, W1)"
  have own: "n_id n \<notin> n_id ` others_nodes (UserID i) d"
    using safe_ids(1) [OF safe, of n] GetOwned_Inr [OF n] by simp
  have W1: "others_safe (UserID i) d W1" using new safe own by (elim safe_step)
  then show "others_safe (UserID i) d W1" .
  fix x ann attached ok W2
  assume x: "r = Inr x" "x = (ann, attached)"
    and grow: "(if attached then grow_dataplane sv e (z_id z) n ann W1 else (True, W1)) = (ok, W2)"
  have "schema_ok (w_db W)" using safe by (simp add: others_safe_def)
  then obtain a where a: "a \<in> set (announcements (w_db W1))" "a_id a = AnnID ann" "a_node a = n_id n"
    using new x CreateAnnouncement_id [of e "UserID i" "n_id n" real "z_id z" lim pool "w_db W" ann attached]
    by (auto simp: db_do_result)
  have "AnnID ann \<notin> a_id ` others_anns (UserID i) (w_db W1)"
    using safe_ids(3) [OF W1 a(1)] a(2,3) own by simp
  then have "others_safe (UserID i) d W2"
    using grow W1 grow_dataplane_others [OF W1] by (cases attached) auto
  then show "others_safe (UserID i) d W2" "others_safe (UserID i) d W2" by this+
qed (use safe in simp_all)

subsection \<open>Whole requests\<close>

lemma AuthRequired_session:
  "AuthRequired sv authz next W =
     (case session sv authz of None \<Rightarrow> (unauthorized, W) | Some c \<Rightarrow> next (Some c) W)"
  by (simp add: AuthRequired_def session_def)

definition network_kept :: "('k, 'w) world \<Rightarrow> ('k, 'w) world \<Rightarrow> bool" where
  "network_kept W W' = (network_same (w_db W) (w_db W') \<and> w_nft W' = w_nft W \<and> w_wg W' = w_wg W)"

lemma network_kept_refl [simp]: "network_kept W W"
  by (simp add: network_kept_def)

lemma network_kept_db: "db_do f W = (r, W') \<Longrightarrow> network_same (w_db W) (snd (f (w_db W))) \<Longrightarrow> network_kept W W'"
  by (auto simp: network_kept_def db_do_result)

lemma accounts_network:
  "ends_in (network_kept W) (login sv e drawn lr W)" "ends_in (network_kept W) (refresh sv e rt W)"
  "ends_in (network_kept W) (logout sv e rt W)" "ends_in (network_kept W) (register_account sv e rr W)"
  "ends_in (network_kept W) (createInvite sv e gen cid W)"
  unfolding login_def refresh_def logout_def register_account_def createInvite_def
  by (intro branch_rules; (erule network_kept_db)?; simp add: tokens_same Register_same CreateInvite_same)+

lemma network_kept_others:
  assumes "schema_ok (w_db W)" and "ends_in (network_kept W) out"
  shows "leaves_others u (w_db W) (w_db (snd out))"
  using assms by (auto simp: ends_in_def network_kept_def intro: leaves_others_same)

lemma others_safe_leaves:
  "ends_in (others_safe u (w_db W)) out \<Longrightarrow> leaves_others u (w_db W) (w_db (snd out))"
  by (simp add: ends_in_def others_safe_def)

lemmas handlers_others = registerNode_others deleteNode_others createZone_others joinZone_others leaveZone_others
  kickMember_others changeZonePassword_others deleteZone_others createAnnouncement_others deleteAnnouncement_others

lemma routes_others:
  assumes "schema_ok (w_db W)" and "session sv authz = Some c" and "\<not> IsAdmin c \<or> (\<forall>i. req \<noteq> DeleteUser i)"
  shows "leaves_others (UserID c) (w_db W) (w_db (snd (routes sv version e dr authz req W)))"
proof -
  have "others_safe (UserID c) (w_db W) W" using assms(1) by (simp add: others_safe_def)
  note handled = handlers_others [OF this, THEN others_safe_leaves]
    and read = reads_keep [where P = "network_kept W", OF network_kept_refl, THEN network_kept_others [OF assms(1)]]
    and account = accounts_network [THEN network_kept_others [OF assms(1)]]
  show ?thesis
    using assms(3) by (cases req)
      (simp_all add: AuthRequired_session assms(2) handled read account AdminRequired_def with_identity_def)
qed

end
