(* ===== verification/Api_Failures.thy ===== *)
theory Api_Failures
  imports Api_Tenants
begin

text \<open>
  What a failed request leaves behind: the handlers that change the database before the kernel undo
  the change when the kernel refuses, so that a request answered with an error has no effect on the
  network's tables. There is one exception, a node that joins a zone it is in already.
\<close>

section \<open>Definitions\<close>

definition no_trace :: "db \<Rightarrow> response \<Rightarrow> ('k, 'w) world \<Rightarrow> bool" where
  "no_trace d r W = (success r \<or> network_same d (w_db W))"

text \<open>A request to join a zone for a node that is a member.\<close>

definition rejoins :: "db \<Rightarrow> api_request \<Rightarrow> bool" where
  "rejoins d req =
     (case req of
        PostJoin name (Some b) \<Rightarrow>
          (\<exists>z \<in> set (zones d). z_name z = name \<and> is_member d (z_id z) (jz_NodeID b))
      | _ \<Rightarrow> False)"

section \<open>Lemmas\<close>

lemma no_trace_same: "w_db W' = w_db W \<Longrightarrow> no_trace d r W' = no_trace d r W"
  by (simp add: no_trace_def)

lemma no_trace_start [simp]: "no_trace (w_db W) r W"
  by (simp add: no_trace_def)

lemma no_trace_success [simp]: "success r \<Longrightarrow> no_trace d r W"
  by (simp add: no_trace_def)

subsection \<open>Undoing\<close>

lemma fk_members:
  assumes "schema_ok d" and "m \<in> set (zone_members d)"
  shows "zm_zone m \<in> z_id ` set (zones d)" "zm_node m \<in> n_id ` set (nodes d)"
  using assms by (simp_all add: schema_ok_def fk_ok_def has_defs)

lemma fk_anns: "schema_ok d \<Longrightarrow> a \<in> set (announcements d) \<Longrightarrow> a_node a \<in> n_id ` set (nodes d)"
  by (simp add: schema_ok_def fk_ok_def has_defs)

lemma fk_attachments:
  assumes "schema_ok d" and "x \<in> set (announcement_zones d)"
  shows "az_zone x \<in> z_id ` set (zones d)" "az_ann x \<in> a_id ` set (announcements d)"
  using assms by (simp_all add: schema_ok_def fk_ok_def has_defs)

lemma above_all:
  fixes s :: int
  assumes "\<forall>x \<in> set xs. f x \<le> s"
  shows "s + 1 \<notin> f ` set xs"
proof
  assume "s + 1 \<in> f ` set xs"
  then obtain x where "x \<in> set xs" "s + 1 = f x" by blast
  with bspec [OF assms this(1)] show False by simp
qed

lemma fresh_ids:
  assumes "schema_ok d"
  shows "node_seq d + 1 \<notin> n_id ` set (nodes d)" "zone_seq d + 1 \<notin> z_id ` set (zones d)"
    "ann_seq d + 1 \<notin> a_id ` set (announcements d)"
proof -
  have "seq_ok d" using assms by (simp add: schema_ok_def)
  then have le: "\<forall>n \<in> set (nodes d). n_id n \<le> node_seq d" "\<forall>z \<in> set (zones d). z_id z \<le> zone_seq d"
    "\<forall>a \<in> set (announcements d). a_id a \<le> ann_seq d" by (simp_all add: seq_ok_def)
  show "node_seq d + 1 \<notin> n_id ` set (nodes d)" by (rule above_all [OF le(1)])
  show "zone_seq d + 1 \<notin> z_id ` set (zones d)" by (rule above_all [OF le(2)])
  show "ann_seq d + 1 \<notin> a_id ` set (announcements d)" by (rule above_all [OF le(3)])
qed

lemma filter_all: "(\<And>x. x \<in> set xs \<Longrightarrow> P x) \<Longrightarrow> filter P xs = xs"
  by (simp add: filter_id_conv)

lemma undo_node:
  assumes "schema_ok d" and "node_added e uid name pk pf ip mx d n d'" and "quiet e'"
  shows "network_same d (snd (DeleteOwned e' uid (n_id n) d'))"
proof -
  let ?P = "\<lambda>m. n_id m = n_id n \<and> n_user_id m = uid"
  have n: "n_id n = node_seq d + 1" "n_user_id n = uid" and d': "d' = d\<lparr>nodes := nodes d @ [n], node_seq := node_seq d + 1\<rparr>"
    using assms(2) unfolding node_added_def
    by (metis node_row.select_convs(1), metis node_row.select_convs(2), blast)
  have old: "i \<noteq> n_id n" if "i \<in> n_id ` set (nodes d)" for i
    using fresh_ids(1) [OF assms(1)] that n(1) by metis
  have gone: "n_id ` {m \<in> set (nodes d'). ?P m} = {n_id n}" using n(2) by (auto simp: d')
  have "find ?P (nodes d') \<noteq> None" using n(2) by (auto simp: d' find_None_iff)
  then have del: "snd (DeleteOwned e' uid (n_id n) d') = delete_nodes ?P d'"
    using assms(3) by (auto simp: DeleteOwned_def quiet_def)
  have ns: "filter (\<lambda>m. \<not> ?P m) (nodes d) = nodes d" using old [OF imageI] by (intro filter_all) blast
  have ms: "filter (\<lambda>m. zm_node m \<noteq> n_id n) (zone_members d) = zone_members d"
    by (intro filter_all old fk_members [OF assms(1)])
  have as: "a_node a \<noteq> n_id n" if "a \<in> set (announcements d)" for a by (intro old fk_anns [OF assms(1) that])
  then have none: "{a \<in> set (announcements d). a_node a = n_id n} = {}" by blast
  have "filter (\<lambda>a. a_node a \<noteq> n_id n) (announcements d) = announcements d" by (intro filter_all as)
  then show ?thesis
    unfolding del network_same_def delete_nodes_sel gone using n(2) ns ms by (simp add: d' none)
qed

lemma undo_join:
  assumes "\<not> is_member d zid nid" and "Join e zid nid d = (None, d')" and "quiet e'"
  shows "network_same d (snd (Leave e' zid nid d'))"
proof -
  have d': "d' = d\<lparr>zone_members := zone_members d @ [\<lparr>zm_zone = zid, zm_node = nid, zm_joined_at = now e\<rparr>]\<rparr>"
    using assms(1,2) by (auto simp: Join_def insert_member_def is_member_def Let_def split: if_splits)
  have "filter (\<lambda>m. \<not> (zm_zone m = zid \<and> zm_node m = nid)) (zone_members d) = zone_members d"
    using assms(1) by (intro filter_all) (auto simp: is_member_def)
  moreover have "is_member d' zid nid" by (simp add: d' is_member_def)
  ultimately show ?thesis using assms(3) by (simp add: Leave_def quiet_def network_same_def d')
qed

lemma undo_zone:
  assumes "schema_ok d" and "z_id z = zone_seq d + 1"
    and d1: "d1 = d\<lparr>zones := zones d @ [z], zone_seq := zone_seq d + 1\<rparr>"
    and d2: "d2 = d1 \<or> (\<exists>m. zm_zone m = z_id z \<and> d2 = d1\<lparr>zone_members := zone_members d1 @ [m]\<rparr>)"
    and "quiet e"
  shows "network_same d (snd (DeleteZoneRow e (z_id z) d2))"
proof -
  have old: "i \<noteq> z_id z" if "i \<in> z_id ` set (zones d)" for i
    using fresh_ids(2) [OF assms(1)] that assms(2) by metis
  have zs: "zones d2 = zones d @ [z]" "announcement_zones d2 = announcement_zones d" "nodes d2 = nodes d"
    "announcements d2 = announcements d" using d1 d2 by auto
  have gone: "z_id ` {y \<in> set (zones d2). z_id y = z_id z} = {z_id z}" by (auto simp: zs)
  have "filter (\<lambda>y. z_id y \<noteq> z_id z) (zones d) = zones d" by (intro filter_all old imageI)
  moreover have "filter (\<lambda>m. zm_zone m \<noteq> z_id z) (zone_members d) = zone_members d"
    by (intro filter_all old fk_members [OF assms(1)])
  then have "filter (\<lambda>m. zm_zone m \<noteq> z_id z) (zone_members d2) = zone_members d" using d1 d2 by auto
  moreover have "filter (\<lambda>x. az_zone x \<noteq> z_id z) (announcement_zones d) = announcement_zones d"
    by (intro filter_all old fk_attachments [OF assms(1)])
  moreover have del: "snd (DeleteZoneRow e (z_id z) d2) = delete_zones (\<lambda>y. z_id y = z_id z) d2"
    using assms(5) by (simp add: DeleteZoneRow_def quiet_def)
  ultimately show ?thesis unfolding network_same_def del delete_zones_sel gone by (simp add: zs)
qed

lemma drop_new_attachment:
  assumes "\<lparr>az_ann = aid, az_zone = zid\<rparr> \<notin> set (announcement_zones d)"
    and "announcement_zones d' = announcement_zones d @ [\<lparr>az_ann = aid, az_zone = zid\<rparr>]"
  shows "filter (\<lambda>x. \<not> (az_ann x = aid \<and> az_zone x = zid)) (announcement_zones d') = announcement_zones d"
proof -
  have "\<not> (az_ann x = aid \<and> az_zone x = zid)" if "x \<in> set (announcement_zones d)" for x
    using that assms(1) by (cases x) auto
  then show ?thesis by (simp add: assms(2) filter_all)
qed

lemma undo_announcement:
  assumes inv: "schema_ok d" "no_orphans d"
    and new: "CreateAnnouncement e uid nid real zid limit pool d = (Inr (ann, True), d')" and q: "quiet e'"
  shows "network_same d (snd (Detach e' zid (AnnID ann) d'))"
proof -
  let ?r = "\<lparr>az_ann = AnnID ann, az_zone = zid\<rparr>"
  from CreateAnnouncement_Inr [OF new inv(1)] have ok': "schema_ok d'" and
    cases: "attached_known nid real zid d ann True d' \<or> announced e uid nid real zid limit pool d ann d'" by blast+
  have row: "?r \<notin> set (announcement_zones d) \<and> announcement_zones d' = announcement_zones d @ [?r] \<and>
      nodes d' = nodes d \<and> zones d' = zones d \<and> zone_members d' = zone_members d \<and>
      filter (\<lambda>a. a_id a \<in> az_ann ` set (announcement_zones d)) (announcements d') = announcements d \<and> no_orphans d'"
    using cases
  proof
    assume "attached_known nid real zid d ann True d'"
    then obtain a where "ann = ann_of_row a" and
      a: "\<lparr>az_ann = a_id a, az_zone = zid\<rparr> \<notin> set (announcement_zones d)"
      "d' = d\<lparr>announcement_zones := announcement_zones d @ [\<lparr>az_ann = a_id a, az_zone = zid\<rparr>]\<rparr>"
      unfolding attached_known_def simp_thms if_True by blast
    then have "AnnID ann = a_id a" by simp
    have "filter (\<lambda>a. a_id a \<in> az_ann ` set (announcement_zones d)) (announcements d) = announcements d"
      using inv(2) by (intro filter_all) (auto simp: no_orphans_iff)
    moreover have "no_orphans d'" using inv(2) by (auto simp: no_orphans_iff a(2))
    ultimately show ?thesis using a \<open>AnnID ann = a_id a\<close> by simp
  next
    assume "announced e uid nid real zid limit pool d ann d'"
    then obtain a where a: "a_id a = ann_seq d + 1" "ann = ann_of_row a" and
      d': "d' = d\<lparr>announcements := announcements d @ [a], ann_seq := ann_seq d + 1,
        announcement_zones := announcement_zones d @ [\<lparr>az_ann = a_id a, az_zone = zid\<rparr>]\<rparr>"
      unfolding announced_def by force
    have fresh: "a_id a \<notin> az_ann ` set (announcement_zones d)"
      using fresh_ids(3) [OF inv(1)] fk_attachments(2) [OF inv(1)] a(1) by (metis image_iff)
    then have "\<lparr>az_ann = a_id a, az_zone = zid\<rparr> \<notin> set (announcement_zones d)" by (metis az_row.select_convs(1) imageI)
    moreover have "filter (\<lambda>a. a_id a \<in> az_ann ` set (announcement_zones d)) (announcements d) = announcements d"
      using inv(2) by (intro filter_all) (auto simp: no_orphans_iff)
    moreover have "no_orphans d'" using inv(2) by (auto simp: no_orphans_iff d')
    ultimately show ?thesis using a fresh d' by simp
  qed
  obtain res d2 where D: "Detach e' zid (AnnID ann) d' = (res, d2)" by fastforce
  have "\<not> (\<exists>err. res = Inl err)"
    using Detach_cases [OF ok' _ D] row q by (auto split: sum.splits)
  then have "d2 = drop_attachments (\<lambda>x. az_ann x = AnnID ann \<and> az_zone x = zid) d'"
    using Detach_cases [OF ok' _ D] row by (auto split: sum.splits)
  moreover have keep: "filter (\<lambda>x. \<not> (az_ann x = AnnID ann \<and> az_zone x = zid)) (announcement_zones d') =
      announcement_zones d" using row by (intro drop_new_attachment) simp_all
  ultimately show ?thesis
    using row unfolding D snd_conv network_same_def drop_attachments_def keep Let_def by simp
qed

subsection \<open>The handlers\<close>

lemma no_traceI: "network_same d (w_db W) \<Longrightarrow> no_trace d r W"
  by (simp add: no_trace_def)

lemma quiet_keeps [simp]: "quiet e \<Longrightarrow> db_fault e l i = False"
  by (simp add: quiet_def)

lemma db_do_db [simp]: "w_db (snd (db_do f W)) = snd (f (w_db W))"
  by (simp add: db_do_def split: prod.split)

lemma registerNode_trace:
  assumes "quiet e" and "schema_ok (w_db W)"
  shows "ends_with (no_trace (w_db W)) (registerNode sv e cid body W)"
  unfolding registerNode_def add_node_peer_def
proof (intro branch_rules)
  fix i :: claims and req lo hi r W1 s W2
  assume new: "db_do (CreateNode e (\<lambda>_ d. d) (UserID i) (TrimSpace (rn_Name req)) (rn_WGPubKey req)
      (node_platform (rn_Platform req)) lo hi (cap i (maxDevicesPerUser sv))) W = (r, W1)"
  then obtain d1 where d1: "CreateNode e (\<lambda>_ d. d) (UserID i) (TrimSpace (rn_Name req)) (rn_WGPubKey req)
      (node_platform (rn_Platform req)) lo hi (cap i (maxDevicesPerUser sv)) (w_db W) = (r, d1)" "W1 = W\<lparr>w_db := d1\<rparr>"
    by (auto simp: db_do_result)
  {
    fix err assume "r = Inl err"
    then show "no_trace (w_db W) (register_error err) W1"
      using CreateNode_alone [OF d1(1)] d1(2) by (simp add: no_trace_def)
  next
    fix n x assume n: "r = Inr n"
      and "wg_do (\<lambda>dev. AddPeer (sv_host sv) dev (n_wg_pubkey n) (n_ip n)) sv W1 = (s, W2)"
    then have "w_db W2 = d1" using d1(2) by (auto dest: calls_keep_db)
    moreover from CreateNode_alone [OF d1(1)] n have "node_added e (UserID i) (TrimSpace (rn_Name req)) (rn_WGPubKey req)
        (node_platform (rn_Platform req)) (n_ip n) (cap i (maxDevicesPerUser sv)) (w_db W) n d1" by simp
    from undo_node [OF assms(2) this, of "at_site ''rollback: '' e"] assms(1) have
      "network_same (w_db W) (snd (DeleteOwned (at_site ''rollback: '' e) (UserID i) (n_id n) d1))" by simp
    ultimately show "no_trace (w_db W) serverError (snd (db_do (DeleteOwned (at_site ''rollback: '' e) (UserID i) (n_id n)) W2))"
      by (intro no_traceI) simp
  }
qed (simp_all add: success_def)

lemma deleteNode_trace: "ends_with (no_trace (w_db W)) (deleteNode sv e cid path W)"
  unfolding deleteNode_def
  by (intro branch_rules)
    (auto simp: db_do_result DeleteOwned_def success_def no_trace_def split: if_splits option.splits)

lemma remove_member_trace: "ends_with (no_trace (w_db W)) (remove_member sv e z n W)"
  unfolding remove_member_def
  by (intro branch_rules) (auto simp: db_do_result Leave_def success_def no_trace_def split: if_splits)

lemma zone_handlers_trace:
  "ends_with (no_trace (w_db W)) (leaveZone sv e cid name lb W)"
  "ends_with (no_trace (w_db W)) (kickMember sv e cid name path W)"
  "ends_with (no_trace (w_db W)) (changeZonePassword sv e cid name pb W)"
  unfolding leaveZone_def kickMember_def changeZonePassword_def
  by (intro branch_rules remove_member_trace;
      auto simp: db_do_result UpdatePassword_def success_def no_trace_def split: if_splits)+

lemma deleteZone_trace:
  assumes "quiet e"
  shows "ends_with (no_trace (w_db W)) (deleteZone sv e cid name W)"
  unfolding deleteZone_def
  by (intro branch_rules)
    (auto simp: assms db_do_result DetachAllForZone_def DeleteZoneRow_def success_def no_trace_def
      split: if_splits sum.splits)

lemma deleteAnnouncement_trace: "ends_with (no_trace (w_db W)) (deleteAnnouncement sv e cid name path W)"
  unfolding deleteAnnouncement_def
  by (intro branch_rules)
    (auto simp: db_do_result Detach_def success_def no_trace_def split: if_splits sum.splits)

lemma deleteUser_trace: "ends_with (no_trace (w_db W)) (deleteUser sv e cid path W)"
proof -
  show ?thesis
    unfolding deleteUser_def
    by (auto simp: with_identity_def ends_with_def no_trace_def db_do_def success_def
        split: option.splits prod.splits sum.splits store_error.splits dest!: DeleteCascade_keeps)
qed

lemma joinZone_trace:
  assumes "quiet e" and "\<not> rejoins (w_db W) (PostJoin name body)"
  shows "ends_with (no_trace (w_db W)) (joinZone sv e cid name body W)"
  unfolding joinZone_def
proof (intro branch_rules)
  fix b found z n s W1 t W2 and i :: claims
  assume "body = Some b" and found: "GetByName e name (w_db W) = Inr found" "found = Some z"
    and n: "GetOwned e (UserID i) (jz_NodeID b) (w_db W) = Inr n"
  then have new: "\<not> is_member (w_db W) (z_id z) (n_id n)"
    using assms(2) GetByName_Some [of e name "w_db W" z] GetOwned_Inr [OF n] by (auto simp: rejoins_def)
  assume j: "db_do (Join e (z_id z) (n_id n)) W = (s, W1)" 
  show "no_trace (w_db W) serverError W1" if "s = Some x" for x
    using j that by (auto simp: db_do_result Join_def no_trace_def split: sum.splits)
  assume "s = None" and "nft_do sv (Call_AddMember (z_id z) (n_ip n)) W1 = (t, W2)"
  with j have "Join e (z_id z) (n_id n) (w_db W) = (None, w_db W2)" by (auto simp: db_do_result dest: calls_keep_db)
  from undo_join [OF new this, of "at_site ''rollback: '' e"] assms(1)
  show "no_trace (w_db W) serverError (snd (db_do (Leave (at_site ''rollback: '' e) (z_id z) (n_id n)) W2))"
    by (intro no_traceI) simp
qed (simp_all add: success_def)

lemma auto_join_trace:
  assumes "quiet e" and "schema_ok d"
    and z: "z_id z = zone_seq d + 1" and d1: "w_db W = d\<lparr>zones := zones d @ [z], zone_seq := zone_seq d + 1\<rparr>"
  shows "ends_with (no_trace d) (auto_join sv e z member W)"
proof -
  have undo: "no_trace d r (rollbackZone sv e (z_id z) V)"
    if "w_db V = w_db W \<or> (\<exists>m. zm_zone m = z_id z \<and> w_db V = w_db W\<lparr>zone_members := zone_members (w_db W) @ [m]\<rparr>)"
    for V r
    using undo_zone [OF assms(2) z d1 that, of "at_site ''rollback: '' e"] assms(1)
    by (intro no_traceI) (simp add: rollbackZone_def frame_simps)
  have joined: "w_db V = w_db W \<or> (\<exists>m. zm_zone m = z_id z \<and> w_db V = w_db W\<lparr>zone_members := zone_members (w_db W) @ [m]\<rparr>)"
    if "db_do (Join e (z_id z) nid) W = (s, V)" for nid s V
  proof -
    have "snd (Join e (z_id z) nid d) = d \<or> snd (Join e (z_id z) nid d) =
        d\<lparr>zone_members := zone_members d @ [\<lparr>zm_zone = z_id z, zm_node = nid, zm_joined_at = now e\<rparr>]\<rparr>" for d
      by (simp add: Join_def insert_member_def Let_def)
    from this [of "w_db W"] that show ?thesis
      by (auto simp: db_do_result intro!: exI [of _ "\<lparr>zm_zone = z_id z, zm_node = nid, zm_joined_at = now e\<rparr>"])
  qed
  show ?thesis
    unfolding auto_join_def Let_def
    by (intro branch_rules undo; (drule joined)?; (drule calls_keep_db)?; simp add: success_def no_trace_def)
qed

lemma CreateZone_result:
  assumes "CreateZone e owner name hash mx d = (r, d')"
  shows "case r of Inl _ \<Rightarrow> d' = d
    | Inr z \<Rightarrow> z_id z = zone_seq d + 1 \<and> d' = d\<lparr>zones := zones d @ [z], zone_seq := zone_seq d + 1\<rparr>"
  using assms by (auto simp: CreateZone_def insertZone_def bind_res_Inr_iff insert_zone_row_def checked_insert_Inr Let_def
      split: sum.splits option.splits sql_error.splits constraint.splits if_splits)

lemma createZone_trace:
  assumes "quiet e" and "schema_ok (w_db W)"
  shows "ends_with (no_trace (w_db W)) (createZone sv e cid body W)"
  unfolding createZone_def
proof (intro branch_rules)
  fix i :: claims and req hash r W1 z s W2 x
  assume new: "db_do (CreateZone e (UserID i) (TrimSpace (cz_Name req)) hash (cap i (maxOwnedZonesPerUser sv))) W = (r, W1)"
  then have res: "case r of Inl _ \<Rightarrow> w_db W1 = w_db W
    | Inr z \<Rightarrow> z_id z = zone_seq (w_db W) + 1 \<and>
        w_db W1 = (w_db W)\<lparr>zones := zones (w_db W) @ [z], zone_seq := zone_seq (w_db W) + 1\<rparr>"
    by (auto simp: db_do_result dest!: CreateZone_result split: sum.splits)
  show "no_trace (w_db W) (create_zone_error err) W1" if "r = Inl err" for err
    using res that by (simp add: no_trace_def)
  assume z: "r = Inr z" and "nft_do sv (Call_AddZone (z_id z)) W1 = (s, W2)"
  then have z2: "z_id z = zone_seq (w_db W) + 1"
    "w_db W2 = (w_db W)\<lparr>zones := zones (w_db W) @ [z], zone_seq := zone_seq (w_db W) + 1\<rparr>"
    using res by (auto dest: calls_keep_db)
  show "ends_with (no_trace (w_db W)) (auto_join sv e z member W2)" for member
    by (rule auto_join_trace [OF assms z2])
  show "no_trace (w_db W) serverError (snd (db_do (DeleteZoneRow (at_site ''rollback: '' e) (z_id z)) W2))"
    using undo_zone [OF assms(2) z2 disjI1 [OF refl], of "at_site ''rollback: '' e"] assms(1)
    by (intro no_traceI) simp
qed simp_all

lemma rollbackAnnouncement_db:
  "w_db (rollbackAnnouncement sv e zid aid n W) = snd (Detach (at_site ''rollback: '' e) zid aid (w_db W))"
  by (simp add: rollbackAnnouncement_def frame_simps db_do_def split: prod.split sum.split)

lemma grow_dataplane_db:
  assumes "grow_dataplane sv e zid n ann W = (False, W')"
  shows "w_db W' = snd (Detach (at_site ''rollback: '' e) zid (AnnID ann) (w_db W))"
  using assms by (auto simp: grow_dataplane_def rollbackAnnouncement_db dest!: calls_keep_db
      split: sum.splits prod.splits option.splits)

lemma createAnnouncement_trace:
  assumes "quiet e" and inv: "schema_ok (w_db W)" "no_orphans (w_db W)"
  shows "ends_with (no_trace (w_db W)) (createAnnouncement sv e cid name body W)"
  unfolding createAnnouncement_def
proof (intro branch_rules)
  fix z r W1 real lim pool x ann attached ok W2 and i :: claims and n :: node_row
  assume new: "db_do (CreateAnnouncement e (UserID i) (n_id n) real (z_id z) lim pool) W = (r, W1)"
  show "no_trace (w_db W) (announce_error err) W1" if "r = Inl err" for err
    using new that by (auto simp: db_do_result no_trace_def dest: CreateAnnouncement_Inl)
  assume "r = Inr x" "x = (ann, attached)"
    and grow: "(if attached then grow_dataplane sv e (z_id z) n ann W1 else (True, W1)) = (ok, W2)" and "\<not> ok"
  with new have "CreateAnnouncement e (UserID i) (n_id n) real (z_id z) lim pool (w_db W) = (Inr (ann, True), w_db W1)"
    and "grow_dataplane sv e (z_id z) n ann W1 = (False, W2)" by (auto simp: db_do_result split: if_splits)
  with undo_announcement [OF inv this(1), of "at_site ''rollback: '' e"] assms(1)
  show "no_trace (w_db W) serverError W2" by (intro no_traceI) (simp add: grow_dataplane_db)
qed (simp_all add: success_def no_trace_def)

subsection \<open>The router\<close>

lemma network_kept_trace: "ends_in (network_kept W) out \<Longrightarrow> ends_with (no_trace (w_db W)) out"
  by (simp add: ends_with_def no_trace_def network_kept_def)

lemmas accounts_trace = accounts_network [THEN network_kept_trace]
  and reads_trace = reads_keep [where P = "network_kept W" for W, OF network_kept_refl, THEN network_kept_trace]
  and handlers_trace = registerNode_trace deleteNode_trace zone_handlers_trace deleteZone_trace
    deleteAnnouncement_trace deleteUser_trace createZone_trace createAnnouncement_trace

lemma routes_trace:
  assumes "quiet e" and "schema_ok (w_db W)" and "no_orphans (w_db W)" and "\<not> rejoins (w_db W) req"
  shows "ends_with (no_trace (w_db W)) (routes sv version e dr authz req W)"
proof -
  show ?thesis
  proof (cases req)
    case (PostJoin name body)
    with joinZone_trace [OF assms(1), of W name body] assms(4) show ?thesis
      by (auto intro!: AuthRequired_keeps)
  qed (simp; intro AuthRequired_keeps AdminRequired_keeps ends_in_reply no_trace_start
      handlers_trace accounts_trace reads_trace assms)+
qed

subsection \<open>Two spellings of one key\<close>

text \<open>
  \<^verbatim>\<open>registerNode\<close> stores the text of the key, and the constraint \<^verbatim>\<open>UNIQUE\<close> compares texts; the device
  knows the key only. A second node with the same key in another spelling takes over the peer.
\<close>

lemma register_refused: "register_invalid sv req = Some r \<Longrightarrow> \<not> success r"
  by (fastforce simp: register_invalid_def Let_def invalid_def jsonError_def success_def split: if_splits)

lemma second_spelling:
  assumes st: "steady sv e vn vw pool lo hi" and sync: "in_sync sv vn vw pool lo hi W"
    and n: "n \<in> set (nodes (w_db W))" and k: "parse_key (sv_host sv) (n_wg_pubkey n) = Some k"
    and req: "body = Some req" "parse_key (sv_host sv) (rn_WGPubKey req) = Some k"
  shows "ends_with (\<lambda>r W'. success r \<longrightarrow> n \<in> set (nodes (w_db W')) \<and> \<not> delivers (vw (w_wg W')) (n_ip n) k)
    (registerNode sv e cid body W)"
  unfolding registerNode_def
proof (intro branch_rules)
  fix i req' p lo' hi' r W1 m
  let ?d = "w_db W" and ?h = "sv_host sv"
  assume "body = Some req'" and p: "PoolRange (parse_prefix sv) (wgNetwork sv) = Inr p" "p = (lo', hi')"
    and new: "db_do (CreateNode e (\<lambda>_ d. d) (UserID i) (TrimSpace (rn_Name req')) (rn_WGPubKey req')
        (node_platform (rn_Platform req')) lo' hi' (cap i (maxDevicesPerUser sv))) W = (r, W1)"
  show "success (register_error err) \<longrightarrow> n \<in> set (nodes (w_db W1)) \<and> \<not> delivers (vw (w_wg W1)) (n_ip n) k" for err
    by (simp add: register_error_def split: store_error.split)
  assume "r = Inr m"
  have [simp]: "req' = req" "lo' = lo" "hi' = hi"
    using \<open>body = Some req'\<close> req(1) steadyD(3) [OF st] p by (simp_all add: pools_ok_def)
  have con: "consistent ?h pool lo hi ?d"
    and dp: "dp sv vn vw W (db_zones ?d) (z_id ` set (zones ?d)) (db_tunnel ?h ?d)"
    using sync by (simp_all add: in_sync_dp)
  from new \<open>r = Inr m\<close> obtain d' where d': "CreateNode e (\<lambda>_ d. d) (UserID i) (TrimSpace (rn_Name req)) (rn_WGPubKey req)
      (node_platform (rn_Platform req)) lo hi (cap i (maxDevicesPerUser sv)) ?d = (Inr m, d')" "W1 = W\<lparr>w_db := d'\<rparr>"
    by (auto simp: db_do_result)
  from CreateNode_alone [OF d'(1)] have ip: "lo \<le> n_ip m" "n_ip m \<le> hi" and
    ad: "node_added e (UserID i) (TrimSpace (rn_Name req)) (rn_WGPubKey req) (node_platform (rn_Platform req))
      (n_ip m) (cap i (maxDevicesPerUser sv)) ?d m d'" by simp_all
  then have m: "n_wg_pubkey m = rn_WGPubKey req" and free: "n_ip m \<notin> used_ips ?d" and "nodes d' = nodes ?d @ [m]"
    unfolding node_added_def by (metis node_row.select_convs(4), blast, force)
  have apart: "\<forall>k' A. k' \<noteq> k \<longrightarrow> db_tunnel ?h ?d k' = Some A \<longrightarrow> A \<inter> allowed_of (n_ip m) [] = {}"
    using new_address_apart [OF con _ steadyD(4) [OF st] ip free] steadyD(3) [OF st] by (simp add: pools_ok_def)
  obtain W2 where W2: "set_routes sv (rn_WGPubKey req) (n_ip m) [] W1 = (None, W2)" "w_db W2 = d'"
    "dp sv vn vw W2 (db_zones ?d) (z_id ` set (zones ?d)) ((db_tunnel ?h ?d)(k \<mapsto> allowed_of (n_ip m) []))"
    using set_routes_dp [OF steadyD(1) [OF st], of W1, OF _ req(2) apart] dp by (auto simp: d'(2))
  have "ws_trie (vw (w_wg W2)) q = Some k \<longleftrightarrow> q = Prefix4 (n_ip m) 32" for q
    using W2(3) by (simp add: dp_def carries_def allowed_nil)
  moreover have "n_ip n \<noteq> n_ip m" using free imageI [OF n, of n_ip] by metis
  ultimately have "\<not> delivers (vw (w_wg W2)) (n_ip n) k" by (auto simp: delivers_def Contains_32)
  with W2(1,2) n \<open>nodes d' = nodes ?d @ [m]\<close> show
    "ends_with (\<lambda>r W'. success r \<longrightarrow> n \<in> set (nodes (w_db W')) \<and> \<not> delivers (vw (w_wg W')) (n_ip n) k)
      (add_node_peer sv e (UserID i) m W1)"
    by (simp add: add_node_peer_def add_peer_routes m ends_with_def)
qed (simp_all add: register_refused)

subsection \<open>The tables stay well-formed\<close>

abbreviation well_formed :: "('k, 'w) world \<Rightarrow> bool" where
  "well_formed W \<equiv> schema_ok (w_db W)"

lemma schema_db:
  "db_do f W = (r, W') \<Longrightarrow> schema_ok (snd (f (w_db W))) \<Longrightarrow> well_formed W'"
  by (auto simp: db_do_result)

lemma accounts_schema:
  assumes "well_formed W"
  shows "ends_in well_formed (login sv e drawn lr W)"
    "ends_in well_formed (refresh sv e rt W)" "ends_in well_formed (logout sv e rt W)"
    "ends_in well_formed (register_account sv e rr W)" "ends_in well_formed (createInvite sv e gen cid W)"
  unfolding login_def refresh_def logout_def register_account_def createInvite_def
  by (intro branch_rules; (erule schema_db)?;
      simp add: assms IssueToken_ok ValidateToken_ok RevokeToken_ok Register_ok CreateInvite_ok)+

lemma fold_db: "(\<And>x V. w_db (f x V) = w_db V) \<Longrightarrow> w_db (fold f xs V) = w_db V"
  by (induction xs arbitrary: V) simp_all

lemma forget_user_db: "w_db (forget_user sv e r W) = w_db W"
  unfolding forget_user_def by (simp add: fold_db frame_simps)

lemma DeleteCascade_ok:
  assumes "schema_ok d"
  shows "schema_ok (snd (DeleteCascade e i d))"
proof (cases "DeleteCascade e i d")
  case (Pair r d')
  show ?thesis
  proof (cases r)
    case (Inl err)
    with DeleteCascade_keeps Pair assms show ?thesis by fastforce
  next
    case (Inr x)
    with DeleteCascade_success [of e i d x d'] Pair assms
    have "d' = delete_announcements (\<lambda>a. a_id a \<in> orphan_ids (delete_user i d)) (delete_user i d)" by blast
    then show ?thesis by (simp add: Pair assms delete_announcements_ok delete_user_ok)
  qed
qed

lemma deleteUser_schema:
  assumes "well_formed W"
  shows "ends_in well_formed (deleteUser sv e cid path W)"
proof -
  have "well_formed W1" if "db_do (DeleteCascade e t) W = (r, W1)" for t r W1
    by (rule schema_db [OF that DeleteCascade_ok [OF assms]])
  then show ?thesis
    unfolding deleteUser_def
    by (intro ends_in_identity ends_in_option ends_in_if ends_in_reply ends_in_deletion)
      (simp_all add: assms forget_user_db)
qed

lemma others_safe_schema: "ends_in (others_safe u d) out \<Longrightarrow> ends_in well_formed out"
  by (simp add: ends_in_def others_safe_def)

lemma routes_schema:
  assumes "well_formed W"
  shows "ends_in well_formed (routes sv version e dr authz req W)"
proof -
  have "others_safe u (w_db W) W" for u using assms by (simp add: others_safe_def)
  note handled = handlers_others [OF this, THEN others_safe_schema]
  show ?thesis
    using assms deleteUser_schema [OF assms] by (cases req)
      (auto simp: AuthRequired_session AdminRequired_def with_identity_def
        intro!: handled reads_keep [where P = well_formed] accounts_schema [OF assms] ends_in_reply
        split: option.split)
qed

end
