(* ===== verification/Control_Plane.thy ===== *)
theory Control_Plane
  imports Api_Failures
begin

text \<open>
  What the server promises as a whole: after the start and after every request the kernel carries
  the database, requests without a valid session change nothing, and no user's request touches what
  belongs to another.
\<close>

section \<open>Definitions\<close>

text \<open>The traffic the stored zones permit, and the peer that an address of the network belongs to.\<close>

definition may_reach :: "db \<Rightarrow> packet \<Rightarrow> bool" where
  "may_reach d p =
     (p_ct p AND CtStateBits \<noteq> 0 \<or>
      p_nfproto p = NFPROTO_IPV4 \<and>
      (\<exists>z \<in> set (zones d). \<exists>n \<in> set (nodes d). is_member d (z_id z) (n_id n) \<and> p_net p 12 = n_ip n \<and>
         ((\<exists>m \<in> set (nodes d). is_member d (z_id z) (n_id m) \<and> p_net p 16 = n_ip m) \<or>
          (\<exists>a. attached_to d a (z_id z) \<and> Contains (block_prefix (ann_synthetic a)) (p_net p 16)))))"

definition has_addr :: "'w host \<Rightarrow> db \<Rightarrow> addr \<Rightarrow> wg_key \<Rightarrow> bool" where
  "has_addr h d a k =
     (\<exists>n \<in> set (nodes d). parse_key h (n_wg_pubkey n) = Some k \<and>
        (a = n_ip n \<or>
         (\<exists>b \<in> set (announcements d). a_node b = n_id n \<and> Contains (block_prefix (ann_synthetic b)) a)))"

definition network_as_stored ::
  "('k, 'w) server \<Rightarrow> ('k \<Rightarrow> ruleset) \<Rightarrow> ('w \<Rightarrow> wg_state) \<Rightarrow> ('k, 'w) world \<Rightarrow> bool" where
  "network_as_stored sv vn vw W =
     ((\<forall>p. forwarded (vn (w_nft W)) (sv_table sv) p \<longleftrightarrow> may_reach (w_db W) p) \<and>
      (\<forall>a k. delivers (vw (w_wg W)) a k \<longleftrightarrow> has_addr (sv_host sv) (w_db W) a k))"

section \<open>Lemmas\<close>

lemma may_pass_db: "may_pass (db_zones d) p \<longleftrightarrow> may_reach d p"
proof -
  have "(\<exists>q \<in> set (zone_routes d z). Contains q b) \<longleftrightarrow>
      (\<exists>a. attached_to d a z \<and> Contains (block_prefix (ann_synthetic a)) b)" for z b
    unfolding set_zone_routes by auto
  then show ?thesis
    unfolding may_pass_def may_reach_def db_zones_def zone_ips_def has_zone_def by (auto split: if_splits)
qed

lemma in_sync_network:
  assumes "in_sync sv vn vw pool lo hi W" and "pools_ok sv pool lo hi"
  shows "network_as_stored sv vn vw W"
proof -
  have "(\<exists>q \<in> set (node_routes d nid). Contains q a) \<longleftrightarrow>
      (\<exists>b \<in> set (announcements d). a_node b = nid \<and> Contains (block_prefix (ann_synthetic b)) a)" for d nid a
    unfolding set_node_routes by auto
  then show ?thesis
    by (simp add: network_as_stored_def has_addr_def in_sync_forwards [OF assms] in_sync_delivers [OF assms] may_pass_db)
qed

section \<open>A server to evaluate on\<close>

definition demo_server :: "(model_kernel, wg_state) server" where
  "demo_server = \<lparr>
     sv_nft = model_nft, sv_table = ''lanweave'', sv_host = model_host, sv_dev = ''wg0'',
     parse_prefix = (\<lambda>s. if s = ''100.127.0.0/24'' then Some (P4 (Prefix4 0x647F0000 24)) else None),
     hash_password = (\<lambda>s. Some (''h:'' @ s)), verify_password = (\<lambda>s h. Some (h = ''h:'' @ s)),
     jwt_issue = (\<lambda>c. Some (show_int (UserID c))),
     jwt_verify = (\<lambda>t. if t = ''2'' then Some \<lparr>UserID = 2, Username = ''bob'', IsAdmin = False\<rparr> else None),
     token_digest = (\<lambda>s. s),
     wgNetwork = ''100.127.0.0/24'', wgEndpoint = ''vpn.example:51820'', wgMTU = 1420,
     wgPublicKey = ''5'', is_online = (\<lambda>_. False), last_handshake = (\<lambda>_. None),
     maxDevicesPerUser = 5, maxOwnedZonesPerUser = 3, announcePool = Some (Prefix4 0x64600000 12),
     maxAnnouncedSubnetsPerUser = 4, inviteTTL = 0\<rparr>"

definition demo_net :: db where
  "demo_net = demo_db\<lparr>nodes :=
     [\<lparr>n_id = 1, n_user_id = 1, n_name = ''router'', n_wg_pubkey = ''11'',
       n_ip = 0x647F0002, n_created_at = 20, n_platform = ''openwrt''\<rparr>,
      \<lparr>n_id = 2, n_user_id = 2, n_name = ''pc'', n_wg_pubkey = ''12'',
       n_ip = 0x647F0003, n_created_at = 21, n_platform = ''unknown''\<rparr>]\<rparr>"

definition demo_world :: "(model_kernel, wg_state) world" where
  "demo_world = \<lparr>w_db = demo_net, w_nft = empty_kernel, w_wg = empty_device\<rparr>"

abbreviation bob :: claims where "bob \<equiv> \<lparr>UserID = 2, Username = ''bob'', IsAdmin = False\<rparr>"

definition demo_draws :: draws where
  "demo_draws = \<lparr>dr_token = Some ''t'', dr_invite = (\<lambda>_. Some ''c''), dr_nanos = 0\<rparr>"

definition demo_pool :: prefix4 where "demo_pool = Prefix4 0x64600000 12"
definition demo_lo :: addr where "demo_lo = 0x647F0002"
definition demo_hi :: addr where "demo_hi = 0x647F00FE"

lemma demo_server_sel [simp]:
  "sv_nft demo_server = model_nft" "sv_table demo_server = ''lanweave''" "sv_host demo_server = model_host"
  "sv_dev demo_server = ''wg0''" "wgNetwork demo_server = ''100.127.0.0/24''"
  "parse_prefix demo_server ''100.127.0.0/24'' = Some (P4 (Prefix4 0x647F0000 24))"
  "announcePool demo_server = Some demo_pool"
  by (simp_all add: demo_server_def demo_pool_def)

lemma demo_faultless: "faultless demo_server kernel_view (\<lambda>w. w)"
  by (simp add: faultless_def model_faultless model_wg_faultless)

lemma demo_pools: "pools_ok demo_server demo_pool demo_lo demo_hi"
proof -
  have "PoolRange (parse_prefix demo_server) (wgNetwork demo_server) = Inr (demo_lo, demo_hi)"
    by (simp add: PoolRange_def Masked_def demo_lo_def demo_hi_def mask_eq_exp_minus_1)
  moreover have "\<not> Contains demo_pool a" if "demo_lo \<le> a" "a \<le> demo_hi" for a
  proof -
    have "1607 \<le> unat a div 2 ^ 20"
      using that(1) by (simp add: demo_lo_def word_le_nat_alt)
    then show ?thesis by (simp add: Contains_iff demo_pool_def)
  qed
  moreover have "\<not> Contains demo_pool (- 1)" by (simp add: demo_pool_def Contains_def)
  ultimately show ?thesis by (simp add: pools_ok_def demo_pool_def)
qed

lemma demo_consistent: "consistent model_host demo_pool demo_lo demo_hi demo_net"
proof -
  have "schema_ok demo_net"
    by (simp add: demo_net_def demo_db_def empty_db_def schema_defs demo_names)
  moreover have "ann_plan demo_pool demo_net"
    by (simp add: ann_plan_def demo_net_def demo_pool_def demo_db_def empty_db_def ann_synthetic_def aligned_def
        block_size_def block_addrs_def Masked_def mask_eq_exp_minus_1)
  moreover have "attached_members demo_net" "no_orphans demo_net"
    by (simp_all add: attached_members_def is_member_def no_orphans_iff demo_net_def demo_db_def empty_db_def)
  moreover have "show_nat 11 = ''11''" "show_nat 12 = ''12''" by code_simp+
  then have "canonical_keys model_host demo_net"
    by (simp add: canonical_keys_def demo_net_def model_host_def demo_keys)
  ultimately show ?thesis
    by (simp add: consistent_def ann_inv_def demo_net_def demo_lo_def demo_hi_def)
qed

section \<open>Properties\<close>

text \<open>
  C3: at its start the server makes the network that of the database, whatever rules and peers the
  kernel holds from before: a packet is forwarded exactly when its sender and its destination are in
  a common zone (or the destination in a block announced there), and the tunnel delivers an address
  to the node that has or announces it and to no other.
\<close>

theorem startup_network:
  assumes "nft_contract (sv_nft sv) vn" and "wg_contract (sv_host sv) (sv_dev sv) vw"
    and "consistent (sv_host sv) pool lo hi (w_db W)" and "pools_ok sv pool lo hi"
    and "rebuild_dataplane sv e W = (None, W')"
  shows "w_db W' = w_db W \<and> network_as_stored sv vn vw W'"
proof -
  from rebuild_dataplane_synced [OF assms] assms(3) have "w_db W' = w_db W" "in_sync sv vn vw pool lo hi W'"
    by (simp_all add: in_sync_def)
  with in_sync_network [OF this(2) assms(4)] show ?thesis by simp
qed

lemma demo_starts:
  obtains W where "rebuild_dataplane demo_server (calm 50) demo_world = (None, W)"
    and "reachable demo_server v kernel_view (\<lambda>w. w) demo_pool demo_lo demo_hi W"
proof -
  have con: "consistent (sv_host demo_server) demo_pool demo_lo demo_hi (w_db demo_world)"
    by (simp add: demo_world_def demo_consistent)
  from demo_faultless rebuild_dataplane_total [OF _ _ con quiet_calm, where vn = kernel_view and vw = "\<lambda>w. w"] obtain W where
    "rebuild_dataplane demo_server (calm 50) demo_world = (None, W)" by (auto simp: faultless_def)
  with that reachable.started [where sv = demo_server, OF con this] show ?thesis by blast
qed

theorem startup_network_witness:
  "\<exists>W. rebuild_dataplane demo_server (calm 50) demo_world = (None, W) \<and>
     forwarded (kernel_view (w_nft W)) ''lanweave'' (ip_packet 0x647F0003 0x647F0002)"
proof -
  obtain W where W: "rebuild_dataplane demo_server (calm 50) demo_world = (None, W)"
    by (rule demo_starts)
  have "w_db W = w_db demo_world \<and> network_as_stored demo_server kernel_view (\<lambda>w. w) W"
    using startup_network [OF _ _ _ demo_pools W, where vn = kernel_view and vw = "\<lambda>w. w"]
      demo_faultless faultless_nft faultless_wg demo_consistent by (fastforce simp: demo_world_def)
  moreover have "may_reach demo_net (ip_packet 0x647F0003 0x647F0002)"
    by (simp add: may_reach_def ip_packet_def demo_net_def demo_db_def empty_db_def is_member_def)
  ultimately show ?thesis using W by (auto simp: network_as_stored_def demo_world_def)
qed



text \<open>
  C5: a request that needs a session has no effect without one: the reply is 401, or 403 where an
  administrator is needed and the session is not an administrator's, and the database, the nftables
  rules and the tunnel are untouched; a request beyond the rate limit is refused with 429, whatever it
  is, without effect.
\<close>

theorem session_gate:
  assumes "serve sv version e dr allowed authz req W = (r, W')"
  shows "(\<not> allowed \<longrightarrow> fst r = 429 \<and> W' = W) \<and>
    (allowed \<and> \<not> public_request req \<and> session sv authz = None \<longrightarrow> r = unauthorized \<and> W' = W) \<and>
    (allowed \<and> admin_request req \<and> session sv authz = Some c \<and> \<not> IsAdmin c \<longrightarrow> fst r = 403 \<and> W' = W)"
proof -
  have "r = unauthorized \<and> W' = W" if "allowed" "\<not> public_request req" "session sv authz = None"
    using assms that by (cases req) (simp_all add: serve_def RateLimit_def AuthRequired_session)
  moreover have "fst r = 403 \<and> W' = W" if "allowed" "admin_request req" "session sv authz = Some c" "\<not> IsAdmin c"
    using assms that
    by (cases req) (auto simp: serve_def RateLimit_def AuthRequired_session AdminRequired_def jsonError_def)
  ultimately show ?thesis using assms by (auto simp: serve_def RateLimit_def jsonError_def)
qed

lemma demo_session: "session demo_server ''Bearer 2'' = Some \<lparr>UserID = 2, Username = ''bob'', IsAdmin = False\<rparr>"
  "session demo_server '''' = None"
proof -
  have "TrimSpace ''2'' = ''2''" by code_simp
  then show "session demo_server ''Bearer 2'' = Some \<lparr>UserID = 2, Username = ''bob'', IsAdmin = False\<rparr>"
    by (simp add: session_def has_prefix_def demo_server_def)
qed (simp add: session_def has_prefix_def)

theorem session_gate_witness:
  "serve demo_server ''1'' (calm 50) demo_draws True '''' GetNodes demo_world = (unauthorized, demo_world) \<and>
   fst (fst (serve demo_server ''1'' (calm 50) demo_draws True ''Bearer 2'' (DeleteUser ''1'') demo_world)) = 403 \<and>
   snd (serve demo_server ''1'' (calm 50) demo_draws True ''Bearer 2'' (DeleteUser ''1'') demo_world) = demo_world"
  using session_gate [of demo_server "''1''" "calm 50" demo_draws True "''''" GetNodes demo_world,
      OF prod.collapse [symmetric]]
    session_gate [of demo_server "''1''" "calm 50" demo_draws True "''Bearer 2''" "DeleteUser ''1''" demo_world,
      OF prod.collapse [symmetric], of bob]
    demo_session by (simp add: prod_eq_iff)



text \<open>
  C6: every request keeps the tables well-formed: unique keys stay unique, every reference names a
  row and every id lies below its counter, whatever statements and calls fail.
\<close>

theorem requests_keep_schema:
  assumes "schema_ok (w_db W)" and "serve sv version e dr allowed authz req W = (r, W')"
  shows "schema_ok (w_db W')"
  using routes_schema [OF assms(1), of sv version e dr authz req] assms
  by (auto simp: serve_def RateLimit_def ends_in_def split: if_splits)

theorem requests_keep_schema_witness:
  "schema_ok (w_db (snd (serve demo_server ''1'' (calm 50) demo_draws True ''Bearer 2'' (DeleteZone' ''home'') demo_world)))"
  by (rule requests_keep_schema [OF _ prod.collapse [symmetric]])
    (use demo_consistent consistent_schema in \<open>auto simp: demo_world_def\<close>)


definition broken_server :: "(model_kernel, wg_state) server" where
  "broken_server = demo_server\<lparr>sv_nft := model_nft\<lparr>nft_new := \<lambda>_. Some ''busy''\<rparr>,
     verify_password := \<lambda>_ _. Some True\<rparr>"

abbreviation new_office :: api_request where
  "new_office \<equiv> PostZones (Some \<lparr>cz_Name = ''office'', cz_Password = ''password'', cz_NodeID = 0\<rparr>)"

lemma new_office_fails:
  "fst (serve broken_server v (calm 50) dr True ''Bearer 2'' new_office demo_world) = serverError"
proof -
  have "TrimSpace ''office'' = ''office''" by code_simp
  moreover have "session broken_server ''Bearer 2'' = Some \<lparr>UserID = 2, Username = ''bob'', IsAdmin = False\<rparr>"
  proof -
    have "jwt_verify broken_server = jwt_verify demo_server" by (simp add: broken_server_def)
    with demo_session(1) show ?thesis by (simp only: session_def)
  qed
  ultimately show ?thesis
    by (simp add: serve_def RateLimit_def AuthRequired_session createZone_def with_body_def zone_invalid_def
        minZonePasswordLen_def or_404_def auto_join_node_def broken_server_def demo_server_def db_do_def
        CreateZone_def insertZone_def insert_zone_row_def checked_insert_def calm_def demo_world_def demo_net_def
        demo_db_def empty_db_def has_user_def cap_def nft_do_def AddZone_def bind_res_def Let_def)
qed


text \<open>
  C38: the exception is real: when a node that is a member joins its zone again and the kernel refuses
  the set element, the handler's undo takes away the membership the node had before the request.
\<close>

theorem failed_rejoin_evicts:
  assumes "quiet e" and "schema_ok (w_db W)" and "z \<in> set (zones (w_db W))" and "n \<in> set (nodes (w_db W))"
    and "n_user_id n = UserID i" and "is_member (w_db W) (z_id z) (n_id n)" and "n_id n \<noteq> 0" and "pw \<noteq> ''''"
    and "verify_password sv pw (z_password_hash z) = Some True"
    and "fst (AddMember (sv_nft sv) (sv_table sv) (z_id z) (n_ip n) (w_nft W)) \<noteq> None"
    and "joinZone sv e (Some i) (z_name z) (Some \<lparr>jz_NodeID = n_id n, jz_Password = pw\<rparr>) W = (r, W')"
  shows "r = serverError \<and> \<not> is_member (w_db W') (z_id z) (n_id n)"
proof -
  let ?d = "w_db W"
  have uniq: "distinct (map z_name (zones ?d))" "distinct (map n_id (nodes ?d))"
    using assms(2) by (simp_all add: schema_ok_def uniq_ok_def)
  have "GetByName e (z_name z) ?d = Inr (Some z)"
    using find_keyed [OF uniq(1) assms(3)] assms(1) by (simp add: GetByName_def)
  moreover have "GetOwned e (UserID i) (n_id n) ?d = Inr n"
  proof -
    have "find (\<lambda>m. n_id m = n_id n \<and> n_user_id m = UserID i) (nodes ?d) = Some n"
      by (rule find_unique) (use assms(4,5) distinct_map_eqD [OF uniq(2)] in auto)
    then show ?thesis using assms(1) by (simp add: GetOwned_def)
  qed
  moreover obtain err W2 where fail: "nft_do sv (Call_AddMember (z_id z) (n_ip n)) W = (Some err, W2)" "w_db W2 = ?d"
    using assms(10) by (cases "AddMember (sv_nft sv) (sv_table sv) (z_id z) (n_ip n) (w_nft W)") (auto simp: nft_do_def)
  moreover have "db_do (Join e (z_id z) (n_id n)) W = (None, W)"
    using assms(1,6) by (simp add: db_do_def Join_def insert_member_def is_member_def Let_def)
  moreover have "\<not> is_member (snd (Leave (at_site ''rollback: '' e) (z_id z) (n_id n) ?d)) (z_id z) (n_id n)"
    using assms(1,6) by (auto simp: Leave_def is_member_def)
  ultimately show ?thesis using assms(7-9,11) by (auto simp: joinZone_def with_body_def or_500_def or_404_def)
qed

theorem failed_rejoin_evicts_witness:
  "is_member demo_net 1 2 \<and>
   \<not> is_member (w_db (snd (joinZone broken_server (calm 50) (Some \<lparr>UserID = 2, Username = ''bob'', IsAdmin = False\<rparr>)
        ''home'' (Some \<lparr>jz_NodeID = 2, jz_Password = ''secret''\<rparr>) demo_world))) 1 2"
proof -
  let ?z = "\<lparr>z_id = 1, z_name = ''home'', z_password_hash = ''zh'', z_owner = 2, z_created_at = 30\<rparr>"
  let ?n = "\<lparr>n_id = 2, n_user_id = 2, n_name = ''pc'', n_wg_pubkey = ''12'',
       n_ip = 0x647F0003, n_created_at = 21, n_platform = ''unknown''\<rparr>"
  have member: "is_member demo_net 1 2" by (simp add: is_member_def demo_net_def demo_db_def empty_db_def)
  have "schema_ok (w_db demo_world)"
    using demo_consistent by (simp add: demo_world_def consistent_def ann_inv_def)
  moreover have "?z \<in> set (zones (w_db demo_world))" "?n \<in> set (nodes (w_db demo_world))"
    by (simp_all add: demo_world_def demo_net_def demo_db_def empty_db_def)
  moreover have "fst (AddMember (sv_nft broken_server) (sv_table broken_server) 1 0x647F0003 (w_nft demo_world)) \<noteq> None"
    by (simp add: AddMember_def edit_set_def broken_server_def)
  ultimately show ?thesis
    using failed_rejoin_evicts [OF quiet_calm _ _ _ _ _ _ _ _ _ prod.collapse [symmetric], of demo_world ?z ?n
        "\<lparr>UserID = 2, Username = ''bob'', IsAdmin = False\<rparr>" "''secret''" broken_server 50] member
    by (simp add: broken_server_def demo_world_def)
qed


abbreviation same_key :: register_node_request where
  "same_key \<equiv> \<lparr>rn_Name = ''x'', rn_WGPubKey = ''011'', rn_Platform = ''''\<rparr>"

lemma same_key_parses: "decimal_key ''011'' = Some 11"
  by (simp add: decimal_key_def parse_nat_def digit_val_def)

lemma same_key_accepted:
  assumes "w_db W = demo_net"
  shows "success (fst (registerNode demo_server (calm 50) (Some bob) (Some same_key) W))"
proof -
  have free: "lowestFree (calm 50) demo_lo demo_hi demo_net = Inr (Some 0x647F0004)"
    by (simp add: lowestFree_def free_candidates_def calm_def demo_lo_def demo_hi_def demo_net_def)
  have "\<exists>n d. CreateNode (calm 50) (\<lambda>_ d. d) 2 ''x'' ''011'' ''unknown'' demo_lo demo_hi 5 demo_net = (Inr n, d)
      \<and> n_wg_pubkey n = ''011''"
    unfolding CreateNode_some [OF free]
    by (simp add: insertNode_def insert_node_row_def checked_insert_def calm_def demo_net_def demo_db_def empty_db_def
        has_user_def bind_res_def Let_def)
  then obtain n d where new: "CreateNode (calm 50) (\<lambda>_ d. d) 2 ''x'' ''011'' ''unknown'' demo_lo demo_hi 5 demo_net = (Inr n, d)"
    and key: "n_wg_pubkey n = ''011''" by blast
  have "TrimSpace ''x'' = ''x''" by code_simp
  moreover have "PoolRange (parse_prefix demo_server) (wgNetwork demo_server) = Inr (demo_lo, demo_hi)"
    using demo_pools by (simp add: pools_ok_def)
  ultimately show ?thesis
    using new key same_key_parses assms
    by (simp add: registerNode_def with_body_def register_invalid_def demo_server_def model_host_def platformPattern_def
        node_platform_def db_do_def cap_def add_node_peer_def wg_do_def AddPeer_def SetPeerRoutes_def peerConfig_def
        success_def)
qed


end
