(* ===== verification/Router_Engine.thy ===== *)
theory Router_Engine
  imports Netip
begin

text \<open>
  \<^verbatim>\<open>internal/router/engine\<close>: the kernel WireGuard tunnel of the router client. The router's kernel
  (netlink, wgctrl, the interfaces, name resolution) is a parameter, a record of the calls the code
  makes over an abstract machine state; \<open>machine_contract\<close> states their documented effect on the
  routes of the tunnel interface and on the allowed addresses of its peers. The engine's memory of
  the consumer routes is part of its state. A time is a number of nanoseconds, the zero time \<^term>\<open>None\<close>.
\<close>

section \<open>Definitions\<close>

subsection \<open>The machine\<close>

type_synonym rt_key = "256 word"

datatype ip_addr = IP4 addr | IP6 "128 word"

record rt_peer =
  pk_key :: rt_key
  pk_endpoint :: "(ip_addr \<times> int) option"
  pk_keepalive :: "int option"
  pk_update_only :: bool
  pk_replace_ips :: bool
  pk_allowed :: "prefix4 list"

record rt_config =
  rc_private :: "rt_key option"
  rc_peers :: "rt_peer list"

record 'r machine =
  mc_parse_key :: "string \<Rightarrow> rt_key option"
  mc_key_string :: "rt_key \<Rightarrow> string"
  mc_split_host_port :: "string \<Rightarrow> (string \<times> string) option"
  mc_lookup_port :: "string \<Rightarrow> int option"
  mc_lookup_ip :: "string \<Rightarrow> ip_addr list option"
  mc_link :: "string \<Rightarrow> 'r \<Rightarrow> bool"
  mc_link_add :: "string \<Rightarrow> 'r \<Rightarrow> string option \<times> 'r"
  mc_link_del :: "string \<Rightarrow> 'r \<Rightarrow> string option \<times> 'r"
  mc_addr_add :: "string \<Rightarrow> addr \<Rightarrow> nat \<Rightarrow> 'r \<Rightarrow> string option \<times> 'r"
  mc_wgctrl :: "'r \<Rightarrow> bool"
  mc_configure :: "string \<Rightarrow> rt_config \<Rightarrow> 'r \<Rightarrow> string option \<times> 'r"
  mc_link_up :: "string \<Rightarrow> 'r \<Rightarrow> string option \<times> 'r"
  mc_route_replace :: "string \<Rightarrow> prefix4 \<Rightarrow> 'r \<Rightarrow> string option \<times> 'r"
  mc_route_del :: "string \<Rightarrow> prefix4 \<Rightarrow> 'r \<Rightarrow> string option \<times> 'r"
  mc_device :: "string \<Rightarrow> 'r \<Rightarrow> (rt_key \<times> int option) list option"
  mc_ifaces :: "'r \<Rightarrow> iface list option"

subsection \<open>The engine\<close>

record engine_config =
  ec_Iface :: string
  ec_PrivateKey :: string
  ec_Address :: addr
  ec_Network :: prefix4
  ec_ServerPubKey :: string
  ec_Endpoint :: string
  ec_Keepalive :: int

definition ec_iface :: "engine_config \<Rightarrow> string" where
  "ec_iface c = (if ec_Iface c \<noteq> '''' then ec_Iface c else ''lanweave0'')"

record 'r engine =
  eg_wanted :: "prefix4 list"
  eg_applied :: "prefix4 list"
  eg_machine :: 'r

datatype engine_error = ErrIfaceExists | EngineFailed string

definition splitEndpoint :: "'r machine \<Rightarrow> string \<Rightarrow> (string, ip_addr \<times> int) result" where
  "splitEndpoint mc endpoint =
     (case mc_split_host_port mc endpoint of
        None \<Rightarrow> Inl ''parse endpoint''
      | Some (host, port_text) \<Rightarrow>
          (case mc_lookup_port mc port_text of
             None \<Rightarrow> Inl ''parse endpoint port''
           | Some port \<Rightarrow>
               (case mc_lookup_ip mc host of
                  None \<Rightarrow> Inl ''resolve endpoint host''
                | Some [] \<Rightarrow> Inl ''resolve endpoint host''
                | Some (ip # ips) \<Rightarrow>
                    (case find (\<lambda>x. case x of IP4 _ \<Rightarrow> True | IP6 _ \<Rightarrow> False) (ip # ips) of
                       Some v4 \<Rightarrow> Inr (v4, port)
                     | None \<Rightarrow> Inr (ip, port)))))"

definition Down :: "'r machine \<Rightarrow> engine_config \<Rightarrow> 'r engine \<Rightarrow> string option \<times> 'r engine" where
  "Down mc c s =
     (let s1 = s\<lparr>eg_wanted := [], eg_applied := []\<rparr>
      in if \<not> mc_link mc (ec_iface c) (eg_machine s1) then (None, s1)
         else case mc_link_del mc (ec_iface c) (eg_machine s1) of
           (Some _, m) \<Rightarrow> (Some ''delete interface'', s1\<lparr>eg_machine := m\<rparr>)
         | (None, m) \<Rightarrow> (None, s1\<lparr>eg_machine := m\<rparr>))"

text \<open>A step of \<^verbatim>\<open>Up\<close> after the interface exists: on failure the interface is taken down again.\<close>

definition or_down ::
  "'r machine \<Rightarrow> engine_config \<Rightarrow> 'r engine \<Rightarrow> string \<Rightarrow> string option \<times> 'r
     \<Rightarrow> ('r \<Rightarrow> engine_error option \<times> 'r engine) \<Rightarrow> engine_error option \<times> 'r engine" where
  "or_down mc c s label r next_step =
     (case r of
        (Some _, m) \<Rightarrow> (Some (EngineFailed label), snd (Down mc c (s\<lparr>eg_machine := m\<rparr>)))
      | (None, m) \<Rightarrow> next_step m)"

definition server_peer :: "engine_config \<Rightarrow> rt_key \<Rightarrow> ip_addr \<times> int \<Rightarrow> rt_peer" where
  "server_peer c key endpoint =
     \<lparr>pk_key = key, pk_endpoint = Some endpoint, pk_keepalive = Some (ec_Keepalive c),
      pk_update_only = False, pk_replace_ips = False, pk_allowed = [Masked (ec_Network c)]\<rparr>"

definition Up :: "'r machine \<Rightarrow> engine_config \<Rightarrow> 'r engine \<Rightarrow> engine_error option \<times> 'r engine" where
  "Up mc c s =
     (let name = ec_iface c
      in if mc_link mc name (eg_machine s) then (Some ErrIfaceExists, s)
         else case mc_parse_key mc (ec_PrivateKey c) of
           None \<Rightarrow> (Some (EngineFailed ''parse device key''), s)
         | Some key \<Rightarrow>
         (case mc_parse_key mc (ec_ServerPubKey c) of
           None \<Rightarrow> (Some (EngineFailed ''parse server key''), s)
         | Some serverKey \<Rightarrow>
         (case splitEndpoint mc (ec_Endpoint c) of
           Inl err \<Rightarrow> (Some (EngineFailed err), s)
         | Inr endpoint \<Rightarrow>
         (case mc_link_add mc name (eg_machine s) of
           (Some _, m) \<Rightarrow> (Some (EngineFailed ''create interface''), s\<lparr>eg_machine := m\<rparr>)
         | (None, m) \<Rightarrow>
           or_down mc c s ''re-fetch interface'' (if mc_link mc name m then None else Some '''', m) (\<lambda>m.
           or_down mc c s ''assign address'' (mc_addr_add mc name (ec_Address c) 32 m) (\<lambda>m.
           or_down mc c s ''open wgctrl'' (if mc_wgctrl mc m then None else Some '''', m) (\<lambda>m.
           or_down mc c s ''configure device''
             (mc_configure mc name
                \<lparr>rc_private = Some key, rc_peers = [server_peer c serverKey endpoint]\<rparr> m) (\<lambda>m.
           or_down mc c s ''bring interface up'' (mc_link_up mc name m) (\<lambda>m.
           or_down mc c s ''set VPN route'' (mc_route_replace mc name (Masked (ec_Network c)) m) (\<lambda>m.
             (None, s\<lparr>eg_machine := m\<rparr>)))))))))))"

definition LastHandshake :: "'r machine \<Rightarrow> engine_config \<Rightarrow> 'r engine \<Rightarrow> (string, int option) result" where
  "LastHandshake mc c s =
     (if \<not> mc_wgctrl mc (eg_machine s) then Inl ''open wgctrl''
      else case mc_device mc (ec_iface c) (eg_machine s) of
        None \<Rightarrow> Inl ''read device''
      | Some peers \<Rightarrow>
          (case find (\<lambda>(k, t). mc_key_string mc k = ec_ServerPubKey c) peers of
             None \<Rightarrow> Inl ''server peer not present on interface''
           | Some (k, t) \<Rightarrow> Inr t))"

definition Connected :: "'r machine \<Rightarrow> engine_config \<Rightarrow> int \<Rightarrow> int \<Rightarrow> 'r engine \<Rightarrow> bool" where
  "Connected mc c threshold now s =
     (case LastHandshake mc c s of Inr (Some t) \<Rightarrow> now - t < threshold | _ \<Rightarrow> False)"

subsection \<open>Consumer routes\<close>

fun add_routes ::
  "'r machine \<Rightarrow> string \<Rightarrow> prefix4 set \<Rightarrow> prefix4 list \<Rightarrow> 'r \<Rightarrow> prefix4 list \<times> 'r" where
  "add_routes mc dev cur [] m = ([], m)"
| "add_routes mc dev cur (p # ps) m =
     (if p \<in> cur then (case add_routes mc dev cur ps m of (rs, m') \<Rightarrow> (p # rs, m'))
      else case mc_route_replace mc dev p m of
        (Some _, m1) \<Rightarrow> add_routes mc dev cur ps m1
      | (None, m1) \<Rightarrow> (case add_routes mc dev cur ps m1 of (rs, m') \<Rightarrow> (p # rs, m')))"

fun del_routes :: "'r machine \<Rightarrow> string \<Rightarrow> prefix4 set \<Rightarrow> prefix4 list \<Rightarrow> 'r \<Rightarrow> 'r" where
  "del_routes mc dev want [] m = m"
| "del_routes mc dev want (p # ps) m =
     (if p \<in> want then del_routes mc dev want ps m
      else del_routes mc dev want ps (snd (mc_route_del mc dev p m)))"

definition routes_update :: "engine_config \<Rightarrow> rt_key \<Rightarrow> prefix4 list \<Rightarrow> rt_config" where
  "routes_update c key routed =
     \<lparr>rc_private = None, rc_peers =
        [\<lparr>pk_key = key, pk_endpoint = None, pk_keepalive = None, pk_update_only = True,
          pk_replace_ips = True, pk_allowed = Masked (ec_Network c) # routed\<rparr>]\<rparr>"

text \<open>
  The reply carries the error, if any, next to the prefixes: on an error the code returns what it
  routed, or nothing when the interface is missing.
\<close>

definition SetRoutes ::
  "'r machine \<Rightarrow> engine_config \<Rightarrow> prefix4 list \<Rightarrow> 'r engine
     \<Rightarrow> (prefix4 list \<times> string option) \<times> 'r engine" where
  "SetRoutes mc c extra s =
     (let desired = CanonicalPrefixes extra; dev = ec_iface c; m = eg_machine s
      in if desired = eg_wanted s \<and> length (eg_applied s) = length (eg_wanted s)
         then ((eg_applied s, None), s)
         else if \<not> mc_link mc dev m then (([], Some ''tunnel interface''), s)
         else
           (let applied = filter (\<lambda>p. \<not> snd (LocalOverlap (mc_ifaces mc m) p dev)) desired
            in case add_routes mc dev (set (eg_applied s)) applied m of (routed, m1) \<Rightarrow>
               (let m2 = del_routes mc dev (set applied) (eg_applied s) m1
                in case mc_parse_key mc (ec_ServerPubKey c) of
                     None \<Rightarrow> ((routed, Some ''server key''), s\<lparr>eg_machine := m2\<rparr>)
                   | Some key \<Rightarrow>
                       if \<not> mc_wgctrl mc m2 then ((routed, Some ''wgctrl''), s\<lparr>eg_machine := m2\<rparr>)
                       else (case mc_configure mc dev (routes_update c key routed) m2 of
                           (Some _, m3) \<Rightarrow>
                             ((routed, Some ''update allowed ips''), s\<lparr>eg_machine := m3\<rparr>)
                         | (None, m3) \<Rightarrow>
                             ((routed, None),
                              s\<lparr>eg_wanted := desired, eg_applied := routed, eg_machine := m3\<rparr>)))))"

definition Routes :: "'r engine \<Rightarrow> prefix4 list" where
  "Routes s = eg_applied s"

section \<open>What the kernel promises\<close>

text \<open>
  Of a machine \<open>link\<close> says whether the interface exists, \<open>routes\<close> which prefixes are routed into it,
  and \<open>allowed\<close> which addresses its peers may use. Every call leaves alone what its documentation
  does not name; about a device configuration that fails only the routes are known.
\<close>

record tunnel_view =
  tv_link :: bool
  tv_routes :: "prefix4 set"
  tv_allowed :: "rt_key \<rightharpoonup> prefix4 set"

definition peer_allowed :: "rt_peer \<Rightarrow> (rt_key \<rightharpoonup> prefix4 set) \<Rightarrow> (rt_key \<rightharpoonup> prefix4 set)" where
  "peer_allowed p A =
     (if pk_update_only p \<and> A (pk_key p) = None then A
      else A(pk_key p \<mapsto>
        (if pk_replace_ips p then {} else case A (pk_key p) of None \<Rightarrow> {} | Some x \<Rightarrow> x) \<union>
        set (pk_allowed p)))"

definition machine_contract :: "'r machine \<Rightarrow> string \<Rightarrow> ('r \<Rightarrow> tunnel_view) \<Rightarrow> bool" where
  "machine_contract mc dev view =
     ((\<forall>m. mc_link mc dev m = tv_link (view m)) \<and>
      (\<forall>m r m'. mc_link_add mc dev m = (r, m') \<longrightarrow>
         view m' = (if r = None then \<lparr>tv_link = True, tv_routes = {}, tv_allowed = (\<lambda>_. None)\<rparr> else view m)) \<and>
      (\<forall>m r m'. mc_link_del mc dev m = (r, m') \<longrightarrow>
         view m' = (if r = None then \<lparr>tv_link = False, tv_routes = {}, tv_allowed = (\<lambda>_. None)\<rparr> else view m)) \<and>
      (\<forall>m a n r m'. mc_addr_add mc dev a n m = (r, m') \<longrightarrow> view m' = view m) \<and>
      (\<forall>m r m'. mc_link_up mc dev m = (r, m') \<longrightarrow> view m' = view m) \<and>
      (\<forall>m p r m'. mc_route_replace mc dev p m = (r, m') \<longrightarrow>
         view m' = (if r = None then (view m)\<lparr>tv_routes := insert p (tv_routes (view m))\<rparr> else view m)) \<and>
      (\<forall>m p r m'. mc_route_del mc dev p m = (r, m') \<longrightarrow>
         view m' = (if r = None then (view m)\<lparr>tv_routes := tv_routes (view m) - {p}\<rparr> else view m)) \<and>
      (\<forall>m cfg p r m'. rc_peers cfg = [p] \<longrightarrow> mc_configure mc dev cfg m = (r, m') \<longrightarrow>
         tv_link (view m') = tv_link (view m) \<and> tv_routes (view m') = tv_routes (view m) \<and>
         (r = None \<longrightarrow> tv_allowed (view m') = peer_allowed p (tv_allowed (view m)))))"

text \<open>A machine on which every call that makes sense succeeds.\<close>

definition machine_faultless :: "'r machine \<Rightarrow> string \<Rightarrow> ('r \<Rightarrow> tunnel_view) \<Rightarrow> bool" where
  "machine_faultless mc dev view =
     (machine_contract mc dev view \<and> (\<forall>m. mc_wgctrl mc m) \<and>
      (\<forall>m. \<not> tv_link (view m) \<longrightarrow> fst (mc_link_add mc dev m) = None) \<and>
      (\<forall>m. tv_link (view m) \<longrightarrow> fst (mc_link_del mc dev m) = None) \<and>
      (\<forall>m a n. tv_link (view m) \<longrightarrow> fst (mc_addr_add mc dev a n m) = None) \<and>
      (\<forall>m. tv_link (view m) \<longrightarrow> fst (mc_link_up mc dev m) = None) \<and>
      (\<forall>m p. tv_link (view m) \<longrightarrow> fst (mc_route_replace mc dev p m) = None) \<and>
      (\<forall>m p. p \<in> tv_routes (view m) \<longrightarrow> fst (mc_route_del mc dev p m) = None) \<and>
      (\<forall>m cfg. tv_link (view m) \<longrightarrow> fst (mc_configure mc dev cfg m) = None))"

text \<open>
  The memory of the engine tells the truth: the tunnel routes the network and the blocks recorded as
  applied, and the server may use exactly these.
\<close>

definition coherent :: "engine_config \<Rightarrow> rt_key \<Rightarrow> ('r \<Rightarrow> tunnel_view) \<Rightarrow> 'r engine \<Rightarrow> bool" where
  "coherent c key view s =
     (Masked (ec_Network c) \<notin> set (eg_applied s) \<and>
      view (eg_machine s) =
        (let held = insert (Masked (ec_Network c)) (set (eg_applied s))
         in \<lparr>tv_link = True, tv_routes = held, tv_allowed = [key \<mapsto> held]\<rparr>))"

section \<open>Lemmas\<close>

subsection \<open>The contract, call by call\<close>

lemma link_view: "machine_contract mc dev view \<Longrightarrow> mc_link mc dev m = tv_link (view m)"
  unfolding machine_contract_def by (elim conjE) meson

lemma link_add_view:
  "machine_contract mc dev view \<Longrightarrow> mc_link_add mc dev m = (r, m') \<Longrightarrow>
     view m' = (if r = None then \<lparr>tv_link = True, tv_routes = {}, tv_allowed = (\<lambda>_. None)\<rparr> else view m)"
  unfolding machine_contract_def by (elim conjE) meson

lemma link_del_view:
  "machine_contract mc dev view \<Longrightarrow> mc_link_del mc dev m = (r, m') \<Longrightarrow>
     view m' = (if r = None then \<lparr>tv_link = False, tv_routes = {}, tv_allowed = (\<lambda>_. None)\<rparr> else view m)"
  unfolding machine_contract_def by (elim conjE) meson

lemma addr_add_view: "machine_contract mc dev view \<Longrightarrow> mc_addr_add mc dev a n m = (r, m') \<Longrightarrow> view m' = view m"
  unfolding machine_contract_def by (elim conjE) meson

lemma link_up_view: "machine_contract mc dev view \<Longrightarrow> mc_link_up mc dev m = (r, m') \<Longrightarrow> view m' = view m"
  unfolding machine_contract_def by (elim conjE) meson

lemma route_replace_view:
  "machine_contract mc dev view \<Longrightarrow> mc_route_replace mc dev p m = (r, m') \<Longrightarrow>
     view m' = (if r = None then (view m)\<lparr>tv_routes := insert p (tv_routes (view m))\<rparr> else view m)"
  unfolding machine_contract_def by (elim conjE) meson

lemma route_del_view:
  "machine_contract mc dev view \<Longrightarrow> mc_route_del mc dev p m = (r, m') \<Longrightarrow>
     view m' = (if r = None then (view m)\<lparr>tv_routes := tv_routes (view m) - {p}\<rparr> else view m)"
  unfolding machine_contract_def by (elim conjE) meson

lemma configure_view:
  assumes "machine_contract mc dev view" and "mc_configure mc dev cfg m = (r, m')" and "rc_peers cfg = [p]"
  shows "tv_link (view m') = tv_link (view m) \<and> tv_routes (view m') = tv_routes (view m) \<and>
    (r = None \<longrightarrow> tv_allowed (view m') = peer_allowed p (tv_allowed (view m)))"
proof -
  from assms(1) have "\<forall>m cfg p r m'. rc_peers cfg = [p] \<longrightarrow> mc_configure mc dev cfg m = (r, m') \<longrightarrow>
      tv_link (view m') = tv_link (view m) \<and> tv_routes (view m') = tv_routes (view m) \<and>
      (r = None \<longrightarrow> tv_allowed (view m') = peer_allowed p (tv_allowed (view m)))"
    unfolding machine_contract_def by (elim conjE) assumption
  with assms(2,3) show ?thesis by blast
qed

subsection \<open>The route loops\<close>

lemma add_routes_view:
  assumes contract: "machine_contract mc dev view"
  shows "add_routes mc dev cur ps m = (rs, m') \<Longrightarrow>
     view m' = (view m)\<lparr>tv_routes := tv_routes (view m) \<union> (set rs - cur)\<rparr> \<and>
     set rs \<subseteq> set ps \<and> set ps \<inter> cur \<subseteq> set rs \<and> (distinct ps \<longrightarrow> distinct rs)"
proof (induction ps arbitrary: m rs)
  case Nil
  then show ?case by simp
next
  case (Cons p ps)
  show ?case
  proof (cases "p \<in> cur")
    case True
    with Cons.prems obtain rs' where "add_routes mc dev cur ps m = (rs', m')" "rs = p # rs'"
      by (auto split: prod.splits)
    with Cons.IH [of m rs'] True show ?thesis by auto
  next
    case False
    obtain r m1 where r: "mc_route_replace mc dev p m = (r, m1)" by fastforce
    show ?thesis
    proof (cases r)
      case None
      with Cons.prems False r obtain rs' where rs': "add_routes mc dev cur ps m1 = (rs', m')" "rs = p # rs'"
        by (auto split: prod.splits)
      have "tv_routes (view m) \<union> (set (p # rs') - cur) = insert p (tv_routes (view m)) \<union> (set rs' - cur)"
        using False by auto
      with Cons.IH [OF rs'(1)] rs'(2) False route_replace_view [OF contract r] None show ?thesis by auto
    next
      case (Some err)
      with Cons.prems False r have "add_routes mc dev cur ps m1 = (rs, m')" by simp
      with Cons.IH [OF this] False route_replace_view [OF contract r] Some show ?thesis by auto
    qed
  qed
qed

lemma del_routes_view:
  assumes contract: "machine_contract mc dev view"
    and del: "\<And>m p. p \<in> tv_routes (view m) \<Longrightarrow> fst (mc_route_del mc dev p m) = None"
  shows "view (del_routes mc dev want ps m) =
    (view m)\<lparr>tv_routes := tv_routes (view m) - (set ps - want)\<rparr>"
proof (induction ps arbitrary: m)
  case Nil
  then show ?case by simp
next
  case (Cons p ps)
  show ?case
  proof (cases "p \<in> want")
    case True
    with Cons show ?thesis by (simp add: insert_Diff_if)
  next
    case False
    obtain r m1 where r: "mc_route_del mc dev p m = (r, m1)" by fastforce
    have "view m1 = (view m)\<lparr>tv_routes := tv_routes (view m) - {p}\<rparr>"
      using route_del_view [OF contract r] del [of p m] r by (cases "p \<in> tv_routes (view m)") auto
    moreover have "tv_routes (view m) - {p} - (set ps - want) = tv_routes (view m) - (set (p # ps) - want)"
      using False by auto
    ultimately show ?thesis using Cons.IH [of m1] False r by simp
  qed
qed

lemma del_routes_rest:
  assumes contract: "machine_contract mc dev view"
  shows "tv_link (view (del_routes mc dev want ps m)) = tv_link (view m) \<and>
     tv_allowed (view (del_routes mc dev want ps m)) = tv_allowed (view m)"
proof (induction ps arbitrary: m)
  case Nil
  then show ?case by simp
next
  case (Cons p ps)
  obtain r m1 where r: "mc_route_del mc dev p m = (r, m1)" by fastforce
  with Cons route_del_view [OF contract r] show ?case by simp
qed

subsection \<open>One update of the consumer routes\<close>

definition routable :: "'r machine \<Rightarrow> engine_config \<Rightarrow> prefix4 list \<Rightarrow> 'r engine \<Rightarrow> prefix4 list" where
  "routable mc c extra s =
     filter (\<lambda>p. \<not> snd (LocalOverlap (mc_ifaces mc (eg_machine s)) p (ec_iface c))) (CanonicalPrefixes extra)"

definition unchanged_request :: "prefix4 list \<Rightarrow> 'r engine \<Rightarrow> bool" where
  "unchanged_request extra s =
     (CanonicalPrefixes extra = eg_wanted s \<and> length (eg_applied s) = length (eg_wanted s))"

lemma SetRoutes_unchanged: "unchanged_request extra s \<Longrightarrow> SetRoutes mc c extra s = ((eg_applied s, None), s)"
  by (simp add: SetRoutes_def unchanged_request_def)

text \<open>The machine after the two route loops.\<close>

definition rerouted :: "'r machine \<Rightarrow> engine_config \<Rightarrow> prefix4 list \<Rightarrow> 'r engine \<Rightarrow> prefix4 list \<times> 'r" where
  "rerouted mc c extra s =
     (case add_routes mc (ec_iface c) (set (eg_applied s)) (routable mc c extra s) (eg_machine s) of
        (routed, m1) \<Rightarrow>
          (routed, del_routes mc (ec_iface c) (set (routable mc c extra s)) (eg_applied s) m1))"

lemma SetRoutes_changed:
  assumes "\<not> unchanged_request extra s" and "mc_link mc (ec_iface c) (eg_machine s)"
    and "rerouted mc c extra s = (routed, m2)"
  shows "SetRoutes mc c extra s =
    (case mc_parse_key mc (ec_ServerPubKey c) of
       None \<Rightarrow> ((routed, Some ''server key''), s\<lparr>eg_machine := m2\<rparr>)
     | Some key \<Rightarrow>
         if \<not> mc_wgctrl mc m2 then ((routed, Some ''wgctrl''), s\<lparr>eg_machine := m2\<rparr>)
         else (case mc_configure mc (ec_iface c) (routes_update c key routed) m2 of
             (Some _, m3) \<Rightarrow> ((routed, Some ''update allowed ips''), s\<lparr>eg_machine := m3\<rparr>)
           | (None, m3) \<Rightarrow>
               ((routed, None),
                s\<lparr>eg_wanted := CanonicalPrefixes extra, eg_applied := routed, eg_machine := m3\<rparr>)))"
proof -
  obtain m1 where "add_routes mc (ec_iface c) (set (eg_applied s)) (routable mc c extra s) (eg_machine s) = (routed, m1)"
    and "m2 = del_routes mc (ec_iface c) (set (routable mc c extra s)) (eg_applied s) m1"
    using assms(3) by (auto simp: rerouted_def split: prod.splits)
  with assms(1,2) show ?thesis
    unfolding SetRoutes_def Let_def routable_def [symmetric] by (simp only: unchanged_request_def prod.case) simp
qed

lemma set_routable: "set (routable mc c extra s) =
    {p \<in> Masked ` set extra. \<not> snd (LocalOverlap (mc_ifaces mc (eg_machine s)) p (ec_iface c))}"
  by (auto simp: routable_def)

lemma rerouted_view:
  assumes contract: "machine_contract mc (ec_iface c) view"
    and del: "\<And>m p. p \<in> tv_routes (view m) \<Longrightarrow> fst (mc_route_del mc (ec_iface c) p m) = None"
    and s: "coherent c key view s" and net: "Masked (ec_Network c) \<notin> Masked ` set extra"
    and r: "rerouted mc c extra s = (routed, m2)"
  shows "view m2 = (view (eg_machine s))\<lparr>tv_routes := insert (Masked (ec_Network c)) (set routed)\<rparr> \<and>
    set routed \<subseteq> set (routable mc c extra s) \<and> distinct routed"
proof -
  let ?A = "set (eg_applied s)" and ?W = "set (routable mc c extra s)" and ?n = "Masked (ec_Network c)"
  obtain m1 where m1: "add_routes mc (ec_iface c) ?A (routable mc c extra s) (eg_machine s) = (routed, m1)"
    and m2: "m2 = del_routes mc (ec_iface c) ?W (eg_applied s) m1"
    using r by (auto simp: rerouted_def split: prod.splits)
  have "distinct (routable mc c extra s)" by (simp add: routable_def)
  with add_routes_view [OF contract m1] have v1: "view m1 = (view (eg_machine s))
      \<lparr>tv_routes := tv_routes (view (eg_machine s)) \<union> (set routed - ?A)\<rparr>"
    and sub: "set routed \<subseteq> ?W" "?W \<inter> ?A \<subseteq> set routed" and d: "distinct routed" by simp_all
  have held: "tv_routes (view (eg_machine s)) = insert ?n ?A" and n: "?n \<notin> ?A"
    using s by (simp_all add: coherent_def Let_def)
  have "insert ?n ?A \<union> (set routed - ?A) - (?A - ?W) = insert ?n (set routed)"
    using sub n by blast
  then have "view m2 = (view (eg_machine s))\<lparr>tv_routes := insert ?n (set routed)\<rparr>"
    by (simp add: m2 del_routes_view [OF contract del] v1 held)
  with sub(1) d show ?thesis by simp
qed

lemma SetRoutes_success:
  assumes contract: "machine_contract mc (ec_iface c) view"
    and del: "\<And>m p. p \<in> tv_routes (view m) \<Longrightarrow> fst (mc_route_del mc (ec_iface c) p m) = None"
    and s: "coherent c key view s" and net: "Masked (ec_Network c) \<notin> Masked ` set extra"
    and key: "mc_parse_key mc (ec_ServerPubKey c) = Some key"
    and ok: "SetRoutes mc c extra s = ((rs, None), s')"
  shows "coherent c key view s' \<and> eg_applied s' = rs \<and> eg_wanted s' = CanonicalPrefixes extra \<and>
    (unchanged_request extra s \<and> s' = s \<or> set rs \<subseteq> set (routable mc c extra s) \<and> distinct rs)"
proof (cases "unchanged_request extra s")
  case True
  with ok s show ?thesis by (auto simp: SetRoutes_unchanged) (simp add: unchanged_request_def)
next
  case False
  have link: "mc_link mc (ec_iface c) (eg_machine s)"
    using s by (simp add: link_view [OF contract] coherent_def Let_def)
  obtain routed m2 where r: "rerouted mc c extra s = (routed, m2)" by fastforce
  with ok obtain m3 where m3: "mc_configure mc (ec_iface c) (routes_update c key routed) m2 = (None, m3)"
    and s': "rs = routed" "s' = s\<lparr>eg_wanted := CanonicalPrefixes extra, eg_applied := routed, eg_machine := m3\<rparr>"
    by (auto simp: SetRoutes_changed [OF False link r] key split: if_splits prod.splits option.splits)
  have v2: "view m2 = (view (eg_machine s))\<lparr>tv_routes := insert (Masked (ec_Network c)) (set routed)\<rparr>"
    and sub: "set routed \<subseteq> set (routable mc c extra s)" and d: "distinct routed"
    using rerouted_view [OF contract del s net r] by simp_all
  have "rc_peers (routes_update c key routed) =
      [\<lparr>pk_key = key, pk_endpoint = None, pk_keepalive = None, pk_update_only = True, pk_replace_ips = True,
        pk_allowed = Masked (ec_Network c) # routed\<rparr>]"
    by (simp add: routes_update_def)
  from configure_view [OF contract m3 this] s have "view m3 =
      \<lparr>tv_link = True, tv_routes = insert (Masked (ec_Network c)) (set routed),
       tv_allowed = [key \<mapsto> insert (Masked (ec_Network c)) (set routed)]\<rparr>"
    by (cases "view m3") (simp add: v2 coherent_def Let_def peer_allowed_def)
  moreover have "Masked (ec_Network c) \<notin> set routed"
    using sub net by (auto simp: set_routable)
  ultimately show ?thesis using sub d by (simp add: s' coherent_def Let_def)
qed

lemma add_routes_all:
  assumes "machine_faultless mc dev view" and "tv_link (view m)"
  shows "fst (add_routes mc dev cur ps m) = ps"
proof -
  have contract: "machine_contract mc dev view" and ok: "fst (mc_route_replace mc dev p m) = None"
    if "tv_link (view m)" for p m
    using assms(1) that unfolding machine_faultless_def by blast+
  have step: "tv_link (view m1)" if "mc_route_replace mc dev p m = (r, m1)" "tv_link (view m)" for p m r m1
    using route_replace_view [OF contract that(1)] that(2) by simp
  show ?thesis using assms(2)
  proof (induction ps arbitrary: m)
    case Nil
    then show ?case by simp
  next
    case (Cons p ps)
    show ?case
    proof (cases "p \<in> cur")
      case True
      with Cons.IH [OF Cons.prems] show ?thesis by (auto split: prod.splits)
    next
      case False
      obtain r m1 where r: "mc_route_replace mc dev p m = (r, m1)" by fastforce
      with ok [OF Cons.prems, of p] have "r = None" by simp
      with False r Cons.IH [OF step [OF r Cons.prems]] show ?thesis by (auto split: prod.splits)
    qed
  qed
qed

lemma tunnel_faultless_contract: "machine_faultless mc dev view \<Longrightarrow> machine_contract mc dev view"
  by (simp add: machine_faultless_def)

lemma SetRoutes_faultless:
  assumes ok: "machine_faultless mc (ec_iface c) view" and s: "coherent c key view s"
    and net: "Masked (ec_Network c) \<notin> Masked ` set extra"
    and key: "mc_parse_key mc (ec_ServerPubKey c) = Some key"
    and new: "\<not> unchanged_request extra s"
  shows "fst (SetRoutes mc c extra s) = (routable mc c extra s, None)"
proof -
  note contract = tunnel_faultless_contract [OF ok]
  have link: "tv_link (view (eg_machine s))" using s by (simp add: coherent_def Let_def)
  then have l: "mc_link mc (ec_iface c) (eg_machine s)" by (simp add: link_view [OF contract])
  obtain routed m2 where r: "rerouted mc c extra s = (routed, m2)" by fastforce
  then have routed: "routed = routable mc c extra s"
    using add_routes_all [OF ok link] by (simp add: rerouted_def split: prod.splits) (metis fst_conv)
  have del: "\<And>m p. p \<in> tv_routes (view m) \<Longrightarrow> fst (mc_route_del mc (ec_iface c) p m) = None"
    using ok unfolding machine_faultless_def by blast
  have "view m2 = (view (eg_machine s))\<lparr>tv_routes := insert (Masked (ec_Network c)) (set routed)\<rparr>"
    using rerouted_view [OF contract del s net r] by simp
  with link have "tv_link (view m2)" by simp
  then have conf: "fst (mc_configure mc (ec_iface c) cfg m2) = None" and wg: "mc_wgctrl mc m2" for cfg
    using ok unfolding machine_faultless_def by blast+
  show ?thesis
    using conf [of "routes_update c key routed"] wg
    by (auto simp: SetRoutes_changed [OF new l r] key routed split: prod.splits option.splits)
qed

lemma SetRoutes_failed:
  assumes contract: "machine_contract mc (ec_iface c) view"
    and del: "\<And>m p. p \<in> tv_routes (view m) \<Longrightarrow> fst (mc_route_del mc (ec_iface c) p m) = None"
    and s: "coherent c key view s" and net: "Masked (ec_Network c) \<notin> Masked ` set extra"
    and fail: "SetRoutes mc c extra s = ((rs, Some err), s1)"
  shows "eg_wanted s1 = eg_wanted s \<and> eg_applied s1 = eg_applied s \<and>
    tv_routes (view (eg_machine s1)) = insert (Masked (ec_Network c)) (set rs) \<and>
    set rs \<subseteq> set (routable mc c extra s)"
proof -
  have new: "\<not> unchanged_request extra s" using fail by (auto simp: SetRoutes_unchanged)
  have link: "mc_link mc (ec_iface c) (eg_machine s)"
    using s by (simp add: link_view [OF contract] coherent_def Let_def)
  obtain routed m2 where r: "rerouted mc c extra s = (routed, m2)" by fastforce
  have "tv_routes (view m2) = insert (Masked (ec_Network c)) (set routed) \<and>
      set routed \<subseteq> set (routable mc c extra s)"
    using rerouted_view [OF contract del s net r] by simp
  moreover have "tv_routes (view m3) = tv_routes (view m2)"
    if "mc_configure mc (ec_iface c) (routes_update c key routed) m2 = (x, m3)" for x m3 key
    using configure_view [OF contract that] by (simp add: routes_update_def)
  ultimately show ?thesis
    using fail by (auto simp: SetRoutes_changed [OF new link r] split: option.splits if_splits prod.splits)
qed

subsection \<open>Bringing the tunnel up and down\<close>

definition fresh_tunnel :: "engine_config \<Rightarrow> rt_key \<Rightarrow> tunnel_view" where
  "fresh_tunnel c key =
     \<lparr>tv_link = True, tv_routes = {Masked (ec_Network c)}, tv_allowed = [key \<mapsto> {Masked (ec_Network c)}]\<rparr>"

definition up_ends ::
  "engine_config \<Rightarrow> rt_key \<Rightarrow> ('r \<Rightarrow> tunnel_view) \<Rightarrow> 'r engine \<Rightarrow> engine_error option \<times> 'r engine \<Rightarrow> bool" where
  "up_ends c key view s x =
     (case fst x of
        None \<Rightarrow> view (eg_machine (snd x)) = fresh_tunnel c key \<and> eg_applied (snd x) = eg_applied s \<and>
          eg_wanted (snd x) = eg_wanted s
      | Some ErrIfaceExists \<Rightarrow> False
      | Some (EngineFailed _) \<Rightarrow> \<not> tv_link (view (eg_machine (snd x))))"

lemma Down_view:
  assumes "machine_contract mc (ec_iface c) view" and "Down mc c s = (r, s')"
  shows "(r = None \<longrightarrow> \<not> tv_link (view (eg_machine s'))) \<and> eg_wanted s' = [] \<and> eg_applied s' = []"
  using assms(2) link_view [OF assms(1)] link_del_view [OF assms(1)]
  by (fastforce simp: Down_def Let_def split: if_splits prod.splits option.splits)

lemma Down_ok:
  assumes "machine_contract mc (ec_iface c) view"
    and "\<And>m. tv_link (view m) \<Longrightarrow> fst (mc_link_del mc (ec_iface c) m) = None"
  shows "fst (Down mc c s) = None"
  using assms(2) [of "eg_machine s"] link_view [OF assms(1)]
  by (auto simp: Down_def Let_def split: prod.splits option.splits)

lemma or_downI:
  assumes contract: "machine_contract mc (ec_iface c) view"
    and del: "\<And>m. tv_link (view m) \<Longrightarrow> fst (mc_link_del mc (ec_iface c) m) = None"
    and "\<And>m. r = (None, m) \<Longrightarrow> up_ends c key view s (next_step m)"
  shows "up_ends c key view s (or_down mc c s' label r next_step)"
proof -
  have "\<not> tv_link (view (eg_machine (snd (Down mc c s2))))" for s2
    using Down_view [OF contract, of s2] Down_ok [OF contract del, of s2] by (metis prod.collapse)
  with assms(3) show ?thesis
    by (auto simp: or_down_def up_ends_def split: prod.splits option.splits)
qed

lemma Up_ends:
  assumes contract: "machine_contract mc (ec_iface c) view"
    and del: "\<And>m. tv_link (view m) \<Longrightarrow> fst (mc_link_del mc (ec_iface c) m) = None"
    and key: "mc_parse_key mc (ec_ServerPubKey c) = Some key"
    and free: "\<not> tv_link (view (eg_machine s))"
  shows "up_ends c key view s (Up mc c s)"
proof -
  have refused: "up_ends c key view s (Some (EngineFailed e), s)" for e
    using free by (simp add: up_ends_def)
  note rule = or_downI [OF contract del]
  let ?fresh = "\<lparr>tv_link = True, tv_routes = {}, tv_allowed = (\<lambda>_. None)\<rparr>"
  have built: "up_ends c key view s
      (or_down mc c s ''re-fetch interface'' (if mc_link mc (ec_iface c) m then None else Some '''', m) (\<lambda>m.
       or_down mc c s ''assign address'' (mc_addr_add mc (ec_iface c) (ec_Address c) 32 m) (\<lambda>m.
       or_down mc c s ''open wgctrl'' (if mc_wgctrl mc m then None else Some '''', m) (\<lambda>m.
       or_down mc c s ''configure device''
         (mc_configure mc (ec_iface c) \<lparr>rc_private = Some priv, rc_peers = [server_peer c key endpoint]\<rparr> m) (\<lambda>m.
       or_down mc c s ''bring interface up'' (mc_link_up mc (ec_iface c) m) (\<lambda>m.
       or_down mc c s ''set VPN route'' (mc_route_replace mc (ec_iface c) (Masked (ec_Network c)) m) (\<lambda>m.
         (None, s\<lparr>eg_machine := m\<rparr>))))))))"
    if m: "view m = ?fresh" for m priv endpoint
  proof (intro rule)
    fix m1 m2 m3 m4 m5 m6
    assume c1: "(if mc_link mc (ec_iface c) m then None else Some '''', m) = (None, m1)"
      and c2: "mc_addr_add mc (ec_iface c) (ec_Address c) 32 m1 = (None, m2)"
      and c3: "(if mc_wgctrl mc m2 then None else Some '''', m2) = (None, m3)"
      and c4: "mc_configure mc (ec_iface c)
        \<lparr>rc_private = Some priv, rc_peers = [server_peer c key endpoint]\<rparr> m3 = (None, m4)"
      and c5: "mc_link_up mc (ec_iface c) m4 = (None, m5)"
      and c6: "mc_route_replace mc (ec_iface c) (Masked (ec_Network c)) m5 = (None, m6)"
    have v3: "view m3 = ?fresh" using c1 c3 m addr_add_view [OF contract c2] by simp
    have "view m4 = ?fresh\<lparr>tv_allowed := [key \<mapsto> {Masked (ec_Network c)}]\<rparr>"
      using configure_view [OF contract c4, of "server_peer c key endpoint"]
      by (cases "view m4") (simp add: v3 server_peer_def peer_allowed_def)
    then have "view m6 = fresh_tunnel c key"
      using link_up_view [OF contract c5] route_replace_view [OF contract c6] by (simp add: fresh_tunnel_def)
    then show "up_ends c key view s (None, s\<lparr>eg_machine := m6\<rparr>)" by (simp add: up_ends_def)
  qed
  have free': "\<not> mc_link mc (ec_iface c) (eg_machine s)" using free by (simp add: link_view [OF contract])
  obtain r m where add: "mc_link_add mc (ec_iface c) (eg_machine s) = (r, m)" by fastforce
  show ?thesis
  proof (cases "mc_parse_key mc (ec_PrivateKey c)")
    case None
    with free' refused show ?thesis by (simp add: Up_def)
  next
    case priv: (Some priv)
    show ?thesis
    proof (cases "splitEndpoint mc (ec_Endpoint c)")
      case (Inl err)
      with free' refused priv key show ?thesis by (simp add: Up_def)
    next
      case (Inr endpoint)
      show ?thesis
      proof (cases r)
        case None
        then have "view m = ?fresh" using link_add_view [OF contract add] by simp
        from built [OF this] show ?thesis
          using free' priv key Inr add None by (simp add: Up_def Let_def)
      next
        case (Some err)
        with link_add_view [OF contract add] free have "\<not> tv_link (view m)" by simp
        then show ?thesis
          using free' priv key Inr add Some by (simp add: Up_def Let_def up_ends_def)
      qed
    qed
  qed
qed

section \<open>A router to evaluate on\<close>

text \<open>
  The state is the tunnel and whether the device accepts changes. The router's only other interface is
  eth0 with 192.168.1.1/24.
\<close>

type_synonym demo_state = "tunnel_view \<times> bool"

definition on_tunnel :: "(tunnel_view \<Rightarrow> tunnel_view) \<Rightarrow> demo_state \<Rightarrow> string option \<times> demo_state" where
  "on_tunnel f m = (if tv_link (fst m) then (None, (f (fst m), snd m)) else (Some ''no such device'', m))"

definition demo_key :: "string \<Rightarrow> rt_key option" where
  "demo_key s = (if s = ''server'' then Some 5 else if s = ''device'' then Some 7 else None)"

definition demo_machine :: "demo_state machine" where
  "demo_machine =
     \<lparr>mc_parse_key = demo_key, mc_key_string = (\<lambda>k. if k = 5 then ''server'' else ''device''),
      mc_split_host_port = (\<lambda>s. Some (''host'', ''51820'')), mc_lookup_port = (\<lambda>s. Some 51820),
      mc_lookup_ip = (\<lambda>s. Some [IP6 1, IP4 0x0A000001]),
      mc_link = (\<lambda>n m. tv_link (fst m)),
      mc_link_add = (\<lambda>n m. if tv_link (fst m) then (Some ''exists'', m)
        else (None, (\<lparr>tv_link = True, tv_routes = {}, tv_allowed = (\<lambda>_. None)\<rparr>, snd m))),
      mc_link_del = (\<lambda>n. on_tunnel (\<lambda>v. \<lparr>tv_link = False, tv_routes = {}, tv_allowed = (\<lambda>_. None)\<rparr>)),
      mc_addr_add = (\<lambda>n a len. on_tunnel (\<lambda>v. v)), mc_wgctrl = (\<lambda>m. True),
      mc_configure = (\<lambda>n cfg m. if \<not> snd m then (Some ''busy'', m) else
        on_tunnel (\<lambda>v. v\<lparr>tv_allowed := fold peer_allowed (rc_peers cfg) (tv_allowed v)\<rparr>) m),
      mc_link_up = (\<lambda>n. on_tunnel (\<lambda>v. v)),
      mc_route_replace = (\<lambda>n p. on_tunnel (\<lambda>v. v\<lparr>tv_routes := insert p (tv_routes v)\<rparr>)),
      mc_route_del = (\<lambda>n p m. if p \<in> tv_routes (fst m)
        then (None, ((fst m)\<lparr>tv_routes := tv_routes (fst m) - {p}\<rparr>, snd m)) else (Some ''no such process'', m)),
      mc_device = (\<lambda>n m. if tv_link (fst m) then Some [(5, None)] else None),
      mc_ifaces = (\<lambda>m. Some [\<lparr>if_name = ''eth0'', if_addrs = Some [Inet4 0xC0A80101 24]\<rparr>])\<rparr>"

definition demo_router :: engine_config where
  "demo_router =
     \<lparr>ec_Iface = '''', ec_PrivateKey = ''device'', ec_Address = 0x647F0002, ec_Network = Prefix4 0x647F0000 24,
      ec_ServerPubKey = ''server'', ec_Endpoint = ''vpn.example:51820'', ec_Keepalive = 25\<rparr>"

lemma demo_machine_sel:
  "mc_parse_key demo_machine = demo_key"
  "mc_lookup_ip demo_machine x = Some [IP6 1, IP4 0x0A000001]"
  "mc_lookup_port demo_machine x = Some 51820"
  "mc_split_host_port demo_machine x = Some (''host'', ''51820'')"
  "mc_link demo_machine n m = tv_link (fst m)"
  "mc_link_add demo_machine n m = (if tv_link (fst m) then (Some ''exists'', m)
     else (None, (\<lparr>tv_link = True, tv_routes = {}, tv_allowed = (\<lambda>_. None)\<rparr>, snd m)))"
  "mc_link_del demo_machine n =
     on_tunnel (\<lambda>v. \<lparr>tv_link = False, tv_routes = {}, tv_allowed = (\<lambda>_. None)\<rparr>)"
  "mc_addr_add demo_machine n b len = on_tunnel (\<lambda>v. v)" "mc_wgctrl demo_machine m"
  "mc_configure demo_machine n cfg m = (if \<not> snd m then (Some ''busy'', m) else
     on_tunnel (\<lambda>v. v\<lparr>tv_allowed := fold peer_allowed (rc_peers cfg) (tv_allowed v)\<rparr>) m)"
  "mc_link_up demo_machine n = on_tunnel (\<lambda>v. v)"
  "mc_route_replace demo_machine n p = on_tunnel (\<lambda>v. v\<lparr>tv_routes := insert p (tv_routes v)\<rparr>)"
  "mc_route_del demo_machine n p m = (if p \<in> tv_routes (fst m)
     then (None, ((fst m)\<lparr>tv_routes := tv_routes (fst m) - {p}\<rparr>, snd m)) else (Some ''no such process'', m))"
  "mc_device demo_machine n m = (if tv_link (fst m) then Some [(5, None)] else None)"
  "mc_ifaces demo_machine m = Some [\<lparr>if_name = ''eth0'', if_addrs = Some [Inet4 0xC0A80101 24]\<rparr>]"
  "mc_key_string demo_machine k = (if k = 5 then ''server'' else ''device'')"
  by (simp_all add: demo_machine_def)

lemma demo_machine_contract: "machine_contract demo_machine dev fst"
  unfolding machine_contract_def demo_machine_sel
  by (intro conjI allI impI) (auto simp: on_tunnel_def split: if_splits)

lemma demo_route_del:
  "p \<in> tv_routes (fst m) \<Longrightarrow> fst (mc_route_del demo_machine dev p m) = None"
  "tv_link (fst m) \<Longrightarrow> fst (mc_link_del demo_machine dev m) = None"
  by (simp_all add: demo_machine_sel on_tunnel_def)

definition demo_engine :: "prefix4 list \<Rightarrow> bool \<Rightarrow> demo_state engine" where
  "demo_engine ps accepts =
     \<lparr>eg_wanted = ps, eg_applied = ps, eg_machine =
        (let held = insert (Prefix4 0x647F0000 24) (set ps)
         in (\<lparr>tv_link = True, tv_routes = held, tv_allowed = [5 \<mapsto> held]\<rparr>, accepts))\<rparr>"

lemma demo_network: "Masked (ec_Network demo_router) = Prefix4 0x647F0000 24"
  by (simp add: demo_router_def Masked_def mask_eq_exp_minus_1)

lemma demo_router_key: "mc_parse_key demo_machine (ec_ServerPubKey demo_router) = Some 5"
  by (simp add: demo_machine_sel demo_key_def demo_router_def)

lemma demo_coherent: "Prefix4 0x647F0000 24 \<notin> set ps \<Longrightarrow> coherent demo_router 5 fst (demo_engine ps accepts)"
  by (simp add: coherent_def demo_network demo_engine_def Let_def)

section \<open>Properties\<close>


lemma demo_canonical:
  "CanonicalPrefixes [Prefix4 0x64600000 24, Prefix4 0xC0A80000 16] =
     [Prefix4 0x64600000 24, Prefix4 0xC0A80000 16]"
  "CanonicalPrefixes [Prefix4 0x64600000 24] = [Prefix4 0x64600000 24]"
  "CanonicalPrefixes [Prefix4 0x64600100 24] = [Prefix4 0x64600100 24]"
  by (simp_all add: CanonicalPrefixes_def Masked_def mask_eq_exp_minus_1 less_eq_prefix4_def prefix_before_def)

lemma demo_overlap:
  "snd (LocalOverlap (mc_ifaces demo_machine m) (Prefix4 0xC0A80000 16) dev) \<longleftrightarrow> dev \<noteq> ''eth0''"
  "\<not> snd (LocalOverlap (mc_ifaces demo_machine m) (Prefix4 0x64600000 24) dev)"
  "\<not> snd (LocalOverlap (mc_ifaces demo_machine m) (Prefix4 0x64600100 24) dev)"
  by (simp_all add: demo_machine_sel LocalOverlap_def OverlapsP_def Masked_def mask_eq_exp_minus_1 Let_def)

lemma demo_iface: "ec_iface demo_router = ''lanweave0''"
  by (simp add: ec_iface_def demo_router_def)


text \<open>
  C31: when the device refuses an update the blocks no longer wanted are gone from the kernel, but the
  engine still remembers them as applied. Asked for the old set again, it answers at once that all of
  it is applied, and does nothing: a block of the old set stays without a route.
\<close>

theorem failed_update_is_forgotten:
  assumes "machine_contract mc (ec_iface c) view"
    and "\<And>m p. p \<in> tv_routes (view m) \<Longrightarrow> fst (mc_route_del mc (ec_iface c) p m) = None"
    and "coherent c key view s" and "Masked (ec_Network c) \<notin> Masked ` set extra"
    and "eg_wanted s = eg_applied s" and "CanonicalPrefixes (eg_applied s) = eg_applied s"
    and "SetRoutes mc c extra s = ((rs, Some err), s1)"
    and "p \<in> set (eg_applied s)" and "p \<notin> Masked ` set extra"
  shows "SetRoutes mc c (eg_applied s) s1 = ((eg_applied s, None), s1) \<and> p \<notin> tv_routes (view (eg_machine s1))"
proof -
  have mem: "eg_wanted s1 = eg_wanted s" "eg_applied s1 = eg_applied s"
    and kernel: "tv_routes (view (eg_machine s1)) = insert (Masked (ec_Network c)) (set rs)"
    and sub: "set rs \<subseteq> set (routable mc c extra s)"
    using SetRoutes_failed [OF assms(1-4,7)] by simp_all
  have "unchanged_request (eg_applied s) s1" using assms(5,6) mem by (simp add: unchanged_request_def)
  from SetRoutes_unchanged [OF this] mem
  have "SetRoutes mc c (eg_applied s) s1 = ((eg_applied s, None), s1)" by simp
  moreover have "p \<noteq> Masked (ec_Network c)" using assms(3,8) by (auto simp: coherent_def)
  ultimately show ?thesis using sub assms(9) by (auto simp: kernel set_routable)
qed

theorem failed_update_is_forgotten_witness:
  "\<exists>s1. SetRoutes demo_machine demo_router [Prefix4 0x64600000 24] s1 = (([Prefix4 0x64600000 24], None), s1) \<and>
     Prefix4 0x64600000 24 \<notin> tv_routes (fst (eg_machine s1))"
proof -
  let ?s = "demo_engine [Prefix4 0x64600000 24] False"
  have "\<exists>s1. SetRoutes demo_machine demo_router [Prefix4 0x64600100 24] ?s =
      (([Prefix4 0x64600100 24], Some ''update allowed ips''), s1)"
    by (simp add: SetRoutes_def demo_canonical demo_overlap demo_iface demo_engine_def demo_router_key
        demo_machine_sel(2-14) on_tunnel_def Let_def)
  then obtain s1 where s1: "SetRoutes demo_machine demo_router [Prefix4 0x64600100 24] ?s =
      (([Prefix4 0x64600100 24], Some ''update allowed ips''), s1)" ..
  have net: "Masked (ec_Network demo_router) \<notin> Masked ` set [Prefix4 0x64600100 24]"
    unfolding demo_network by (simp add: Masked_def mask_eq_exp_minus_1)
  have mem: "eg_wanted ?s = eg_applied ?s" "CanonicalPrefixes (eg_applied ?s) = eg_applied ?s"
    "Prefix4 0x64600000 24 \<in> set (eg_applied ?s)"
    "Prefix4 0x64600000 24 \<notin> Masked ` set [Prefix4 0x64600100 24]" "eg_applied ?s = [Prefix4 0x64600000 24]"
    by (simp_all add: demo_engine_def demo_canonical Masked_def mask_eq_exp_minus_1)
  have "coherent demo_router 5 fst ?s" by (rule demo_coherent) simp
  from failed_update_is_forgotten [OF demo_machine_contract demo_route_del(1) this net mem(1,2) s1 mem(3,4)]
  show ?thesis unfolding mem(5) by blast
qed



end
