(* ===== verification/Router_Daemon.thy ===== *)
theory Router_Daemon
  imports Router_Engine
begin

text \<open>
  \<^verbatim>\<open>internal/router/daemon\<close>: the watch loop that keeps the router's tunnel up. The daemon sees the
  engine through the interface \<^verbatim>\<open>Engine\<close> (up, down, last handshake), the locale \<open>tunnel\<close>; the engine of
  \<open>Router_Engine\<close> satisfies it. The loop is a transition system: between two ticks the reconcile
  goroutine may change the consumer routes, which is also what \<^verbatim>\<open>OnUp\<close> starts.
\<close>

section \<open>Definitions\<close>

record 's tunnel_ops =
  op_up :: "'s \<Rightarrow> engine_error option \<times> 's"
  op_down :: "'s \<Rightarrow> string option \<times> 's"
  op_handshake :: "'s \<Rightarrow> (string, int option) result"

definition staleAfter :: int where "staleAfter = 240 * 1000000000"

definition up_reported :: "engine_error option \<times> 's \<Rightarrow> bool \<times> 's" where
  "up_reported r = (fst r = None, snd r)"

definition tryUp :: "'s tunnel_ops \<Rightarrow> 's \<Rightarrow> bool \<times> 's" where
  "tryUp ops s =
     (case op_up ops s of
        (Some ErrIfaceExists, s1) \<Rightarrow>
          (case op_down ops s1 of
             (Some _, s2) \<Rightarrow> (False, s2)
           | (None, s2) \<Rightarrow> up_reported (op_up ops s2))
      | r \<Rightarrow> up_reported r)"

definition stale :: "'s tunnel_ops \<Rightarrow> int \<Rightarrow> 's \<Rightarrow> bool" where
  "stale ops now s =
     (case op_handshake ops s of
        Inl _ \<Rightarrow> False
      | Inr None \<Rightarrow> False
      | Inr (Some hs) \<Rightarrow> staleAfter < now - hs)"

text \<open>One turn of the loop on a tick at time \<open>now\<close>; the flag is the variable \<^verbatim>\<open>up\<close>.\<close>

definition tick :: "'s tunnel_ops \<Rightarrow> int \<Rightarrow> bool \<times> 's \<Rightarrow> bool \<times> 's" where
  "tick ops now x =
     (case x of (up, s) \<Rightarrow>
        if \<not> up then tryUp ops s
        else if stale ops now s then
          (case op_down ops s of
             (Some _, s1) \<Rightarrow> (up, s1)
           | (None, s1) \<Rightarrow> tryUp ops s1)
        else (up, s))"

text \<open>The states of \<^verbatim>\<open>Run\<close> from its first \<^verbatim>\<open>tryUp\<close> on; \<open>env\<close> is what happens beside the loop.\<close>

inductive watching ::
  "'s tunnel_ops \<Rightarrow> ('s \<Rightarrow> 's \<Rightarrow> bool) \<Rightarrow> 's \<Rightarrow> bool \<times> 's \<Rightarrow> bool"
  for ops env s0 where
  watch_start: "watching ops env s0 (tryUp ops s0)"
| watch_tick: "watching ops env s0 x \<Longrightarrow> watching ops env s0 (tick ops now x)"
| watch_env: "watching ops env s0 (up, s) \<Longrightarrow> env s s' \<Longrightarrow> watching ops env s0 (up, s')"

inductive_cases watchingE: "watching ops env s0 (up, s)"

text \<open>The end of \<^verbatim>\<open>Run\<close>, when the context is cancelled.\<close>

definition run_end :: "'s tunnel_ops \<Rightarrow> bool \<times> 's \<Rightarrow> string option \<times> 's" where
  "run_end ops x = op_down ops (snd x)"

definition engine_ops :: "'r machine \<Rightarrow> engine_config \<Rightarrow> 'r engine tunnel_ops" where
  "engine_ops mc c = \<lparr>op_up = Up mc c, op_down = Down mc c, op_handshake = LastHandshake mc c\<rparr>"

definition reconciling :: "'r machine \<Rightarrow> engine_config \<Rightarrow> 'r engine \<Rightarrow> 'r engine \<Rightarrow> bool" where
  "reconciling mc c s s' = (\<exists>extra. s' = snd (SetRoutes mc c extra s))"

section \<open>The interface\<close>

text \<open>
  \<open>present\<close> says whether the interface exists, \<open>clean\<close> what holds of a state without one.
\<close>

locale tunnel =
  fixes ops :: "'s tunnel_ops" and env :: "'s \<Rightarrow> 's \<Rightarrow> bool"
    and present :: "'s \<Rightarrow> bool" and clean :: "'s \<Rightarrow> bool"
  assumes up_taken: "present s \<Longrightarrow> op_up ops s = (Some ErrIfaceExists, s)"
    and up_free: "\<not> present s \<Longrightarrow> fst (op_up ops s) \<noteq> Some ErrIfaceExists"
    and up_ok: "op_up ops s = (None, s') \<Longrightarrow> present s'"
    and up_refused: "op_up ops s = (Some err, s') \<Longrightarrow> clean s \<Longrightarrow> clean s'"
    and down_ok: "op_down ops s = (None, s') \<Longrightarrow> \<not> present s' \<and> clean s'"
    and down_failed: "op_down ops s = (Some err', s') \<Longrightarrow> present s' = present s \<and> clean s'"
    and env_keeps: "env s s' \<Longrightarrow> present s' = present s \<and> (clean s \<longrightarrow> \<not> present s \<longrightarrow> clean s')"
begin

lemma tryUp_free:
  "\<not> present s \<Longrightarrow> tryUp ops s = (fst (op_up ops s) = None, snd (op_up ops s))"
  using up_free [of s]
  by (auto simp: tryUp_def up_reported_def split: prod.splits option.splits engine_error.splits)

lemma tryUp_taken:
  "present s \<Longrightarrow> tryUp ops s =
     (case op_down ops s of
        (Some _, s1) \<Rightarrow> (False, s1)
      | (None, s1) \<Rightarrow> (fst (op_up ops s1) = None, snd (op_up ops s1)))"
  by (simp add: tryUp_def up_taken up_reported_def split: prod.splits option.splits)

text \<open>What holds of the states of the loop: the flag is true only with an interface, and without one nothing is left.\<close>

definition sound :: "bool \<times> 's \<Rightarrow> bool" where
  "sound x = ((fst x \<longrightarrow> present (snd x)) \<and> (present (snd x) \<or> clean (snd x)))"

lemma up_sound: "clean s \<Longrightarrow> sound (fst (op_up ops s) = None, snd (op_up ops s))"
  by (cases "op_up ops s"; cases "fst (op_up ops s)") (auto simp: sound_def dest: up_ok up_refused)

lemma tryUp_sound:
  assumes "present s \<or> clean s"
  shows "sound (tryUp ops s)"
proof (cases "present s")
  case True
  obtain r s1 where d: "op_down ops s = (r, s1)" by fastforce
  show ?thesis
  proof (cases r)
    case None
    with d have "clean s1" by (simp add: down_ok)
    with d None up_sound show ?thesis by (simp add: tryUp_taken [OF True])
  next
    case (Some err)
    with d have "clean s1" by (simp add: down_failed)
    with d Some show ?thesis by (simp add: tryUp_taken [OF True] sound_def)
  qed
next
  case False
  with assms up_sound show ?thesis by (simp add: tryUp_free)
qed

lemma tick_sound:
  assumes "sound (up, s)"
  shows "sound (tick ops now (up, s))"
proof -
  have s: "present s \<or> clean s" using assms by (simp add: sound_def)
  obtain r s1 where d: "op_down ops s = (r, s1)" by fastforce
  show ?thesis
  proof (cases r)
    case None
    with d have "clean s1" by (simp add: down_ok)
    with d None s assms tryUp_sound show ?thesis by (cases up) (simp_all add: tick_def)
  next
    case (Some err)
    with d have "present s1 = present s" "clean s1" by (simp_all add: down_failed)
    with d Some s assms tryUp_sound show ?thesis by (auto simp: tick_def sound_def)
  qed
qed

lemma watching_sound:
  assumes "watching ops env s0 x" and "clean s0"
  shows "sound x"
  using assms(1)
proof (induction rule: watching.induct)
  case watch_start
  show ?case using assms(2) by (simp add: tryUp_sound)
next
  case (watch_tick x now)
  then show ?case by (cases x) (simp add: tick_sound)
next
  case (watch_env up s s')
  then show ?case using env_keeps [of s s'] by (auto simp: sound_def)
qed

lemma run_end_absent: "run_end ops x = (None, s') \<Longrightarrow> \<not> present s'"
  by (simp add: run_end_def down_ok)

end

text \<open>An engine whose calls succeed whenever they can.\<close>

locale live_tunnel = tunnel +
  assumes up_works: "\<not> present s \<Longrightarrow> fst (op_up ops s) = None"
    and down_works: "fst (op_down ops s) = None"
begin

lemma tryUp_works:
  assumes "present s \<or> clean s"
  shows "\<exists>s1. tryUp ops s = (True, snd (op_up ops s1)) \<and> op_up ops s1 = (None, snd (op_up ops s1)) \<and> clean s1"
proof (cases "present s")
  case True
  obtain s1 where d: "op_down ops s = (None, s1)" using down_works [of s] by (metis prod.collapse)
  then have "\<not> present s1" "clean s1" by (simp_all add: down_ok)
  moreover from this(1) have "op_up ops s1 = (None, snd (op_up ops s1))"
    using up_works [of s1] by (simp add: prod_eq_iff)
  ultimately show ?thesis
    by (intro exI [of _ s1]) (simp add: tryUp_taken [OF True] d up_works)
next
  case False
  with assms up_works [of s] show ?thesis
    by (intro exI [of _ s]) (simp add: tryUp_free prod_eq_iff)
qed

lemma tick_recovers:
  assumes "present s \<or> clean s" and "\<not> up \<or> stale ops now s"
  shows "\<exists>s1. tick ops now (up, s) = (True, snd (op_up ops s1)) \<and> op_up ops s1 = (None, snd (op_up ops s1)) \<and> clean s1"
proof (cases up)
  case False
  with tryUp_works [OF assms(1)] show ?thesis by (simp add: tick_def)
next
  case True
  obtain s2 where d: "op_down ops s = (None, s2)" using down_works [of s] by (metis prod.collapse)
  then have "clean s2" by (simp add: down_ok)
  with tryUp_works [of s2] show ?thesis using True assms(2) by (simp add: tick_def d)
qed

end

section \<open>The engine is such a tunnel\<close>

definition linked :: "('r \<Rightarrow> tunnel_view) \<Rightarrow> 'r engine \<Rightarrow> bool" where
  "linked view s = tv_link (view (eg_machine s))"

definition no_memory :: "'r engine \<Rightarrow> bool" where
  "no_memory s = (eg_wanted s = [] \<and> eg_applied s = [])"

lemma Up_clean: "Up mc c s = (Some err, s') \<Longrightarrow> no_memory s \<Longrightarrow> no_memory s'"
  unfolding Up_def Let_def or_down_def Down_def no_memory_def
  by (auto split: if_splits option.splits sum.splits prod.splits)

lemma Down_view_eq:
  assumes "machine_contract mc (ec_iface c) view" and "Down mc c s = (r, s')"
  shows "no_memory s' \<and> (if r = None then \<not> linked view s' else linked view s' = linked view s)"
  using assms(2) link_view [OF assms(1)] link_del_view [OF assms(1)]
  by (fastforce simp: Down_def Let_def no_memory_def linked_def split: if_splits prod.splits option.splits)

lemma add_routes_link:
  "machine_contract mc dev view \<Longrightarrow> add_routes mc dev cur ps m = (rs, m') \<Longrightarrow>
     tv_link (view m') = tv_link (view m)"
  by (simp add: add_routes_view)

lemma SetRoutes_keeps:
  assumes contract: "machine_contract mc (ec_iface c) view"
  shows "linked view (snd (SetRoutes mc c extra s)) = linked view s \<and>
    (no_memory s \<longrightarrow> \<not> linked view s \<longrightarrow> no_memory (snd (SetRoutes mc c extra s)))"
proof (cases "unchanged_request extra s")
  case True
  then show ?thesis by (simp add: SetRoutes_unchanged)
next
  case new: False
  show ?thesis
  proof (cases "linked view s")
    case False
    with new show ?thesis
      by (simp add: SetRoutes_def Let_def unchanged_request_def link_view [OF contract] linked_def)
  next
    case True
    then have link: "mc_link mc (ec_iface c) (eg_machine s)" by (simp add: link_view [OF contract] linked_def)
    obtain routed m2 where r: "rerouted mc c extra s = (routed, m2)" by fastforce
    then have "tv_link (view m2) = tv_link (view (eg_machine s))"
      by (auto simp: rerouted_def del_routes_rest [OF contract] add_routes_link [OF contract] split: prod.splits)
    moreover have "tv_link (view m3) = tv_link (view m2)"
      if "mc_configure mc (ec_iface c) (routes_update c key routed) m2 = (x, m3)" for x m3 key
      using configure_view [OF contract that] by (simp add: routes_update_def)
    ultimately show ?thesis
      using True
      by (auto simp: SetRoutes_changed [OF new link r] linked_def split: option.splits prod.splits)
  qed
qed

lemma engine_tunnel:
  assumes contract: "machine_contract mc (ec_iface c) view"
    and del: "\<And>m. tv_link (view m) \<Longrightarrow> fst (mc_link_del mc (ec_iface c) m) = None"
    and key: "mc_parse_key mc (ec_ServerPubKey c) = Some key"
  shows "tunnel (engine_ops mc c) (reconciling mc c) (linked view) no_memory"
proof
  note up = Up_ends [OF contract del key]
  fix s s' err err'
  show "op_up (engine_ops mc c) s = (Some ErrIfaceExists, s)" if "linked view s"
    using that by (simp add: engine_ops_def Up_def link_view [OF contract] linked_def)
  show "fst (op_up (engine_ops mc c) s) \<noteq> Some ErrIfaceExists" if "\<not> linked view s"
    using up [of s] that by (auto simp: engine_ops_def up_ends_def linked_def)
  show "linked view s'" if "op_up (engine_ops mc c) s = (None, s')"
  proof -
    from that have "\<not> linked view s" by (auto simp: engine_ops_def Up_def link_view [OF contract] linked_def)
    with up [of s] that show ?thesis by (simp add: engine_ops_def up_ends_def linked_def fresh_tunnel_def)
  qed
  show "no_memory s'" if "op_up (engine_ops mc c) s = (Some err, s')" "no_memory s"
    using that Up_clean by (simp add: engine_ops_def) blast
  show "\<not> linked view s' \<and> no_memory s'" if "op_down (engine_ops mc c) s = (None, s')"
    using that Down_view_eq [OF contract, of s] by (simp add: engine_ops_def)
  show "linked view s' = linked view s \<and> no_memory s'" if "op_down (engine_ops mc c) s = (Some err', s')"
    using that Down_view_eq [OF contract, of s] by (simp add: engine_ops_def)
  show "linked view s' = linked view s \<and> (no_memory s \<longrightarrow> \<not> linked view s \<longrightarrow> no_memory s')"
    if "reconciling mc c s s'"
    using that SetRoutes_keeps [OF contract] by (auto simp: reconciling_def)
qed

text \<open>The keys and the endpoint of the configuration are usable.\<close>

definition config_usable :: "'r machine \<Rightarrow> engine_config \<Rightarrow> rt_key \<Rightarrow> bool" where
  "config_usable mc c key =
     (mc_parse_key mc (ec_ServerPubKey c) = Some key \<and> mc_parse_key mc (ec_PrivateKey c) \<noteq> None \<and>
      (\<exists>x. splitEndpoint mc (ec_Endpoint c) = Inr x))"

lemma faultless_calls:
  assumes "machine_faultless mc dev view"
  shows "mc_wgctrl mc m" and "\<not> tv_link (view m) \<Longrightarrow> fst (mc_link_add mc dev m) = None"
    and "tv_link (view m) \<Longrightarrow> fst (mc_link_del mc dev m) = None"
    and "tv_link (view m) \<Longrightarrow> fst (mc_addr_add mc dev a n m) = None"
    and "tv_link (view m) \<Longrightarrow> fst (mc_link_up mc dev m) = None"
    and "tv_link (view m) \<Longrightarrow> fst (mc_route_replace mc dev p m) = None"
    and "tv_link (view m) \<Longrightarrow> fst (mc_configure mc dev cfg m) = None"
  using assms unfolding machine_faultless_def by blast+

lemma or_down_ok: "r = (None, m) \<Longrightarrow> or_down mc c s label r next_step = next_step m"
  by (simp add: or_down_def)

lemma Up_works:
  assumes ok: "machine_faultless mc (ec_iface c) view" and cfg: "config_usable mc c key"
    and free: "\<not> linked view s"
  shows "fst (Up mc c s) = None"
proof -
  note contract = tunnel_faultless_contract [OF ok]
  note calls = faultless_calls [OF ok]
  obtain priv endpoint where priv: "mc_parse_key mc (ec_PrivateKey c) = Some priv"
    and ep: "splitEndpoint mc (ec_Endpoint c) = Inr endpoint"
    and key: "mc_parse_key mc (ec_ServerPubKey c) = Some key"
    using cfg by (auto simp: config_usable_def)
  obtain m1 where m1: "mc_link_add mc (ec_iface c) (eg_machine s) = (None, m1)"
    using calls(2) [of "eg_machine s"] free by (metis linked_def prod.collapse)
  then have l1: "tv_link (view m1)" using link_add_view [OF contract m1] by simp
  obtain m2 where m2: "mc_addr_add mc (ec_iface c) (ec_Address c) 32 m1 = (None, m2)"
    using calls(4) [OF l1] by (metis prod.collapse)
  with l1 have l2: "tv_link (view m2)" by (simp add: addr_add_view [OF contract m2])
  let ?cfg = "\<lparr>rc_private = Some priv, rc_peers = [server_peer c key endpoint]\<rparr>"
  obtain m3 where m3: "mc_configure mc (ec_iface c) ?cfg m2 = (None, m3)"
    using calls(7) [OF l2] by (metis prod.collapse)
  with l2 have l3: "tv_link (view m3)" using configure_view [OF contract m3] by simp
  obtain m4 where m4: "mc_link_up mc (ec_iface c) m3 = (None, m4)"
    using calls(5) [OF l3] by (metis prod.collapse)
  with l3 have l4: "tv_link (view m4)" by (simp add: link_up_view [OF contract m4])
  obtain m5 where m5: "mc_route_replace mc (ec_iface c) (Masked (ec_Network c)) m4 = (None, m5)"
    using calls(6) [OF l4] by (metis prod.collapse)
  have "\<not> mc_link mc (ec_iface c) (eg_machine s)" "mc_link mc (ec_iface c) m1"
    using free l1 by (simp_all add: link_view [OF contract] linked_def)
  then show ?thesis
    by (simp add: Up_def Let_def priv key ep m1 m2 m3 m4 m5 calls(1) or_down_ok)
qed

lemma engine_live_tunnel:
  assumes ok: "machine_faultless mc (ec_iface c) view" and cfg: "config_usable mc c key"
  shows "live_tunnel (engine_ops mc c) (reconciling mc c) (linked view) no_memory"
proof -
  have key: "mc_parse_key mc (ec_ServerPubKey c) = Some key" using cfg by (simp add: config_usable_def)
  have t: "tunnel (engine_ops mc c) (reconciling mc c) (linked view) no_memory"
    by (rule engine_tunnel [OF tunnel_faultless_contract [OF ok] faultless_calls(3) [OF ok] key])
  show ?thesis
    by (intro live_tunnel.intro t live_tunnel_axioms.intro)
      (simp_all add: engine_ops_def Up_works [OF ok cfg]
        Down_ok [OF tunnel_faultless_contract [OF ok] faultless_calls(3) [OF ok]])
qed

text \<open>A router whose device accepts every change, and whose server was last heard of at time 0.\<close>

definition steady_machine :: "demo_state machine" where
  "steady_machine = demo_machine
     \<lparr>mc_configure := (\<lambda>n cfg.
        on_tunnel (\<lambda>v. v\<lparr>tv_allowed := fold peer_allowed (rc_peers cfg) (tv_allowed v)\<rparr>)),
      mc_device := (\<lambda>n m. if tv_link (fst m) then Some [(5, Some 0)] else None)\<rparr>"

lemma steady_machine_sel:
  "mc_parse_key steady_machine = demo_key" "mc_lookup_ip steady_machine x = Some [IP6 1, IP4 0x0A000001]"
  "mc_lookup_port steady_machine x = Some 51820" "mc_split_host_port steady_machine x = Some (''host'', ''51820'')"
  "mc_link steady_machine n m = tv_link (fst m)"
  "mc_link_add steady_machine n m = (if tv_link (fst m) then (Some ''exists'', m)
     else (None, (\<lparr>tv_link = True, tv_routes = {}, tv_allowed = (\<lambda>_. None)\<rparr>, snd m)))"
  "mc_link_del steady_machine n =
     on_tunnel (\<lambda>v. \<lparr>tv_link = False, tv_routes = {}, tv_allowed = (\<lambda>_. None)\<rparr>)"
  "mc_addr_add steady_machine n b len = on_tunnel (\<lambda>v. v)" "mc_wgctrl steady_machine m"
  "mc_configure steady_machine n cfg =
     on_tunnel (\<lambda>v. v\<lparr>tv_allowed := fold peer_allowed (rc_peers cfg) (tv_allowed v)\<rparr>)"
  "mc_link_up steady_machine n = on_tunnel (\<lambda>v. v)"
  "mc_route_replace steady_machine n p = on_tunnel (\<lambda>v. v\<lparr>tv_routes := insert p (tv_routes v)\<rparr>)"
  "mc_route_del steady_machine n p m = (if p \<in> tv_routes (fst m)
     then (None, ((fst m)\<lparr>tv_routes := tv_routes (fst m) - {p}\<rparr>, snd m)) else (Some ''no such process'', m))"
  "mc_device steady_machine n m = (if tv_link (fst m) then Some [(5, Some 0)] else None)"
  "mc_key_string steady_machine 5 = ''server''"
  by (simp_all add: steady_machine_def demo_machine_sel)

lemma steady_faultless: "machine_faultless steady_machine dev fst"
proof -
  have "machine_contract steady_machine dev fst"
    unfolding machine_contract_def steady_machine_sel
    by (intro conjI allI impI) (auto simp: on_tunnel_def split: if_splits)
  then show ?thesis by (auto simp: machine_faultless_def steady_machine_sel on_tunnel_def)
qed

lemma steady_usable: "config_usable steady_machine demo_router 5"
  by (simp add: config_usable_def steady_machine_sel demo_key_def demo_router_def splitEndpoint_def)

interpretation router: tunnel "engine_ops demo_machine demo_router" "reconciling demo_machine demo_router"
  "linked fst" no_memory
  by (rule engine_tunnel [OF demo_machine_contract demo_route_del(2) demo_router_key])

interpretation steady_router: live_tunnel "engine_ops steady_machine demo_router"
  "reconciling steady_machine demo_router" "linked fst" no_memory
  by (rule engine_live_tunnel [OF steady_faultless steady_usable])

section \<open>Properties\<close>


definition no_tunnel :: "bool \<Rightarrow> demo_state engine" where
  "no_tunnel accepts = \<lparr>eg_wanted = [], eg_applied = [], eg_machine =
     (\<lparr>tv_link = False, tv_routes = {}, tv_allowed = (\<lambda>_. None)\<rparr>, accepts)\<rparr>"




end
