(* ===== verification/Routesync.thy ===== *)
theory Routesync
  imports LW_Prelude
begin

text \<open>
  \<^verbatim>\<open>internal/client/routesync\<close>: what a client makes of the announcement lists of its zones. The same
  announcement may be attached to several zones and is one entry; the entries of the node itself
  become translation rules, those of the others routes into the tunnel. The lists come from calls of
  the API (\<^verbatim>\<open>list\<close>, \<^verbatim>\<open>members\<close>), one per zone, each of which may fail. \<^verbatim>\<open>netip.ParsePrefix\<close> and its
  prefixes are parameters: the aggregation only compares prefixes for equality.
\<close>

section \<open>Definitions\<close>

record zone_response =
  zr_ID :: int
  zr_Name :: string
  zr_IsOwner :: bool

record announcement_response =
  ar_ID :: int
  ar_NodeID :: int
  ar_NodeName :: string
  ar_Owner :: string
  ar_Subnet :: string
  ar_Synthetic :: string

record zone_member_response =
  zm_NodeID :: int
  zm_NodeName :: string
  zm_IP :: string
  zm_Owner :: string

record 'p entry =
  en_ID :: int
  en_Subnet :: 'p
  en_Synthetic :: 'p
  en_Zones :: "string list"
  en_NodeID :: int
  en_Announcer :: string

datatype fetch_error = ListFailed string | InvalidSubnet string | InvalidSynthetic string

text \<open>
  The map \<^verbatim>\<open>byID\<close> is the list of its entries in the order of their insertion. The iteration over the
  map, whose order Go leaves open, is followed by a sort by the key.
\<close>

definition add_zone :: "int \<Rightarrow> string \<Rightarrow> 'p entry list \<Rightarrow> 'p entry list" where
  "add_zone i z es =
     map (\<lambda>en. if en_ID en = i then en\<lparr>en_Zones := en_Zones en @ [z]\<rparr> else en) es"

fun fetch_announcements ::
  "(string \<Rightarrow> 'p option) \<Rightarrow> string \<Rightarrow> announcement_response list \<Rightarrow> 'p entry list
     \<Rightarrow> (fetch_error, 'p entry list) result" where
  "fetch_announcements parse z [] es = Inr es"
| "fetch_announcements parse z (a # as) es =
     (if list_ex (\<lambda>en. en_ID en = ar_ID a) es
      then fetch_announcements parse z as (add_zone (ar_ID a) z es)
      else case parse (ar_Subnet a) of
        None \<Rightarrow> Inl (InvalidSubnet (ar_Subnet a))
      | Some real \<Rightarrow>
          (case parse (ar_Synthetic a) of
             None \<Rightarrow> Inl (InvalidSynthetic (ar_Synthetic a))
           | Some synth \<Rightarrow>
               fetch_announcements parse z as
                 (es @ [\<lparr>en_ID = ar_ID a, en_Subnet = real, en_Synthetic = synth, en_Zones = [z],
                         en_NodeID = ar_NodeID a, en_Announcer = ar_NodeName a\<rparr>])))"

fun fetch_zones ::
  "(string \<Rightarrow> 'p option) \<Rightarrow> (string \<Rightarrow> ('err, announcement_response list) result)
     \<Rightarrow> zone_response list \<Rightarrow> 'p entry list \<Rightarrow> (fetch_error, 'p entry list) result" where
  "fetch_zones parse listing [] es = Inr es"
| "fetch_zones parse listing (z # zs) es =
     (case listing (zr_Name z) of
        Inl _ \<Rightarrow> Inl (ListFailed (zr_Name z))
      | Inr as \<Rightarrow> bind_res (fetch_announcements parse (zr_Name z) as es) (fetch_zones parse listing zs))"

definition Fetch ::
  "(string \<Rightarrow> 'p option) \<Rightarrow> zone_response list
     \<Rightarrow> (string \<Rightarrow> ('err, announcement_response list) result) \<Rightarrow> (fetch_error, 'p entry list) result" where
  "Fetch parse zones listing =
     bind_res (fetch_zones parse listing zones [])
       (\<lambda>es. Inr (sort_key en_ID (map (\<lambda>en. en\<lparr>en_Zones := sort (en_Zones en)\<rparr>) es)))"

definition Mine :: "'p entry list \<Rightarrow> int \<Rightarrow> 'p entry list" where
  "Mine entries nodeID = filter (\<lambda>en. en_NodeID en = nodeID) entries"

fun consume :: "int \<Rightarrow> 'p set \<Rightarrow> 'p entry list \<Rightarrow> 'p entry list" where
  "consume nodeID seen [] = []"
| "consume nodeID seen (en # es) =
     (if en_NodeID en = nodeID \<or> en_Synthetic en \<in> seen then consume nodeID seen es
      else en # consume nodeID (insert (en_Synthetic en) seen) es)"

definition Consumed :: "'p entry list \<Rightarrow> int \<Rightarrow> 'p entry list" where
  "Consumed entries nodeID = consume nodeID {} entries"

definition Prefixes :: "'p entry list \<Rightarrow> 'p list" where
  "Prefixes entries = map en_Synthetic entries"

definition MemberZones ::
  "zone_response list \<Rightarrow> (string \<Rightarrow> ('err, zone_member_response list) result) \<Rightarrow> string
     \<Rightarrow> zone_response list" where
  "MemberZones zones members selfIP =
     filter (\<lambda>z. case members (zr_Name z) of
                   Inl _ \<Rightarrow> False
                 | Inr ms \<Rightarrow> list_ex (\<lambda>m. zm_IP m = selfIP) ms) zones"

section \<open>The reference\<close>

text \<open>
  What the lists say, zone by zone, and the entry of an announcement: the fields where it is met
  first, and the names of all zones that list it.
\<close>

definition listed ::
  "zone_response list \<Rightarrow> (string \<Rightarrow> ('err, announcement_response list) result)
     \<Rightarrow> (string \<times> announcement_response) list" where
  "listed zones listing =
     [(zr_Name z, a). z \<leftarrow> zones, a \<leftarrow> (case listing (zr_Name z) of Inl _ \<Rightarrow> [] | Inr as \<Rightarrow> as)]"

definition all_parse :: "(string \<Rightarrow> 'p option) \<Rightarrow> (string \<times> announcement_response) list \<Rightarrow> bool" where
  "all_parse parse ps =
     (\<forall>(z, a) \<in> set ps. parse (ar_Subnet a) \<noteq> None \<and> parse (ar_Synthetic a) \<noteq> None)"

definition zones_of :: "int \<Rightarrow> (string \<times> announcement_response) list \<Rightarrow> string list" where
  "zones_of i ps = map fst (filter (\<lambda>(z, a). ar_ID a = i) ps)"

definition entry_of ::
  "(string \<Rightarrow> 'p option) \<Rightarrow> (string \<times> announcement_response) list \<Rightarrow> int \<Rightarrow> 'p entry" where
  "entry_of parse ps i =
     (case filter (\<lambda>(z, a). ar_ID a = i) ps of
        (z, a) # _ \<Rightarrow>
          \<lparr>en_ID = i, en_Subnet = the (parse (ar_Subnet a)), en_Synthetic = the (parse (ar_Synthetic a)),
           en_Zones = zones_of i ps, en_NodeID = ar_NodeID a, en_Announcer = ar_NodeName a\<rparr>
      | [] \<Rightarrow> undefined)"

text \<open>The entries the lists add up to: one for each id, in the order of the ids, its zones sorted.\<close>

definition aggregated ::
  "(string \<Rightarrow> 'p option) \<Rightarrow> (string \<times> announcement_response) list \<Rightarrow> 'p entry list" where
  "aggregated parse ps =
     map (\<lambda>i. (entry_of parse ps i)\<lparr>en_Zones := sort (zones_of i ps)\<rparr>)
       (sort (remdups (map (\<lambda>(z, a). ar_ID a) ps)))"

definition ids :: "(string \<times> announcement_response) list \<Rightarrow> int list" where
  "ids ps = map (\<lambda>(z, a). ar_ID a) ps"

text \<open>The keys in the order in which they are met.\<close>

fun firsts :: "'a list \<Rightarrow> 'a list \<Rightarrow> 'a list" where
  "firsts seen [] = seen"
| "firsts seen (x # xs) = firsts (if x \<in> set seen then seen else seen @ [x]) xs"

section \<open>Lemmas\<close>

subsection \<open>Keys\<close>

lemma firsts_snoc: "firsts seen (xs @ [x]) =
    (let ys = firsts seen xs in if x \<in> set ys then ys else ys @ [x])"
  by (induction xs arbitrary: seen) (auto simp: Let_def)

lemma set_firsts [simp]: "set (firsts seen xs) = set seen \<union> set xs"
  by (induction xs arbitrary: seen) auto

lemma distinct_firsts: "distinct seen \<Longrightarrow> distinct (firsts seen xs)"
  by (induction xs arbitrary: seen) auto

lemma sort_firsts: "sort (firsts [] (xs :: int list)) = sort (remdups xs)"
  by (rule sorted_distinct_set_unique) (simp_all add: distinct_firsts)

lemma ids_snoc [simp]: "ids (ps @ [(z, a)]) = ids ps @ [ar_ID a]"
  by (simp add: ids_def)

lemma ids_filter: "filter (\<lambda>(z, a). ar_ID a = i) ps = [] \<longleftrightarrow> i \<notin> set (ids ps)"
  by (auto simp: ids_def filter_empty_conv)

lemma filter_snoc_zone: "zones_of i (ps @ [(z, a)]) =
    (if ar_ID a = i then zones_of i ps @ [z] else zones_of i ps)"
  by (simp add: zones_of_def)

lemma entry_of_ID [simp]: "i \<in> set (ids ps) \<Longrightarrow> en_ID (entry_of parse ps i) = i"
  using ids_filter [of i ps] by (auto simp: entry_of_def split: list.splits)

lemma entry_of_snoc_old:
  assumes "i \<in> set (ids ps)"
  shows "entry_of parse (ps @ [(z, a)]) i =
    (if ar_ID a = i then (entry_of parse ps i)\<lparr>en_Zones := zones_of i ps @ [z]\<rparr> else entry_of parse ps i)"
proof -
  from assms obtain p ps' where "filter (\<lambda>(z, a). ar_ID a = i) ps = p # ps'"
    by (cases "filter (\<lambda>(z, a). ar_ID a = i) ps") (simp_all add: ids_filter)
  then show ?thesis
    by (cases p) (auto simp: entry_of_def filter_snoc_zone)
qed

lemma entry_of_snoc_new:
  assumes "ar_ID a \<notin> set (ids ps)"
  shows "entry_of parse (ps @ [(z, a)]) (ar_ID a) =
    \<lparr>en_ID = ar_ID a, en_Subnet = the (parse (ar_Subnet a)), en_Synthetic = the (parse (ar_Synthetic a)),
     en_Zones = [z], en_NodeID = ar_NodeID a, en_Announcer = ar_NodeName a\<rparr>"
proof -
  have "filter (\<lambda>(z, b). ar_ID b = ar_ID a) ps = []"
    using assms by (simp add: ids_filter)
  then show ?thesis by (simp add: entry_of_def zones_of_def)
qed

lemma entry_of_Zones: "i \<in> set (ids ps) \<Longrightarrow> en_Zones (entry_of parse ps i) = zones_of i ps"
  using ids_filter [of i ps] by (auto simp: entry_of_def split: list.splits)

lemma insort_key_map:
  "(\<And>y. y \<in> insert x (set ys) \<Longrightarrow> f (g y) = y) \<Longrightarrow> insort_key f (g x) (map g ys) = map g (insort x ys)"
  by (induction ys) auto

lemma sort_key_map:
  "(\<And>y. y \<in> set ys \<Longrightarrow> f (g y) = y) \<Longrightarrow> sort_key f (map g ys) = map g (sort ys)"
proof (induction ys)
  case Nil
  then show ?case by simp
next
  case (Cons x ys)
  then have "insort_key f (g x) (map g (sort ys)) = map g (insort x (sort ys))"
    by (intro insort_key_map) auto
  with Cons show ?case by simp
qed

subsection \<open>The loops\<close>

definition table_of ::
  "(string \<Rightarrow> 'p option) \<Rightarrow> (string \<times> announcement_response) list \<Rightarrow> 'p entry list" where
  "table_of parse ps = map (entry_of parse ps) (firsts [] (ids ps))"

lemma ids_table_of: "set (map en_ID (table_of parse ps)) = set (ids ps)"
proof -
  have "map en_ID (table_of parse ps) = firsts [] (ids ps)"
    unfolding table_of_def map_map by (rule map_idI) simp
  then show ?thesis by simp
qed

lemma in_table_of: "list_ex (\<lambda>en. en_ID en = i) (table_of parse ps) \<longleftrightarrow> i \<in> set (ids ps)"
  unfolding ids_table_of [symmetric, of ps parse] by (auto simp: list_ex_iff)

lemma table_of_snoc_old:
  assumes "ar_ID a \<in> set (ids ps)"
  shows "table_of parse (ps @ [(z, a)]) = add_zone (ar_ID a) z (table_of parse ps)"
proof -
  have "firsts [] (ids (ps @ [(z, a)])) = firsts [] (ids ps)"
    using assms by (simp add: firsts_snoc Let_def)
  moreover have "entry_of parse (ps @ [(z, a)]) i =
      (if en_ID (entry_of parse ps i) = ar_ID a
       then (entry_of parse ps i)\<lparr>en_Zones := en_Zones (entry_of parse ps i) @ [z]\<rparr> else entry_of parse ps i)"
    if "i \<in> set (firsts [] (ids ps))" for i
  proof -
    from that have i: "i \<in> set (ids ps)" by simp
    then show ?thesis by (auto simp add: entry_of_snoc_old entry_of_Zones)
  qed
  ultimately show ?thesis
    unfolding table_of_def add_zone_def map_map by (simp only:) (rule map_cong, simp_all)
qed

lemma table_of_snoc_new:
  assumes "ar_ID a \<notin> set (ids ps)"
  shows "table_of parse (ps @ [(z, a)]) = table_of parse ps @
    [\<lparr>en_ID = ar_ID a, en_Subnet = the (parse (ar_Subnet a)), en_Synthetic = the (parse (ar_Synthetic a)),
      en_Zones = [z], en_NodeID = ar_NodeID a, en_Announcer = ar_NodeName a\<rparr>]"
proof -
  have "entry_of parse (ps @ [(z, a)]) i = entry_of parse ps i"
    if "i \<in> set (firsts [] (ids ps))" for i
  proof -
    from that have i: "i \<in> set (ids ps)" by simp
    with assms have "ar_ID a \<noteq> i" by blast
    then show ?thesis by (simp add: entry_of_snoc_old [OF i])
  qed
  with assms show ?thesis
    by (simp add: table_of_def firsts_snoc Let_def image_comp entry_of_snoc_new)
qed

lemma fetch_announcements_table:
  assumes "all_parse parse (map (Pair z) as)"
  shows "fetch_announcements parse z as (table_of parse ps) = Inr (table_of parse (ps @ map (Pair z) as))"
  using assms
proof (induction as arbitrary: ps)
  case Nil
  then show ?case by simp
next
  case (Cons a as)
  then have rest: "all_parse parse (map (Pair z) as)"
    and ok: "parse (ar_Subnet a) \<noteq> None" "parse (ar_Synthetic a) \<noteq> None"
    by (auto simp: all_parse_def)
  have step: "fetch_announcements parse z as (table_of parse (ps @ [(z, a)])) =
      Inr (table_of parse (ps @ map (Pair z) (a # as)))"
    using Cons.IH [OF rest, of "ps @ [(z, a)]"] by simp
  show ?case
  proof (cases "ar_ID a \<in> set (ids ps)")
    case True
    with step show ?thesis by (simp add: in_table_of table_of_snoc_old)
  next
    case False
    with ok step show ?thesis by (auto simp: in_table_of table_of_snoc_new)
  qed
qed

lemma fetch_zones_table:
  assumes "\<forall>z \<in> set zones. \<exists>as. listing (zr_Name z) = Inr as"
    and "all_parse parse (listed zones listing)"
  shows "fetch_zones parse listing zones (table_of parse ps) = Inr (table_of parse (ps @ listed zones listing))"
  using assms
proof (induction zones arbitrary: ps)
  case Nil
  then show ?case by (simp add: listed_def)
next
  case (Cons z zones)
  then obtain as where as: "listing (zr_Name z) = Inr as" by auto
  then have l: "listed (z # zones) listing = map (Pair (zr_Name z)) as @ listed zones listing"
    by (simp add: listed_def)
  with Cons.prems(2) have "all_parse parse (map (Pair (zr_Name z)) as)" "all_parse parse (listed zones listing)"
    by (auto simp: all_parse_def)
  with Cons as l show ?case by (simp add: fetch_announcements_table)
qed

subsection \<open>The two views\<close>

lemma consume_props:
  "distinct (map en_Synthetic (consume n seen es)) \<and>
     en_Synthetic ` set (consume n seen es) = en_Synthetic ` {en \<in> set es. en_NodeID en \<noteq> n} - seen \<and>
     set (consume n seen es) \<subseteq> {en \<in> set es. en_NodeID en \<noteq> n}"
  by (induction es arbitrary: seen) (auto simp: image_iff)

lemma set_Prefixes_Consumed:
  "set (Prefixes (Consumed es n)) = en_Synthetic ` {en \<in> set es. en_NodeID en \<noteq> n}"
  using consume_props [of n "{}" es] by (simp add: Prefixes_def Consumed_def)

lemma distinct_Prefixes_Consumed: "distinct (Prefixes (Consumed es n))"
  using consume_props [of n "{}" es] by (simp add: Prefixes_def Consumed_def)

lemma Fetch_table:
  assumes "\<forall>z \<in> set zones. \<exists>as. listing (zr_Name z) = Inr as"
    and "all_parse parse (listed zones listing)"
  shows "Fetch parse zones listing =
    Inr (map (\<lambda>i. (entry_of parse (listed zones listing) i)
                     \<lparr>en_Zones := sort (zones_of i (listed zones listing))\<rparr>)
           (sort (remdups (ids (listed zones listing)))))"
proof -
  let ?ps = "listed zones listing" and ?f = "\<lambda>en. en\<lparr>en_Zones := sort (en_Zones en)\<rparr>"
  have "table_of parse [] = []" by (simp add: table_of_def ids_def)
  with fetch_zones_table [OF assms, of "[]"] have "fetch_zones parse listing zones [] = Inr (table_of parse ?ps)"
    by simp
  moreover have "sort_key en_ID (map ?f (table_of parse ?ps)) =
      map (?f \<circ> entry_of parse ?ps) (sort (firsts [] (ids ?ps)))"
    unfolding table_of_def map_map by (rule sort_key_map) simp
  moreover have "(?f \<circ> entry_of parse ?ps) i = (entry_of parse ?ps i)\<lparr>en_Zones := sort (zones_of i ?ps)\<rparr>"
    if "i \<in> set (sort (remdups (ids ?ps)))" for i
    using that by (simp add: entry_of_Zones)
  ultimately show ?thesis
    by (simp add: Fetch_def sort_firsts cong: map_cong)
qed

lemma Fetch_entries:
  assumes "\<forall>z \<in> set zones. \<exists>as. listing (zr_Name z) = Inr as"
    and "all_parse parse (listed zones listing)"
  obtains es where "Fetch parse zones listing = Inr es" and "sorted (map en_ID es)" and "distinct (map en_ID es)"
    and "\<And>en. en \<in> set es \<Longrightarrow> \<exists>z a. (z, a) \<in> set (listed zones listing) \<and> en_ID en = ar_ID a \<and>
      en_NodeID en = ar_NodeID a \<and> parse (ar_Subnet a) = Some (en_Subnet en) \<and>
      parse (ar_Synthetic a) = Some (en_Synthetic en)"
    and "\<And>z a. (z, a) \<in> set (listed zones listing) \<Longrightarrow> ar_ID a \<in> en_ID ` set es"
proof -
  let ?ps = "listed zones listing"
  let ?es = "map (\<lambda>i. (entry_of parse ?ps i)\<lparr>en_Zones := sort (zones_of i ?ps)\<rparr>) (sort (remdups (ids ?ps)))"
  have keys: "map en_ID ?es = sort (remdups (ids ?ps))"
    unfolding map_map by (rule map_idI) simp
  have "\<exists>z a. (z, a) \<in> set ?ps \<and> en_ID en = ar_ID a \<and> en_NodeID en = ar_NodeID a \<and>
      parse (ar_Subnet a) = Some (en_Subnet en) \<and> parse (ar_Synthetic a) = Some (en_Synthetic en)"
    if "en \<in> set ?es" for en
  proof -
    from that obtain i where i: "i \<in> set (ids ?ps)"
      and en: "en = (entry_of parse ?ps i)\<lparr>en_Zones := sort (zones_of i ?ps)\<rparr>" by auto
    from i obtain z a ps' where f: "filter (\<lambda>(z, a). ar_ID a = i) ?ps = (z, a) # ps'"
      using ids_filter [of i ?ps] by (metis neq_Nil_conv surj_pair)
    then have "(z, a) \<in> set (filter (\<lambda>(z, a). ar_ID a = i) ?ps)" by simp
    then have za: "(z, a) \<in> set ?ps" "ar_ID a = i" by auto
    with assms(2) have "parse (ar_Subnet a) \<noteq> None" "parse (ar_Synthetic a) \<noteq> None"
      by (auto simp: all_parse_def)
    with za f show ?thesis by (intro exI [of _ z] exI [of _ a]) (simp add: en entry_of_def)
  qed
  moreover have "ar_ID a \<in> en_ID ` set ?es" if "(z, a) \<in> set ?ps" for z a
  proof -
    have "en_ID ` set ?es = set (ids ?ps)" unfolding set_map [symmetric] keys by simp
    with that show ?thesis by (force simp: ids_def)
  qed
  ultimately show ?thesis
    using that [of ?es] keys Fetch_table [OF assms] by simp
qed

lemma fetch_zones_fails:
  assumes "\<exists>z \<in> set zones. \<exists>err. listing (zr_Name z) = Inl err"
    and "all_parse parse (listed zones listing)"
  shows "\<exists>z \<in> set zones. (\<exists>err. listing (zr_Name z) = Inl err) \<and>
    fetch_zones parse listing zones (table_of parse ps) = Inl (ListFailed (zr_Name z))"
  using assms
proof (induction zones arbitrary: ps)
  case Nil
  then show ?case by simp
next
  case (Cons z zones)
  show ?case
  proof (cases "listing (zr_Name z)")
    case (Inl err)
    then show ?thesis by simp
  next
    case (Inr as)
    then have "listed (z # zones) listing = map (Pair (zr_Name z)) as @ listed zones listing"
      by (simp add: listed_def)
    with Cons.prems(2) have "all_parse parse (map (Pair (zr_Name z)) as)" "all_parse parse (listed zones listing)"
      by (auto simp: all_parse_def)
    with Cons.IH [of "ps @ map (Pair (zr_Name z)) as"] Cons.prems(1) Inr show ?thesis
      by (simp add: fetch_announcements_table)
  qed
qed

section \<open>Properties\<close>



end
