(* ===== verification/Netip_Text.thy ===== *)
theory Netip_Text
  imports Netip
begin

text \<open>
  The text of IPv4 prefixes, as \<^verbatim>\<open>netip.Prefix.String\<close> writes it and \<^verbatim>\<open>netip.ParsePrefix\<close> reads it: four
  decimal octets without leading zeros, a slash and the length. Announcements travel between the
  server and the router in this form, and the router keeps it in the userdata of its nftables rules.
\<close>

section \<open>Definitions\<close>

text \<open>\<^verbatim>\<open>strings.Cut\<close> at a separator of one byte.\<close>

fun cut_at :: "char \<Rightarrow> string \<Rightarrow> (string \<times> string) option" where
  "cut_at c [] = None"
| "cut_at c (x # xs) =
     (if x = c then Some ([], xs)
      else case cut_at c xs of None \<Rightarrow> None | Some (a, b) \<Rightarrow> Some (x # a, b))"

text \<open>\<^verbatim>\<open>strings.Split\<close> at a separator of one byte.\<close>

fun split_on :: "char \<Rightarrow> string \<Rightarrow> string list" where
  "split_on c [] = [[]]"
| "split_on c (x # xs) =
     (if x = c then [] # split_on c xs
      else case split_on c xs of [] \<Rightarrow> [[x]] | y # ys \<Rightarrow> (x # y) # ys)"

definition octets :: "addr \<Rightarrow> nat list" where
  "octets a = map (\<lambda>n. unat a div 2 ^ n mod 256) [24, 16, 8, 0]"

fun dotted :: "nat list \<Rightarrow> string" where
  "dotted [] = []"
| "dotted [n] = show_nat n"
| "dotted (n # ns) = show_nat n @ ''.'' @ dotted ns"

definition Prefix_String :: "prefix4 \<Rightarrow> string" where
  "Prefix_String p = dotted (octets (PAddr p)) @ ''/'' @ show_nat (PBits p)"

definition parse_octet :: "string \<Rightarrow> nat option" where
  "parse_octet s =
     (if 1 < length s \<and> hd s = CHR ''0'' then None
      else case parse_nat s of None \<Rightarrow> None | Some v \<Rightarrow> if v \<le> 255 then Some v else None)"

definition ParseAddr4 :: "string \<Rightarrow> addr option" where
  "ParseAddr4 s =
     (case map parse_octet (split_on CHR ''.'' s) of
        [Some a, Some b, Some c, Some d] \<Rightarrow> Some (word_of_nat (((a * 256 + b) * 256 + c) * 256 + d))
      | _ \<Rightarrow> None)"

definition parse_bits :: "string \<Rightarrow> nat option" where
  "parse_bits s =
     (if 1 < length s \<and> hd s \<notin> set ''123456789'' then None
      else case parse_nat s of None \<Rightarrow> None | Some v \<Rightarrow> if v \<le> 32 then Some v else None)"

definition ParsePrefix4 :: "string \<Rightarrow> prefix4 option" where
  "ParsePrefix4 s =
     (case split_on CHR ''/'' s of
        [a, b] \<Rightarrow>
          (case (ParseAddr4 a, parse_bits b) of
             (Some w, Some n) \<Rightarrow> Some (Prefix4 w n)
           | _ \<Rightarrow> None)
      | _ \<Rightarrow> None)"

section \<open>Lemmas\<close>

subsection \<open>Splitting\<close>

lemma cut_at_none: "c \<notin> set xs \<Longrightarrow> cut_at c xs = None"
  by (induction xs) auto

lemma cut_at_split: "c \<notin> set xs \<Longrightarrow> cut_at c (xs @ c # ys) = Some (xs, ys)"
  by (induction xs) auto

lemma split_on_none: "c \<notin> set xs \<Longrightarrow> split_on c xs = [xs]"
  by (induction xs) auto

lemma split_on_at: "c \<notin> set xs \<Longrightarrow> split_on c (xs @ c # ys) = xs # split_on c ys"
  by (induction xs) auto

lemma show_nat_char: "digit_val c = None \<Longrightarrow> c \<notin> set (show_nat n)"
  using show_nat_digits by metis

lemma separators [simp]:
  "digit_val (CHR ''.'') = None" "digit_val (CHR ''/'') = None" "digit_val (CHR ''>'') = None"
  by (simp_all add: digit_val_def)

lemma show_nat_long:
  "\<exists>d ds. show_nat n = digit_char d # ds \<and> d < 10 \<and> (d = 0 \<longrightarrow> n = 0 \<and> ds = [])"
proof (induction n rule: show_nat.induct)
  case (1 n)
  show ?case
  proof (cases "n < 10")
    case True
    then show ?thesis by (intro exI [of _ n] exI [of _ "[]"]) (simp add: show_nat.simps [of n])
  next
    case False
    with 1 obtain d ds where "show_nat (n div 10) = digit_char d # ds" "d < 10"
      "d = 0 \<longrightarrow> n div 10 = 0 \<and> ds = []" by blast
    with False show ?thesis by (auto simp: show_nat.simps [of n])
  qed
qed

lemma digit_char_pos: "d < 10 \<Longrightarrow> d \<noteq> 0 \<Longrightarrow> digit_char d \<in> set ''123456789''"
proof -
  assume "d < 10" "d \<noteq> 0"
  then have "d \<in> {1, 2, 3, 4, 5, 6, 7, 8, 9}" by auto
  moreover have "\<forall>d \<in> {1, 2, 3, 4, 5, 6, 7, 8, 9}. digit_char d \<in> set ''123456789''"
    by (simp add: digit_char_def) code_simp
  ultimately show ?thesis by blast
qed

lemma show_nat_head: "1 < length (show_nat n) \<Longrightarrow> hd (show_nat n) \<in> set ''123456789''"
  using show_nat_long [of n] digit_char_pos by fastforce

lemma parse_octet_show: "n < 256 \<Longrightarrow> parse_octet (show_nat n) = Some n"
  using show_nat_head [of n] by (auto simp: parse_octet_def)

lemma parse_bits_show: "n \<le> 32 \<Longrightarrow> parse_bits (show_nat n) = Some n"
  using show_nat_head [of n] by (auto simp: parse_bits_def)

subsection \<open>Writing and reading\<close>

lemma dotted_char: "digit_val c = None \<Longrightarrow> c \<noteq> CHR ''.'' \<Longrightarrow> c \<notin> set (dotted ns)"
  by (induction ns rule: dotted.induct) (auto simp: show_nat_char)

lemma split_dotted: "ns \<noteq> [] \<Longrightarrow> split_on CHR ''.'' (dotted ns) = map show_nat ns"
  by (induction ns rule: dotted.induct) (auto simp: split_on_none split_on_at show_nat_char)

lemma octets_recompose:
  fixes x :: nat
  assumes "x < 4294967296"
  shows "((x div 16777216 mod 256 * 256 + x div 65536 mod 256) * 256 + x div 256 mod 256) * 256
    + x mod 256 = x"
proof -
  have "x div 16777216 = x div 256 div 256 div 256" "x div 65536 = x div 256 div 256"
    by (simp_all add: div_mult2_eq [symmetric])
  moreover have "x div 256 div 256 div 256 < 256" using assms by simp
  ultimately show ?thesis by (simp add: div_mult_mod_eq)
qed

lemma parse_dotted: "map parse_octet (split_on CHR ''.'' (dotted (octets a))) = map Some (octets a)"
proof -
  have "split_on CHR ''.'' (dotted (octets a)) = map show_nat (octets a)"
    by (rule split_dotted) (simp add: octets_def)
  then show ?thesis by (simp add: octets_def parse_octet_show)
qed

lemma ParseAddr4_dotted: "ParseAddr4 (dotted (octets a)) = Some a"
proof -
  have "ParseAddr4 (dotted (octets a)) =
      Some (word_of_nat (((unat a div 16777216 mod 256 * 256 + unat a div 65536 mod 256) * 256 +
        unat a div 256 mod 256) * 256 + unat a mod 256))"
    unfolding ParseAddr4_def parse_dotted
    by (simp add: octets_def del: of_nat_add of_nat_mult of_nat_numeral)
  then show ?thesis by (simp only: octets_recompose [OF addr_less]) simp
qed

lemma Prefix_String_char: "digit_val c = None \<Longrightarrow> c \<noteq> CHR ''.'' \<Longrightarrow> c \<noteq> CHR ''/'' \<Longrightarrow> c \<notin> set (Prefix_String p)"
  by (auto simp: Prefix_String_def dotted_char show_nat_char)

lemma ParsePrefix4_String:
  assumes "PBits p \<le> 32"
  shows "ParsePrefix4 (Prefix_String p) = Some p"
proof -
  have "CHR ''/'' \<notin> set (dotted (octets (PAddr p)))" by (simp add: dotted_char)
  then have "split_on CHR ''/'' (Prefix_String p) = [dotted (octets (PAddr p)), show_nat (PBits p)]"
    by (simp add: Prefix_String_def split_on_at split_on_none show_nat_char)
  with assms show ?thesis
    by (simp add: ParsePrefix4_def ParseAddr4_dotted parse_bits_show)
qed

lemma Prefix_String_inj:
  "PBits p \<le> 32 \<Longrightarrow> PBits q \<le> 32 \<Longrightarrow> Prefix_String p = Prefix_String q \<Longrightarrow> p = q"
  by (metis ParsePrefix4_String option.inject)

end
