(* ===== verification/Natctl.thy ===== *)
theory Natctl
  imports Netip_Text Ipam
begin

text \<open>
  \<^verbatim>\<open>internal/router/natctl\<close>: the address translation of a router that announces subnets. Traffic to a
  synthetic block is sent on to the real subnet with its host bits kept, and what comes from the VPN
  is masqueraded. As in \<open>Netfw\<close> the nftables library and the kernel are a parameter with the
  documented semantics of a transaction (\<open>nat_contract\<close>); the kernel's prefix translation is the
  parameter \<open>netmap\<close>. The cross-process lock is a call that may fail.
\<close>

section \<open>Definitions\<close>

subsection \<open>Rules and their userdata\<close>

record nat_rule =
  nr_Synthetic :: prefix4
  nr_Real :: prefix4

definition userData :: "nat_rule \<Rightarrow> string" where
  "userData r = ''lw '' @ Prefix_String (nr_Synthetic r) @ ''>'' @ Prefix_String (nr_Real r)"

definition ruleFromUserData :: "string \<Rightarrow> nat_rule option" where
  "ruleFromUserData b =
     (case cut_prefix b ''lw '' of
        None \<Rightarrow> None
      | Some s \<Rightarrow>
          (case cut_at CHR ''>'' s of
             None \<Rightarrow> None
           | Some (synth, real) \<Rightarrow>
               (case (ParsePrefix4 synth, ParsePrefix4 real) of
                  (Some sp, Some rp) \<Rightarrow> Some \<lparr>nr_Synthetic = sp, nr_Real = rp\<rparr>
                | _ \<Rightarrow> None)))"

subsection \<open>Expressions\<close>

text \<open>A register holds 4 bytes, read as a big-endian number.\<close>

datatype nat_expr =
    NMeta_NFPROTO nat
  | NCmpEq nat "32 word"
  | NPayload_Network nat nat
  | NBitwise nat nat "32 word" "32 word"
  | NImmediate nat "32 word"
  | NDestNAT_Prefix nat nat
  | NMasq

definition nat_IPV4 :: "32 word" where "nat_IPV4 = 2"

definition prefixMask :: "nat \<Rightarrow> 32 word" where
  "prefixMask bits = push_bit (32 - bits) (NOT 0)"

definition dnatPrefixExprs :: "nat_rule \<Rightarrow> nat_expr list" where
  "dnatPrefixExprs r =
     (let synth = BlockFromPrefix (nr_Synthetic r);
          real = BlockFromPrefix (nr_Real r);
          realLast = Base real + push_bit (32 - PrefixLen real) 1 - 1
      in [NMeta_NFPROTO 1, NCmpEq 1 nat_IPV4,
          NPayload_Network 1 16, NBitwise 1 1 (prefixMask (PrefixLen synth)) 0, NCmpEq 1 (Base synth),
          NImmediate 1 (Base real), NImmediate 2 realLast,
          NDestNAT_Prefix 1 2])"

definition masqueradeExprs :: "prefix4 \<Rightarrow> prefix4 \<Rightarrow> nat_expr list" where
  "masqueradeExprs vpnPool real =
     (let pool = BlockFromPrefix vpnPool; dst = BlockFromPrefix real
      in [NMeta_NFPROTO 1, NCmpEq 1 nat_IPV4,
          NPayload_Network 1 12, NBitwise 1 1 (prefixMask (PrefixLen pool)) 0, NCmpEq 1 (Base pool),
          NPayload_Network 1 16, NBitwise 1 1 (prefixMask (PrefixLen dst)) 0, NCmpEq 1 (Base dst),
          NMasq])"

subsection \<open>The table\<close>

datatype nat_hook = HookPrerouting | HookPostrouting

datatype nat_cmd =
    NDelTable string
  | NAddTable string
  | NAddChain string string nat_hook
  | NAddRule string string "nat_expr list" string

record 'k nat_lib =
  nl_lock :: "string \<Rightarrow> 'k \<Rightarrow> string option"
  nl_new :: "'k \<Rightarrow> string option"
  nl_tables :: "'k \<Rightarrow> (string, string list) result"
  nl_chains :: "'k \<Rightarrow> (string, (string \<times> string) list) result"
  nl_rules :: "string \<Rightarrow> string \<Rightarrow> 'k \<Rightarrow> (string, string list) result"
  nl_flush :: "nat_cmd list \<Rightarrow> 'k \<Rightarrow> string option \<times> 'k"

definition nat_deleteTable :: "'k nat_lib \<Rightarrow> string \<Rightarrow> 'k \<Rightarrow> (string, nat_cmd list) result" where
  "nat_deleteTable lib table k =
     (case nl_tables lib k of
        Inl _ \<Rightarrow> Inl ''list tables''
      | Inr ts \<Rightarrow> Inr (map NDelTable (filter (\<lambda>t. t = table) ts)))"

definition nat_build :: "string \<Rightarrow> prefix4 \<Rightarrow> nat_rule list \<Rightarrow> nat_cmd list" where
  "nat_build table vpnPool rules =
     [NAddTable table, NAddChain table ''prerouting'' HookPrerouting,
      NAddChain table ''postrouting'' HookPostrouting] @
     concat (map (\<lambda>r.
       [NAddRule table ''prerouting'' (dnatPrefixExprs r) (userData r),
        NAddRule table ''postrouting'' (masqueradeExprs vpnPool (nr_Real r)) '''']) rules)"

text \<open>Lock, open, queue, and one flush for everything queued.\<close>

definition nat_flush ::
  "'k nat_lib \<Rightarrow> string \<Rightarrow> string \<Rightarrow> nat_cmd list \<Rightarrow> 'k \<Rightarrow> string option \<times> 'k" where
  "nat_flush lib label table build k =
     (case nl_lock lib table k of
        Some err \<Rightarrow> (Some err, k)
      | None \<Rightarrow>
          (case nl_new lib k of
             Some _ \<Rightarrow> (Some ''open nftables'', k)
           | None \<Rightarrow>
               (case nat_deleteTable lib table k of
                  Inl err \<Rightarrow> (Some err, k)
                | Inr dels \<Rightarrow>
                    (case nl_flush lib (dels @ build) k of
                       (Some _, k') \<Rightarrow> (Some label, k')
                     | (None, k') \<Rightarrow> (None, k')))))"

definition nat_Rebuild ::
  "'k nat_lib \<Rightarrow> string \<Rightarrow> prefix4 \<Rightarrow> nat_rule list \<Rightarrow> 'k \<Rightarrow> string option \<times> 'k" where
  "nat_Rebuild lib table vpnPool rules k =
     nat_flush lib ''build table'' table (nat_build table vpnPool rules) k"

definition nat_Teardown :: "'k nat_lib \<Rightarrow> string \<Rightarrow> 'k \<Rightarrow> string option \<times> 'k" where
  "nat_Teardown lib table k = nat_flush lib ''teardown table'' table [] k"

definition nat_findTableChain :: "'k nat_lib \<Rightarrow> string \<Rightarrow> string \<Rightarrow> 'k \<Rightarrow> bool" where
  "nat_findTableChain lib table chain k =
     (case nl_chains lib k of Inl _ \<Rightarrow> False | Inr cs \<Rightarrow> list_ex (\<lambda>c. c = (table, chain)) cs)"

definition nat_Current :: "'k nat_lib \<Rightarrow> string \<Rightarrow> 'k \<Rightarrow> (string, nat_rule list) result" where
  "nat_Current lib table k =
     (case nl_new lib k of
        Some _ \<Rightarrow> Inl ''open nftables''
      | None \<Rightarrow>
          if \<not> nat_findTableChain lib table ''prerouting'' k then Inr []
          else (case nl_rules lib table ''prerouting'' k of
                  Inl _ \<Rightarrow> Inl ''read table''
                | Inr datas \<Rightarrow> Inr (List.map_filter ruleFromUserData datas)))"

section \<open>What the kernel promises\<close>

type_synonym nat_chain = "nat_hook \<times> (nat_expr list \<times> string) list"
type_synonym nat_table = "string \<rightharpoonup> nat_chain"
type_synonym nat_ruleset = "string \<rightharpoonup> nat_table"

fun nat_apply :: "nat_cmd \<Rightarrow> nat_ruleset \<Rightarrow> nat_ruleset option" where
  "nat_apply (NDelTable t) v = (if v t = None then None else Some (v(t := None)))"
| "nat_apply (NAddTable t) v = Some (if v t = None then v(t \<mapsto> (\<lambda>_. None)) else v)"
| "nat_apply (NAddChain t c h) v =
     (case v t of None \<Rightarrow> None
      | Some tb \<Rightarrow> Some (if tb c = None then v(t \<mapsto> tb(c \<mapsto> (h, []))) else v))"
| "nat_apply (NAddRule t c es u) v =
     (case v t of None \<Rightarrow> None
      | Some tb \<Rightarrow>
          (case tb c of None \<Rightarrow> None
           | Some (h, rs) \<Rightarrow> Some (v(t \<mapsto> tb(c \<mapsto> (h, rs @ [(es, u)]))))))"

fun nat_batch :: "nat_cmd list \<Rightarrow> nat_ruleset \<Rightarrow> nat_ruleset option" where
  "nat_batch [] v = Some v"
| "nat_batch (c # cs) v = (case nat_apply c v of None \<Rightarrow> None | Some v' \<Rightarrow> nat_batch cs v')"

definition nat_contract :: "'k nat_lib \<Rightarrow> ('k \<Rightarrow> nat_ruleset) \<Rightarrow> bool" where
  "nat_contract lib view =
     ((\<forall>cmds k k'. nl_flush lib cmds k = (None, k') \<longrightarrow> nat_batch cmds (view k) = Some (view k')) \<and>
      (\<forall>cmds k k' err. nl_flush lib cmds k = (Some err, k') \<longrightarrow> view k' = view k) \<and>
      (\<forall>k ts. nl_tables lib k = Inr ts \<longrightarrow> distinct ts \<and> set ts = dom (view k)) \<and>
      (\<forall>k cs. nl_chains lib k = Inr cs \<longrightarrow>
         set cs = {(t, c). \<exists>tb. view k t = Some tb \<and> tb c \<noteq> None}) \<and>
      (\<forall>k t c us. nl_rules lib t c k = Inr us \<longrightarrow>
         (\<exists>tb h rs. view k t = Some tb \<and> tb c = Some (h, rs) \<and> us = map snd rs)))"

subsection \<open>Packets\<close>

record nat_packet =
  np_nfproto :: "32 word"
  np_src :: addr
  np_dst :: addr

datatype nat_action = Translate addr addr | Masquerade

fun nat_eval :: "nat_expr list \<Rightarrow> nat_packet \<Rightarrow> (nat \<Rightarrow> 32 word) \<Rightarrow> nat_action option" where
  "nat_eval [] p r = None"
| "nat_eval (NMeta_NFPROTO d # es) p r = nat_eval es p (r(d := np_nfproto p))"
| "nat_eval (NCmpEq s w # es) p r = (if r s = w then nat_eval es p r else None)"
| "nat_eval (NPayload_Network d off # es) p r =
     nat_eval es p (r(d := (if off = 12 then np_src p else if off = 16 then np_dst p else 0)))"
| "nat_eval (NBitwise s d m x # es) p r = nat_eval es p (r(d := (r s AND m) XOR x))"
| "nat_eval (NImmediate d w # es) p r = nat_eval es p (r(d := w))"
| "nat_eval (NDestNAT_Prefix lo hi # es) p r = Some (Translate (r lo) (r hi))"
| "nat_eval (NMasq # es) p r = Some Masquerade"

fun nat_verdict :: "(nat_expr list \<times> string) list \<Rightarrow> nat_packet \<Rightarrow> nat_action option" where
  "nat_verdict [] p = None"
| "nat_verdict ((es, u) # rs) p =
     (case nat_eval es p (\<lambda>_. 0) of None \<Rightarrow> nat_verdict rs p | Some act \<Rightarrow> Some act)"

text \<open>The destination after the prerouting hook, and whether the source is disguised on the way out.\<close>

definition new_dst ::
  "(addr \<Rightarrow> addr \<Rightarrow> addr \<Rightarrow> addr) \<Rightarrow> nat_ruleset \<Rightarrow> string \<Rightarrow> nat_packet \<Rightarrow> addr" where
  "new_dst netmap v t p =
     (case v t of None \<Rightarrow> np_dst p
      | Some tb \<Rightarrow>
          (case tb ''prerouting'' of
             Some (HookPrerouting, rs) \<Rightarrow>
               (case nat_verdict rs p of Some (Translate lo hi) \<Rightarrow> netmap lo hi (np_dst p) | _ \<Rightarrow> np_dst p)
           | _ \<Rightarrow> np_dst p))"

definition disguised :: "nat_ruleset \<Rightarrow> string \<Rightarrow> nat_packet \<Rightarrow> bool" where
  "disguised v t p =
     (case v t of None \<Rightarrow> False
      | Some tb \<Rightarrow>
          (case tb ''postrouting'' of
             Some (HookPostrouting, rs) \<Rightarrow> nat_verdict rs p = Some Masquerade
           | _ \<Rightarrow> False))"

text \<open>
  The documented translation with the prefix flag: over the addresses \<open>lo\<close> to \<open>hi\<close> of an aligned
  block the host part of the address is kept.
\<close>

definition netmap_contract :: "(addr \<Rightarrow> addr \<Rightarrow> addr \<Rightarrow> addr) \<Rightarrow> bool" where
  "netmap_contract netmap =
     (\<forall>lo n a. n \<le> 32 \<longrightarrow> lo AND mask n = 0 \<longrightarrow> netmap lo (lo OR mask n) a = lo OR (a AND mask n))"

definition translate :: "nat_rule list \<Rightarrow> addr \<Rightarrow> addr" where
  "translate rules a =
     (case find (\<lambda>r. Contains (nr_Synthetic r) a) rules of
        None \<Rightarrow> a
      | Some r \<Rightarrow> PAddr (Masked (nr_Real r)) OR (a AND mask (32 - PBits (nr_Real r))))"

section \<open>Lemmas\<close>

subsection \<open>Userdata\<close>

lemma ruleFromUserData_userData:
  assumes "PBits (nr_Synthetic r) \<le> 32" and "PBits (nr_Real r) \<le> 32"
  shows "ruleFromUserData (userData r) = Some r"
proof -
  have "CHR ''>'' \<notin> set (Prefix_String p)" for p by (rule Prefix_String_char) simp_all
  with assms show ?thesis
    by (simp add: ruleFromUserData_def userData_def cut_prefix_def has_prefix_def cut_at_split ParsePrefix4_String)
qed

subsection \<open>Rules on packets\<close>

lemma prefixMask_mask: "prefixMask n = NOT (mask (32 - n))"
  unfolding prefixMask_def by (rule bit_eqI) (auto simp: bit_simps)

lemma match_Contains:
  "PAddr (Masked p) = a AND NOT (mask (32 - PBits p)) \<longleftrightarrow> Contains p a"
  by (simp add: Masked_def masked_eq_iff Contains_iff eq_commute)

lemma aligned_last:
  fixes lo :: addr
  assumes "lo AND mask n = 0" and "n \<le> 32"
  shows "lo + 2 ^ n - 1 = lo OR mask n"
proof -
  have "lo OR mask n = lo + mask n" using assms by (simp add: disjunctive_add_eq_or)
  then show ?thesis by (simp add: mask_eq_exp_minus_1)
qed

lemma Masked_low [simp]: "PAddr (Masked p) AND mask (32 - PBits p) = 0"
  unfolding Masked_def by (rule bit_eqI) (auto simp: bit_simps)

lemma dnat_eval:
  "nat_eval (dnatPrefixExprs r) p regs =
     (if np_nfproto p = nat_IPV4 \<and> Contains (nr_Synthetic r) (np_dst p)
      then Some (Translate (PAddr (Masked (nr_Real r)))
             (PAddr (Masked (nr_Real r)) OR mask (32 - PBits (nr_Real r)))) else None)"
  by (auto simp: dnatPrefixExprs_def Let_def prefixMask_mask aligned_last match_Contains [symmetric])

lemma masq_eval:
  "nat_eval (masqueradeExprs pool real) p regs =
     (if np_nfproto p = nat_IPV4 \<and> Contains pool (np_src p) \<and> Contains real (np_dst p)
      then Some Masquerade else None)"
  by (auto simp: masqueradeExprs_def Let_def prefixMask_mask match_Contains [symmetric])

lemma verdict_dnat:
  "np_nfproto p = nat_IPV4 \<Longrightarrow> nat_verdict (map (\<lambda>r. (dnatPrefixExprs r, userData r)) rules) p =
     map_option (\<lambda>r. Translate (PAddr (Masked (nr_Real r)))
       (PAddr (Masked (nr_Real r)) OR mask (32 - PBits (nr_Real r))))
       (find (\<lambda>r. Contains (nr_Synthetic r) (np_dst p)) rules)"
  by (induction rules) (simp_all add: dnat_eval)

lemma verdict_masq:
  "nat_verdict (map (\<lambda>r. (masqueradeExprs pool (nr_Real r), '''')) rules) p = Some Masquerade \<longleftrightarrow>
     np_nfproto p = nat_IPV4 \<and> Contains pool (np_src p) \<and> (\<exists>r \<in> set rules. Contains (nr_Real r) (np_dst p))"
  by (induction rules) (auto simp: masq_eval)

subsection \<open>Building the table\<close>

definition built :: "prefix4 \<Rightarrow> nat_rule list \<Rightarrow> nat_table" where
  "built pool rules =
     [''prerouting'' \<mapsto> (HookPrerouting, map (\<lambda>r. (dnatPrefixExprs r, userData r)) rules),
      ''postrouting'' \<mapsto> (HookPostrouting, map (\<lambda>r. (masqueradeExprs pool (nr_Real r), '''')) rules)]"

lemma built_sel [simp]:
  "built pool rules ''prerouting'' = Some (HookPrerouting, map (\<lambda>r. (dnatPrefixExprs r, userData r)) rules)"
  "built pool rules ''postrouting'' = Some (HookPostrouting, map (\<lambda>r. (masqueradeExprs pool (nr_Real r), '''')) rules)"
  by (simp_all add: built_def)

lemma built_snoc:
  "(built pool rs)(''prerouting'' \<mapsto> (HookPrerouting, map (\<lambda>r. (dnatPrefixExprs r, userData r)) rs @
       [(dnatPrefixExprs r, userData r)]),
     ''postrouting'' \<mapsto> (HookPostrouting, map (\<lambda>r. (masqueradeExprs pool (nr_Real r), '''')) rs @
       [(masqueradeExprs pool (nr_Real r), '''')])) = built pool (rs @ [r])"
  by (rule ext) (simp add: built_def)

lemma nat_batch_append:
  "nat_batch (xs @ ys) v = (case nat_batch xs v of None \<Rightarrow> None | Some v' \<Rightarrow> nat_batch ys v')"
  by (induction xs arbitrary: v) (auto split: option.splits)

lemma nat_batch_del:
  assumes "distinct ts" and "set ts = dom v"
  shows "nat_batch (map NDelTable (filter (\<lambda>t. t = table) ts)) v = Some (v(table := None))"
proof -
  have "filter (\<lambda>t. t = table) ts = (if table \<in> set ts then [table] else [])"
    using assms(1) by (induction ts) (auto simp: filter_empty_conv)
  with assms(2) show ?thesis by auto
qed

lemma nat_batch_rules:
  assumes "v t = Some (built pool rs)"
  shows "nat_batch (concat (map (\<lambda>r. [NAddRule t ''prerouting'' (dnatPrefixExprs r) (userData r),
      NAddRule t ''postrouting'' (masqueradeExprs pool (nr_Real r)) '''']) rules)) v =
    Some (v(t \<mapsto> built pool (rs @ rules)))"
  using assms
proof (induction rules arbitrary: rs v)
  case Nil
  then show ?case by (simp add: fun_upd_idem)
next
  case (Cons r rules)
  let ?w = "v(t \<mapsto> built pool (rs @ [r]))"
  have first: "nat_batch [NAddRule t ''prerouting'' (dnatPrefixExprs r) (userData r),
      NAddRule t ''postrouting'' (masqueradeExprs pool (nr_Real r)) ''''] v = Some ?w"
    using Cons.prems by (simp add: built_snoc)
  have rest: "nat_batch (concat (map (\<lambda>r. [NAddRule t ''prerouting'' (dnatPrefixExprs r) (userData r),
      NAddRule t ''postrouting'' (masqueradeExprs pool (nr_Real r)) '''']) rules)) ?w =
    Some (?w(t \<mapsto> built pool ((rs @ [r]) @ rules)))"
    by (rule Cons.IH) simp
  show ?case
    unfolding list.map concat.simps nat_batch_append first option.case rest by (simp add: fun_eq_iff)
qed

lemma nat_batch_build:
  assumes "v t = None"
  shows "nat_batch (nat_build t pool rules) v = Some (v(t \<mapsto> built pool rules))"
proof -
  have "nat_batch [NAddTable t, NAddChain t ''prerouting'' HookPrerouting,
      NAddChain t ''postrouting'' HookPostrouting] v = Some (v(t \<mapsto> built pool []))"
    using assms by (simp add: built_def fun_upd_twist)
  then show ?thesis
    using nat_batch_rules [of "v(t \<mapsto> built pool [])" t pool "[]" rules]
    unfolding nat_build_def nat_batch_append by simp
qed

lemma nat_chains_told:
  assumes "nat_contract lib view" and "nl_chains lib k = Inr cs"
  shows "set cs = {(t, c). \<exists>tb. view k t = Some tb \<and> tb c \<noteq> None}"
  using assms unfolding nat_contract_def by (elim conjE) meson

lemma nat_rules_told:
  assumes "nat_contract lib view" and "nl_rules lib t c k = Inr us"
  shows "\<exists>tb h rs. view k t = Some tb \<and> tb c = Some (h, rs) \<and> us = map snd rs"
  using assms unfolding nat_contract_def by (elim conjE) meson

lemma nat_flush_None:
  assumes "nat_contract lib view" and "nat_flush lib label t build k = (None, k')"
  shows "nat_batch build ((view k)(t := None)) = Some (view k')"
proof -
  from assms(2) obtain ts where ts: "nl_tables lib k = Inr ts"
    and fl: "nl_flush lib (map NDelTable (filter (\<lambda>x. x = t) ts) @ build) k = (None, k')"
    by (auto simp: nat_flush_def nat_deleteTable_def split: option.splits sum.splits prod.splits)
  from assms(1) ts have "distinct ts" "set ts = dom (view k)" unfolding nat_contract_def by blast+
  moreover from assms(1) fl have
    "nat_batch (map NDelTable (filter (\<lambda>x. x = t) ts) @ build) (view k) = Some (view k')"
    unfolding nat_contract_def by blast
  ultimately show ?thesis by (simp add: nat_batch_append nat_batch_del)
qed

lemma nat_flush_Some:
  assumes "nat_contract lib view" and "nat_flush lib label t build k = (Some err, k')"
  shows "view k' = view k"
proof -
  have "view k2 = view k" if "nl_flush lib cmds k = (Some e, k2)" for cmds e k2
    using assms(1) that unfolding nat_contract_def by blast
  with assms(2) show ?thesis
    by (auto simp: nat_flush_def nat_deleteTable_def split: option.splits sum.splits prod.splits)
qed

lemma nat_Rebuild_built:
  assumes "nat_contract lib view" and "nat_Rebuild lib t pool rules k = (None, k')"
  shows "view k' = (view k)(t \<mapsto> built pool rules)"
  using nat_flush_None [OF assms(1), of _ t _ k k'] assms(2)
  by (fastforce simp: nat_Rebuild_def nat_batch_build)

subsection \<open>Translating a block\<close>

lemma host_bits:
  fixes b :: addr
  assumes "b AND mask n = 0"
  shows "(b OR (a AND mask n)) AND NOT (mask n) = b" and "(b OR (a AND mask n)) AND mask n = a AND mask n"
  using assms by (auto simp: bit_eq_iff bit_simps)

lemma network_and_host: "(a AND NOT (mask n)) OR ((a :: addr) AND mask n) = a"
  by (auto simp: bit_eq_iff bit_simps)

lemma rebase_Contains:
  "PBits q = PBits p \<Longrightarrow> Contains p (PAddr (Masked p) OR (a AND mask (32 - PBits q)))"
  by (simp add: match_Contains [symmetric] host_bits)

lemma rebase_inverse:
  assumes "PBits q = PBits p" and "Contains q a"
  shows "PAddr (Masked q) OR ((PAddr (Masked p) OR (a AND mask (32 - PBits p))) AND mask (32 - PBits q)) = a"
  using assms by (simp add: match_Contains [symmetric] host_bits network_and_host)

lemma rebase_bij:
  assumes "PBits q = PBits p"
  shows "bij_betw (\<lambda>a. PAddr (Masked p) OR (a AND mask (32 - PBits p))) (prefix_addrs q) (prefix_addrs p)"
proof (rule bij_betw_byWitness)
  let ?g = "\<lambda>a. PAddr (Masked q) OR (a AND mask (32 - PBits q))"
  show "\<forall>a \<in> prefix_addrs q. ?g (PAddr (Masked p) OR (a AND mask (32 - PBits p))) = a"
    using rebase_inverse [OF assms] by (simp add: prefix_addrs_def)
  show "\<forall>a \<in> prefix_addrs p. PAddr (Masked p) OR (?g a AND mask (32 - PBits p)) = a"
    using rebase_inverse [OF assms [symmetric]] by (simp add: prefix_addrs_def)
  show "(\<lambda>a. PAddr (Masked p) OR (a AND mask (32 - PBits p))) ` prefix_addrs q \<subseteq> prefix_addrs p"
    using rebase_Contains [of p p] by (auto simp: prefix_addrs_def)
  show "?g ` prefix_addrs p \<subseteq> prefix_addrs q"
    using rebase_Contains [of q q] by (auto simp: prefix_addrs_def)
qed

lemma translate_rule:
  assumes "r \<in> set rules"
    and "\<And>s b. s \<in> set rules \<Longrightarrow> Contains (nr_Synthetic s) b \<Longrightarrow> Contains (nr_Synthetic r) b \<Longrightarrow> s = r"
    and "Contains (nr_Synthetic r) a"
  shows "translate rules a = PAddr (Masked (nr_Real r)) OR (a AND mask (32 - PBits (nr_Real r)))"
proof -
  have "find (\<lambda>s. Contains (nr_Synthetic s) a) rules = Some r"
    using assms by (intro find_unique) auto
  then show ?thesis by (simp add: translate_def)
qed

lemma new_dst_built:
  assumes "netmap_contract netmap" and "np_nfproto p = nat_IPV4"
  shows "new_dst netmap (v(t \<mapsto> built pool rules)) t p = translate rules (np_dst p)"
  using assms
  by (auto simp: new_dst_def verdict_dnat translate_def netmap_contract_def split: option.splits)

subsection \<open>A library to evaluate on\<close>

text \<open>The kernel state lists the tables and the chains; a call fails only when the kernel refuses it.\<close>

type_synonym nat_kernel = "string list \<times> ((string \<times> string) \<times> nat_chain) list"

definition nat_view :: "nat_kernel \<Rightarrow> nat_ruleset" where
  "nat_view k = (\<lambda>t. if t \<in> set (fst k) then Some (\<lambda>c. map_of (snd k) (t, c)) else None)"

definition forget_chains :: "string \<Rightarrow> ((string \<times> string) \<times> nat_chain) list \<Rightarrow> ((string \<times> string) \<times> nat_chain) list" where
  "forget_chains t cs = filter (\<lambda>x. fst (fst x) \<noteq> t) cs"

fun model_cmd :: "nat_cmd \<Rightarrow> nat_kernel \<Rightarrow> nat_kernel option" where
  "model_cmd (NDelTable t) (ts, cs) =
     (if t \<in> set ts then Some (filter (\<lambda>x. x \<noteq> t) ts, forget_chains t cs) else None)"
| "model_cmd (NAddTable t) (ts, cs) =
     Some (if t \<in> set ts then (ts, cs) else (t # ts, forget_chains t cs))"
| "model_cmd (NAddChain t c h) (ts, cs) =
     (if t \<notin> set ts then None
      else Some (if map_of cs (t, c) = None then (ts, ((t, c), (h, [])) # cs) else (ts, cs)))"
| "model_cmd (NAddRule t c es u) (ts, cs) =
     (if t \<notin> set ts then None
      else case map_of cs (t, c) of None \<Rightarrow> None
           | Some (h, rs) \<Rightarrow> Some (ts, ((t, c), (h, rs @ [(es, u)])) # cs))"

fun model_cmds :: "nat_cmd list \<Rightarrow> nat_kernel \<Rightarrow> nat_kernel option" where
  "model_cmds [] k = Some k"
| "model_cmds (c # cs) k = (case model_cmd c k of None \<Rightarrow> None | Some k' \<Rightarrow> model_cmds cs k')"

definition model_nat :: "nat_kernel nat_lib" where
  "model_nat =
     \<lparr>nl_lock = (\<lambda>t k. None), nl_new = (\<lambda>k. None), nl_tables = (\<lambda>k. Inr (remdups (fst k))),
      nl_chains = (\<lambda>k. Inr (map fst (filter (\<lambda>x. fst (fst x) \<in> set (fst k)) (snd k)))),
      nl_rules = (\<lambda>t c k.
        if t \<notin> set (fst k) then Inl ''no table''
        else case map_of (snd k) (t, c) of None \<Rightarrow> Inl ''no chain'' | Some (h, rs) \<Rightarrow> Inr (map snd rs)),
      nl_flush = (\<lambda>cmds k. case model_cmds cmds k of None \<Rightarrow> (Some ''refused'', k) | Some k' \<Rightarrow> (None, k'))\<rparr>"

lemma map_of_forget: "map_of (forget_chains t cs) (t', c) = (if t' = t then None else map_of cs (t', c))"
  by (induction cs) (auto simp: forget_chains_def)

lemma model_cmd_view: "nat_apply c (nat_view k) = map_option nat_view (model_cmd c k)"
proof (cases k)
  case (Pair ts cs)
  then show ?thesis
    by (cases c) (auto simp: nat_view_def map_of_forget fun_eq_iff split: option.splits prod.splits)
qed

lemma model_cmds_view: "nat_batch cmds (nat_view k) = map_option nat_view (model_cmds cmds k)"
  by (induction cmds arbitrary: k) (auto simp: model_cmd_view split: option.splits)

lemma model_nat_contract: "nat_contract model_nat nat_view"
proof -
  have "nat_batch cmds (nat_view k) = Some (nat_view k')" if "nl_flush model_nat cmds k = (None, k')" for cmds k k'
    using that unfolding model_nat_def nat_lib.simps model_cmds_view by (cases "model_cmds cmds k") auto
  moreover have "nat_view k' = nat_view k" if "nl_flush model_nat cmds k = (Some e, k')" for cmds k k' e
    using that by (simp add: model_nat_def split: option.splits)
  moreover have "distinct ts \<and> set ts = dom (nat_view k)" if "nl_tables model_nat k = Inr ts" for k ts
    using that by (auto simp: model_nat_def nat_view_def split: if_splits)
  moreover have "set cs = {(t, c). \<exists>tb. nat_view k t = Some tb \<and> tb c \<noteq> None}" if "nl_chains model_nat k = Inr cs" for k cs
  proof -
    have "cs = filter (\<lambda>x. fst x \<in> set (fst k)) (map fst (snd k))"
      using that by (simp add: model_nat_def filter_map comp_def)
    then have "set cs = {x \<in> fst ` set (snd k). fst x \<in> set (fst k)}" by simp
    also have "\<dots> = {(t, c). \<exists>tb. nat_view k t = Some tb \<and> tb c \<noteq> None}"
    proof -
      have "(t, c) \<in> fst ` set (snd k) \<longleftrightarrow> map_of (snd k) (t, c) \<noteq> None" for t c
        by (simp only: map_of_eq_None_iff not_not)
      then have "x \<in> fst ` set (snd k) \<and> fst x \<in> set (fst k) \<longleftrightarrow>
          (\<exists>tb. nat_view k (fst x) = Some tb \<and> tb (snd x) \<noteq> None)" for x
        by (cases x) (simp add: nat_view_def del: not_None_eq)
      then show ?thesis by (simp only: split_beta')
    qed
    finally show ?thesis .
  qed
  moreover have "\<exists>tb h rs. nat_view k t = Some tb \<and> tb c = Some (h, rs) \<and> us = map snd rs"
    if "nl_rules model_nat t c k = Inr us" for t c k us
    using that by (auto simp: model_nat_def nat_view_def split: if_splits option.splits)
  ultimately show ?thesis unfolding nat_contract_def by (intro conjI allI impI; simp only:)
qed

definition model_netmap :: "addr \<Rightarrow> addr \<Rightarrow> addr \<Rightarrow> addr" where
  "model_netmap lo hi a = lo OR (a AND (lo XOR hi))"

lemma model_netmap_contract: "netmap_contract model_netmap"
proof -
  have "lo XOR (lo OR mask n) = mask n" if "lo AND mask n = 0" for lo :: addr and n
    using that by (auto simp: bit_eq_iff bit_simps)
  then show ?thesis by (simp add: netmap_contract_def model_netmap_def)
qed

definition demo_rules :: "nat_rule list" where
  "demo_rules =
     [\<lparr>nr_Synthetic = Prefix4 0x64600000 24, nr_Real = Prefix4 0xC0A80100 24\<rparr>,
      \<lparr>nr_Synthetic = Prefix4 0x64600100 24, nr_Real = Prefix4 0x0A000000 24\<rparr>]"

section \<open>Properties\<close>

text \<open>
  C22: after a successful rebuild, whatever the table held before, a packet for a synthetic block goes
  to the address with the same host bits in the real subnet of the first rule for it, and any other
  destination is left alone; the disguise is put on exactly what comes from the VPN and goes to a
  real subnet; no other table of the router is touched.
\<close>

theorem nat_Rebuild_translates:
  assumes "nat_contract lib view" and "netmap_contract netmap"
    and "nat_Rebuild lib t pool rules k = (None, k')"
  shows "(\<forall>p. np_nfproto p = nat_IPV4 \<longrightarrow> new_dst netmap (view k') t p = translate rules (np_dst p)) \<and>
    (\<forall>p. disguised (view k') t p \<longleftrightarrow> np_nfproto p = nat_IPV4 \<and> Contains pool (np_src p) \<and>
       (\<exists>r \<in> set rules. Contains (nr_Real r) (np_dst p))) \<and>
    (\<forall>u. u \<noteq> t \<longrightarrow> view k' u = view k u)"
proof -
  have v: "view k' = (view k)(t \<mapsto> built pool rules)" by (rule nat_Rebuild_built [OF assms(1,3)])
  have "new_dst netmap (view k') t p = translate rules (np_dst p)" if "np_nfproto p = nat_IPV4" for p
    using that new_dst_built [OF assms(2)] by (simp add: v)
  moreover have "disguised (view k') t p \<longleftrightarrow> np_nfproto p = nat_IPV4 \<and> Contains pool (np_src p) \<and>
      (\<exists>r \<in> set rules. Contains (nr_Real r) (np_dst p))" for p
    by (simp add: v disguised_def verdict_masq)
  ultimately show ?thesis by (simp add: v)
qed

lemma demo_rebuild:
  "nat_Rebuild model_nat ''lanweave_rt'' (Prefix4 0x647F0000 24) demo_rules ([], []) =
     (None, snd (nat_Rebuild model_nat ''lanweave_rt'' (Prefix4 0x647F0000 24) demo_rules ([], [])))"
  by (simp add: nat_Rebuild_def nat_flush_def nat_deleteTable_def model_nat_def nat_build_def demo_rules_def
      forget_chains_def)

theorem nat_Rebuild_translates_witness:
  "\<exists>k'. new_dst model_netmap (nat_view k') ''lanweave_rt''
     \<lparr>np_nfproto = nat_IPV4, np_src = 0x647F0002, np_dst = 0x64600107\<rparr> = 0x0A000007"
  using nat_Rebuild_translates [OF model_nat_contract model_netmap_contract demo_rebuild]
  by (intro exI [of _ "snd (nat_Rebuild model_nat ''lanweave_rt'' (Prefix4 0x647F0000 24) demo_rules ([], []))"])
    (simp add: translate_def demo_rules_def Contains_def Masked_def mask_eq_exp_minus_1)

text \<open>
  C23: over an announced block the translation is one to one: with disjoint synthetic blocks, each as
  long as its subnet, the addresses of the block reach the addresses of the subnet, every one of them
  and no two the same.
\<close>

theorem nat_one_to_one:
  assumes "nat_contract lib view" and "netmap_contract netmap"
    and "nat_Rebuild lib t pool rules k = (None, k')"
    and "r \<in> set rules" and "PBits (nr_Synthetic r) = PBits (nr_Real r)"
    and "\<And>s. s \<in> set rules \<Longrightarrow> s \<noteq> r \<Longrightarrow> prefix_addrs (nr_Synthetic s) \<inter> prefix_addrs (nr_Synthetic r) = {}"
  shows "bij_betw (\<lambda>a. new_dst netmap (view k') t \<lparr>np_nfproto = nat_IPV4, np_src = src, np_dst = a\<rparr>)
    (prefix_addrs (nr_Synthetic r)) (prefix_addrs (nr_Real r))"
proof -
  have "new_dst netmap (view k') t \<lparr>np_nfproto = nat_IPV4, np_src = src, np_dst = a\<rparr> =
      PAddr (Masked (nr_Real r)) OR (a AND mask (32 - PBits (nr_Real r)))"
    if "a \<in> prefix_addrs (nr_Synthetic r)" for a
  proof -
    have "translate rules a = PAddr (Masked (nr_Real r)) OR (a AND mask (32 - PBits (nr_Real r)))"
    proof (rule translate_rule [OF assms(4)])
      show "s = r" if "s \<in> set rules" "Contains (nr_Synthetic s) b" "Contains (nr_Synthetic r) b" for s b
        using assms(6) [of s] that by (auto simp: prefix_addrs_def)
    qed (use that in \<open>simp add: prefix_addrs_def\<close>)
    then show ?thesis
      by (simp add: nat_Rebuild_built [OF assms(1,3)] new_dst_built [OF assms(2)])
  qed
  with rebase_bij [OF assms(5)] show ?thesis by (simp cong: bij_betw_cong)
qed

theorem nat_one_to_one_witness:
  "\<exists>k'. bij_betw (\<lambda>a. new_dst model_netmap (nat_view k') ''lanweave_rt''
        \<lparr>np_nfproto = nat_IPV4, np_src = 0x647F0002, np_dst = a\<rparr>)
     (prefix_addrs (Prefix4 0x64600000 24)) (prefix_addrs (Prefix4 0xC0A80100 24))"
proof -
  let ?r = "\<lparr>nr_Synthetic = Prefix4 0x64600000 24, nr_Real = Prefix4 0xC0A80100 24\<rparr>"
  have "\<not> OverlapsP (Prefix4 0x64600100 24) (Prefix4 0x64600000 24)"
    by (simp add: OverlapsP_def Masked_def mask_eq_exp_minus_1)
  then have "prefix_addrs (Prefix4 0x64600100 24) \<inter> prefix_addrs (Prefix4 0x64600000 24) = {}"
    by (simp add: OverlapsP_meet)
  then have "prefix_addrs (nr_Synthetic s) \<inter> prefix_addrs (nr_Synthetic ?r) = {}"
    if "s \<in> set demo_rules" "s \<noteq> ?r" for s
    using that by (auto simp: demo_rules_def)
  moreover have "?r \<in> set demo_rules" by (simp add: demo_rules_def)
  moreover have "PBits (nr_Synthetic ?r) = PBits (nr_Real ?r)" by simp
  ultimately show ?thesis
    using nat_one_to_one [where r = ?r and src = "0x647F0002", OF model_nat_contract model_netmap_contract demo_rebuild]
    by (metis nat_rule.select_convs)
qed

text \<open>
  C24: the table can be read back: after a rebuild the userdata of its rules give the rule set again,
  in order, and after a rebuild that reported an error the table is what it was before.
\<close>

theorem nat_Current_roundtrip:
  assumes "nat_contract lib view"
    and "\<And>r. r \<in> set rules \<Longrightarrow> PBits (nr_Synthetic r) \<le> 32 \<and> PBits (nr_Real r) \<le> 32"
    and "nat_Rebuild lib t pool rules k = (out, k')" and "nl_chains lib k' = Inr cs"
    and "nat_Current lib t k' = Inr current"
  shows "if out = None then current = rules else view k' = view k"
proof (cases out)
  case None
  with assms(3) have v: "view k' t = Some (built pool rules)"
    by (simp add: nat_Rebuild_built [OF assms(1)])
  have "set cs = {(t, c). \<exists>tb. view k' t = Some tb \<and> tb c \<noteq> None}"
    by (rule nat_chains_told [OF assms(1,4)])
  then have "nat_findTableChain lib t ''prerouting'' k'"
    by (simp add: nat_findTableChain_def assms(4) list_ex_iff v)
  with assms(5) obtain us where us: "nl_rules lib t ''prerouting'' k' = Inr us"
    and cur: "current = List.map_filter ruleFromUserData us"
    by (auto simp: nat_Current_def split: option.splits sum.splits)
  from nat_rules_told [OF assms(1) us] have "us = map userData rules" by (auto simp: v comp_def)
  moreover have "List.map_filter ruleFromUserData (map userData rules) = rules"
    using assms(2) by (induction rules) (simp_all add: List.map_filter_simps ruleFromUserData_userData)
  ultimately show ?thesis by (simp add: cur None)
next
  case (Some err)
  with assms(3) show ?thesis by (simp add: nat_Rebuild_def nat_flush_Some [OF assms(1)])
qed

theorem nat_Current_roundtrip_witness:
  "nat_Current model_nat ''lanweave_rt''
     (snd (nat_Rebuild model_nat ''lanweave_rt'' (Prefix4 0x647F0000 24) demo_rules ([], []))) = Inr demo_rules"
proof -
  let ?k = "snd (nat_Rebuild model_nat ''lanweave_rt'' (Prefix4 0x647F0000 24) demo_rules ([], []))"
  obtain cs where cs: "nl_chains model_nat ?k = Inr cs" by (simp add: model_nat_def)
  have "\<exists>current. nat_Current model_nat ''lanweave_rt'' ?k = Inr current"
    by (simp add: nat_Rebuild_def nat_flush_def nat_deleteTable_def model_nat_def nat_build_def demo_rules_def
        forget_chains_def nat_Current_def nat_findTableChain_def)
  then obtain current where cur: "nat_Current model_nat ''lanweave_rt'' ?k = Inr current" ..
  have "\<And>r. r \<in> set demo_rules \<Longrightarrow> PBits (nr_Synthetic r) \<le> 32 \<and> PBits (nr_Real r) \<le> 32"
    by (auto simp: demo_rules_def)
  from nat_Current_roundtrip [OF model_nat_contract this demo_rebuild cs cur] cur show ?thesis by simp
qed

end
