(* ===== verification/Router_Reconcile.thy ===== *)
theory Router_Reconcile
  imports Routesync Natctl Router_Engine
begin

text \<open>
  The router client's use of the announcement lists: \<^verbatim>\<open>internal/router/reconcile\<close>, the reconcile cycle
  \<^verbatim>\<open>reconcileAll\<close> of \<^verbatim>\<open>cmd/lanweave-routerd/main.go\<close>, and the commands \<^verbatim>\<open>announce add\<close> and
  \<^verbatim>\<open>announce remove\<close> of \<^verbatim>\<open>announce.go\<close> after their flags are parsed. The server is what the API client
  answers, over an abstract server state; texts written to the terminal are left out. A command
  returns its exit code.
\<close>

section \<open>Definitions\<close>

record 'a router_api =
  ra_zones :: "'a \<Rightarrow> (string, zone_response list) result"
  ra_members :: "string \<Rightarrow> 'a \<Rightarrow> (string, zone_member_response list) result"
  ra_list :: "string \<Rightarrow> 'a \<Rightarrow> (string, announcement_response list) result"
  ra_announce :: "string \<Rightarrow> int \<Rightarrow> string \<Rightarrow> 'a \<Rightarrow> (string, announcement_response) result \<times> 'a"
  ra_withdraw :: "string \<Rightarrow> int \<Rightarrow> 'a \<Rightarrow> string option \<times> 'a"

text \<open>The part of the state record the commands use.\<close>

record router_record =
  rr_IP :: string
  rr_Network :: string
  rr_NodeID :: int

record ('a, 'r, 'k) router =
  rt_server :: 'a
  rt_engine :: "'r engine"
  rt_nat :: 'k

text \<open>What a router runs with: the client, if one can be built, its kernel, and its configuration.\<close>

record ('a, 'r, 'k) router_env =
  re_client :: "(string, 'a router_api) result"
  re_machine :: "'r machine"
  re_config :: engine_config
  re_nat :: "'k nat_lib"
  re_links :: "iface list option"

definition DefaultTable :: string where "DefaultTable = ''lanweave_rt''"

subsection \<open>The announcer's rules\<close>

record rt_entry =
  rx_ID :: int
  rx_Subnet :: prefix4
  rx_Synthetic :: prefix4
  rx_Zones :: "string list"

definition rule_of :: "prefix4 entry \<Rightarrow> nat_rule" where
  "rule_of en = \<lparr>nr_Synthetic = en_Synthetic en, nr_Real = en_Subnet en\<rparr>"

definition Desired ::
  "zone_response list \<Rightarrow> (string \<Rightarrow> (string, announcement_response list) result) \<Rightarrow> int
     \<Rightarrow> (fetch_error, nat_rule list \<times> rt_entry list) result" where
  "Desired zones listing nodeID =
     (case Fetch ParsePrefix4 zones listing of
        Inl err \<Rightarrow> Inl err
      | Inr all_entries \<Rightarrow>
          (let mine = Mine all_entries nodeID
           in Inr (map rule_of mine,
                map (\<lambda>en. \<lparr>rx_ID = en_ID en, rx_Subnet = en_Subnet en, rx_Synthetic = en_Synthetic en,
                           rx_Zones = en_Zones en\<rparr>) mine)))"

definition desired ::
  "'a router_api \<Rightarrow> router_record \<Rightarrow> 'a \<Rightarrow> (string, nat_rule list \<times> rt_entry list) result" where
  "desired api rec a =
     (case ra_zones api a of
        Inl err \<Rightarrow> Inl err
      | Inr zones \<Rightarrow>
          (case Desired zones (\<lambda>z. ra_list api z a) (rr_NodeID rec) of
             Inl _ \<Rightarrow> Inl ''fetch''
           | Inr x \<Rightarrow> Inr x))"

definition rebuild_nat ::
  "('a, 'r, 'k) router_env \<Rightarrow> router_record \<Rightarrow> nat_rule list \<Rightarrow> ('a, 'r, 'k) router
     \<Rightarrow> string option \<times> ('a, 'r, 'k) router" where
  "rebuild_nat E rec rules s =
     (case ParsePrefix4 (rr_Network rec) of
        None \<Rightarrow> (Some ''state network'', s)
      | Some network \<Rightarrow>
          (case nat_Rebuild (re_nat E) DefaultTable network rules (rt_nat s) of
             (err, k) \<Rightarrow> (err, s\<lparr>rt_nat := k\<rparr>)))"

definition rebuildFromServer ::
  "('a, 'r, 'k) router_env \<Rightarrow> 'a router_api \<Rightarrow> router_record \<Rightarrow> ('a, 'r, 'k) router
     \<Rightarrow> string option \<times> ('a, 'r, 'k) router" where
  "rebuildFromServer E api rec s =
     (case desired api rec (rt_server s) of
        Inl err \<Rightarrow> (Some err, s)
      | Inr (rules, _) \<Rightarrow> rebuild_nat E rec rules s)"

subsection \<open>The reconcile cycle\<close>

definition fetch_member_zones ::
  "'a router_api \<Rightarrow> router_record \<Rightarrow> 'a \<Rightarrow> (string, prefix4 entry list) result" where
  "fetch_member_zones api rec a =
     (case ra_zones api a of
        Inl err \<Rightarrow> Inl err
      | Inr zones \<Rightarrow>
          (case Fetch ParsePrefix4 (MemberZones zones (\<lambda>z. ra_members api z a) (rr_IP rec))
                  (\<lambda>z. ra_list api z a) of
             Inl _ \<Rightarrow> Inl ''fetch''
           | Inr entries \<Rightarrow> Inr entries))"

definition reconcileAll ::
  "('a, 'r, 'k) router_env \<Rightarrow> router_record \<Rightarrow> ('a, 'r, 'k) router
     \<Rightarrow> string option \<times> ('a, 'r, 'k) router" where
  "reconcileAll E rec s =
     (case re_client E of
        Inl err \<Rightarrow> (Some err, s)
      | Inr api \<Rightarrow>
          (case fetch_member_zones api rec (rt_server s) of
             Inl err \<Rightarrow> (Some err, s)
           | Inr entries \<Rightarrow>
               (case rebuild_nat E rec (map rule_of (Mine entries (rr_NodeID rec))) s of
                  (Some err, s1) \<Rightarrow> (Some err, s1)
                | (None, s1) \<Rightarrow>
                    (case SetRoutes (re_machine E) (re_config E)
                            (Prefixes (Consumed entries (rr_NodeID rec))) (rt_engine s1) of
                       ((_, Some _), eg) \<Rightarrow> (Some ''consumer routes'', s1\<lparr>rt_engine := eg\<rparr>)
                     | ((_, None), eg) \<Rightarrow> (None, s1\<lparr>rt_engine := eg\<rparr>)))))"

subsection \<open>Announcing\<close>

text \<open>\<^verbatim>\<open>localOverlap\<close> of \<^verbatim>\<open>announce.go\<close>: over all links, by block arithmetic.\<close>

definition link_overlap :: "block \<Rightarrow> if_addr \<Rightarrow> bool" where
  "link_overlap target x =
     (case x of
        Inet4 a ones \<Rightarrow> Overlaps target (BlockFromPrefix (Prefix4 a ones))
      | OtherAddr \<Rightarrow> False)"

fun cli_overlap :: "block \<Rightarrow> iface list \<Rightarrow> string \<times> bool" where
  "cli_overlap target [] = ('''', False)"
| "cli_overlap target (l # ls) =
     (case if_addrs l of
        None \<Rightarrow> cli_overlap target ls
      | Some as \<Rightarrow>
          if list_ex (link_overlap target) as then (if_name l, True) else cli_overlap target ls)"

definition localOverlap :: "iface list option \<Rightarrow> prefix4 \<Rightarrow> string \<times> bool" where
  "localOverlap links p =
     (case links of None \<Rightarrow> ('''', False) | Some ls \<Rightarrow> cli_overlap (BlockFromPrefix p) ls)"

definition compensate ::
  "'a router_api \<Rightarrow> string \<Rightarrow> int \<Rightarrow> ('a, 'r, 'k) router \<Rightarrow> ('a, 'r, 'k) router" where
  "compensate api zone aid s = s\<lparr>rt_server := snd (ra_withdraw api zone aid (rt_server s))\<rparr>"

definition cmdAnnounceAdd ::
  "('a, 'r, 'k) router_env \<Rightarrow> 'a router_api \<Rightarrow> router_record \<Rightarrow> string \<Rightarrow> string \<Rightarrow> ('a, 'r, 'k) router
     \<Rightarrow> nat \<times> ('a, 'r, 'k) router" where
  "cmdAnnounceAdd E api rec subnet zone s =
     (case ra_announce api zone (rr_NodeID rec) subnet (rt_server s) of
        (Inl _, a) \<Rightarrow> (1, s\<lparr>rt_server := a\<rparr>)
      | (Inr ann, a) \<Rightarrow>
          (let s1 = s\<lparr>rt_server := a\<rparr>
           in case ParsePrefix4 (ar_Synthetic ann) of
                None \<Rightarrow> (1, s1)
              | Some synthetic \<Rightarrow>
                  if snd (localOverlap (re_links E) synthetic)
                  then (1, compensate api zone (ar_ID ann) s1)
                  else (case rebuildFromServer E api rec s1 of
                     (Some _, s2) \<Rightarrow> (1, compensate api zone (ar_ID ann) s2)
                   | (None, s2) \<Rightarrow> (0, s2))))"

definition cmdAnnounceRemove ::
  "('a, 'r, 'k) router_env \<Rightarrow> 'a router_api \<Rightarrow> router_record \<Rightarrow> string \<Rightarrow> string \<Rightarrow> ('a, 'r, 'k) router
     \<Rightarrow> nat \<times> ('a, 'r, 'k) router" where
  "cmdAnnounceRemove E api rec subnet zone s =
     (case ra_list api zone (rt_server s) of
        Inl _ \<Rightarrow> (1, s)
      | Inr anns \<Rightarrow>
          (case find (\<lambda>x. ar_NodeID x = rr_NodeID rec \<and> ar_Subnet x = subnet) anns of
             None \<Rightarrow> (1, s)
           | Some x \<Rightarrow>
               if ar_ID x = 0 then (1, s)
               else (case ra_withdraw api zone (ar_ID x) (rt_server s) of
                  (Some _, a) \<Rightarrow> (1, s\<lparr>rt_server := a\<rparr>)
                | (None, a) \<Rightarrow> (0, snd (rebuildFromServer E api rec (s\<lparr>rt_server := a\<rparr>))))))"

section \<open>Lemmas\<close>

lemma fst_rebuild_nat_engine: "rebuild_nat E rec rules s = (r, s') \<Longrightarrow> rt_engine s' = rt_engine s \<and> rt_server s' = rt_server s"
  by (auto simp: rebuild_nat_def split: option.splits prod.splits)

lemma reconcileAll_skips:
  assumes "re_client E = Inr api" and "fetch_member_zones api rec (rt_server s) = Inl err"
  shows "reconcileAll E rec s = (Some err, s)"
  using assms by (simp add: reconcileAll_def)

lemma localOverlap_iff:
  "snd (localOverlap (Some ls) p) \<longleftrightarrow>
     (\<exists>l \<in> set ls. \<exists>as. if_addrs l = Some as \<and> (\<exists>x \<in> set as. link_overlap (BlockFromPrefix p) x))"
  by (induction ls) (auto simp: localOverlap_def list_ex_iff split: option.splits)

lemma block_addrs_from:
  assumes "PBits x \<le> 32"
  shows "block_addrs (BlockFromPrefix x) = unat ` prefix_addrs x"
proof -
  have "block_prefix (BlockFromPrefix x) = Masked x"
    by (simp add: block_prefix_def) (metis PBits_Masked prefix4.collapse)
  with block_addrs_prefix [of "BlockFromPrefix x"] assms show ?thesis by simp
qed

lemma overlap_block:
  assumes "PBits p \<le> 32" and "PBits q \<le> 32"
  shows "OverlapsP (Masked q) p \<longleftrightarrow> Overlaps (BlockFromPrefix p) (BlockFromPrefix q)"
proof -
  have "unat ` A \<inter> unat ` B = {} \<longleftrightarrow> A \<inter> B = {}" for A B :: "addr set"
    by (auto dest: word_unat_eq_iff [THEN iffD2])
  then show ?thesis
    using assms by (simp add: OverlapsP_meet Overlaps_iff block_addrs_from Int_commute)
qed

text \<open>Both overlap checks of the router agree, up to the tunnel's own interface.\<close>

lemma overlap_checks_agree:
  assumes "PBits p \<le> 32"
    and "\<And>l as a n. l \<in> set ls \<Longrightarrow> if_addrs l = Some as \<Longrightarrow> Inet4 a n \<in> set as \<Longrightarrow> n \<le> 32 \<and> if_name l \<noteq> ex"
  shows "snd (LocalOverlap (Some ls) p ex) \<longleftrightarrow> snd (localOverlap (Some ls) p)"
proof -
  have "addr_clash p x \<longleftrightarrow> link_overlap (BlockFromPrefix p) x" if "l \<in> set ls" "if_addrs l = Some as" "x \<in> set as" for l as x
  proof (cases x)
    case (Inet4 a n)
    with assms(2) that have "n \<le> 32" by blast
    with assms(1) show ?thesis
      unfolding Inet4 addr_clash.simps link_overlap_def if_addr.case
      by (simp add: overlap_block)
  next
    case OtherAddr
    then show ?thesis by (simp add: link_overlap_def)
  qed
  moreover have "if_name l \<noteq> ex" if "l \<in> set ls" "if_addrs l = Some as" "x \<in> set as" "addr_clash p x" for l as x
    using that assms(2) by (cases x) auto
  ultimately show ?thesis
    unfolding localOverlap_iff LocalOverlap_def option.case overlap_loop_iff by metis
qed

section \<open>A router to evaluate on\<close>

text \<open>A server that knows one announcement; its state says whether the announcement is attached.\<close>

definition demo_announcement :: announcement_response where
  "demo_announcement =
     \<lparr>ar_ID = 4, ar_NodeID = 1, ar_NodeName = ''router'', ar_Owner = ''admin'',
      ar_Subnet = ''192.168.1.0/24'', ar_Synthetic = Prefix_String (Prefix4 0x64600000 24)\<rparr>"

definition demo_api :: "bool router_api" where
  "demo_api =
     \<lparr>ra_zones = (\<lambda>a. Inl ''timeout''), ra_members = (\<lambda>z a. Inr []),
      ra_list = (\<lambda>z a. Inr (if a then [demo_announcement] else [])),
      ra_announce = (\<lambda>z n subnet a. (Inr demo_announcement, True)),
      ra_withdraw = (\<lambda>z i a. (None, False))\<rparr>"

definition demo_env :: "(string, 'a router_api) result \<Rightarrow> ('a, demo_state, nat_kernel) router_env" where
  "demo_env client =
     \<lparr>re_client = client, re_machine = demo_machine, re_config = demo_router, re_nat = model_nat, re_links = Some []\<rparr>"

lemma demo_env_sel [simp]:
  "re_client (demo_env client) = client" "re_machine (demo_env client) = demo_machine"
  "re_config (demo_env client) = demo_router" "re_nat (demo_env client) = model_nat"
  "re_links (demo_env client) = Some []"
  by (simp_all add: demo_env_def)

section \<open>Properties\<close>

text \<open>
  C27: a reconcile cycle that fails before the consumer routes leaves the router as it was, the
  translation table and the routes included; in no case does it change anything on the server.
\<close>

theorem failed_cycle_keeps:
  assumes "nat_contract (re_nat E) view" and "reconcileAll E rec s = (Some err, s')"
  shows "rt_server s' = rt_server s \<and>
    (rt_engine s' = rt_engine s \<and> view (rt_nat s') = view (rt_nat s) \<or> err = ''consumer routes'')"
proof -
  have nat: "rt_server s1 = rt_server s \<and> rt_engine s1 = rt_engine s \<and> (r \<noteq> None \<longrightarrow> view (rt_nat s1) = view (rt_nat s))"
    if "rebuild_nat E rec rules s = (r, s1)" for rules r s1
    using that nat_flush_Some [OF assms(1)]
    by (cases r) (auto simp: rebuild_nat_def nat_Rebuild_def split: option.splits prod.splits)
  from assms(2) show ?thesis
    by (auto simp: reconcileAll_def dest!: nat split: sum.splits prod.splits option.splits)
qed

theorem failed_cycle_keeps_witness:
  "\<exists>s'. reconcileAll (demo_env (Inr (demo_api\<lparr>ra_zones := \<lambda>a. Inr []\<rparr>))) \<lparr>rr_IP = '''', rr_Network = ''none'', rr_NodeID = 1\<rparr>
       \<lparr>rt_server = True, rt_engine = demo_engine [Prefix4 0x64600000 24] True, rt_nat = ([], [])\<rparr> =
      (Some ''state network'', s') \<and>
     eg_applied (rt_engine s') = [Prefix4 0x64600000 24] \<and> nat_view (rt_nat s') = nat_view ([], [])"
proof -
  let ?E = "demo_env (Inr (demo_api\<lparr>ra_zones := \<lambda>a. Inr []\<rparr>))"
  let ?rec = "\<lparr>rr_IP = '''', rr_Network = ''none'', rr_NodeID = 1\<rparr>"
  let ?s = "\<lparr>rt_server = True, rt_engine = demo_engine [Prefix4 0x64600000 24] True, rt_nat = ([], [])\<rparr>"
  have "ParsePrefix4 ''none'' = None" by code_simp
  then have r: "reconcileAll ?E ?rec ?s = (Some ''state network'', ?s)"
    by (simp add: reconcileAll_def fetch_member_zones_def MemberZones_def Fetch_def rebuild_nat_def bind_res_def)
  from failed_cycle_keeps [where E = ?E and view = nat_view, OF _ r] model_nat_contract r show ?thesis
    by (simp add: demo_engine_def)
qed

text \<open>
  C32: announcing a subnet again that is announced already (the server answers with the announcement it
  has and changes nothing) withdraws it when the local translation cannot be set up: the attachment
  that is taken back is not the command's own.
\<close>

theorem failed_reannounce_withdraws:
  assumes "ra_announce api zone (rr_NodeID rec) subnet (rt_server s) = (Inr ann, rt_server s)"
    and "ParsePrefix4 (ar_Synthetic ann) = Some synthetic"
    and "fst (rebuildFromServer E api rec s) \<noteq> None"
  shows "fst (cmdAnnounceAdd E api rec subnet zone s) = 1 \<and>
    rt_server (snd (cmdAnnounceAdd E api rec subnet zone s)) = snd (ra_withdraw api zone (ar_ID ann) (rt_server s))"
proof -
  have "rt_server s2 = rt_server s" if "rebuildFromServer E api rec s = (r, s2)" for r s2
    using that by (auto simp: rebuildFromServer_def dest!: fst_rebuild_nat_engine split: sum.splits prod.splits)
  moreover obtain e s2 where r: "rebuildFromServer E api rec s = (Some e, s2)"
    using assms(3) by (metis not_None_eq prod.collapse)
  ultimately have "rt_server s2 = rt_server s" by blast
  moreover have "s\<lparr>rt_server := rt_server s\<rparr> = s" by simp
  ultimately show ?thesis
    by (simp add: cmdAnnounceAdd_def assms(1,2) r compensate_def)
qed

theorem failed_reannounce_withdraws_witness:
  "\<exists>s'. cmdAnnounceAdd (demo_env (Inr demo_api)) demo_api \<lparr>rr_IP = '''', rr_Network = ''none'', rr_NodeID = 1\<rparr>
       ''192.168.1.0/24'' ''home''
       \<lparr>rt_server = True, rt_engine = demo_engine [] True, rt_nat = ([], [])\<rparr> = (1, s') \<and> \<not> rt_server s'"
proof -
  let ?rec = "\<lparr>rr_IP = '''', rr_Network = ''none'', rr_NodeID = 1\<rparr>"
  let ?s = "\<lparr>rt_server = True, rt_engine = demo_engine [] True, rt_nat = ([], [])\<rparr>"
  have "ParsePrefix4 (ar_Synthetic demo_announcement) = Some (Prefix4 0x64600000 24)"
    by (simp add: demo_announcement_def ParsePrefix4_String)
  moreover have "ra_announce demo_api ''home'' (rr_NodeID ?rec) ''192.168.1.0/24'' (rt_server ?s) = (Inr demo_announcement, rt_server ?s)"
    by (simp add: demo_api_def)
  moreover have "fst (rebuildFromServer (demo_env (Inr demo_api)) demo_api ?rec ?s) \<noteq> None"
    by (simp add: rebuildFromServer_def desired_def demo_api_def)
  moreover have "snd (ra_withdraw demo_api z i a) = False" for z i a by (simp add: demo_api_def)
  ultimately show ?thesis
    using failed_reannounce_withdraws [where s = ?s and rec = ?rec and E = "demo_env (Inr demo_api)" and api = demo_api
        and zone = "''home''" and subnet = "''192.168.1.0/24''" and ann = demo_announcement]
    by (simp add: prod_eq_iff)
qed

end
