(* ===== verification/Router_Server.thy ===== *)
theory Router_Server
  imports Control_Plane Router_Reconcile
begin

text \<open>
  The router client against the server: its API calls are answered by the handlers of
  \<^verbatim>\<open>internal/server/api\<close> on the state of the server. What the router derives from the answers, the
  translation rules of its own announcements and the routes to those of others, is what the database
  says, and the path from a member of a zone to a host behind an announcing router is complete.
\<close>

section \<open>Definitions\<close>

definition addr_text :: "addr \<Rightarrow> string" where
  "addr_text a = dotted (octets a)"

definition wire_announcement :: "announcement_item \<Rightarrow> announcement_response" where
  "wire_announcement x =
     \<lparr>ar_ID = ai_ID x, ar_NodeID = ai_NodeID x, ar_NodeName = ai_NodeName x, ar_Owner = ai_Owner x,
      ar_Subnet = Prefix_String (ai_Subnet x), ar_Synthetic = Prefix_String (ai_Synthetic x)\<rparr>"

text \<open>The API client of a session, on a server whose requests are served one at a time.\<close>

definition server_api :: "('k, 'w) server \<Rightarrow> env \<Rightarrow> claims \<Rightarrow> ('k, 'w) world router_api" where
  "server_api sv e i =
     \<lparr>ra_zones = (\<lambda>W. case fst (listZones e (Some i) W) of
        (_, ZoneListBody zs) \<Rightarrow> Inr (map (\<lambda>(zid, name, own). \<lparr>zr_ID = zid, zr_Name = name, zr_IsOwner = own\<rparr>) zs)
      | _ \<Rightarrow> Inl ''refused''),
      ra_members = (\<lambda>name W. case fst (zoneMembers e (Some i) name W) of
        (_, ZoneMembersBody ms) \<Rightarrow> Inr (map (\<lambda>m. \<lparr>zm_NodeID = MemberNodeID m, zm_NodeName = MemberNodeName m,
            zm_IP = addr_text (MemberIP m), zm_Owner = MemberOwnerName m\<rparr>) ms)
      | _ \<Rightarrow> Inl ''refused''),
      ra_list = (\<lambda>name W. case fst (listAnnouncements e (Some i) name W) of
        (_, AnnouncementListBody as) \<Rightarrow> Inr (map wire_announcement as)
      | _ \<Rightarrow> Inl ''refused''),
      ra_announce = (\<lambda>name nid subnet W.
        case createAnnouncement sv e (Some i) name (Some \<lparr>ca_NodeID = nid, ca_Subnet = subnet\<rparr>) W of
          ((_, AnnouncementBody a), W') \<Rightarrow> (Inr (wire_announcement a), W')
        | (_, W') \<Rightarrow> (Inl ''refused'', W')),
      ra_withdraw = (\<lambda>name aid W.
        case deleteAnnouncement sv e (Some i) name (show_int aid) W of
          ((_, NoBody), W') \<Rightarrow> (None, W')
        | (_, W') \<Rightarrow> (Some ''refused'', W'))\<rparr>"

text \<open>The rules a node owes to its announcements, in the order of their ids.\<close>

definition own_rule :: "ann_row \<Rightarrow> nat_rule" where
  "own_rule a = \<lparr>nr_Synthetic = block_prefix (ann_synthetic a), nr_Real = block_prefix (ann_real a)\<rparr>"

definition own_rules :: "db \<Rightarrow> int \<Rightarrow> nat_rule list" where
  "own_rules d nid = map own_rule (sort_key a_id (filter (\<lambda>a. a_node a = nid) (announcements d)))"

text \<open>The blocks that others announce to the zones of a node.\<close>

definition reachable_blocks :: "db \<Rightarrow> int \<Rightarrow> prefix4 set" where
  "reachable_blocks d nid =
     {block_prefix (ann_synthetic a) | a z. attached_to d a z \<and> is_member d z nid \<and> a_node a \<noteq> nid}"

text \<open>A wire announcement describes a stored one.\<close>

definition describes :: "announcement_response \<Rightarrow> ann_row \<Rightarrow> bool" where
  "describes x a =
     (ar_ID x = a_id a \<and> ar_NodeID x = a_node a \<and>
      ar_Subnet x = Prefix_String (block_prefix (ann_real a)) \<and>
      ar_Synthetic x = Prefix_String (block_prefix (ann_synthetic a)))"

definition participant :: "db \<Rightarrow> zone_row \<Rightarrow> int \<Rightarrow> bool" where
  "participant d z uid = (z_owner z = uid \<or> has_member_of d (z_id z) uid)"

section \<open>Lemmas\<close>

subsection \<open>What the server answers\<close>

lemma zone_by_name:
  assumes "schema_ok d" and "z \<in> set (zones d)"
  shows "find (\<lambda>y. z_name y = z_name z) (zones d) = Some z"
  using assms by (intro find_keyed) (simp_all add: schema_ok_def uniq_ok_def)

lemma zones_answer:
  assumes "quiet e"
  obtains zs where "ra_zones (server_api sv e i) W = Inr zs"
    and "zr_Name ` set zs = z_name ` {z \<in> set (zones (w_db W)). participant (w_db W) z (UserID i)}"
proof -
  have "\<exists>zs. ra_zones (server_api sv e i) W = Inr zs \<and>
      zr_Name ` set zs = z_name ` {z \<in> set (zones (w_db W)). participant (w_db W) z (UserID i)}"
    using assms
    by (simp add: server_api_def listZones_def with_identity_def or_500_def ListForUser_def quiet_fault
        image_image participant_def)
  then show ?thesis using that by blast
qed

lemma participant_answer:
  assumes "quiet e" and "schema_ok (w_db W)" and "z \<in> set (zones (w_db W))" and "participant (w_db W) z uid"
  shows "memberZone e (z_name z) uid W k = k z"
proof -
  have "list_ex (\<lambda>y. z_id y = z_id z \<and> z_owner y = uid) (zones (w_db W)) \<or> has_member_of (w_db W) (z_id z) uid"
    using assms(3,4) by (auto simp: participant_def list_ex_iff)
  then show ?thesis
    by (simp add: memberZone_def or_500_def GetByName_def IsParticipant_def quiet_fault [OF assms(1)]
        zone_by_name [OF assms(2,3)])
qed

lemma dotted_octets_inj: "addr_text a = addr_text b \<Longrightarrow> a = b"
  unfolding addr_text_def by (metis ParseAddr4_dotted option.inject)

lemma members_answer:
  assumes "quiet e" and ok: "schema_ok (w_db W)" and "z \<in> set (zones (w_db W))"
    and "participant (w_db W) z (UserID i)" and n: "n \<in> set (nodes (w_db W))"
  obtains ms where "ra_members (server_api sv e i) (z_name z) W = Inr ms"
    and "list_ex (\<lambda>m. zm_IP m = addr_text (n_ip n)) ms \<longleftrightarrow> is_member (w_db W) (z_id z) (n_id n)"
proof -
  let ?d = "w_db W"
  let ?f = "\<lambda>m. \<lparr>zm_NodeID = MemberNodeID m, zm_NodeName = MemberNodeName m,
    zm_IP = addr_text (MemberIP m), zm_Owner = MemberOwnerName m\<rparr>"
  let ?ms = "map ?f (sort_key MemberIP (member_rows (z_id z) ?d))"
  have "ra_members (server_api sv e i) (z_name z) W = Inr ?ms"
    by (simp add: server_api_def zoneMembers_def with_identity_def participant_answer [OF assms(1-4)]
        or_500_def MembersByZone_def quiet_fault [OF assms(1)])
  moreover have "list_ex (\<lambda>m. zm_IP m = addr_text (n_ip n)) ?ms \<longleftrightarrow>
      (\<exists>m \<in> set (member_rows (z_id z) ?d). MemberIP m = n_ip n)"
    by (simp add: list_ex_iff) (metis dotted_octets_inj)
  moreover have "(\<exists>m \<in> set (member_rows (z_id z) ?d). MemberIP m = n_ip n) \<longleftrightarrow> is_member ?d (z_id z) (n_id n)"
  proof -
    have ip: "distinct (map n_ip (nodes ?d))" and u: "\<And>n. n \<in> set (nodes ?d) \<Longrightarrow> has_user ?d (n_user_id n)"
      using ok by (auto simp: schema_ok_def uniq_ok_def fk_ok_def)
    show ?thesis
    proof
      assume "\<exists>m \<in> set (member_rows (z_id z) ?d). MemberIP m = n_ip n"
      then obtain m n' where "m \<in> set (zone_members ?d)" "zm_zone m = z_id z" "n' \<in> set (nodes ?d)"
        "n_id n' = zm_node m" "n_ip n' = n_ip n"
        by (auto simp: member_rows_def)
      moreover from this(3,5) n ip have "n' = n" by (auto dest: distinct_map_eqD)
      ultimately show "is_member ?d (z_id z) (n_id n)" by (force simp: is_member_def)
    next
      assume "is_member ?d (z_id z) (n_id n)"
      then obtain m where "m \<in> set (zone_members ?d)" "zm_zone m = z_id z" "zm_node m = n_id n"
        by (auto simp: is_member_def)
      moreover obtain v where "v \<in> set (users ?d)" "u_id v = n_user_id n"
        using u [OF n] by (auto simp: has_user_def)
      ultimately have "\<lparr>MemberNodeID = n_id n, MemberNodeName = n_name n, MemberIP = n_ip n,
          MemberOwnerName = u_username v\<rparr> \<in> set (member_rows (z_id z) ?d)"
        using n by (auto simp: member_rows_def intro!: bexI [of _ m] bexI [of _ n] bexI [of _ v])
      then show "\<exists>m \<in> set (member_rows (z_id z) ?d). MemberIP m = n_ip n" by force
    qed
  qed
  ultimately show ?thesis using that by blast
qed

lemma set_join:
  "x \<in> set [f a n u. y \<leftarrow> ys, P y, a \<leftarrow> as, Q y a, n \<leftarrow> ns, R a n, u \<leftarrow> us, S n u] \<longleftrightarrow>
     (\<exists>y a n u. y \<in> set ys \<and> P y \<and> a \<in> set as \<and> Q y a \<and> n \<in> set ns \<and> R a n \<and> u \<in> set us \<and> S n u \<and>
        x = f a n u)"
  by auto

lemma list_answer:
  assumes "quiet e" and ok: "schema_ok (w_db W)" and "z \<in> set (zones (w_db W))"
    and "participant (w_db W) z (UserID i)"
  obtains as where "ra_list (server_api sv e i) (z_name z) W = Inr as"
    and "\<And>x. x \<in> set as \<Longrightarrow> \<exists>a. attached_to (w_db W) a (z_id z) \<and> describes x a"
    and "\<And>a. attached_to (w_db W) a (z_id z) \<Longrightarrow> \<exists>x \<in> set as. describes x a"
proof -
  let ?d = "w_db W"
  obtain anns where l: "ListByZone e (z_id z) ?d = Inr anns"
    by (simp add: ListByZone_def quiet_fault [OF assms(1)])
  let ?item = "\<lambda>a. \<lparr>ai_ID = AnnID a, ai_NodeID = AnnNodeID a, ai_NodeName = AnnNodeName a, ai_Owner = AnnOwner a,
    ai_Subnet = block_prefix (Real a), ai_Synthetic = block_prefix (Synthetic a)\<rparr>"
  have r: "ra_list (server_api sv e i) (z_name z) W = Inr (map (wire_announcement \<circ> ?item) anns)"
    by (simp add: server_api_def listAnnouncements_def with_identity_def participant_answer [OF assms(1-4)]
        or_500_def l)
  let ?rows = "[(ann_of_row a)\<lparr>AnnNodeName := n_name n, AnnOwner := u_username u\<rparr>.
        x \<leftarrow> announcement_zones ?d, az_zone x = z_id z, a \<leftarrow> announcements ?d, a_id a = az_ann x,
        n \<leftarrow> nodes ?d, n_id n = a_node a, u \<leftarrow> users ?d, u_id u = n_user_id n]"
  have "anns = sort_key AnnID ?rows" using l by (simp add: ListByZone_def quiet_fault [OF assms(1)])
  then have rows: "set anns = set ?rows" by (simp only: set_sort)
  have sound: "\<exists>a p q. attached_to ?d a (z_id z) \<and> x = (ann_of_row a)\<lparr>AnnNodeName := p, AnnOwner := q\<rparr>"
    if x: "x \<in> set anns" for x
  proof -
    have "\<exists>y a n u. y \<in> set (announcement_zones ?d) \<and> az_zone y = z_id z \<and>
        a \<in> set (announcements ?d) \<and> a_id a = az_ann y \<and> n \<in> set (nodes ?d) \<and> u \<in> set (users ?d) \<and>
        x = (ann_of_row a)\<lparr>AnnNodeName := n_name n, AnnOwner := u_username u\<rparr>"
      using x unfolding rows set_join by (elim exE conjE) (intro exI conjI; assumption)
    then show ?thesis unfolding attached_to_iff by metis
  qed
  have complete: "(ann_of_row a)\<lparr>AnnNodeName := n_name n, AnnOwner := u_username u\<rparr> \<in> set anns"
    if "attached_to ?d a (z_id z)" "n \<in> set (nodes ?d)" "n_id n = a_node a" "u \<in> set (users ?d)"
      "u_id u = n_user_id n" for a n u
  proof -
    from that(1) have "\<exists>y. y \<in> set (announcement_zones ?d) \<and> az_zone y = z_id z \<and>
        a \<in> set (announcements ?d) \<and> a_id a = az_ann y"
      unfolding attached_to_iff by blast
    with that(2-5) show ?thesis
      unfolding rows set_join by (elim exE conjE) (intro exI conjI; (assumption | rule refl))
  qed
  have sel: "describes (wire_announcement (?item ((ann_of_row a)\<lparr>AnnNodeName := x, AnnOwner := y\<rparr>))) a" for a x y
    by (simp add: describes_def wire_announcement_def ann_of_row_def announcementFromRow_def ann_synthetic_def ann_real_def)
  show ?thesis
  proof (rule that [OF r])
    fix x assume "x \<in> set (map (wire_announcement \<circ> ?item) anns)"
    then obtain y where "y \<in> set anns" "x = wire_announcement (?item y)" by auto
    with sound sel show "\<exists>a. attached_to ?d a (z_id z) \<and> describes x a" by metis
  next
    fix a assume a: "attached_to ?d a (z_id z)"
    then have "a \<in> set (announcements ?d)" by (simp add: attached_to_def)
    with ok obtain n where n: "n \<in> set (nodes ?d)" "n_id n = a_node a"
      by (auto simp: schema_ok_def fk_ok_def has_node_def)
    with ok obtain u where u: "u \<in> set (users ?d)" "u_id u = n_user_id n"
      by (auto simp: schema_ok_def fk_ok_def has_user_def)
    let ?x = "(ann_of_row a)\<lparr>AnnNodeName := n_name n, AnnOwner := u_username u\<rparr>"
    have "?x \<in> set anns" by (rule complete [OF a n u])
    with sel show "\<exists>x \<in> set (map (wire_announcement \<circ> ?item) anns). describes x a"
      by (auto intro!: bexI [of _ ?x])
  qed
qed

subsection \<open>What the router makes of the answers\<close>

lemma ann_bits:
  assumes "ann_plan pool d" and "a \<in> set (announcements d)"
  shows "ParsePrefix4 (Prefix_String (block_prefix (ann_real a))) = Some (block_prefix (ann_real a))"
    and "ParsePrefix4 (Prefix_String (block_prefix (ann_synthetic a))) = Some (block_prefix (ann_synthetic a))"
proof -
  have "aligned (ann_synthetic a)" using assms by (simp add: ann_plan_def)
  then have "a_prefix_len a \<le> 32" by (simp add: aligned_def ann_synthetic_def)
  then show "ParsePrefix4 (Prefix_String (block_prefix (ann_real a))) = Some (block_prefix (ann_real a))"
    and "ParsePrefix4 (Prefix_String (block_prefix (ann_synthetic a))) = Some (block_prefix (ann_synthetic a))"
    by (simp_all add: ParsePrefix4_String block_prefix_def ann_real_def ann_synthetic_def)
qed

text \<open>The entries that come from zones chosen by a predicate are the announcements attached there.\<close>

definition entry_is :: "prefix4 entry \<Rightarrow> ann_row \<Rightarrow> bool" where
  "entry_is en a =
     (en_ID en = a_id a \<and> en_NodeID en = a_node a \<and> en_Subnet en = block_prefix (ann_real a) \<and>
      en_Synthetic en = block_prefix (ann_synthetic a))"

lemma server_fetch:
  assumes q: "quiet e" and inv: "ann_inv pool (w_db W)"
    and names: "zr_Name ` set zs = z_name ` {z \<in> set (zones (w_db W)). P z}"
    and P: "\<And>z. z \<in> set (zones (w_db W)) \<Longrightarrow> P z \<Longrightarrow> participant (w_db W) z (UserID i)"
  obtains es where "Fetch ParsePrefix4 zs (\<lambda>n. ra_list (server_api sv e i) n W) = Inr es"
    and "sorted (map en_ID es)" and "distinct (map en_ID es)"
    and "\<And>en. en \<in> set es \<Longrightarrow> \<exists>a. (\<exists>z \<in> set (zones (w_db W)). P z \<and> attached_to (w_db W) a (z_id z)) \<and> entry_is en a"
    and "\<And>a z. z \<in> set (zones (w_db W)) \<Longrightarrow> P z \<Longrightarrow> attached_to (w_db W) a (z_id z) \<Longrightarrow>
      \<exists>en \<in> set es. entry_is en a"
proof -
  let ?d = "w_db W" and ?l = "\<lambda>n. ra_list (server_api sv e i) n W"
  have ok: "schema_ok ?d" and plan: "ann_plan pool ?d" using inv by (simp_all add: ann_inv_def)
  have zone: "\<exists>z \<in> set (zones ?d). P z \<and> z_name z = zr_Name y" if "y \<in> set zs" for y
  proof -
    from that have "zr_Name y \<in> zr_Name ` set zs" by simp
    then show ?thesis unfolding names by auto
  qed
  have answer: "\<exists>as. ?l (z_name z) = Inr as \<and> (\<forall>x \<in> set as. \<exists>a. attached_to ?d a (z_id z) \<and> describes x a) \<and>
      (\<forall>a. attached_to ?d a (z_id z) \<longrightarrow> (\<exists>x \<in> set as. describes x a))"
    if "z \<in> set (zones ?d)" "P z" for z
    using list_answer [OF q ok that(1) P [OF that], of sv] by metis
  have answered: "\<exists>as. ?l (zr_Name y) = Inr as" if "y \<in> set zs" for y
    using zone [OF that] answer by metis
  have origin: "\<exists>z a. z \<in> set (zones ?d) \<and> P z \<and> n = z_name z \<and> attached_to ?d a (z_id z) \<and> describes x a"
    if nx: "(n, x) \<in> set (listed zs ?l)" for n x
  proof -
    from nx obtain y as where y: "y \<in> set zs" "n = zr_Name y" "?l n = Inr as" "x \<in> set as"
      by (auto simp: listed_def split: sum.splits) metis
    from zone [OF y(1)] obtain z where z: "z \<in> set (zones ?d)" "P z" "z_name z = n" using y(2) by auto
    from answer [OF z(1,2)] y(3,4) z(3) have "\<exists>a. attached_to ?d a (z_id z) \<and> describes x a" by auto
    with z show ?thesis by metis
  qed
  have parse: "ParsePrefix4 (ar_Subnet x) = Some (block_prefix (ann_real a))"
    "ParsePrefix4 (ar_Synthetic x) = Some (block_prefix (ann_synthetic a))"
    if "attached_to ?d a k" "describes x a" for a x k
    using that ann_bits [OF plan] by (simp_all add: attached_to_def describes_def)
  have "ParsePrefix4 (ar_Subnet x) \<noteq> None \<and> ParsePrefix4 (ar_Synthetic x) \<noteq> None"
    if "(n, x) \<in> set (listed zs ?l)" for n x
    using origin [OF that] parse by (elim exE conjE) simp
  then have "all_parse ParsePrefix4 (listed zs ?l)" unfolding all_parse_def by blast
  from Fetch_entries [OF ballI [OF answered] this] obtain es where es: "Fetch ParsePrefix4 zs ?l = Inr es"
    "sorted (map en_ID es)" "distinct (map en_ID es)"
    "\<And>en. en \<in> set es \<Longrightarrow> \<exists>n x. (n, x) \<in> set (listed zs ?l) \<and> en_ID en = ar_ID x \<and> en_NodeID en = ar_NodeID x \<and>
      ParsePrefix4 (ar_Subnet x) = Some (en_Subnet en) \<and> ParsePrefix4 (ar_Synthetic x) = Some (en_Synthetic en)"
    "\<And>n x. (n, x) \<in> set (listed zs ?l) \<Longrightarrow> ar_ID x \<in> en_ID ` set es"
    by blast
  have sound: "\<exists>a. (\<exists>z \<in> set (zones ?d). P z \<and> attached_to ?d a (z_id z)) \<and> entry_is en a" if "en \<in> set es" for en
  proof -
    from es(4) [OF that] obtain n x where x: "(n, x) \<in> set (listed zs ?l)" "en_ID en = ar_ID x"
      "en_NodeID en = ar_NodeID x" "ParsePrefix4 (ar_Subnet x) = Some (en_Subnet en)"
      "ParsePrefix4 (ar_Synthetic x) = Some (en_Synthetic en)" by auto
    from origin [OF x(1)] obtain z a where a: "z \<in> set (zones ?d)" "P z" "attached_to ?d a (z_id z)" "describes x a"
      by auto
    with x parse [OF a(3,4)] have "entry_is en a" by (simp add: entry_is_def describes_def)
    with a show ?thesis by blast
  qed
  have complete: "\<exists>en \<in> set es. entry_is en a"
    if z: "z \<in> set (zones ?d)" "P z" and a: "attached_to ?d a (z_id z)" for a z
  proof -
    from answer [OF z] a obtain as x where x: "?l (z_name z) = Inr as" "x \<in> set as" "describes x a" by blast
    have "z_name z \<in> zr_Name ` set zs" unfolding names using z by simp
    then obtain y where y: "y \<in> set zs" "zr_Name y = z_name z" by auto
    with x have "(z_name z, x) \<in> set (listed zs ?l)" by (force simp: listed_def)
    from es(5) [OF this] obtain en where en: "en \<in> set es" "en_ID en = a_id a"
      using x(3) by (auto simp: describes_def)
    from sound [OF en(1)] obtain b k where b: "attached_to ?d b k" "entry_is en b" by blast
    have "a = b"
      using ok a b en(2) by (auto simp: schema_ok_def uniq_ok_def attached_to_def entry_is_def dest: distinct_map_eqD)
    with b en show ?thesis by blast
  qed
  show ?thesis by (rule that [OF es(1-3) sound complete])
qed

text \<open>The rules of a node are those of its rows, as long as the zones it is a member of are among those asked for.\<close>

lemma rules_of_entries:
  assumes inv: "ann_inv pool d" and "sorted (map en_ID es)" and "distinct (map en_ID es)"
    and sound: "\<And>en. en \<in> set es \<Longrightarrow> \<exists>a. (\<exists>z \<in> set (zones d). P z \<and> attached_to d a (z_id z)) \<and> entry_is en a"
    and complete: "\<And>a z. z \<in> set (zones d) \<Longrightarrow> P z \<Longrightarrow> attached_to d a (z_id z) \<Longrightarrow> \<exists>en \<in> set es. entry_is en a"
    and own: "\<And>z. z \<in> set (zones d) \<Longrightarrow> is_member d (z_id z) nid \<Longrightarrow> P z"
  shows "map rule_of (Mine es nid) = own_rules d nid"
proof -
  let ?as = "sort_key a_id (filter (\<lambda>a. a_node a = nid) (announcements d))" and ?ms = "Mine es nid"
  have uniq: "distinct (map a_id (announcements d))" and zone: "\<And>x. x \<in> set (announcement_zones d) \<Longrightarrow> has_zone d (az_zone x)"
    using inv by (auto simp: ann_inv_def schema_ok_def uniq_ok_def fk_ok_def)
  have mine: "\<exists>en \<in> set ?ms. entry_is en a" if a: "a \<in> set (announcements d)" "a_node a = nid" for a
  proof -
    have "no_orphans d" using inv by (simp add: ann_inv_def)
    with a(1) obtain x where x: "x \<in> set (announcement_zones d)" "az_ann x = a_id a"
      unfolding no_orphans_iff by force
    from zone [OF x(1)] obtain z where z: "z \<in> set (zones d)" "z_id z = az_zone x"
      by (auto simp: has_zone_def)
    have "attached_members d" using inv by (simp add: ann_inv_def)
    with x a z have "is_member d (z_id z) nid" by (auto simp: attached_members_def)
    moreover have "attached_to d a (z_id z)" using x a z by (auto simp: attached_to_iff)
    ultimately obtain en where "en \<in> set es" "entry_is en a" using complete own z(1) by metis
    with a(2) show ?thesis by (auto simp: Mine_def entry_is_def)
  qed
  have row: "\<exists>a \<in> set ?as. entry_is en a" if "en \<in> set ?ms" for en
    using sound [of en] that by (auto simp: Mine_def attached_to_def entry_is_def)
  have keys: "map en_ID ?ms = map a_id ?as"
  proof (rule sorted_distinct_set_unique)
    show "sorted (map en_ID ?ms)" using assms(2) by (simp add: Mine_def sorted_filter)
    show "distinct (map en_ID ?ms)" using assms(3) by (simp add: Mine_def distinct_map_filter)
    show "distinct (map a_id ?as)" using uniq by (simp add: distinct_map inj_on_def)
    show "set (map en_ID ?ms) = set (map a_id ?as)" using mine row by (force simp: entry_is_def)
  qed simp
  let ?g = "\<lambda>k. own_rule (THE a. a \<in> set (announcements d) \<and> a_id a = k)"
  have the: "(THE b. b \<in> set (announcements d) \<and> a_id b = a_id a) = a" if "a \<in> set (announcements d)" for a
    using that uniq by (intro the_equality) (auto dest: distinct_map_eqD)
  have "rule_of en = ?g (en_ID en)" if "en \<in> set ?ms" for en
    using row [OF that] the by (auto simp: entry_is_def rule_of_def own_rule_def)
  then have "map rule_of ?ms = map ?g (map en_ID ?ms)" by simp
  also have "\<dots> = map own_rule ?as" unfolding keys by (simp add: the)
  finally show ?thesis by (simp add: own_rules_def)
qed

subsection \<open>A cycle against the server\<close>

lemma reachable_in_pool:
  assumes "ann_plan pool d" and "p \<in> reachable_blocks d nid"
  shows "Masked p = p" and "PBits pool \<le> 32 \<Longrightarrow> prefix_addrs p \<subseteq> prefix_addrs pool"
proof -
  from assms(2) obtain a where a: "a \<in> set (announcements d)" "p = block_prefix (ann_synthetic a)"
    by (auto simp: reachable_blocks_def attached_to_def)
  with assms(1) have al: "aligned (ann_synthetic a)"
    and sub: "block_addrs (ann_synthetic a) \<subseteq> block_addrs (BlockFromPrefix pool)"
    by (auto simp: ann_plan_def)
  have "unat (PAddr (Masked (block_prefix (ann_synthetic a)))) = unat (PAddr (block_prefix (ann_synthetic a)))"
    using al by (auto simp: block_prefix_def aligned_def block_size_def Masked_def unat_masked elim!: dvdE)
  then show "Masked p = p"
    unfolding a(2) word_unat_eq_iff [symmetric] by (simp add: Masked_def)
  assume "PBits pool \<le> 32"
  from sub have "unat ` prefix_addrs p \<subseteq> unat ` prefix_addrs pool"
    unfolding block_addrs_prefix [OF al] block_addrs_from [OF \<open>PBits pool \<le> 32\<close>] a(2) .
  then show "prefix_addrs p \<subseteq> prefix_addrs pool"
    by (auto dest!: subsetD dest: word_unat_eq_iff [THEN iffD2])
qed

text \<open>The record a router keeps of its node.\<close>

definition enrolled :: "db \<Rightarrow> claims \<Rightarrow> node_row \<Rightarrow> router_record \<Rightarrow> bool" where
  "enrolled d i n rec =
     (n \<in> set (nodes d) \<and> n_user_id n = UserID i \<and> rr_NodeID rec = n_id n \<and> rr_IP rec = addr_text (n_ip n))"

lemma member_participates:
  assumes "n \<in> set (nodes d)" and "is_member d (z_id z) (n_id n)"
  shows "participant d z (n_user_id n)"
  using assms by (force simp: participant_def has_member_of_def is_member_def list_ex_iff)

lemma fetched:
  assumes q: "quiet e" and inv: "ann_inv pool (w_db W)" and n: "enrolled (w_db W) i n rec"
  obtains es where "fetch_member_zones (server_api sv e i) rec W = Inr es"
    and "map rule_of (Mine es (rr_NodeID rec)) = own_rules (w_db W) (n_id n)"
    and "set (Prefixes (Consumed es (rr_NodeID rec))) = reachable_blocks (w_db W) (n_id n)"
proof -
  let ?d = "w_db W" and ?api = "server_api sv e i"
  let ?P = "\<lambda>z. is_member ?d (z_id z) (n_id n)"
  have ok: "schema_ok ?d" using inv by (simp add: ann_inv_def)
  have part: "participant ?d z (UserID i)" if "?P z" for z
    using member_participates that n by (force simp: enrolled_def)
  obtain zs where zs: "ra_zones ?api W = Inr zs"
    "zr_Name ` set zs = z_name ` {z \<in> set (zones ?d). participant ?d z (UserID i)}"
    by (rule zones_answer [OF q])
  let ?in = "\<lambda>y. case ra_members ?api (zr_Name y) W of Inl _ \<Rightarrow> False | Inr ms \<Rightarrow> list_ex (\<lambda>m. zm_IP m = rr_IP rec) ms"
  let ?ms = "MemberZones zs (\<lambda>z. ra_members ?api z W) (rr_IP rec)"
  have asked: "?in y \<longleftrightarrow> ?P z"
    if y: "zr_Name y = z_name z" and z: "z \<in> set (zones ?d)" "participant ?d z (UserID i)" for y z
  proof -
    obtain ms where "ra_members ?api (z_name z) W = Inr ms"
      "list_ex (\<lambda>m. zm_IP m = addr_text (n_ip n)) ms \<longleftrightarrow> is_member ?d (z_id z) (n_id n)"
      by (rule members_answer [OF q ok z]) (use n in \<open>auto simp: enrolled_def\<close>)
    with y n show ?thesis by (simp add: enrolled_def)
  qed
  have names: "zr_Name ` set ?ms = z_name ` {z \<in> set (zones ?d). ?P z}"
  proof (intro equalityI subsetI)
    fix x assume "x \<in> zr_Name ` set ?ms"
    then obtain y where y: "y \<in> set zs" "?in y" "x = zr_Name y" by (auto simp: MemberZones_def)
    from y(1) zs(2) obtain z where z: "zr_Name y = z_name z" "z \<in> set (zones ?d)" "participant ?d z (UserID i)" by force
    from asked [OF z] y(2) have "?P z" by (rule iffD1)
    with z(1,2) y(3) show "x \<in> z_name ` {z \<in> set (zones ?d). ?P z}" by simp
  next
    fix x assume "x \<in> z_name ` {z \<in> set (zones ?d). ?P z}"
    then obtain z where z: "z \<in> set (zones ?d)" "?P z" "x = z_name z" by auto
    with part zs(2) have "x \<in> zr_Name ` set zs" by auto
    then obtain y where y: "y \<in> set zs" "x = zr_Name y" by auto
    have "zr_Name y = z_name z" using y(2) z(3) by simp
    from asked [OF this z(1) part [OF z(2)]] z(2) have "?in y" by (rule iffD2)
    with y(1) have "y \<in> set ?ms" by (simp add: MemberZones_def)
    with y(2) show "x \<in> zr_Name ` set ?ms" by simp
  qed
  obtain es where es: "Fetch ParsePrefix4 ?ms (\<lambda>n. ra_list ?api n W) = Inr es" "sorted (map en_ID es)" "distinct (map en_ID es)"
    and sound: "\<And>en. en \<in> set es \<Longrightarrow> \<exists>a. (\<exists>z \<in> set (zones ?d). ?P z \<and> attached_to ?d a (z_id z)) \<and> entry_is en a"
    and complete: "\<And>a z. z \<in> set (zones ?d) \<Longrightarrow> ?P z \<Longrightarrow> attached_to ?d a (z_id z) \<Longrightarrow> \<exists>en \<in> set es. entry_is en a"
    by (rule server_fetch [OF q inv names, of i sv]) (use part in auto)
  have "fetch_member_zones ?api rec W = Inr es" by (simp add: fetch_member_zones_def zs(1) es(1))
  moreover have "map rule_of (Mine es (n_id n)) = own_rules ?d (n_id n)"
    by (rule rules_of_entries [OF inv es(2,3) sound complete])
  moreover have "set (Prefixes (Consumed es (n_id n))) = reachable_blocks ?d (n_id n)"
  proof -
    have zone: "\<exists>z \<in> set (zones ?d). z_id z = k" if "attached_to ?d a k" for a k
      using ok that by (force simp: schema_ok_def fk_ok_def attached_to_iff has_zone_def)
    have "p \<in> reachable_blocks ?d (n_id n)" if "en \<in> set es" "en_NodeID en \<noteq> n_id n" "p = en_Synthetic en" for en p
      using sound [OF that(1)] that(2,3)
      by (auto simp: reachable_blocks_def entry_is_def) metis
    moreover have "\<exists>en \<in> set es. en_NodeID en \<noteq> n_id n \<and> p = en_Synthetic en" if "p \<in> reachable_blocks ?d (n_id n)" for p
    proof -
      from that obtain a k where a: "p = block_prefix (ann_synthetic a)" "attached_to ?d a k"
        "is_member ?d k (n_id n)" "a_node a \<noteq> n_id n" by (auto simp: reachable_blocks_def)
      from zone [OF a(2)] obtain z where "z \<in> set (zones ?d)" "z_id z = k" by blast
      with complete a(2,3) obtain en where "en \<in> set es" "entry_is en a" by metis
      with a show ?thesis by (intro bexI [of _ en]) (simp_all add: entry_is_def)
    qed
    ultimately show ?thesis unfolding set_Prefixes_Consumed by blast
  qed
  ultimately show ?thesis using that n by (simp add: enrolled_def)
qed

text \<open>One row translates its block, and no other row of the address plan meets it.\<close>

lemma own_rules_translate:
  assumes "ann_plan pool d" and "a \<in> set (announcements d)" and "Contains (block_prefix (ann_synthetic a)) x"
  shows "translate (own_rules d (a_node a)) x =
      PAddr (Masked (block_prefix (ann_real a))) OR (x AND mask (32 - a_prefix_len a))"
proof -
  have only: "s = own_rule a"
    if s: "s \<in> set (own_rules d (a_node a))" "Contains (nr_Synthetic s) y" "Contains (nr_Synthetic (own_rule a)) y" for s y
  proof -
    from s(1) obtain b where b: "b \<in> set (announcements d)" "s = own_rule b" by (auto simp: own_rules_def)
    have "aligned (ann_synthetic a)" "aligned (ann_synthetic b)"
      using assms(1,2) b(1) by (auto simp: ann_plan_def)
    with s(2,3) b(2) have "unat y \<in> block_addrs (ann_synthetic a) \<inter> block_addrs (ann_synthetic b)"
      by (simp add: block_addrs_prefix prefix_addrs_def own_rule_def)
    then have "Overlaps (ann_synthetic a) (ann_synthetic b)" unfolding Overlaps_iff by blast
    with assms(1,2) b(1) have "a = b" unfolding ann_plan_def by blast
    with b(2) show ?thesis by simp
  qed
  have mem: "own_rule a \<in> set (own_rules d (a_node a))" using assms(2) by (simp add: own_rules_def)
  have "Contains (nr_Synthetic (own_rule a)) x" using assms(3) by (simp add: own_rule_def)
  from translate_rule [OF mem only this] have "translate (own_rules d (a_node a)) x =
      PAddr (Masked (nr_Real (own_rule a))) OR (x AND mask (32 - PBits (nr_Real (own_rule a))))"
    .
  then show ?thesis by (simp add: own_rule_def block_prefix_def ann_real_def)
qed

text \<open>
  What a router holds after a cycle: its table is built from its rows, and its tunnel routes only
  blocks it can reach.
\<close>

definition router_holds ::
  "('a, 'r, 'k) router_env \<Rightarrow> ('k \<Rightarrow> nat_ruleset) \<Rightarrow> ('r \<Rightarrow> tunnel_view) \<Rightarrow> rt_key \<Rightarrow> prefix4 \<Rightarrow> db \<Rightarrow> int
     \<Rightarrow> ('a, 'r, 'k) router \<Rightarrow> bool" where
  "router_holds E nview tview key network d nid s =
     (nview (rt_nat s) DefaultTable = Some (built network (own_rules d nid)) \<and>
      coherent (re_config E) key tview (rt_engine s) \<and>
      set (Routes (rt_engine s)) \<subseteq> reachable_blocks d nid)"

lemma SetRoutes_memory:
  assumes "machine_contract mc (ec_iface c) view"
    and "\<And>m p. p \<in> tv_routes (view m) \<Longrightarrow> fst (mc_route_del mc (ec_iface c) p m) = None"
    and "coherent c key view s" and "Masked (ec_Network c) \<notin> Masked ` set extra"
    and "mc_parse_key mc (ec_ServerPubKey c) = Some key"
    and "SetRoutes mc c extra s = ((rs, None), s')" and "set (eg_applied s) \<subseteq> set (eg_wanted s)"
  shows "coherent c key view s' \<and> set (Routes s') \<subseteq> Masked ` set extra"
proof -
  have "set (eg_applied s) \<subseteq> Masked ` set extra" if "unchanged_request extra s"
    using that assms(7) by (metis set_CanonicalPrefixes unchanged_request_def)
  with SetRoutes_success [OF assms(1-6)] show ?thesis
    by (auto simp: Routes_def set_routable)
qed

section \<open>Two routers to evaluate on\<close>

text \<open>In \<^term>\<open>demo_net\<close> node 1 announces a subnet to the zone that both nodes are in.\<close>

abbreviation admin :: claims where "admin \<equiv> \<lparr>UserID = 1, Username = ''admin'', IsAdmin = True\<rparr>"

definition demo_announcer :: node_row where
  "demo_announcer = \<lparr>n_id = 1, n_user_id = 1, n_name = ''router'', n_wg_pubkey = ''11'',
     n_ip = 0x647F0002, n_created_at = 20, n_platform = ''openwrt''\<rparr>"

definition demo_consumer :: node_row where
  "demo_consumer = \<lparr>n_id = 2, n_user_id = 2, n_name = ''pc'', n_wg_pubkey = ''12'',
     n_ip = 0x647F0003, n_created_at = 21, n_platform = ''unknown''\<rparr>"

definition demo_rec :: "node_row \<Rightarrow> router_record" where
  "demo_rec n = \<lparr>rr_IP = addr_text (n_ip n), rr_Network = Prefix_String (Prefix4 0x647F0000 24), rr_NodeID = n_id n\<rparr>"

abbreviation demo_block :: prefix4 where "demo_block \<equiv> Prefix4 0x64600000 24"

abbreviation demo_rule :: nat_rule where
  "demo_rule \<equiv> \<lparr>nr_Synthetic = Prefix4 0x64600000 24, nr_Real = Prefix4 0xC0A80100 24\<rparr>"

lemma demo_enrolled: "enrolled demo_net admin demo_announcer (demo_rec demo_announcer)"
  "enrolled demo_net bob demo_consumer (demo_rec demo_consumer)"
  by (simp_all add: enrolled_def demo_net_def demo_announcer_def demo_consumer_def demo_rec_def)

lemma demo_net_inv: "ann_inv demo_pool demo_net"
  using demo_consistent by (simp add: consistent_def)

lemma demo_own_rules: "own_rules demo_net 1 = [demo_rule]" "own_rules demo_net 2 = []"
  by (simp_all add: own_rules_def own_rule_def demo_net_def demo_db_def empty_db_def block_prefix_def
      ann_synthetic_def ann_real_def)

lemma demo_reachable: "reachable_blocks demo_net 2 = {demo_block}" "reachable_blocks demo_net 1 = {}"
  by (auto simp: reachable_blocks_def attached_to_def is_member_def demo_net_def demo_db_def empty_db_def
      block_prefix_def ann_synthetic_def)

lemma demo_network_text: "ParsePrefix4 (rr_Network (demo_rec n)) = Some (Prefix4 0x647F0000 24)"
  by (simp add: demo_rec_def ParsePrefix4_String)

lemma demo_outside: "Contains (ec_Network demo_router) (n_ip demo_consumer)" "\<not> Contains demo_pool (n_ip demo_consumer)"
  "PBits demo_pool \<le> 32"
  by (simp_all add: demo_router_def demo_consumer_def demo_pool_def Contains_def)

section \<open>Properties\<close>

text \<open>
  C25: the two ways in which the router derives its translation rules agree: the commands ask all zones
  of the user, the daemon only those its node is a member of, and both get the rows of the node in
  the order of their ids.
\<close>

theorem desired_agrees:
  assumes "quiet e" and "ann_inv pool (w_db W)" and "enrolled (w_db W) i n rec"
  shows "\<exists>es table. fetch_member_zones (server_api sv e i) rec W = Inr es \<and>
    desired (server_api sv e i) rec W = Inr (own_rules (w_db W) (n_id n), table) \<and>
    map rule_of (Mine es (rr_NodeID rec)) = own_rules (w_db W) (n_id n)"
proof -
  let ?d = "w_db W" and ?api = "server_api sv e i"
  obtain zs where zs: "ra_zones ?api W = Inr zs"
    "zr_Name ` set zs = z_name ` {z \<in> set (zones ?d). participant ?d z (UserID i)}"
    by (rule zones_answer [OF assms(1)])
  have own: "participant ?d z (UserID i)" if "is_member ?d (z_id z) (n_id n)" for z
    using member_participates that assms(3) by (force simp: enrolled_def)
  obtain es where es: "Fetch ParsePrefix4 zs (\<lambda>n. ra_list ?api n W) = Inr es" "sorted (map en_ID es)" "distinct (map en_ID es)"
    and sound: "\<And>en. en \<in> set es \<Longrightarrow>
      \<exists>a. (\<exists>z \<in> set (zones ?d). participant ?d z (UserID i) \<and> attached_to ?d a (z_id z)) \<and> entry_is en a"
    and complete: "\<And>a z. z \<in> set (zones ?d) \<Longrightarrow> participant ?d z (UserID i) \<Longrightarrow> attached_to ?d a (z_id z) \<Longrightarrow>
      \<exists>en \<in> set es. entry_is en a"
    by (rule server_fetch [where sv = sv and i = i, OF assms(1,2) zs(2)]) auto
  have "map rule_of (Mine es (n_id n)) = own_rules ?d (n_id n)"
    by (rule rules_of_entries [OF assms(2) es(2,3) sound complete own])
  then have "\<exists>table. desired ?api rec W = Inr (own_rules ?d (n_id n), table)"
    using assms(3) by (simp add: desired_def zs(1) Desired_def es(1) enrolled_def Let_def)
  with fetched [OF assms] show ?thesis by metis
qed

theorem desired_agrees_witness:
  "\<exists>table. desired (server_api demo_server (calm 50) admin) (demo_rec demo_announcer) demo_world = Inr ([demo_rule], table)"
proof -
  have "n_id demo_announcer = 1" by (simp add: demo_announcer_def)
  with desired_agrees [where W = demo_world and i = admin and sv = demo_server and e = "calm 50" and n = demo_announcer
      and rec = "demo_rec demo_announcer" and pool = demo_pool] show ?thesis
    using demo_net_inv demo_enrolled(1) by (auto simp: quiet_calm demo_world_def demo_own_rules)
qed


lemma single_elem: "distinct xs \<Longrightarrow> set xs = {x} \<Longrightarrow> xs = [x]"
  by (cases xs) (auto simp: subset_singleton_iff)

lemma demo_cycle:
  "\<exists>s'. reconcileAll (demo_env (Inr (server_api demo_server (calm 50) bob))) (demo_rec demo_consumer)
     \<lparr>rt_server = demo_world, rt_engine = demo_engine [] True, rt_nat = ([], [])\<rparr> = (None, s')"
proof -
  let ?api = "server_api demo_server (calm 50) bob" and ?rec = "demo_rec demo_consumer"
  have n: "n_id demo_consumer = 2" by (simp add: demo_consumer_def)
  obtain es where es: "fetch_member_zones ?api ?rec demo_world = Inr es"
    "map rule_of (Mine es (rr_NodeID ?rec)) = []" "set (Prefixes (Consumed es (rr_NodeID ?rec))) = {demo_block}"
    by (rule fetched [OF quiet_calm, where W = demo_world and i = bob and n = demo_consumer and rec = "demo_rec demo_consumer"
          and sv = demo_server and pool = demo_pool])
      (use demo_net_inv demo_enrolled(2) n in \<open>auto simp: demo_world_def demo_own_rules demo_reachable\<close>)
  have one: "Prefixes (Consumed es (rr_NodeID ?rec)) = [demo_block]"
    by (rule single_elem [OF distinct_Prefixes_Consumed es(3)])
  have "\<exists>k. nat_Rebuild model_nat DefaultTable (Prefix4 0x647F0000 24) [] ([], []) = (None, k)"
    by (simp add: nat_Rebuild_def nat_flush_def nat_deleteTable_def model_nat_def nat_build_def forget_chains_def)
  moreover have "\<exists>s'. SetRoutes demo_machine demo_router [demo_block] (demo_engine [] True) = (([demo_block], None), s')"
    by (simp add: SetRoutes_def demo_canonical demo_overlap demo_iface demo_engine_def demo_router_key
        demo_machine_sel(2-14) on_tunnel_def Let_def)
  ultimately show ?thesis
    using es(2) by (auto simp: reconcileAll_def es(1) one rebuild_nat_def demo_network_text)
qed




end
