(* ===== verification/Server_Config.thy ===== *)
theory Server_Config
  imports Complex_Main Netip_Text Ipam
begin

text \<open>
  \<^verbatim>\<open>internal/server/config\<close>: the defaults, the three-state switches and the validation of the server's
  configuration once it is decoded. \<^verbatim>\<open>net.SplitHostPort\<close> is modelled; \<^verbatim>\<open>net.ParseCIDR\<close>,
  \<^verbatim>\<open>time.ParseDuration\<close>, the certificate loader and the file system are the functions of \<open>config_env\<close>. A rate
  is a rational number. \<^verbatim>\<open>Validate\<close> returns the problems it has found, in order.
\<close>

section \<open>Definitions\<close>

record server_config =
  sc_Listen :: string
  sc_TLS :: "bool option"
  sc_TLSCert :: string
  sc_TLSKey :: string
  sc_DataDir :: string
  sc_APIDocs :: "bool option"

record ratelimit_config =
  rl_RPS :: rat
  rl_Burst :: int

record config_wireguard =
  cw_Network :: string
  cw_ListenPort :: int
  cw_Interface :: string
  cw_MTU :: int
  cw_Endpoint :: string

record auth_config =
  ac_JWTSecret :: string
  ac_JWTTTL :: string
  ac_InviteTTL :: string

record admin_config =
  ad_Username :: string
  ad_Password :: string

record limits_config =
  li_MaxDevicesPerUser :: "int option"
  li_MaxOwnedZonesPerUser :: "int option"
  li_MaxAnnouncedSubnetsPerUser :: "int option"

record config =
  cf_Server :: server_config
  cf_LogLevel :: string
  cf_RateLimit :: ratelimit_config
  cf_WireGuard :: config_wireguard
  cf_Table :: string
  cf_Auth :: auth_config
  cf_Admin :: admin_config
  cf_Limits :: limits_config
  cf_AnnouncePool :: string

definition TLSEnabled :: "server_config \<Rightarrow> bool" where
  "TLSEnabled s = (sc_TLS s = None \<or> sc_TLS s = Some True)"

definition APIDocsEnabled :: "server_config \<Rightarrow> bool" where
  "APIDocsEnabled s = (sc_APIDocs s = None \<or> sc_APIDocs s = Some True)"

definition defaultPerUserLimit :: int where "defaultPerUserLimit = 10"

definition or_default :: "'a \<Rightarrow> 'a \<Rightarrow> 'a \<Rightarrow> 'a" where
  "or_default zero fallback x = (if x = zero then fallback else x)"

definition default_limit :: "int option \<Rightarrow> int option" where
  "default_limit v = (case v of None \<Rightarrow> Some defaultPerUserLimit | Some x \<Rightarrow> Some x)"

definition applyDefaults :: "config \<Rightarrow> config" where
  "applyDefaults c =
     c\<lparr>cf_LogLevel := or_default '''' ''info'' (cf_LogLevel c),
       cf_RateLimit := \<lparr>rl_RPS = or_default 0 100 (rl_RPS (cf_RateLimit c)),
                        rl_Burst = or_default 0 200 (rl_Burst (cf_RateLimit c))\<rparr>,
       cf_Auth := (cf_Auth c)\<lparr>ac_JWTTTL := or_default '''' ''2h'' (ac_JWTTTL (cf_Auth c))\<rparr>,
       cf_Table := or_default '''' ''lanweave'' (cf_Table c),
       cf_Limits := \<lparr>li_MaxDevicesPerUser = default_limit (li_MaxDevicesPerUser (cf_Limits c)),
                     li_MaxOwnedZonesPerUser = default_limit (li_MaxOwnedZonesPerUser (cf_Limits c)),
                     li_MaxAnnouncedSubnetsPerUser = default_limit (li_MaxAnnouncedSubnetsPerUser (cf_Limits c))\<rparr>\<rparr>"

subsection \<open>Addresses of the standard library\<close>

definition cut_last :: "char \<Rightarrow> string \<Rightarrow> (string \<times> string) option" where
  "cut_last c s = map_option (\<lambda>(a, b). (rev b, rev a)) (cut_at c (rev s))"

definition SplitHostPort :: "string \<Rightarrow> (string \<times> string) option" where
  "SplitHostPort s =
     (case cut_last CHR '':'' s of
        None \<Rightarrow> None
      | Some (before, port) \<Rightarrow>
          if has_prefix s ''['' then
            (case cut_at CHR '']'' s of
               None \<Rightarrow> None
             | Some (opened, rest) \<Rightarrow>
                 if length opened + 1 \<noteq> length before \<or> CHR ''['' \<in> set (tl s) \<or> CHR '']'' \<in> set rest then None
                 else Some (tl opened, port))
          else if CHR '':'' \<in> set before \<or> CHR ''['' \<in> set s \<or> CHR '']'' \<in> set s then None
          else Some (before, port))"

text \<open>
  The network \<^verbatim>\<open>net.ParseCIDR\<close> returns, an address with its host bits zero and a length. \<open>to4\<close> is
  \<^verbatim>\<open>IP.To4\<close>, under which an IPv4 network written as an IPv6 one counts as IPv4; \<open>net_contains n m\<close> is
  \<^verbatim>\<open>n.Contains(m.IP)\<close>.
\<close>

datatype cidr = Cidr4 prefix4 | Cidr6 "128 word" nat

fun to4 :: "cidr \<Rightarrow> prefix4 option" where
  "to4 (Cidr4 p) = Some p"
| "to4 (Cidr6 a n) = (if drop_bit 32 a = 0xFFFF then Some (Prefix4 (ucast a) (n - 96)) else None)"

fun net_contains :: "cidr \<Rightarrow> cidr \<Rightarrow> bool" where
  "net_contains n m =
     (case (to4 n, to4 m) of
        (Some p, Some q) \<Rightarrow> Contains p (PAddr q)
      | (None, None) \<Rightarrow>
          (case (n, m) of
             (Cidr6 a k, Cidr6 b _) \<Rightarrow> drop_bit (128 - k) (a XOR b) = 0
           | _ \<Rightarrow> False)
      | _ \<Rightarrow> False)"

subsection \<open>Validation\<close>

record config_env =
  ce_cidr :: "string \<Rightarrow> cidr option"
  ce_duration :: "string \<Rightarrow> int option"
  ce_readable :: "string \<Rightarrow> bool"
  ce_key_pair :: "string \<Rightarrow> string \<Rightarrow> bool"
  ce_is_dir :: "string \<Rightarrow> bool option"
  ce_writable :: "string \<Rightarrow> bool"

definition requireReadable :: "config_env \<Rightarrow> string \<Rightarrow> string \<Rightarrow> string list" where
  "requireReadable env field path =
     (if path = '''' then [field @ '' is required''] else if ce_readable env path then [] else [field])"

definition check_listen :: "string \<Rightarrow> string list" where
  "check_listen listen =
     (if listen = '''' then [''server.listen is required'']
      else if SplitHostPort listen = None then [''server.listen is not host:port''] else [])"

definition check_tls :: "config_env \<Rightarrow> server_config \<Rightarrow> string list" where
  "check_tls env s =
     (if \<not> TLSEnabled s then []
      else let cert = requireReadable env ''server.tls_cert'' (sc_TLSCert s);
               key = requireReadable env ''server.tls_key'' (sc_TLSKey s)
           in cert @ key @
              (if cert = [] \<and> key = [] \<and> \<not> ce_key_pair env (sc_TLSCert s) (sc_TLSKey s)
               then [''server tls cert/key invalid''] else []))"

definition check_data_dir :: "config_env \<Rightarrow> string \<Rightarrow> string list" where
  "check_data_dir env dir =
     (if dir = '''' then [''server.data_dir is required'']
      else case ce_is_dir env dir of
        None \<Rightarrow> [''server.data_dir'']
      | Some False \<Rightarrow> [''server.data_dir is not a directory'']
      | Some True \<Rightarrow> if ce_writable env dir then [] else [''server.data_dir not writable''])"

text \<open>\<^verbatim>\<open>int(x)\<close> of a floating-point number cuts the fraction off.\<close>

definition truncated :: "rat \<Rightarrow> int" where
  "truncated r = (if r < 0 then \<lceil>r\<rceil> else \<lfloor>r\<rfloor>)"

definition check_rate :: "ratelimit_config \<Rightarrow> string list" where
  "check_rate r =
     (if rl_RPS r \<le> 0 then [''ratelimit.rps must be > 0''] else []) @
     (if rl_Burst r < truncated (rl_RPS r) then [''ratelimit.burst must be >= ratelimit.rps''] else [])"

definition check_wireguard :: "config_env \<Rightarrow> config_wireguard \<Rightarrow> string list" where
  "check_wireguard env w =
     (if cw_Network w = '''' then [''wireguard.network is required'']
      else if ce_cidr env (cw_Network w) = None then [''wireguard.network is not a valid CIDR''] else []) @
     (if cw_Endpoint w = '''' then [''wireguard.endpoint is required'']
      else if SplitHostPort (cw_Endpoint w) = None then [''wireguard.endpoint is not host:port''] else [])"

definition check_auth :: "config_env \<Rightarrow> auth_config \<Rightarrow> string list" where
  "check_auth env a =
     (if length (ac_JWTSecret a) < 32 then [''auth.jwt_secret must be at least 32 bytes''] else []) @
     (if ce_duration env (ac_JWTTTL a) = None then [''auth.jwt_ttl is not a valid duration''] else []) @
     (if ac_InviteTTL a = '''' then []
      else case ce_duration env (ac_InviteTTL a) of
        None \<Rightarrow> [''auth.invite_ttl is not a valid duration'']
      | Some d \<Rightarrow> if d < 0 then [''auth.invite_ttl must not be negative''] else [])"

definition check_admin :: "admin_config \<Rightarrow> string list" where
  "check_admin a =
     (if ad_Username a = '''' then [''admin.username is required'']
      else if 64 < length (ad_Username a) then [''admin.username must be <= 64 characters''] else []) @
     (if ad_Password a = '''' then [''admin.password is required''] else [])"

definition check_limit :: "string \<Rightarrow> int option \<Rightarrow> string list" where
  "check_limit field v =
     (case v of Some x \<Rightarrow> if x < 0 then [field @ '' must be >= 0''] else [] | None \<Rightarrow> [])"

definition check_pool :: "config_env \<Rightarrow> string \<Rightarrow> string \<Rightarrow> string list" where
  "check_pool env pool network =
     (if pool = '''' then []
      else case ce_cidr env pool of
        None \<Rightarrow> [''announce.pool is not a valid IPv4 CIDR'']
      | Some p \<Rightarrow>
          if to4 p = None then [''announce.pool is not a valid IPv4 CIDR'']
          else if network = '''' then []
          else case ce_cidr env network of
            None \<Rightarrow> []
          | Some n \<Rightarrow>
              if net_contains p n \<or> net_contains n p then [''announce.pool overlaps wireguard.network''] else [])"

definition Validate_config :: "config_env \<Rightarrow> config \<Rightarrow> string list" where
  "Validate_config env c =
     check_listen (sc_Listen (cf_Server c)) @
     check_tls env (cf_Server c) @
     check_data_dir env (sc_DataDir (cf_Server c)) @
     (if cf_LogLevel c \<in> {''debug'', ''info'', ''warn'', ''error''} then [] else [''log.level'']) @
     check_rate (cf_RateLimit c) @
     check_wireguard env (cf_WireGuard c) @
     (if CHR '' '' \<in> set (cf_Table c) \<or> CHR 0x09 \<in> set (cf_Table c) then [''nftables.table must be a bare name''] else []) @
     check_auth env (cf_Auth c) @
     check_admin (cf_Admin c) @
     check_limit ''limits.max_devices_per_user'' (li_MaxDevicesPerUser (cf_Limits c)) @
     check_limit ''limits.max_owned_zones_per_user'' (li_MaxOwnedZonesPerUser (cf_Limits c)) @
     check_limit ''limits.max_announced_subnets_per_user'' (li_MaxAnnouncedSubnetsPerUser (cf_Limits c)) @
     check_pool env (cf_AnnouncePool c) (cw_Network (cf_WireGuard c))"

subsection \<open>What the libraries promise\<close>

text \<open>
  Where both libraries read a text as an IPv4 prefix they mean the same network; this is what the
  documentation of \<^verbatim>\<open>netip.ParsePrefix\<close> and \<^verbatim>\<open>net.ParseCIDR\<close> says of the notation.
\<close>

definition cidr_agrees :: "(string \<Rightarrow> cidr option) \<Rightarrow> (string \<Rightarrow> netip_prefix option) \<Rightarrow> bool" where
  "cidr_agrees cidr parse =
     (\<forall>s p. parse s = Some (P4 p) \<longrightarrow> PBits p \<le> 32 \<and> cidr s = Some (Cidr4 (Masked p)))"

section \<open>Lemmas\<close>

subsection \<open>Host and port\<close>

lemma cut_last_split: "c \<notin> set ys \<Longrightarrow> cut_last c (xs @ c # ys) = Some (xs, ys)"
  using cut_at_split [of c "rev ys" "rev xs"] by (simp add: cut_last_def)

lemma SplitHostPort_plain:
  assumes "set host \<inter> {CHR '':'', CHR ''['', CHR '']''} = {}" and "set port \<inter> {CHR '':'', CHR ''['', CHR '']''} = {}"
  shows "SplitHostPort (host @ '':'' @ port) = Some (host, port)"
proof -
  have "cut_last CHR '':'' (host @ '':'' @ port) = Some (host, port)"
    using cut_last_split [of "CHR '':''" port host] assms(2) by auto
  moreover have "\<not> has_prefix (host @ '':'' @ port) ''[''"
    using assms(1) by (cases host) (auto simp: has_prefix_def)
  ultimately show ?thesis using assms by (auto simp: SplitHostPort_def)
qed

lemma SplitHostPort_bracketed:
  assumes "set host \<inter> {CHR ''['', CHR '']''} = {}" and "set port \<inter> {CHR '':'', CHR ''['', CHR '']''} = {}"
  shows "SplitHostPort (''['' @ host @ '']:'' @ port) = Some (host, port)"
proof -
  let ?s = "''['' @ host @ '']:'' @ port"
  have "cut_last CHR '':'' ?s = Some (''['' @ host @ '']'', port)"
    using cut_last_split [of "CHR '':''" port "''['' @ host @ '']''"] assms(2) by auto
  moreover have "cut_at CHR '']'' ?s = Some (''['' @ host, CHR '':'' # port)"
    using cut_at_split [of "CHR '']''" "''['' @ host" "CHR '':'' # port"] assms(1) by auto
  ultimately show ?thesis using assms by (auto simp: SplitHostPort_def has_prefix_def)
qed

lemma SplitHostPort_needs_port: "CHR '':'' \<notin> set s \<Longrightarrow> SplitHostPort s = None"
  by (simp add: SplitHostPort_def cut_last_def cut_at_none)

subsection \<open>Defaults\<close>

lemma applyDefaults_idem: "applyDefaults (applyDefaults c) = applyDefaults c"
  by (simp add: applyDefaults_def or_default_def default_limit_def defaultPerUserLimit_def split: option.splits)

lemma applyDefaults_limits:
  "li_MaxDevicesPerUser (cf_Limits (applyDefaults c)) =
     (case li_MaxDevicesPerUser (cf_Limits c) of None \<Rightarrow> Some 10 | Some x \<Rightarrow> Some x)"
  by (simp add: applyDefaults_def default_limit_def defaultPerUserLimit_def split: option.splits)

subsection \<open>Accepted configurations\<close>

lemma networks_disjoint:
  assumes "\<not> Contains (Masked p) (PAddr (Masked q))" and "\<not> Contains (Masked q) (PAddr (Masked p))"
    and "PBits p \<le> 32" and "PBits q \<le> 32"
  shows "prefix_addrs p \<inter> prefix_addrs q = {}"
proof -
  have "\<not> OverlapsP (Masked p) (Masked q)"
    using assms OverlapsP_shorter [of "Masked p" "Masked q"] OverlapsP_shorter [of "Masked q" "Masked p"]
      OverlapsP_sym [of "Masked p" "Masked q"]
    by (cases "PBits p \<le> PBits q") simp_all
  with assms(3,4) show ?thesis by (simp add: OverlapsP_meet)
qed

lemma accepted_pool:
  assumes "Validate_config env c = []" and "cidr_agrees (ce_cidr env) parse"
    and "parse (cw_Network (cf_WireGuard c)) = Some (P4 n)" and "parse (cf_AnnouncePool c) = Some (P4 p)"
    and "cf_AnnouncePool c \<noteq> ''''"
  shows "prefix_addrs p \<inter> prefix_addrs n = {}" and "PBits p \<le> 32"
proof -
  have "check_pool env (cf_AnnouncePool c) (cw_Network (cf_WireGuard c)) = []"
    and "check_wireguard env (cf_WireGuard c) = []"
    using assms(1) by (simp_all add: Validate_config_def)
  then have "\<not> Contains (Masked p) (PAddr (Masked n))" "\<not> Contains (Masked n) (PAddr (Masked p))"
    using assms(2-5) by (auto simp: check_pool_def check_wireguard_def cidr_agrees_def split: if_splits)
  then show "prefix_addrs p \<inter> prefix_addrs n = {}" by (rule networks_disjoint) (use assms(2-4) in \<open>auto simp: cidr_agrees_def\<close>)
  show "PBits p \<le> 32" using assms(2,4) by (simp add: cidr_agrees_def)
qed

end
