(* ===== verification/Status_Tracker.thy ===== *)
theory Status_Tracker
  imports Wg
begin

text \<open>
  \<^verbatim>\<open>internal/server/status\<close>: the cache of last-handshake times behind the online flag of a node. A time
  is a number of nanoseconds since Go's zero time, which stands for a peer that has never shaken hands.
  The clock is an argument; the goroutine that polls is the list of what its polls returned.
\<close>

section \<open>Definitions\<close>

type_synonym snapshot = "string \<rightharpoonup> int"

definition Threshold :: int where "Threshold = 180 * 1000000000"

definition new_tracker :: snapshot where "new_tracker = (\<lambda>_. None)"

definition refresh_snapshot :: "(string, snapshot) result \<Rightarrow> snapshot \<Rightarrow> string option \<times> snapshot" where
  "refresh_snapshot source t =
     (case source of
        Inl err \<Rightarrow> (Some err, t)
      | Inr snap \<Rightarrow> (None, snap))"

text \<open>\<^verbatim>\<open>Run\<close>: one refresh at once and one for every tick; an error is logged.\<close>

definition run_tracker :: "(string, snapshot) result list \<Rightarrow> snapshot \<Rightarrow> snapshot" where
  "run_tracker polls t = fold (\<lambda>source t. snd (refresh_snapshot source t)) polls t"

definition Online :: "snapshot \<Rightarrow> int \<Rightarrow> string \<Rightarrow> bool" where
  "Online t now pubKey =
     (case t pubKey of
        None \<Rightarrow> False
      | Some ts \<Rightarrow> if ts = 0 then False else now - ts < Threshold)"

definition tracked_handshake :: "snapshot \<Rightarrow> string \<Rightarrow> int option" where
  "tracked_handshake t pubKey =
     (case t pubKey of
        None \<Rightarrow> None
      | Some ts \<Rightarrow> if ts = 0 then None else Some ts)"

text \<open>The device state of the last poll that could read the device.\<close>

definition last_read :: "'w host \<Rightarrow> string \<Rightarrow> 'w list \<Rightarrow> 'w option" where
  "last_read h dev ws = find (\<lambda>w. \<exists>peers. wg_device h dev w = Inr peers) (rev ws)"

section \<open>Lemmas\<close>

lemma run_tracker_last:
  "run_tracker (map (Handshakes h dev) ws) new_tracker =
     (case last_read h dev ws of
        None \<Rightarrow> new_tracker
      | Some w \<Rightarrow> (case Handshakes h dev w of Inr snap \<Rightarrow> snap | Inl _ \<Rightarrow> new_tracker))"
proof (induction ws rule: rev_induct)
  case Nil
  then show ?case by (simp add: run_tracker_def last_read_def)
next
  case (snoc w ws)
  show ?case
  proof (cases "wg_device h dev w")
    case (Inl err)
    then have "Handshakes h dev w = Inl ''read device''" by (simp add: Handshakes_def)
    with snoc Inl show ?thesis
      by (simp add: run_tracker_def last_read_def refresh_snapshot_def)
  next
    case (Inr peers)
    then show ?thesis
      by (simp add: run_tracker_def last_read_def refresh_snapshot_def Handshakes_def)
  qed
qed

lemma fold_upd_mem:
  "distinct (map (\<lambda>(k, t). f k) xs) \<Longrightarrow>
     fold (\<lambda>(k, t) m. m(f k \<mapsto> t)) xs m a = Some v \<longleftrightarrow>
       (\<exists>k. (k, v) \<in> set xs \<and> f k = a) \<or> a \<notin> (\<lambda>(k, t). f k) ` set xs \<and> m a = Some v"
proof (induction xs arbitrary: m)
  case Nil
  then show ?case by simp
next
  case (Cons x xs)
  obtain k t where x: "x = (k, t)" by fastforce
  from Cons.prems x have "f k \<notin> (\<lambda>(k, t). f k) ` set xs" "distinct (map (\<lambda>(k, t). f k) xs)" by auto
  with Cons.IH [of "m(f k \<mapsto> t)"] x show ?case by (auto simp: image_iff)
qed

lemma Online_iff: "Online t now key \<longleftrightarrow> (\<exists>ts. t key = Some ts \<and> ts \<noteq> 0 \<and> now - ts < Threshold)"
  by (auto simp: Online_def split: option.splits)

section \<open>Properties\<close>

text \<open>
  C30: a node is shown online exactly when the last poll that could read the device reports a handshake
  of its key younger than the threshold; polls that fail change nothing, and before the first that
  succeeds everybody is offline. So while the device cannot be read everybody ends up offline, once the
  threshold has passed.
\<close>

theorem online_follows_last_read:
  assumes "\<And>w peers. wg_device h dev w = Inr peers \<Longrightarrow> distinct (map (\<lambda>(k, t). key_string h k) peers)"
  shows "Online (run_tracker (map (Handshakes h dev) ws) new_tracker) now key \<longleftrightarrow>
      (\<exists>w peers k t. last_read h dev ws = Some w \<and> wg_device h dev w = Inr peers \<and>
         (k, t) \<in> set peers \<and> key_string h k = key \<and> t \<noteq> 0 \<and> now - t < Threshold)"
proof (cases "last_read h dev ws")
  case None
  then have "run_tracker (map (Handshakes h dev) ws) new_tracker = (\<lambda>_. None)"
    by (simp add: run_tracker_last) (simp add: new_tracker_def)
  with None show ?thesis by (simp add: Online_iff)
next
  case (Some w)
  then obtain peers where peers: "wg_device h dev w = Inr peers"
    by (auto simp: last_read_def dest: find_Some_mem)
  then have snap: "run_tracker (map (Handshakes h dev) ws) new_tracker =
      fold (\<lambda>(k, t) m. m(key_string h k \<mapsto> t)) peers (\<lambda>_. None)"
    by (simp add: run_tracker_last Some Handshakes_def)
  have "Online (run_tracker (map (Handshakes h dev) ws) new_tracker) now key \<longleftrightarrow>
      (\<exists>k t. (k, t) \<in> set peers \<and> key_string h k = key \<and> t \<noteq> 0 \<and> now - t < Threshold)"
    unfolding snap Online_iff fold_upd_mem [OF assms [OF peers]] by auto
  with Some peers show ?thesis by auto
qed

text \<open>A device that reports one peer, or cannot be read.\<close>

definition flaky_device :: "int option host" where
  "flaky_device = \<lparr>
     parse_key = (\<lambda>_. None), key_string = (\<lambda>k. show_nat (unat k)), wg_open = (\<lambda>_. None),
     wg_configure = (\<lambda>_ c s. (None, s)),
     wg_device = (\<lambda>_ s. case s of None \<Rightarrow> Inl ''gone'' | Some t \<Rightarrow> Inr [(11, t)]),
     link_by_name = (\<lambda>_ _. Inr ''wireguard''), link_add = (\<lambda>_ w. (None, w)),
     link_set_mtu = (\<lambda>_ _ w. (None, w)), addr_replace = (\<lambda>_ _ _ w. (None, w)),
     link_set_up = (\<lambda>_ w. (None, w)), route_replace = (\<lambda>_ _ w. (None, w)) \<rparr>"

theorem online_follows_last_read_witness:
  "Online (run_tracker (map (Handshakes flaky_device ''wg0'') [Some 900000000000, None]) new_tracker) 1000000000000 ''11'' \<and>
   \<not> Online (run_tracker (map (Handshakes flaky_device ''wg0'') [Some 900000000000, None]) new_tracker) 1080000000000 ''11''"
proof -
  have key: "show_nat 11 = ''11''" by code_simp
  have one: "distinct (map (\<lambda>(k, t). key_string flaky_device k) peers)" if "wg_device flaky_device dev w = Inr peers" for dev w peers
    using that by (auto simp: flaky_device_def split: option.splits)
  have read: "last_read flaky_device ''wg0'' [Some 900000000000, None] = Some (Some 900000000000)"
    by (simp add: last_read_def flaky_device_def)
  have dev: "wg_device flaky_device ''wg0'' (Some t) = Inr [(11, t)]" "key_string flaky_device 11 = ''11''" for t
    by (simp_all add: flaky_device_def key)
  have "Online (run_tracker (map (Handshakes flaky_device ''wg0'') [Some 900000000000, None]) new_tracker) now ''11'' \<longleftrightarrow>
      now - 900000000000 < Threshold" for now
    using online_follows_last_read [of flaky_device "''wg0''" "[Some 900000000000, None]" now "''11''", OF one]
    by (simp only: read) (auto simp: dev)
  then show ?thesis by (simp only: Threshold_def) simp
qed

end
