(* ===== verification/Go_Base64.thy ===== *)
theory Go_Base64
  imports LW_Prelude
begin

text \<open>
  \<^verbatim>\<open>encoding/base64\<close> and \<^verbatim>\<open>encoding/hex\<close> of Go's standard library, as the sources use them: the
  standard alphabet, padded (\<open>StdEncoding\<close>) or not (\<open>RawStdEncoding\<close>), and lower-case hexadecimal. A
  decoder passes over line breaks, and does not look at the unused low bits of the last character.
\<close>

section \<open>Definitions\<close>

definition b64_alphabet :: string where
  "b64_alphabet = ''ABCDEFGHIJKLMNOPQRSTUVWXYZabcdefghijklmnopqrstuvwxyz0123456789+/''"

definition b64_char :: "nat \<Rightarrow> char" where
  "b64_char n = b64_alphabet ! n"

fun position :: "char \<Rightarrow> string \<Rightarrow> nat option" where
  "position c [] = None"
| "position c (x # xs) = (if x = c then Some 0 else map_option Suc (position c xs))"

definition b64_val :: "char \<Rightarrow> nat option" where
  "b64_val c = position c b64_alphabet"

definition code :: "char \<Rightarrow> nat" where
  "code c = of_char c"

fun b64_encode :: "bool \<Rightarrow> string \<Rightarrow> string" where
  "b64_encode padded [] = []"
| "b64_encode padded [a] =
     [b64_char (code a div 4), b64_char (code a mod 4 * 16)] @ (if padded then ''=='' else [])"
| "b64_encode padded [a, b] =
     [b64_char (code a div 4), b64_char (code a mod 4 * 16 + code b div 16), b64_char (code b mod 16 * 4)] @
     (if padded then ''='' else [])"
| "b64_encode padded (a # b # c # s) =
     [b64_char (code a div 4), b64_char (code a mod 4 * 16 + code b div 16),
      b64_char (code b mod 16 * 4 + code c div 64), b64_char (code c mod 64)] @ b64_encode padded s"

definition b64_bytes :: "nat \<Rightarrow> nat \<Rightarrow> nat \<Rightarrow> nat \<Rightarrow> string" where
  "b64_bytes x y z w = [char_of (x * 4 + y div 16), char_of (y mod 16 * 16 + z div 4), char_of (z mod 4 * 64 + w)]"

text \<open>The quantum of four characters, and the shorter one at the end.\<close>

fun b64_quanta :: "bool \<Rightarrow> string \<Rightarrow> string option" where
  "b64_quanta padded [] = Some []"
| "b64_quanta padded [a] = None"
| "b64_quanta padded [a, b] =
     (case (b64_val a, b64_val b) of
        (Some x, Some y) \<Rightarrow> if padded then None else Some (take 1 (b64_bytes x y 0 0))
      | _ \<Rightarrow> None)"
| "b64_quanta padded [a, b, c] =
     (case (b64_val a, b64_val b, b64_val c) of
        (Some x, Some y, Some z) \<Rightarrow> if padded then None else Some (take 2 (b64_bytes x y z 0))
      | _ \<Rightarrow> None)"
| "b64_quanta padded (a # b # c # d # s) =
     (case (b64_val a, b64_val b) of
        (Some x, Some y) \<Rightarrow>
          (case (b64_val c, b64_val d) of
             (Some z, Some w) \<Rightarrow> map_option ((@) (b64_bytes x y z w)) (b64_quanta padded s)
           | (Some z, None) \<Rightarrow>
               if padded \<and> d = CHR ''='' \<and> s = [] then Some (take 2 (b64_bytes x y z 0)) else None
           | (None, _) \<Rightarrow>
               if padded \<and> c = CHR ''='' \<and> d = CHR ''='' \<and> s = [] then Some (take 1 (b64_bytes x y 0 0)) else None)
      | _ \<Rightarrow> None)"

definition b64_decode :: "bool \<Rightarrow> string \<Rightarrow> string option" where
  "b64_decode padded s = b64_quanta padded (filter (\<lambda>c. c \<noteq> CHR 0x0A \<and> c \<noteq> CHR 0x0D) s)"

definition hex_char :: "nat \<Rightarrow> char" where
  "hex_char n = ''0123456789abcdef'' ! n"

definition hex_encode :: "string \<Rightarrow> string" where
  "hex_encode s = concat (map (\<lambda>c. [hex_char (code c div 16), hex_char (code c mod 16)]) s)"

section \<open>Lemmas\<close>

lemma code_less: "code c < 256"
  by (simp add: code_def)

lemma char_of_code [simp]: "char_of (code c) = c"
  by (simp add: code_def)

lemma position_nth: "distinct xs \<Longrightarrow> n < length xs \<Longrightarrow> position (xs ! n) xs = Some n"
  by (induction xs arbitrary: n) (auto simp: nth_Cons split: nat.splits)

lemma position_Some: "position c xs = Some n \<Longrightarrow> n < length xs \<and> xs ! n = c"
  by (induction xs arbitrary: n) (auto split: if_splits)

lemma position_None: "position c xs = None \<longleftrightarrow> c \<notin> set xs"
  by (induction xs) auto

lemma b64_alphabet_ok: "distinct b64_alphabet" "length b64_alphabet = 64"
  by (simp_all add: b64_alphabet_def)

lemma b64_val_char: "n < 64 \<Longrightarrow> b64_val (b64_char n) = Some n"
  by (simp add: b64_val_def b64_char_def position_nth b64_alphabet_ok)

lemma b64_char_mem: "n < 64 \<Longrightarrow> b64_char n \<in> set b64_alphabet"
  by (simp add: b64_char_def b64_alphabet_ok)

lemma b64_val_pad: "b64_val CHR ''='' = None"
  by (simp add: b64_val_def position_None b64_alphabet_def)

lemma digits:
  fixes x y k :: nat
  assumes "y < k"
  shows "(x * k + y) div k = x" "(x * k + y) mod k = y"
  using assms by simp_all

lemma bit_groups: "code b div 16 < 16" "code c div 64 < 4" "code a div 4 < 64"
  using code_less [of a] code_less [of b] code_less [of c] by simp_all

lemma sextets:
  "code a div 4 < 64" "code a mod 4 * 16 < 64" "code a mod 4 * 16 + code b div 16 < 64"
  "code b mod 16 * 4 < 64" "code b mod 16 * 4 + code c div 64 < 64" "code c mod 64 < 64"
proof -
  have "code a mod 4 < 4" "code b mod 16 < 16" "code c mod 64 < 64" by simp_all
  with bit_groups(1) [of b] bit_groups(2) [of c] bit_groups(3) [of a] show
    "code a div 4 < 64" "code a mod 4 * 16 < 64" "code a mod 4 * 16 + code b div 16 < 64"
    "code b mod 16 * 4 < 64" "code b mod 16 * 4 + code c div 64 < 64" "code c mod 64 < 64"
    by linarith+
qed

lemma b64_bytes_sextets:
  "b64_bytes (code a div 4) (code a mod 4 * 16 + code b div 16) (code b mod 16 * 4 + code c div 64) (code c mod 64) = [a, b, c]"
  unfolding b64_bytes_def digits [OF bit_groups(1)] digits [OF bit_groups(2)] div_mult_mod_eq
  by simp

lemma b64_bytes_short:
  "take (Suc 0) (b64_bytes (code a div 4) (code a mod 4 * 16) 0 0) = [a]"
  "take 2 (b64_bytes (code a div 4) (code a mod 4 * 16 + code b div 16) (code b mod 16 * 4) 0) = [a, b]"
proof -
  have "(code a mod 4 * 16) div 16 = code a mod 4" "(code b mod 16 * 4) div 4 = code b mod 16" by simp_all
  then show "take (Suc 0) (b64_bytes (code a div 4) (code a mod 4 * 16) 0 0) = [a]"
    "take 2 (b64_bytes (code a div 4) (code a mod 4 * 16 + code b div 16) (code b mod 16 * 4) 0) = [a, b]"
    unfolding b64_bytes_def digits [OF bit_groups(1)] by (simp_all only: div_mult_mod_eq) (simp_all add: numeral_2_eq_2)
qed

lemma b64_encode_chars: "set (b64_encode padded s) \<subseteq> insert (CHR ''='') (set b64_alphabet)"
  by (induction padded s rule: b64_encode.induct) (auto simp: b64_char_mem sextets)

lemma b64_alphabet_clean: "list_all (\<lambda>c. graphic c \<and> c \<noteq> CHR ''$'') (CHR ''='' # b64_alphabet)"
  by code_simp

lemma b64_encode_clean: "c \<in> set (b64_encode padded s) \<Longrightarrow> graphic c \<and> c \<noteq> CHR ''$''"
  using b64_encode_chars [of padded s] b64_alphabet_clean unfolding list_all_iff by auto

lemma b64_quanta_encode: "b64_quanta padded (b64_encode padded s) = Some s"
  by (induction padded s rule: b64_encode.induct)
    (simp_all add: b64_val_char sextets b64_bytes_sextets b64_bytes_short b64_val_pad)

lemma b64_roundtrip: "b64_decode padded (b64_encode padded s) = Some s"
proof -
  have "filter (\<lambda>c. c \<noteq> CHR 0x0A \<and> c \<noteq> CHR 0x0D) (b64_encode padded s) = b64_encode padded s"
    by (rule filter_True) (auto dest!: b64_encode_clean simp: graphic_def)
  then show ?thesis by (simp add: b64_decode_def b64_quanta_encode)
qed

lemma hex_encode_length: "length (hex_encode s) = 2 * length s"
  by (induction s) (simp_all add: hex_encode_def)

lemma hex_char_graphic: "n < 16 \<Longrightarrow> graphic (hex_char n) \<and> hex_char n \<noteq> CHR ''=''"
proof -
  have "\<forall>c \<in> set ''0123456789abcdef''. graphic c \<and> c \<noteq> CHR ''=''" by (simp add: graphic_def)
  moreover assume "n < 16"
  then have "hex_char n \<in> set ''0123456789abcdef''" unfolding hex_char_def by (intro nth_mem) simp
  ultimately show ?thesis by blast
qed

lemma hex_encode_chars: "c \<in> set (hex_encode s) \<Longrightarrow> graphic c \<and> c \<noteq> CHR ''=''"
proof -
  have "code x div 16 < 16" for x using code_less [of x] by linarith
  then show "c \<in> set (hex_encode s) \<Longrightarrow> graphic c \<and> c \<noteq> CHR ''=''"
    by (auto simp: hex_encode_def hex_char_graphic)
qed

lemma hex_encode_inject: "hex_encode s = hex_encode t \<longleftrightarrow> s = t"
proof
  have d: "distinct ''0123456789abcdef''" by simp
  have hc: "hex_char m = hex_char n \<longleftrightarrow> m = n" if "m < 16" "n < 16" for m n
    unfolding hex_char_def by (rule nth_eq_iff_index_eq [OF d]) (use that in simp_all)
  have lt: "code x div 16 < 16" for x using code_less [of x] by linarith
  show "hex_encode s = hex_encode t \<Longrightarrow> s = t"
  proof (induction s arbitrary: t)
    case Nil
    then show ?case by (cases t) (simp_all add: hex_encode_def)
  next
    case (Cons a s)
    then obtain b t' where t: "t = b # t'" by (cases t) (simp_all add: hex_encode_def)
    with Cons.prems have "hex_char (code a div 16) = hex_char (code b div 16)"
      "hex_char (code a mod 16) = hex_char (code b mod 16)" "hex_encode s = hex_encode t'"
      by (simp_all add: hex_encode_def)
    then have "code a div 16 = code b div 16" "code a mod 16 = code b mod 16"
      using hc lt by simp_all
    then have "code a = code b" by (metis div_mult_mod_eq)
    then have "a = b" by (metis char_of_code)
    with t Cons.IH [of t'] \<open>hex_encode s = hex_encode t'\<close> show ?case by simp
  qed
qed simp

end
