(* ===== verification/Auth.thy ===== *)
theory Auth
  imports Netip_Text Go_Base64
begin

text \<open>
  \<^verbatim>\<open>internal/server/auth\<close>: password hashes in the PHC format (\<^verbatim>\<open>password.go\<close>) and session tokens
  (\<^verbatim>\<open>jwt.go\<close>). Argon2id and the JWT library are parameters; what \<^verbatim>\<open>fmt.Sscanf\<close> does with the formats the code uses is modelled. A time is a number of nanoseconds. Byte
  strings are strings.
\<close>

section \<open>Definitions\<close>

subsection \<open>Scanning\<close>

text \<open>
  Before a number white space is skipped, but a line break ends the scan; a number is the longest run
  of digits, for a signed one after an optional sign, and must fit.
\<close>

definition scan_space :: "string \<Rightarrow> string option" where
  "scan_space s =
     (let r = trim_left_fuel (length s) (filter (\<lambda>b. b \<noteq> bytes [10]) space_runes) s
      in if has_prefix r (bytes [10]) then None else Some r)"

definition scan_digits :: "string \<Rightarrow> (nat \<times> string) option" where
  "scan_digits s =
     (let ds = takeWhile (\<lambda>c. digit_val c \<noteq> None) s
      in map_option (\<lambda>n. (n, drop (length ds) s)) (parse_nat ds))"

definition scan_uint :: "nat \<Rightarrow> string \<Rightarrow> (nat \<times> string) option" where
  "scan_uint bits s =
     (case scan_space s of
        None \<Rightarrow> None
      | Some r \<Rightarrow>
          (case scan_digits r of
             None \<Rightarrow> None
           | Some (n, rest) \<Rightarrow> if n < 2 ^ bits then Some (n, rest) else None))"

definition scan_int :: "string \<Rightarrow> (int \<times> string) option" where
  "scan_int s =
     (case scan_space s of
        None \<Rightarrow> None
      | Some r \<Rightarrow>
          (let neg = has_prefix r ''-'';
               body = (if neg \<or> has_prefix r ''+'' then drop 1 r else r)
           in case scan_digits body of
                None \<Rightarrow> None
              | Some (n, rest) \<Rightarrow>
                  (let v = (if neg then - int n else int n)
                   in if int64_min \<le> v \<and> v \<le> int64_max then Some (v, rest) else None)))"

text \<open>The formats \<^verbatim>\<open>v=%d\<close> and \<^verbatim>\<open>m=%d,t=%d,p=%d\<close>; what follows the last number is not looked at.\<close>

definition scan_version :: "string \<Rightarrow> int option" where
  "scan_version s =
     (case cut_prefix s ''v='' of None \<Rightarrow> None | Some r \<Rightarrow> map_option fst (scan_int r))"

definition scan_params :: "string \<Rightarrow> (nat \<times> nat \<times> nat) option" where
  "scan_params s =
     (case cut_prefix s ''m='' of None \<Rightarrow> None | Some r1 \<Rightarrow>
     (case scan_uint 32 r1 of None \<Rightarrow> None | Some (m, r2) \<Rightarrow>
     (case cut_prefix r2 '',t='' of None \<Rightarrow> None | Some r3 \<Rightarrow>
     (case scan_uint 32 r3 of None \<Rightarrow> None | Some (t, r4) \<Rightarrow>
     (case cut_prefix r4 '',p='' of None \<Rightarrow> None | Some r5 \<Rightarrow>
     (case scan_uint 8 r5 of None \<Rightarrow> None | Some (p, _) \<Rightarrow> Some (m, t, p)))))))"

subsection \<open>Passwords\<close>

definition argonMemory :: nat where "argonMemory = 19456"
definition argonIterations :: nat where "argonIterations = 2"
definition argonParallelism :: nat where "argonParallelism = 1"
definition argonKeyLen :: nat where "argonKeyLen = 32"
definition argonVersion :: nat where "argonVersion = 19"

record crypto =
  cy_IDKey :: "string \<Rightarrow> string \<Rightarrow> nat \<Rightarrow> nat \<Rightarrow> nat \<Rightarrow> nat \<Rightarrow> string"

text \<open>The salt is what the random source returned.\<close>

definition HashPassword :: "crypto \<Rightarrow> string option \<Rightarrow> string \<Rightarrow> string option" where
  "HashPassword cy salt plain =
     (case salt of
        None \<Rightarrow> None
      | Some s \<Rightarrow>
          (let key = cy_IDKey cy plain s argonIterations argonMemory argonParallelism argonKeyLen
           in Some (''$argon2id$v='' @ show_nat argonVersion @
                ''$m='' @ show_nat argonMemory @ '',t='' @ show_nat argonIterations @
                '',p='' @ show_nat argonParallelism @
                ''$'' @ b64_encode False s @ ''$'' @ b64_encode False key)))"

text \<open>Argon2 panics on zero rounds or lanes, which is an error value here.\<close>

definition VerifyPassword :: "crypto \<Rightarrow> string \<Rightarrow> string \<Rightarrow> (string, bool) result" where
  "VerifyPassword cy plain encoded =
     (case split_on CHR ''$'' encoded of
        [_, alg, version_text, params_text, salt_text, key_text] \<Rightarrow>
          if alg \<noteq> ''argon2id'' then Inl ''invalid argon2id hash format''
          else (case scan_version version_text of
            None \<Rightarrow> Inl ''parse argon2 version''
          | Some version \<Rightarrow>
              if version \<noteq> int argonVersion then Inl ''unsupported argon2 version''
              else (case scan_params params_text of
                None \<Rightarrow> Inl ''parse argon2 params''
              | Some (memory, iterations, parallelism) \<Rightarrow>
                  (case b64_decode False salt_text of
                     None \<Rightarrow> Inl ''decode salt''
                   | Some salt \<Rightarrow>
                       (case b64_decode False key_text of
                          None \<Rightarrow> Inl ''decode hash''
                        | Some want \<Rightarrow>
                            if iterations < 1 \<or> parallelism < 1 then Inl ''panic''
                            else Inr (cy_IDKey cy plain salt iterations memory parallelism (length want) = want)))))
      | _ \<Rightarrow> Inl ''invalid argon2id hash format'')"

subsection \<open>Session tokens\<close>

record token_claims =
  jc_Username :: string
  jc_IsAdmin :: bool
  jc_Subject :: string
  jc_IssuedAt :: int
  jc_ExpiresAt :: int

text \<open>Signing with HS256, and parsing at a time with nothing but HS256 allowed.\<close>

record jwt_lib =
  jl_sign :: "string \<Rightarrow> token_claims \<Rightarrow> string option"
  jl_parse :: "string \<Rightarrow> int \<Rightarrow> string \<Rightarrow> token_claims option"

record jwt_manager =
  jm_secret :: string
  jm_ttl :: int

text \<open>A numeric date has whole seconds.\<close>

definition numeric_date :: "int \<Rightarrow> int" where
  "numeric_date t = t - t mod 1000000000"

definition Issue :: "jwt_lib \<Rightarrow> jwt_manager \<Rightarrow> int \<Rightarrow> int \<Rightarrow> string \<Rightarrow> bool \<Rightarrow> string option" where
  "Issue lib m now uid name is_admin =
     jl_sign lib (jm_secret m)
       \<lparr>jc_Username = name, jc_IsAdmin = is_admin, jc_Subject = show_int uid,
        jc_IssuedAt = numeric_date now, jc_ExpiresAt = numeric_date (now + jm_ttl m)\<rparr>"

definition Verify :: "jwt_lib \<Rightarrow> jwt_manager \<Rightarrow> int \<Rightarrow> string \<Rightarrow> (int \<times> string \<times> bool) option" where
  "Verify lib m now token =
     (case jl_parse lib (jm_secret m) now token of
        None \<Rightarrow> None
      | Some c \<Rightarrow>
          (case parse_int64 (jc_Subject c) of
             None \<Rightarrow> None
           | Some uid \<Rightarrow> Some (uid, jc_Username c, jc_IsAdmin c)))"

subsection \<open>What the libraries promise\<close>

text \<open>A derived key has the length asked for.\<close>

definition crypto_contract :: "crypto \<Rightarrow> bool" where
  "crypto_contract cy =
     (\<forall>p s t m l n. length (cy_IDKey cy p s t m l n) = n)"

text \<open>A signed token parses to its claims until it expires, and not after.\<close>

definition jwt_contract :: "jwt_lib \<Rightarrow> bool" where
  "jwt_contract lib =
     (\<forall>secret c token now. jl_sign lib secret c = Some token \<longrightarrow>
        jl_parse lib secret now token = (if now < jc_ExpiresAt c then Some c else None))"

section \<open>Lemmas\<close>

subsection \<open>Scanning what was printed\<close>

definition number_ends :: "string \<Rightarrow> bool" where
  "number_ends s = (s = [] \<or> digit_val (hd s) = None)"

lemma digit_graphic: "digit_val c \<noteq> None \<Longrightarrow> graphic c"
  by (auto simp: digit_val_def graphic_def Let_def split: if_splits)

lemma scan_space_digit:
  assumes "digit_val c \<noteq> None"
  shows "scan_space (c # s) = Some (c # s)"
proof -
  have g: "graphic c" by (rule digit_graphic [OF assms])
  have "\<not> has_prefix (c # s) r" if "r \<in> set space_runes" for r
    using find_space_none(1) [of "c # s"] g that by (auto simp: find_None_iff)
  then have "find (has_prefix (c # s)) (filter (\<lambda>b. b \<noteq> bytes [10]) space_runes) = None"
    by (auto simp: find_None_iff)
  moreover have "\<not> has_prefix (c # s) (bytes [10])"
    using g by (auto simp: has_prefix_def bytes_def graphic_def)
  ultimately show ?thesis by (simp add: scan_space_def trim_left_none Let_def)
qed

lemma show_nat_Cons: "\<exists>c cs. show_nat n = c # cs \<and> digit_val c \<noteq> None"
  using show_nat_nonempty [of n] show_nat_digits [of "hd (show_nat n)" n] by (cases "show_nat n") auto

lemma scan_digits_show:
  assumes "number_ends rest"
  shows "scan_digits (show_nat n @ rest) = Some (n, rest)"
proof -
  have "takeWhile (\<lambda>c. digit_val c \<noteq> None) (show_nat n @ rest) = show_nat n"
    using assms show_nat_digits
    by (subst takeWhile_append2) (auto simp: number_ends_def takeWhile_eq_Nil_iff)
  then show ?thesis by (simp add: scan_digits_def)
qed

lemma scan_uint_show:
  assumes "number_ends rest" and "n < 2 ^ bits"
  shows "scan_uint bits (show_nat n @ rest) = Some (n, rest)"
proof -
  obtain c cs where "show_nat n = c # cs" "digit_val c \<noteq> None" using show_nat_Cons by blast
  then have "scan_space (show_nat n @ rest) = Some (show_nat n @ rest)" by (simp add: scan_space_digit)
  with assms show ?thesis by (simp add: scan_uint_def scan_digits_show)
qed

lemma scan_int_show:
  assumes "number_ends rest" and "int n \<le> int64_max"
  shows "scan_int (show_nat n @ rest) = Some (int n, rest)"
proof -
  obtain c cs where c: "show_nat n = c # cs" "digit_val c \<noteq> None" using show_nat_Cons by blast
  then have "scan_space (show_nat n @ rest) = Some (show_nat n @ rest)" by (simp add: scan_space_digit)
  moreover have "\<not> has_prefix (show_nat n @ rest) ''-''" "\<not> has_prefix (show_nat n @ rest) ''+''"
    using c by (auto simp: has_prefix_single)
  ultimately show ?thesis
    using assms by (simp add: scan_int_def scan_digits_show Let_def int64_min_def)
qed

lemma cut_prefix_append: "cut_prefix (p @ s) p = Some s"
  by (simp add: cut_prefix_def has_prefix_def)

lemma separator_ends: "number_ends (CHR '','' # s)" "number_ends []"
  by (simp_all add: number_ends_def digit_val_def)

lemma scan_params_show:
  assumes "m < 2 ^ 32" and "t < 2 ^ 32" and "p < 2 ^ 8"
  shows "scan_params (''m='' @ show_nat m @ '',t='' @ show_nat t @ '',p='' @ show_nat p) = Some (m, t, p)"
proof -
  have "scan_uint 32 (show_nat m @ '',t='' @ show_nat t @ '',p='' @ show_nat p) =
      Some (m, '',t='' @ show_nat t @ '',p='' @ show_nat p)"
    by (rule scan_uint_show) (use assms separator_ends in auto)
  moreover have "scan_uint 32 (show_nat t @ '',p='' @ show_nat p) = Some (t, '',p='' @ show_nat p)"
    by (rule scan_uint_show) (use assms separator_ends in auto)
  moreover have "scan_uint 8 (show_nat p) = Some (p, [])"
    using scan_uint_show [OF separator_ends(2) assms(3)] by simp
  ultimately show ?thesis
    unfolding scan_params_def cut_prefix_append by (simp only: option.case prod.case cut_prefix_append)
qed

lemma scan_version_show: "int n \<le> int64_max \<Longrightarrow> scan_version (''v='' @ show_nat n) = Some (int n)"
  unfolding scan_version_def cut_prefix_append using scan_int_show [OF separator_ends(2), of n] by simp

subsection \<open>The format\<close>

lemma phc_fields:
  assumes "CHR ''$'' \<notin> set v" and "CHR ''$'' \<notin> set p" and "CHR ''$'' \<notin> set a" and "CHR ''$'' \<notin> set b"
  shows "split_on CHR ''$'' (''$argon2id$'' @ v @ ''$'' @ p @ ''$'' @ a @ ''$'' @ b) = [[], ''argon2id'', v, p, a, b]"
proof -
  have "''$argon2id$'' @ v @ ''$'' @ p @ ''$'' @ a @ ''$'' @ b =
      [] @ CHR ''$'' # (''argon2id'' @ CHR ''$'' # (v @ CHR ''$'' # (p @ CHR ''$'' # (a @ CHR ''$'' # b))))"
    by simp
  moreover have "split_on CHR ''$'' (''argon2id'' @ CHR ''$'' # r) = ''argon2id'' # split_on CHR ''$'' r" for r
    by (rule split_on_at) simp
  ultimately show ?thesis
    by (simp only: append_Nil split_on.simps refl if_True split_on_at [OF assms(1)] split_on_at [OF assms(2)]
        split_on_at [OF assms(3)] split_on_none [OF assms(4)])
qed

lemma no_dollar: "CHR ''$'' \<notin> set (show_nat n)"
  by (rule show_nat_char) (simp add: digit_val_def)

section \<open>Libraries to evaluate on\<close>

text \<open>A key is the password and the salt, cut or filled up to the length.\<close>

definition toy_crypto :: crypto where
  "toy_crypto = \<lparr>cy_IDKey = (\<lambda>p s t m l n. take n (p @ s @ replicate n CHR ''.''))\<rparr>"

lemma toy_crypto_contract: "crypto_contract toy_crypto"
  by (auto simp: crypto_contract_def toy_crypto_def min_def)

text \<open>A library that can sign one set of claims.\<close>

definition toy_claims :: token_claims where
  "toy_claims = \<lparr>jc_Username = ''bob'', jc_IsAdmin = False, jc_Subject = show_int 2,
     jc_IssuedAt = 5000000000, jc_ExpiresAt = 65000000000\<rparr>"

definition toy_jwt :: jwt_lib where
  "toy_jwt =
     \<lparr>jl_sign = (\<lambda>secret c. if c = toy_claims then Some (secret @ '':bob'') else None),
      jl_parse = (\<lambda>secret now t. if t = secret @ '':bob'' \<and> now < jc_ExpiresAt toy_claims then Some toy_claims else None)\<rparr>"

lemma toy_jwt_contract: "jwt_contract toy_jwt"
  by (auto simp: jwt_contract_def toy_jwt_def split: if_splits)

section \<open>Properties\<close>

text \<open>
  C28: a hash made by \<^verbatim>\<open>HashPassword\<close> is read back by \<^verbatim>\<open>VerifyPassword\<close> with the parameters it was made
  with: it accepts the password, and another one only if argon2id derives the same key from it.
\<close>

theorem password_roundtrip:
  assumes "crypto_contract cy" and "HashPassword cy salt plain = Some h"
  shows "VerifyPassword cy plain h = Inr True \<and>
    (\<exists>s. salt = Some s \<and> (\<forall>other. VerifyPassword cy other h =
       Inr (cy_IDKey cy other s argonIterations argonMemory argonParallelism argonKeyLen =
            cy_IDKey cy plain s argonIterations argonMemory argonParallelism argonKeyLen)))"
proof -
  from assms(2) obtain s where s: "salt = Some s" by (auto simp: HashPassword_def split: option.splits)
  let ?key = "cy_IDKey cy plain s argonIterations argonMemory argonParallelism argonKeyLen"
  let ?v = "''v='' @ show_nat argonVersion" and ?p = "''m='' @ show_nat argonMemory @ '',t='' @ show_nat argonIterations @
    '',p='' @ show_nat argonParallelism"
  have "h = ''$argon2id$v='' @ show_nat argonVersion @ ''$m='' @ show_nat argonMemory @ '',t='' @
      show_nat argonIterations @ '',p='' @ show_nat argonParallelism @ ''$'' @ b64_encode False s @ ''$'' @ b64_encode False ?key"
    using assms(2) by (simp add: s HashPassword_def Let_def)
  then have h: "h = ''$argon2id$'' @ ?v @ ''$'' @ ?p @ ''$'' @ b64_encode False s @ ''$'' @ b64_encode False ?key" by simp
  have cy: "b64_decode False (b64_encode False b) = Some b" "CHR ''$'' \<notin> set (b64_encode False b)" "length ?key = argonKeyLen" for b
    using assms(1) by (auto simp: crypto_contract_def b64_roundtrip dest: b64_encode_clean)
  have "split_on CHR ''$'' h = [[], ''argon2id'', ?v, ?p, b64_encode False s, b64_encode False ?key]"
    unfolding h by (rule phc_fields) (simp_all add: no_dollar cy(2))
  moreover have "scan_version ?v = Some (int argonVersion)"
    by (rule scan_version_show) (simp add: argonVersion_def int64_max_def)
  moreover have "scan_params ?p = Some (argonMemory, argonIterations, argonParallelism)"
    by (rule scan_params_show) (simp_all add: argonMemory_def argonIterations_def argonParallelism_def)
  ultimately have "VerifyPassword cy other h =
      Inr (cy_IDKey cy other s argonIterations argonMemory argonParallelism argonKeyLen = ?key)" for other
    unfolding VerifyPassword_def
    by (simp only: list.case option.case prod.case cy(1,3) refl if_True if_False not_True_eq_False)
      (simp add: argonIterations_def argonParallelism_def)
  with s show ?thesis by simp
qed

theorem password_roundtrip_witness:
  "\<exists>h. HashPassword toy_crypto (Some ''salt'') ''secret'' = Some h \<and> VerifyPassword toy_crypto ''secret'' h = Inr True \<and>
     VerifyPassword toy_crypto ''Secret'' h = Inr False"
proof -
  obtain h where h: "HashPassword toy_crypto (Some ''salt'') ''secret'' = Some h" by (simp add: HashPassword_def Let_def)
  from password_roundtrip [OF toy_crypto_contract h] have "VerifyPassword toy_crypto ''secret'' h = Inr True"
    "VerifyPassword toy_crypto ''Secret'' h = Inr False"
    by (simp_all add: toy_crypto_def argonKeyLen_def)
  with h show ?thesis by blast
qed

text \<open>
  A session token is good for the identity it was issued to, for as long as it was issued, in
  whole seconds, and not longer.
\<close>

lemma token_roundtrip:
  assumes "jwt_contract lib" and "Issue lib m issued uid name is_admin = Some token"
    and "int64_min \<le> uid" and "uid \<le> int64_max"
  shows "Verify lib m now token =
    (if now < numeric_date (issued + jm_ttl m) then Some (uid, name, is_admin) else None)"
  using assms by (auto simp: Issue_def Verify_def jwt_contract_def parse_show_int)

lemma token_roundtrip_example:
  "Verify toy_jwt \<lparr>jm_secret = ''k'', jm_ttl = 60000000000\<rparr> 64999999999 ''k:bob'' = Some (2, ''bob'', False) \<and>
   Verify toy_jwt \<lparr>jm_secret = ''k'', jm_ttl = 60000000000\<rparr> 65000000000 ''k:bob'' = None"
proof -
  have "Issue toy_jwt \<lparr>jm_secret = ''k'', jm_ttl = 60000000000\<rparr> 5900000000 2 ''bob'' False = Some ''k:bob''"
    by (simp add: Issue_def toy_jwt_def toy_claims_def numeric_date_def)
  from token_roundtrip [OF toy_jwt_contract this] show ?thesis
    by (simp add: numeric_date_def int64_min_def int64_max_def)
qed

end
