(* ===== verification/Server_Start.thy ===== *)
theory Server_Start
  imports Control_Plane Server_Config Status_Tracker Auth
begin

text \<open>
  \<^verbatim>\<open>app.Run\<close> up to the point where the server listens: from a decoded configuration to the dependencies
  of the handlers and a dataplane that carries the database. Opening and migrating the database, logging,
  the listener, the shutdown and the read of the configuration file are left out; the goroutine of the
  status tracker is the snapshot it has reached. An invite lifetime is taken in whole seconds, as the
  store keeps it.
\<close>

section \<open>Definitions\<close>

record ('k, 'w) platform =
  pf_nft :: "'k nft"
  pf_host :: "'w host"
  pf_public :: "wg_key \<Rightarrow> wg_key"
  pf_parse :: "string \<Rightarrow> netip_prefix option"
  pf_config :: config_env
  pf_crypto :: crypto
  pf_jwt :: jwt_lib
  pf_digest :: "string \<Rightarrow> string"

text \<open>What a run meets: the store's faults and clock, the random source, the key file and the switch.\<close>

record start_env =
  se_env :: env
  se_time :: int
  se_salt :: "string option"
  se_faults :: file_faults
  se_drawn :: "wg_key option"
  se_forward_ok :: bool
  se_snapshot :: snapshot

text \<open>The limits are set once the defaults are applied.\<close>

definition limit_value :: "int option \<Rightarrow> int" where
  "limit_value v = (case v of Some x \<Rightarrow> x | None \<Rightarrow> 0)"

definition jwt_manager_of :: "config \<Rightarrow> int \<Rightarrow> jwt_manager" where
  "jwt_manager_of c ttl = \<lparr>jm_secret = ac_JWTSecret (cf_Auth c), jm_ttl = ttl\<rparr>"

definition server_of ::
  "('k, 'w) platform \<Rightarrow> start_env \<Rightarrow> config \<Rightarrow> string \<Rightarrow> int \<Rightarrow> int \<Rightarrow> prefix4 option \<Rightarrow> ('k, 'w) server" where
  "server_of pf se c public jwt_ttl invite_ttl pool =
     \<lparr>sv_nft = pf_nft pf, sv_table = cf_Table c, sv_host = pf_host pf, sv_dev = cw_Interface (cf_WireGuard c),
      parse_prefix = pf_parse pf,
      hash_password = HashPassword (pf_crypto pf) (se_salt se),
      verify_password = (\<lambda>p h. case VerifyPassword (pf_crypto pf) p h of Inl _ \<Rightarrow> None | Inr b \<Rightarrow> Some b),
      jwt_issue = (\<lambda>cl. Issue (pf_jwt pf) (jwt_manager_of c jwt_ttl) (se_time se) (UserID cl) (Username cl) (IsAdmin cl)),
      jwt_verify = (\<lambda>t. map_option (\<lambda>(uid, name, adm). \<lparr>UserID = uid, Username = name, IsAdmin = adm\<rparr>)
        (Verify (pf_jwt pf) (jwt_manager_of c jwt_ttl) (se_time se) t)),
      token_digest = pf_digest pf,
      wgNetwork = cw_Network (cf_WireGuard c), wgEndpoint = cw_Endpoint (cf_WireGuard c),
      wgMTU = cw_MTU (cf_WireGuard c), wgPublicKey = public,
      is_online = Online (se_snapshot se) (se_time se),
      last_handshake = (\<lambda>k. map_option (\<lambda>t. t div 1000000000) (tracked_handshake (se_snapshot se) k)),
      maxDevicesPerUser = limit_value (li_MaxDevicesPerUser (cf_Limits c)),
      maxOwnedZonesPerUser = limit_value (li_MaxOwnedZonesPerUser (cf_Limits c)),
      announcePool = pool,
      maxAnnouncedSubnetsPerUser = limit_value (li_MaxAnnouncedSubnetsPerUser (cf_Limits c)),
      inviteTTL = invite_ttl div 1000000000\<rparr>"

definition wireguard_of :: "config_wireguard \<Rightarrow> wireguard_config" where
  "wireguard_of w =
     \<lparr>Interface = cw_Interface w, Network = cw_Network w, ListenPort = cw_ListenPort w, MTU = cw_MTU w\<rparr>"

definition public_text :: "('k, 'w) platform \<Rightarrow> start_env \<Rightarrow> key_file option \<Rightarrow> string" where
  "public_text pf se kf =
     (case fst (LoadOrGenerateKey (pf_host pf) (se_faults se) (se_drawn se) kf) of
        Inl _ \<Rightarrow> ''''
      | Inr (key, _) \<Rightarrow> key_string (pf_host pf) (pf_public pf key))"

definition invite_ttl_of :: "config_env \<Rightarrow> auth_config \<Rightarrow> int option" where
  "invite_ttl_of env a = (if ac_InviteTTL a = '''' then Some 0 else ce_duration env (ac_InviteTTL a))"

text \<open>
  The announce pool and its route. A prefix that is not written as an IPv4 one has no \<^typ>\<open>prefix4\<close> and
  ends the start here.
\<close>

definition pool_of ::
  "('k, 'w) platform \<Rightarrow> config \<Rightarrow> ('k, 'w) world \<Rightarrow> (string, prefix4 option) result \<times> ('k, 'w) world" where
  "pool_of pf c W =
     (if cf_AnnouncePool c = '''' then (Inr None, W)
      else case pf_parse pf (cf_AnnouncePool c) of
        Some (P4 p) \<Rightarrow>
          (case EnsurePoolRoute (pf_host pf) (cw_Interface (cf_WireGuard c)) p (w_wg W) of
             (Some _, w) \<Rightarrow> (Inl ''announce pool route'', W\<lparr>w_wg := w\<rparr>)
           | (None, w) \<Rightarrow> (Inr (Some p), W\<lparr>w_wg := w\<rparr>))
      | _ \<Rightarrow> (Inl ''invalid announce.pool'', W))"

definition start_server ::
  "('k, 'w) platform \<Rightarrow> start_env \<Rightarrow> config \<Rightarrow> key_file option \<Rightarrow> ('k, 'w) world
     \<Rightarrow> (string, ('k, 'w) server) result \<times> key_file option \<times> ('k, 'w) world" where
  "start_server pf se loaded kf W =
     (let c = applyDefaults loaded;
          sv = server_of pf se c (public_text pf se kf) 0 0 None;
          admin = cf_Admin c
      in if Validate_config (pf_config pf) c \<noteq> [] then (Inl ''invalid config'', kf, W)
         else case EnsureAdmin (se_env se) (ad_Username admin) (ad_Password admin)
                  (HashPassword (pf_crypto pf) (se_salt se) (ad_Password admin)) (w_db W) of
           (Some _, d) \<Rightarrow> (Inl ''admin bootstrap'', kf, W\<lparr>w_db := d\<rparr>)
         | (None, d) \<Rightarrow>
         (case setupDataPlane sv (wireguard_of (cf_WireGuard c)) (se_faults se) (se_drawn se) (se_forward_ok se) kf
                 (W\<lparr>w_db := d\<rparr>) of
           (Some err, kf1, W1) \<Rightarrow> (Inl err, kf1, W1)
         | (None, kf1, W1) \<Rightarrow>
         (case rebuild_dataplane sv (se_env se) W1 of
           (Some err, W2) \<Rightarrow> (Inl err, kf1, W2)
         | (None, W2) \<Rightarrow>
           if TLSEnabled (cf_Server c) \<and>
              \<not> ce_key_pair (pf_config pf) (sc_TLSCert (cf_Server c)) (sc_TLSKey (cf_Server c))
           then (Inl ''TLS certificate load failed'', kf1, W2)
           else case ce_duration (pf_config pf) (ac_JWTTTL (cf_Auth c)) of
             None \<Rightarrow> (Inl ''invalid auth.jwt_ttl'', kf1, W2)
           | Some jwt_ttl \<Rightarrow>
           (case invite_ttl_of (pf_config pf) (cf_Auth c) of
             None \<Rightarrow> (Inl ''invalid auth.invite_ttl'', kf1, W2)
           | Some invite_ttl \<Rightarrow>
           (case pool_of pf c W2 of
             (Inl err, W3) \<Rightarrow> (Inl err, kf1, W3)
           | (Inr pool, W3) \<Rightarrow>
               (Inr (server_of pf se c (public_text pf se kf) jwt_ttl invite_ttl pool), kf1, W3))))))"

text \<open>Routes are apart from the peers of a device.\<close>

definition routes_apart :: "'w host \<Rightarrow> ('w \<Rightarrow> wg_state) \<Rightarrow> bool" where
  "routes_apart h vw = (\<forall>dev p w. vw (snd (route_replace h dev p w)) = vw w)"

section \<open>Lemmas\<close>

lemma server_of_sel [simp]:
  "sv_nft (server_of pf se c public jt it pool) = pf_nft pf"
  "sv_table (server_of pf se c public jt it pool) = cf_Table c"
  "sv_host (server_of pf se c public jt it pool) = pf_host pf"
  "sv_dev (server_of pf se c public jt it pool) = cw_Interface (cf_WireGuard c)"
  "parse_prefix (server_of pf se c public jt it pool) = pf_parse pf"
  "wgNetwork (server_of pf se c public jt it pool) = cw_Network (cf_WireGuard c)"
  "announcePool (server_of pf se c public jt it pool) = pool"
  by (simp_all add: server_of_def)

lemma applyDefaults_sel [simp]:
  "cf_Server (applyDefaults c) = cf_Server c" "cf_WireGuard (applyDefaults c) = cf_WireGuard c"
  "cf_Admin (applyDefaults c) = cf_Admin c" "cf_AnnouncePool (applyDefaults c) = cf_AnnouncePool c"
  by (simp_all add: applyDefaults_def)

text \<open>The bootstrap of the administrator touches the users only.\<close>

lemma EnsureAdmin_frame:
  assumes "EnsureAdmin e name pw h d = (r, d')"
  shows "\<exists>us n. d' = d\<lparr>users := us, user_seq := n\<rparr>"
proof -
  have "\<exists>us n. d = d\<lparr>users := us, user_seq := n\<rparr>"
    by (intro exI [of _ "users d"] exI [of _ "user_seq d"]) simp
  moreover have "\<exists>us n. snd (CreateAdmin e name hash d) = d\<lparr>users := us, user_seq := n\<rparr>" for hash
    using \<open>\<exists>us n. d = d\<lparr>users := us, user_seq := n\<rparr>\<close>
    by (auto simp: CreateAdmin_def insert_user_def checked_insert_def Let_def split: sum.splits sql_error.splits if_splits)
  ultimately show ?thesis
    using assms
    by (auto simp: EnsureAdmin_def split: if_splits sum.splits option.splits prod.splits store_error.splits)
      (metis snd_conv)+
qed

lemma EnsureAdmin_user:
  assumes "EnsureAdmin e name pw h d = (None, d')"
  shows "\<exists>u \<in> set (users d'). nocase (u_username u) = nocase name"
proof -
  have "\<exists>u \<in> set (users d2). nocase (u_username u) = nocase name"
    if "CreateAdmin e name hash d = (x, d2)" "x = Inl ErrUserExists \<or> (\<exists>u. x = Inr u)" for hash x d2
    using that
    by (auto simp: CreateAdmin_def insert_user_def checked_insert_def Let_def split: sum.splits sql_error.splits if_splits)
  with assms show ?thesis
    by (auto simp: EnsureAdmin_def GetByUsername_def dest: find_Some_mem
        split: if_splits sum.splits option.splits prod.splits store_error.splits)
qed

lemma consistent_users:
  assumes "consistent h pool lo hi d" and "schema_ok (d\<lparr>users := us, user_seq := n\<rparr>)"
  shows "consistent h pool lo hi (d\<lparr>users := us, user_seq := n\<rparr>)"
  using assms
  by (simp add: consistent_def ann_inv_def ann_plan_def attached_members_def is_member_def no_orphans_iff canonical_keys_def)

lemma PoolRange_inside:
  assumes "parse cidr = Some (P4 n)" and "PBits n \<le> 30" and "PoolRange parse cidr = Inr (lo, hi)"
    and "lo \<le> a" and "a \<le> hi"
  shows "Contains n a"
proof -
  let ?S = "2 ^ (32 - PBits n) :: nat" and ?B = "unat (PAddr (Masked n))"
  have "unat lo = ?B + 2" "unat hi + 2 = ?B + ?S"
    using PoolRange_reserves_server [of parse cidr n] assms(1-3) by auto
  with assms(4,5) have "?B \<le> unat a" "unat a < ?B + ?S" by (simp_all add: word_le_nat_alt)
  moreover have "?B = unat (PAddr n) div ?S * ?S"
    by (simp add: Masked_def unat_masked minus_mod_eq_div_mult)
  ultimately have "unat a div ?S = unat (PAddr n) div ?S"
    by (metis add.commute div_nat_eqI mult.commute mult_Suc)
  then show ?thesis by (simp add: Contains_iff)
qed

lemma start_pools:
  assumes "Validate_config (pf_config pf) c = []" and "cidr_agrees (ce_cidr (pf_config pf)) (pf_parse pf)"
    and "pf_parse pf (cw_Network (cf_WireGuard c)) = Some (P4 n)" and "PBits n \<le> 30"
    and "pf_parse pf (cf_AnnouncePool c) = Some (P4 p)" and "cf_AnnouncePool c \<noteq> ''''" and "\<not> Contains p (- 1)"
    and "PoolRange (pf_parse pf) (cw_Network (cf_WireGuard c)) = Inr (lo, hi)" and "pool = None \<or> pool = Some p"
  shows "pools_ok (server_of pf se c public jt it pool) p lo hi"
proof -
  note apart = accepted_pool [OF assms(1,2,3,5,6)]
  have "\<not> Contains p a" if "lo \<le> a" "a \<le> hi" for a
    using apart(1) PoolRange_inside [OF assms(3,4,8) that] by (auto simp: prefix_addrs_def)
  with assms(7-9) apart(2) show ?thesis by (auto simp: pools_ok_def)
qed

lemma setupDataPlane_db:
  "setupDataPlane sv cfg faults drawn ok kf W = (r, kf', W') \<Longrightarrow> w_db W' = w_db W"
  by (auto simp: setupDataPlane_def split: prod.splits sum.splits option.splits if_splits)

lemma pool_of_world:
  assumes "pool_of pf c W = (Inr pool, W')" and "routes_apart (pf_host pf) vw"
  shows "w_db W' = w_db W \<and> w_nft W' = w_nft W \<and> vw (w_wg W') = vw (w_wg W) \<and>
    (cf_AnnouncePool c \<noteq> '''' \<longrightarrow> (\<exists>p. pf_parse pf (cf_AnnouncePool c) = Some (P4 p) \<and> pool = Some p))"
proof -
  have "vw w' = vw w" if "EnsurePoolRoute (pf_host pf) dev p w = (None, w')" for dev p w w'
    using that assms(2)
    by (auto simp: EnsurePoolRoute_def step_or_def routes_apart_def split: sum.splits prod.splits option.splits) (metis snd_conv)
  with assms(1) show ?thesis
    by (auto simp: pool_of_def split: if_splits option.splits netip_prefix.splits prod.splits)
qed

text \<open>The steps of a start that succeeds.\<close>

lemma start_server_steps:
  assumes "start_server pf se loaded kf W = (Inr sv, kf', W')"
  obtains d kf1 W1 W2 jt it pool where
    "Validate_config (pf_config pf) (applyDefaults loaded) = []"
    "EnsureAdmin (se_env se) (ad_Username (cf_Admin loaded)) (ad_Password (cf_Admin loaded))
       (HashPassword (pf_crypto pf) (se_salt se) (ad_Password (cf_Admin loaded))) (w_db W) = (None, d)"
    "setupDataPlane (server_of pf se (applyDefaults loaded) (public_text pf se kf) 0 0 None)
       (wireguard_of (cf_WireGuard loaded)) (se_faults se) (se_drawn se) (se_forward_ok se) kf (W\<lparr>w_db := d\<rparr>) =
     (None, kf1, W1)"
    "rebuild_dataplane (server_of pf se (applyDefaults loaded) (public_text pf se kf) 0 0 None) (se_env se) W1 = (None, W2)"
    "pool_of pf (applyDefaults loaded) W2 = (Inr pool, W')"
    "sv = server_of pf se (applyDefaults loaded) (public_text pf se kf) jt it pool"
  using assms
  by (auto simp: start_server_def Let_def split: if_splits prod.splits option.splits sum.splits)

section \<open>A start to evaluate\<close>

definition demo_parse :: "string \<Rightarrow> netip_prefix option" where
  "demo_parse s =
     (if s = ''100.127.0.0/24'' then Some (P4 (Prefix4 0x647F0000 24))
      else if s = ''100.96.0.0/12'' then Some (P4 (Prefix4 0x64600000 12)) else None)"

definition demo_platform :: "(model_kernel, wg_state) platform" where
  "demo_platform =
     \<lparr>pf_nft = model_nft, pf_host = model_host, pf_public = (\<lambda>k. k + 1), pf_parse = demo_parse,
      pf_config =
        \<lparr>ce_cidr = (\<lambda>s. case demo_parse s of Some (P4 p) \<Rightarrow> Some (Cidr4 (Masked p)) | _ \<Rightarrow> None),
         ce_duration = (\<lambda>s. if s = ''2h'' then Some 7200000000000 else None), ce_readable = (\<lambda>s. True),
         ce_key_pair = (\<lambda>c k. True), ce_is_dir = (\<lambda>s. Some True), ce_writable = (\<lambda>s. True)\<rparr>,
      pf_crypto = toy_crypto, pf_jwt = toy_jwt, pf_digest = (\<lambda>s. s)\<rparr>"

definition demo_config :: config where
  "demo_config =
     \<lparr>cf_Server = \<lparr>sc_Listen = ''host:443'', sc_TLS = Some False, sc_TLSCert = '''', sc_TLSKey = '''',
        sc_DataDir = ''data'', sc_APIDocs = None\<rparr>,
      cf_LogLevel = '''', cf_RateLimit = \<lparr>rl_RPS = 0, rl_Burst = 0\<rparr>,
      cf_WireGuard = \<lparr>cw_Network = ''100.127.0.0/24'', cw_ListenPort = 51820, cw_Interface = ''wg0'',
        cw_MTU = 1420, cw_Endpoint = ''host:51820''\<rparr>,
      cf_Table = '''',
      cf_Auth = \<lparr>ac_JWTSecret = replicate 32 CHR ''s'', ac_JWTTTL = '''', ac_InviteTTL = ''''\<rparr>,
      cf_Admin = \<lparr>ad_Username = ''admin'', ad_Password = ''pw''\<rparr>,
      cf_Limits = \<lparr>li_MaxDevicesPerUser = None, li_MaxOwnedZonesPerUser = Some 0, li_MaxAnnouncedSubnetsPerUser = None\<rparr>,
      cf_AnnouncePool = ''100.96.0.0/12''\<rparr>"

definition demo_run :: start_env where
  "demo_run = \<lparr>se_env = calm 50, se_time = 60000000000, se_salt = Some ''salt'',
     se_faults = \<lparr>stat_fault = False, chmod_fault = False, read_fault = False, write_fault = None\<rparr>,
     se_drawn = Some 7, se_forward_ok = True, se_snapshot = new_tracker\<rparr>"

lemma demo_valid: "Validate_config (pf_config demo_platform) (applyDefaults demo_config) = []"
proof -
  let ?c = "applyDefaults demo_config" and ?env = "pf_config demo_platform"
  have hp: "SplitHostPort ''host:443'' = Some (''host'', ''443'')" "SplitHostPort ''host:51820'' = Some (''host'', ''51820'')"
    using SplitHostPort_plain [of "''host''" "''443''"] SplitHostPort_plain [of "''host''" "''51820''"] by simp_all
  have "check_listen (sc_Listen (cf_Server ?c)) = []" "check_tls ?env (cf_Server ?c) = []"
    "check_data_dir ?env (sc_DataDir (cf_Server ?c)) = []"
    by (simp_all add: check_listen_def check_tls_def check_data_dir_def TLSEnabled_def demo_config_def demo_platform_def hp)
  moreover have "check_rate (cf_RateLimit ?c) = []"
    by (simp add: check_rate_def applyDefaults_def demo_config_def or_default_def truncated_def)
  moreover have "check_wireguard ?env (cf_WireGuard ?c) = []"
    by (simp add: check_wireguard_def demo_config_def demo_platform_def demo_parse_def hp)
  moreover have "cf_LogLevel ?c = ''info''" "cf_Table ?c = ''lanweave''"
    by (simp_all add: applyDefaults_def demo_config_def or_default_def)
  moreover have "check_auth ?env (cf_Auth ?c) = []"
    by (simp add: check_auth_def applyDefaults_def demo_config_def demo_platform_def or_default_def)
  moreover have "check_admin (cf_Admin ?c) = []" by (simp add: check_admin_def demo_config_def)
  moreover have "check_limit f (li_MaxDevicesPerUser (cf_Limits ?c)) = []"
    "check_limit f (li_MaxOwnedZonesPerUser (cf_Limits ?c)) = []"
    "check_limit f (li_MaxAnnouncedSubnetsPerUser (cf_Limits ?c)) = []" for f
    by (simp_all add: check_limit_def applyDefaults_def demo_config_def default_limit_def defaultPerUserLimit_def)
  moreover have "check_pool ?env (cf_AnnouncePool ?c) (cw_Network (cf_WireGuard ?c)) = []"
    by (simp add: check_pool_def demo_config_def demo_platform_def demo_parse_def Contains_def Masked_def mask_eq_exp_minus_1)
  ultimately show ?thesis by (simp add: Validate_config_def)
qed

lemma demo_pool_range: "PoolRange demo_parse ''100.127.0.0/24'' = Inr (demo_lo, demo_hi)"
  by (simp add: PoolRange_def demo_parse_def Masked_def demo_lo_def demo_hi_def mask_eq_exp_minus_1)

lemma demo_first: "FirstUsableAddress demo_parse ''100.127.0.0/24'' = Inr (0x647F0001, 24)"
  by (simp add: FirstUsableAddress_def demo_parse_def Let_def Contains_def Masked_def mask_eq_exp_minus_1)

lemma demo_start: "\<exists>sv kf W. start_server demo_platform demo_run demo_config None demo_world = (Inr sv, kf, W)"
proof -
  let ?c = "applyDefaults demo_config" and ?pf = demo_platform and ?se = demo_run
  let ?sv = "server_of ?pf ?se ?c (public_text ?pf ?se None) 0 0 None"
  have admin: "EnsureAdmin (se_env ?se) (ad_Username (cf_Admin ?c)) (ad_Password (cf_Admin ?c)) h (w_db demo_world) =
      (None, w_db demo_world)" for h
    by (simp add: EnsureAdmin_def GetByUsername_def demo_run_def demo_config_def demo_world_def demo_net_def demo_db_def
        empty_db_def calm_def)
  have "EnsureInterface model_host demo_parse (wireguard_of (cf_WireGuard demo_config)) 7 w =
      (None, apply_config \<lparr>wc_private = Some 7, wc_port = Some 51820, wc_replace_peers = True, wc_peers = []\<rparr> w)" for w
    by (simp add: EnsureInterface_def demo_first wireguard_of_def demo_config_def
        ensureLink_def step_or_def model_host_def)
  then obtain kf1 W1 where device: "setupDataPlane ?sv (wireguard_of (cf_WireGuard ?c)) (se_faults ?se) (se_drawn ?se)
      (se_forward_ok ?se) None demo_world = (None, kf1, W1)" "w_db W1 = demo_net"
    by (simp add: setupDataPlane_def LoadOrGenerateKey_def demo_run_def demo_platform_def demo_world_def)
  have "\<exists>W2. rebuild_dataplane ?sv (se_env ?se) W1 = (None, W2)"
  proof (rule rebuild_dataplane_total)
    show "nft_faultless (sv_nft ?sv) kernel_view" using demo_faultless by (simp add: faultless_def demo_platform_def)
    show "wg_faultless (sv_host ?sv) (sv_dev ?sv) (\<lambda>w. w)" by (simp add: demo_platform_def model_wg_faultless)
    show "consistent (sv_host ?sv) demo_pool demo_lo demo_hi (w_db W1)"
      by (simp add: device(2) demo_consistent demo_platform_def)
    show "quiet (se_env ?se)" by (simp add: demo_run_def quiet_calm)
  qed
  then obtain W2 where rebuild: "rebuild_dataplane ?sv (se_env ?se) W1 = (None, W2)" by blast
  have "\<exists>W3. pool_of ?pf ?c W2 = (Inr (Some (Prefix4 0x64600000 12)), W3)"
    by (simp add: pool_of_def demo_config_def demo_platform_def demo_parse_def EnsurePoolRoute_def step_or_def model_host_def)
  then obtain W3 where pool: "pool_of ?pf ?c W2 = (Inr (Some (Prefix4 0x64600000 12)), W3)" by blast
  have rest: "\<not> TLSEnabled (cf_Server ?c)" "ce_duration (pf_config ?pf) (ac_JWTTTL (cf_Auth ?c)) = Some 7200000000000"
    "invite_ttl_of (pf_config ?pf) (cf_Auth ?c) = Some 0"
    by (simp_all add: TLSEnabled_def invite_ttl_of_def applyDefaults_def demo_config_def demo_platform_def or_default_def)
  have "demo_world\<lparr>w_db := w_db demo_world\<rparr> = demo_world" by simp
  then show ?thesis
    by (simp add: start_server_def Let_def demo_valid admin device(1) rebuild pool rest del: applyDefaults_sel)
qed

section \<open>Properties\<close>



end
