(* ===== verification/Client_Profile.thy ===== *)
theory Client_Profile
  imports Netip_Text Go_Base64
begin

text \<open>
  \<^verbatim>\<open>internal/client/tunnel/profile.go\<close> and the readers of \<^verbatim>\<open>tunnel.go\<close>: the text that configures the
  user-space WireGuard device of the desktop client, and what is read from the text it reports.
  \<open>uapi_set\<close> is the meaning the WireGuard cross-platform interface gives to the keys the code writes.
  The setup record is that of \<^verbatim>\<open>internal/client/state\<close>. A prefix or an address that is not written as an
  IPv4 one is read as an error.
\<close>

section \<open>Definitions\<close>

subsection \<open>The setup record\<close>

record client_record =
  cr_SchemaVersion :: int
  cr_ServerURL :: string
  cr_NodeName :: string
  cr_IP :: string
  cr_ServerPublicKey :: string
  cr_Endpoint :: string
  cr_Network :: string
  cr_PinnedCertSHA256 :: string
  cr_FirewallAllowVPN :: bool
  cr_NodeID :: int

definition SchemaVersion :: int where "SchemaVersion = 3"

text \<open>A file that decodes to a record, and the record that is written.\<close>

definition state_load :: "client_record option \<Rightarrow> (string, client_record) result" where
  "state_load file =
     (case file of
        None \<Rightarrow> Inl ''no state''
      | Some r \<Rightarrow>
          if cr_SchemaVersion r = 0 \<or> cr_ServerURL r = '''' \<or> cr_NodeName r = '''' \<or> cr_IP r = ''''
          then Inl ''state record is incomplete'' else Inr r)"

definition state_saved :: "client_record \<Rightarrow> client_record" where
  "state_saved r = (if cr_SchemaVersion r = 0 then r\<lparr>cr_SchemaVersion := SchemaVersion\<rparr> else r)"

subsection \<open>The profile\<close>

definition KeepaliveSeconds :: nat where "KeepaliveSeconds = 25"

definition keyB64ToHex :: "string \<Rightarrow> string option" where
  "keyB64ToHex b64 =
     (case b64_decode True (TrimSpace b64) of
        None \<Rightarrow> None
      | Some raw \<Rightarrow> if length raw \<noteq> 32 then None else Some (hex_encode raw))"

definition BuildUAPIConfig :: "client_record \<Rightarrow> string \<Rightarrow> (string, string) result" where
  "BuildUAPIConfig rec priv =
     (case keyB64ToHex priv of
        None \<Rightarrow> Inl ''device key''
      | Some privHex \<Rightarrow>
     (case keyB64ToHex (cr_ServerPublicKey rec) of
        None \<Rightarrow> Inl ''server key''
      | Some pubHex \<Rightarrow>
          if cr_Endpoint rec = '''' then Inl ''server endpoint is missing''
          else (case ParsePrefix4 (cr_Network rec) of
             None \<Rightarrow> Inl ''network''
           | Some network \<Rightarrow>
          (case ParseAddr4 (cr_IP rec) of
             None \<Rightarrow> Inl ''device address''
           | Some _ \<Rightarrow>
               Inr (''private_key='' @ privHex @ [CHR 0x0A] @
                    ''public_key='' @ pubHex @ [CHR 0x0A] @
                    ''endpoint='' @ cr_Endpoint rec @ [CHR 0x0A] @
                    ''persistent_keepalive_interval='' @ show_nat KeepaliveSeconds @ [CHR 0x0A] @
                    ''allowed_ip='' @ Prefix_String (Masked network) @ [CHR 0x0A])))))"

definition BuildPeerUpdate :: "string \<Rightarrow> prefix4 \<Rightarrow> prefix4 list \<Rightarrow> (string, string) result" where
  "BuildPeerUpdate serverPub network extras =
     (case keyB64ToHex serverPub of
        None \<Rightarrow> Inl ''server key''
      | Some pubHex \<Rightarrow>
          Inr (''public_key='' @ pubHex @ [CHR 0x0A] @
               ''replace_allowed_ips=true'' @ [CHR 0x0A] @
               ''allowed_ip='' @ Prefix_String (Masked network) @ [CHR 0x0A] @
               concat (map (\<lambda>p. ''allowed_ip='' @ Prefix_String (Masked p) @ [CHR 0x0A]) extras)))"

definition routeDiff :: "prefix4 list \<Rightarrow> prefix4 list \<Rightarrow> prefix4 list \<times> prefix4 list" where
  "routeDiff current desired =
     (filter (\<lambda>p. p \<notin> set current) desired, filter (\<lambda>p. p \<notin> set desired) current)"

text \<open>The address after 255.255.255.255 is none.\<close>

definition serverVPNIP :: "string \<Rightarrow> addr option option" where
  "serverVPNIP network =
     (case ParsePrefix4 network of
        None \<Rightarrow> None
      | Some p \<Rightarrow> Some (if PAddr (Masked p) = - 1 then None else Some (PAddr (Masked p) + 1)))"

subsection \<open>Reading the device's report\<close>

text \<open>
  The value \<^verbatim>\<open>strconv.ParseInt\<close> returns next to its error, which the code drops: zero for a text that is
  no number, and the nearest 64-bit number for one that is too large.
\<close>

fun lax_digits :: "nat \<Rightarrow> string \<Rightarrow> nat option" where
  "lax_digits acc [] = Some acc"
| "lax_digits acc (c # cs) =
     (case digit_val c of
        None \<Rightarrow> None
      | Some d \<Rightarrow> if 2 ^ 64 \<le> acc * 10 + d then Some (2 ^ 64 - 1) else lax_digits (acc * 10 + d) cs)"

definition parse_int_lax :: "string \<Rightarrow> int" where
  "parse_int_lax s =
     (let neg = has_prefix s ''-'';
          body = (if neg \<or> has_prefix s ''+'' then drop 1 s else s)
      in if body = [] then 0
         else case lax_digits 0 body of
           None \<Rightarrow> 0
         | Some n \<Rightarrow> if neg then max int64_min (- int n) else min int64_max (int n))"

fun first_port :: "string list \<Rightarrow> int" where
  "first_port [] = 0"
| "first_port (l # ls) =
     (case cut_prefix l ''listen_port='' of
        Some v \<Rightarrow> parse_int_lax (TrimSpace v)
      | None \<Rightarrow> first_port ls)"

definition parseListenPort :: "string \<Rightarrow> int" where
  "parseListenPort uapi = first_port (split_on CHR 0x0A uapi)"

definition newer_handshake :: "int \<Rightarrow> string \<Rightarrow> int" where
  "newer_handshake acc l =
     (case cut_prefix l ''last_handshake_time_sec='' of
        Some v \<Rightarrow> (let n = parse_int_lax (TrimSpace v) in if acc < n then n else acc)
      | None \<Rightarrow> acc)"

definition parseHandshakeAge :: "string \<Rightarrow> int \<times> bool" where
  "parseHandshakeAge uapi =
     (let t = foldl newer_handshake 0 (split_on CHR 0x0A uapi) in (t, 0 < t))"

definition count_bytes :: "64 word \<times> 64 word \<Rightarrow> string \<Rightarrow> 64 word \<times> 64 word" where
  "count_bytes acc l =
     (case cut_prefix l ''rx_bytes='' of
        Some v \<Rightarrow> (fst acc + word_of_int (parse_int_lax (TrimSpace v)), snd acc)
      | None \<Rightarrow>
          (case cut_prefix l ''tx_bytes='' of
             Some v \<Rightarrow> (fst acc, snd acc + word_of_int (parse_int_lax (TrimSpace v)))
           | None \<Rightarrow> acc))"

text \<open>Two signed 64-bit sums.\<close>

definition sumTransfer :: "string \<Rightarrow> int \<times> int" where
  "sumTransfer uapi =
     (case foldl count_bytes (0, 0) (split_on CHR 0x0A uapi) of (rx, tx) \<Rightarrow> (sint rx, sint tx))"

subsection \<open>The cross-platform interface\<close>

text \<open>
  The device a text describes. \<open>ud_current\<close> is the peer the keys that follow are about. The interface
  reads lines up to the end, each a key and a value.
\<close>

record uapi_peer =
  up_endpoint :: string
  up_keepalive :: nat
  up_allowed :: "prefix4 list"

record uapi_device =
  ud_private :: "string option"
  ud_peers :: "string \<rightharpoonup> uapi_peer"
  ud_current :: "string option"

definition on_peer :: "(uapi_peer \<Rightarrow> uapi_peer) \<Rightarrow> uapi_device \<Rightarrow> uapi_device option" where
  "on_peer f d =
     (case ud_current d of
        None \<Rightarrow> None
      | Some k \<Rightarrow> Some (d\<lparr>ud_peers := (ud_peers d)(k := map_option f (ud_peers d k))\<rparr>))"

definition uapi_key :: "string \<times> string \<Rightarrow> uapi_device \<Rightarrow> uapi_device option" where
  "uapi_key kv d =
     (case kv of (k, v) \<Rightarrow>
        if k = ''private_key'' then Some (d\<lparr>ud_private := Some v\<rparr>)
        else if k = ''public_key'' then
          Some (d\<lparr>ud_current := Some v,
            ud_peers := (case ud_peers d v of
               None \<Rightarrow> (ud_peers d)(v \<mapsto> \<lparr>up_endpoint = '''', up_keepalive = 0, up_allowed = []\<rparr>)
             | Some _ \<Rightarrow> ud_peers d)\<rparr>)
        else if k = ''endpoint'' then on_peer (\<lambda>p. p\<lparr>up_endpoint := v\<rparr>) d
        else if k = ''persistent_keepalive_interval'' then
          (case parse_nat v of None \<Rightarrow> None | Some n \<Rightarrow> on_peer (\<lambda>p. p\<lparr>up_keepalive := n\<rparr>) d)
        else if k = ''replace_allowed_ips'' \<and> v = ''true'' then on_peer (\<lambda>p. p\<lparr>up_allowed := []\<rparr>) d
        else if k = ''allowed_ip'' then
          (case ParsePrefix4 v of None \<Rightarrow> None | Some q \<Rightarrow> on_peer (\<lambda>p. p\<lparr>up_allowed := up_allowed p @ [q]\<rparr>) d)
        else None)"

fun uapi_keys :: "(string \<times> string) option list \<Rightarrow> uapi_device \<Rightarrow> uapi_device option" where
  "uapi_keys [] d = Some d"
| "uapi_keys (None # ls) d = None"
| "uapi_keys (Some kv # ls) d = (case uapi_key kv d of None \<Rightarrow> None | Some d' \<Rightarrow> uapi_keys ls d')"

definition uapi_set :: "string \<Rightarrow> uapi_device \<Rightarrow> uapi_device option" where
  "uapi_set text d =
     uapi_keys (map (cut_at CHR ''='') (filter (\<lambda>l. l \<noteq> []) (split_on CHR 0x0A text))) (d\<lparr>ud_current := None\<rparr>)"

definition blank_device :: uapi_device where
  "blank_device = \<lparr>ud_private = None, ud_peers = (\<lambda>_. None), ud_current = None\<rparr>"

section \<open>Lemmas\<close>

subsection \<open>Numbers\<close>

lemma lax_digits_parse:
  "parse_digits acc s = Some n \<Longrightarrow> n < 2 ^ 64 \<Longrightarrow> lax_digits acc s = Some n \<and> acc \<le> n"
proof (induction s arbitrary: acc)
  case (Cons c cs)
  then obtain d where d: "digit_val c = Some d" "parse_digits (acc * 10 + d) cs = Some n"
    by (auto split: option.splits)
  with Cons.IH [OF d(2) Cons.prems(2)] Cons.prems(2) show ?case by simp
qed simp

lemma parse_int_lax_show:
  assumes "int n \<le> int64_max"
  shows "parse_int_lax (show_nat n) = int n"
proof -
  obtain c cs where c: "show_nat n = c # cs" using show_nat_nonempty [of n] by (cases "show_nat n") auto
  then have "digit_val c \<noteq> None" using show_nat_digits [of c n] by simp
  with c have "\<not> has_prefix (show_nat n) ''-''" "\<not> has_prefix (show_nat n) ''+''"
    by (auto simp: has_prefix_single digit_val_def split: if_splits)
  moreover have "parse_digits 0 (show_nat n) = Some n"
    by (rule parse_digits_show_nat)
  moreover have "n < 2 ^ 64" using assms by (simp add: int64_max_def)
  ultimately show ?thesis
    using lax_digits_parse [of 0 "show_nat n" n] assms c by (simp add: parse_int_lax_def Let_def)
qed

subsection \<open>Lines\<close>

definition lines :: "string \<Rightarrow> string list" where
  "lines text = filter (\<lambda>l. l \<noteq> []) (split_on CHR 0x0A text)"

lemma lines_Nil: "lines [] = []"
  by (simp add: lines_def)

lemma lines_line: "CHR 0x0A \<notin> set l \<Longrightarrow> l \<noteq> [] \<Longrightarrow> lines (l @ CHR 0x0A # rest) = l # lines rest"
  by (simp add: lines_def split_on_at)

lemma uapi_set_line:
  assumes "CHR 0x0A \<notin> set k" and "CHR 0x0A \<notin> set v" and "CHR ''='' \<notin> set k"
  shows "map (cut_at CHR ''='') (lines (k @ CHR ''='' # v @ CHR 0x0A # rest)) =
    Some (k, v) # map (cut_at CHR ''='') (lines rest)"
  using assms lines_line [of "k @ CHR ''='' # v" rest] by (simp add: cut_at_split)

lemma uapi_set_lines: "uapi_set text d = uapi_keys (map (cut_at CHR ''='') (lines text)) (d\<lparr>ud_current := None\<rparr>)"
  by (simp add: uapi_set_def lines_def)

lemma newline_not_digit: "digit_val CHR 0x0A = None"
  by (simp add: digit_val_def)

lemma uapi_values:
  "CHR 0x0A \<notin> set (Prefix_String p)" "CHR 0x0A \<notin> set (hex_encode b)" "CHR 0x0A \<notin> set (show_nat n)"
  by (auto simp: show_nat_char [OF newline_not_digit] Prefix_String_char [OF newline_not_digit]
      dest: hex_encode_chars simp: graphic_def)

subsection \<open>Keys\<close>

lemma keyB64ToHex_Some: "keyB64ToHex b = Some h \<Longrightarrow> \<exists>raw. h = hex_encode raw \<and> length raw = 32"
  by (auto simp: keyB64ToHex_def split: option.splits if_splits)

text \<open>The hexadecimal text names the key that the base64 text names.\<close>

lemma TrimSpace_graphic:
  assumes "s \<noteq> []" and "graphic (hd s)" and "graphic (last s)"
  shows "TrimSpace s = s"
  using assms by (simp add: TrimSpace_def Let_def trim_left_none find_space_none hd_rev)

lemma keyB64ToHex_encode: "length raw = 32 \<Longrightarrow> keyB64ToHex (b64_encode True raw) = Some (hex_encode raw)"
proof -
  assume raw: "length raw = 32"
  then have "b64_encode True raw \<noteq> []" by (cases "(True, raw)" rule: b64_encode.cases) auto
  then have "TrimSpace (b64_encode True raw) = b64_encode True raw"
    using b64_encode_clean hd_in_set last_in_set by (blast intro: TrimSpace_graphic)
  with raw show ?thesis
    by (simp add: keyB64ToHex_def b64_roundtrip)
qed

subsection \<open>What the device makes of the texts\<close>

definition split_tunnel :: "string \<Rightarrow> string \<Rightarrow> string \<Rightarrow> prefix4 list \<Rightarrow> uapi_device" where
  "split_tunnel priv pub endpoint allowed =
     \<lparr>ud_private = Some priv,
      ud_peers = [pub \<mapsto> \<lparr>up_endpoint = endpoint, up_keepalive = 25, up_allowed = allowed\<rparr>],
      ud_current = Some pub\<rparr>"

lemma Masked_bits: "PBits (Masked p) = PBits p"
  by (simp add: Masked_def)

lemma uapi_config:
  assumes "BuildUAPIConfig rec priv = Inr cfg" and "CHR 0x0A \<notin> set (cr_Endpoint rec)"
  obtains pk sk net where "keyB64ToHex priv = Some sk" "keyB64ToHex (cr_ServerPublicKey rec) = Some pk"
    "ParsePrefix4 (cr_Network rec) = Some net"
    "PBits net \<le> 32 \<Longrightarrow> uapi_set cfg blank_device = Some (split_tunnel sk pk (cr_Endpoint rec) [Masked net])"
proof -
  from assms(1) obtain sk pk net where keys: "keyB64ToHex priv = Some sk" "keyB64ToHex (cr_ServerPublicKey rec) = Some pk"
    and net: "ParsePrefix4 (cr_Network rec) = Some net"
    and cfg: "cfg = ''private_key'' @ CHR ''='' # sk @ CHR 0x0A # ''public_key'' @ CHR ''='' # pk @ CHR 0x0A #
      ''endpoint'' @ CHR ''='' # cr_Endpoint rec @ CHR 0x0A #
      ''persistent_keepalive_interval'' @ CHR ''='' # show_nat KeepaliveSeconds @ CHR 0x0A #
      ''allowed_ip'' @ CHR ''='' # Prefix_String (Masked net) @ CHR 0x0A # []"
    by (auto simp: BuildUAPIConfig_def split: option.splits if_splits)
  have hex: "CHR 0x0A \<notin> set sk" "CHR 0x0A \<notin> set pk"
    using keyB64ToHex_Some [OF keys(1)] keyB64ToHex_Some [OF keys(2)] uapi_values(2) by auto
  have "uapi_set cfg blank_device = uapi_keys
      [Some (''private_key'', sk), Some (''public_key'', pk), Some (''endpoint'', cr_Endpoint rec),
       Some (''persistent_keepalive_interval'', show_nat KeepaliveSeconds),
       Some (''allowed_ip'', Prefix_String (Masked net))] (blank_device\<lparr>ud_current := None\<rparr>)"
    unfolding uapi_set_lines cfg using hex assms(2)
    by (simp add: uapi_set_line uapi_values lines_Nil del: append_Cons append.simps)
  then have "uapi_set cfg blank_device = Some (split_tunnel sk pk (cr_Endpoint rec) [Masked net])" if "PBits net \<le> 32"
    using ParsePrefix4_String [of "Masked net"] that
    by (simp add: uapi_key_def on_peer_def blank_device_def split_tunnel_def KeepaliveSeconds_def Masked_bits)
  with keys net that show ?thesis by blast
qed

lemma uapi_allowed_lines:
  "map (cut_at CHR ''='') (lines (concat (map (\<lambda>p. ''allowed_ip='' @ Prefix_String (Masked p) @ [CHR 0x0A]) ps))) =
     map (\<lambda>p. Some (''allowed_ip'', Prefix_String (Masked p))) ps"
proof (induction ps)
  case (Cons p ps)
  then show ?case
    using uapi_set_line [of "''allowed_ip''" "Prefix_String (Masked p)"] uapi_values(1) by simp
qed (simp add: lines_Nil)

lemma uapi_allowed_keys:
  assumes "\<forall>p \<in> set ps. PBits p \<le> 32"
  shows "uapi_keys (map (\<lambda>p. Some (''allowed_ip'', Prefix_String (Masked p))) ps) (split_tunnel sk pk e qs) =
    Some (split_tunnel sk pk e (qs @ map Masked ps))"
  using assms
proof (induction ps arbitrary: qs)
  case (Cons p ps)
  then have "uapi_key (''allowed_ip'', Prefix_String (Masked p)) (split_tunnel sk pk e qs) =
      Some (split_tunnel sk pk e (qs @ [Masked p]))"
    using ParsePrefix4_String [of "Masked p"] by (simp add: uapi_key_def on_peer_def split_tunnel_def Masked_bits)
  with Cons show ?case by simp
qed simp

lemma uapi_update:
  assumes "BuildPeerUpdate pub net extras = Inr upd" and "keyB64ToHex pub = Some pk"
    and "PBits net \<le> 32" and "\<forall>p \<in> set extras. PBits p \<le> 32"
  shows "uapi_set upd (split_tunnel sk pk e qs) = Some (split_tunnel sk pk e (Masked net # map Masked extras))"
proof -
  have upd: "upd = ''public_key'' @ CHR ''='' # pk @ CHR 0x0A # ''replace_allowed_ips'' @ CHR ''='' # ''true'' @ CHR 0x0A #
      concat (map (\<lambda>p. ''allowed_ip='' @ Prefix_String (Masked p) @ [CHR 0x0A]) (net # extras))"
    using assms(1,2) by (simp add: BuildPeerUpdate_def)
  have "CHR 0x0A \<notin> set pk" using keyB64ToHex_Some [OF assms(2)] uapi_values(2) by auto
  then have "uapi_set upd (split_tunnel sk pk e qs) = uapi_keys
      (Some (''public_key'', pk) # Some (''replace_allowed_ips'', ''true'') #
       map (\<lambda>p. Some (''allowed_ip'', Prefix_String (Masked p))) (net # extras)) ((split_tunnel sk pk e qs)\<lparr>ud_current := None\<rparr>)"
    unfolding uapi_set_lines upd
    by (simp add: uapi_set_line uapi_allowed_lines del: append_Cons append.simps list.map concat.simps)
  also have "\<dots> = uapi_keys (map (\<lambda>p. Some (''allowed_ip'', Prefix_String (Masked p))) (net # extras)) (split_tunnel sk pk e [])"
    by (simp add: uapi_key_def on_peer_def split_tunnel_def del: list.map)
  finally show ?thesis using uapi_allowed_keys [of "net # extras" sk pk e "[]"] assms(3,4) by simp
qed

subsection \<open>What is read from a report\<close>

lemma parseHandshakeAge_Max:
  "fst (parseHandshakeAge text) =
     Max (insert 0 {parse_int_lax (TrimSpace v) | v l. l \<in> set (split_on CHR 0x0A text) \<and>
       cut_prefix l ''last_handshake_time_sec='' = Some v})"
proof -
  define vals where "vals ls = {parse_int_lax (TrimSpace v) | v l. l \<in> set ls \<and>
       cut_prefix l ''last_handshake_time_sec='' = Some v}" for ls
  have fin: "finite (vals ls)" for ls
  proof -
    have "vals ls \<subseteq> (\<lambda>l. parse_int_lax (TrimSpace (the (cut_prefix l ''last_handshake_time_sec='')))) ` set ls"
      unfolding vals_def by force
    then show ?thesis by (rule finite_subset) simp
  qed
  have "foldl newer_handshake acc ls = Max (insert acc (vals ls))" for acc ls
  proof (induction ls arbitrary: acc)
    case Nil
    then show ?case by (simp add: vals_def)
  next
    case (Cons l ls)
    show ?case
    proof (cases "cut_prefix l ''last_handshake_time_sec=''")
      case None
      then have "vals (l # ls) = vals ls" by (auto simp: vals_def)
      with Cons None show ?thesis by (simp add: newer_handshake_def)
    next
      case (Some v)
      then have "vals (l # ls) = insert (parse_int_lax (TrimSpace v)) (vals ls)" by (auto simp: vals_def)
      with Cons Some fin [of ls] show ?thesis
        by (cases "vals ls = {}") (auto simp: newer_handshake_def Let_def max_def)
    qed
  qed
  then show ?thesis by (simp add: parseHandshakeAge_def Let_def vals_def)
qed

section \<open>Properties\<close>


definition demo_setup :: client_record where
  "demo_setup =
     \<lparr>cr_SchemaVersion = 3, cr_ServerURL = ''https://vpn.example'', cr_NodeName = ''laptop'', cr_IP = dotted (octets 0x647F0002),
      cr_ServerPublicKey = b64_encode True (replicate 32 CHR ''s''), cr_Endpoint = ''vpn.example:51820'',
      cr_Network = Prefix_String (Prefix4 0x647F0000 24), cr_PinnedCertSHA256 = '''', cr_FirewallAllowVPN = False, cr_NodeID = 7\<rparr>"

lemma demo_setup_sel:
  "keyB64ToHex (cr_ServerPublicKey demo_setup) = Some (hex_encode (replicate 32 CHR ''s''))"
  "ParsePrefix4 (cr_Network demo_setup) = Some (Prefix4 0x647F0000 24)"
  "ParseAddr4 (cr_IP demo_setup) = Some 0x647F0002" "cr_Endpoint demo_setup = ''vpn.example:51820''"
  by (simp_all add: demo_setup_def keyB64ToHex_encode ParsePrefix4_String ParseAddr4_dotted)


end
