(* ===== verification/Spec2Isabelle.thy ===== *)
theory Spec2Isabelle
  imports Base64_JS Control_Plane Router_Daemon Router_Server Server_Start Client_Profile
begin

text \<open>
  \<^bold>\<open>lanweave\<close> is a WireGuard relay: users register devices (nodes), put them into password-protected
  zones, and the server forwards traffic between the members of a zone only. A router node may
  announce a subnet behind it, which the zone reaches under a synthetic address block. The program is
  written in Go; this development models the server and the router client, and of the rest the pieces
  named below. The one JavaScript file of the repository is a vendored, minified Swagger UI bundle; its
  base64 module is modelled as well.

  \<^bold>\<open>The server and its state.\<close> A request passes the rate limiter and the routing table of
  \<^verbatim>\<open>internal/server/api\<close>, and a handler changes three states in turn: the SQLite database
  (\<^verbatim>\<open>internal/server/store\<close>), the nftables table that isolates the zones (\<^verbatim>\<open>internal/server/netfw\<close>) and
  the WireGuard device (\<^verbatim>\<open>internal/server/wg\<close>). Only the database is durable: at its start the server
  rebuilds the other two from it (\<^verbatim>\<open>internal/server/app/dataplane.go\<close>). The record \<open>world\<close> holds the
  three, \<open>server\<close> the configuration and the functions the handlers are given; \<open>start_server\<close>
  (\<^verbatim>\<open>internal/server/app\<close>) makes the one from the other out of a configuration it has validated.

  \<^bold>\<open>The router client.\<close> A daemon keeps a kernel WireGuard tunnel up (\<^verbatim>\<open>internal/router/daemon\<close>,
  \<^verbatim>\<open>internal/router/engine\<close>), and a reconcile cycle asks the server for the announcements of the node's
  zones (\<^verbatim>\<open>internal/client/routesync\<close>): its own become address translation rules
  (\<^verbatim>\<open>internal/router/natctl\<close>), those of others routes into the tunnel. The record \<open>router\<close> holds what it
  changes, \<open>router_env\<close> what it runs with; run against the model of the server, \<open>router\<close> contains its
  \<open>world\<close>.

  \<^bold>\<open>Theories.\<close>
  \<^item> \<open>LW_Prelude\<close>: strings as bytes, \<^verbatim>\<open>strconv\<close> and \<^verbatim>\<open>strings\<close> of the standard library, results, generic
    lemmas and the named collections (\<open>table_ok\<close>, \<open>frame_simps\<close>, \<open>table_simps\<close>, \<open>word_nat\<close>).
  \<^item> \<open>Netip\<close>: \<^verbatim>\<open>netip.Prefix\<close> on 32-bit words and \<^verbatim>\<open>internal/netutil\<close>. \<open>Ipam\<close>: \<^verbatim>\<open>internal/server/ipam\<close>,
    the address pool and first-fit allocation of blocks. \<open>PasswordPolicy\<close>: \<^verbatim>\<open>pkg/passwordpolicy\<close>.
  \<^item> \<open>Store_Schema\<close>: the tables of \<^verbatim>\<open>store/migrations\<close> as lists of rows, their constraints
    (\<open>schema_ok\<close>), inserts and cascading deletes. \<open>Store_Accounts\<close> (\<^verbatim>\<open>users.go\<close>, \<^verbatim>\<open>invites.go\<close>,
    \<^verbatim>\<open>register.go\<close>, \<^verbatim>\<open>refresh_tokens.go\<close>, \<^verbatim>\<open>auth/bootstrap.go\<close>), \<open>Store_Nodes\<close> (\<^verbatim>\<open>nodes.go\<close>),
    \<open>Store_Zones\<close> (\<^verbatim>\<open>zones.go\<close>), \<open>Store_Announcements\<close> (\<^verbatim>\<open>announcements.go\<close>): every repository
    operation as a function from the database to a result and the database.
  \<^item> \<open>Netfw\<close>: \<^verbatim>\<open>nftables.go\<close>, the operations as the batches of netlink commands they send, and the
    semantics nft documents for them. \<open>Netfw_Isolation\<close>: which packets the table lets through; the
    locale of an nftables back end and its interpretation. \<open>Netfw_Sets\<close>: elements of the sets.
  \<^item> \<open>Wg\<close>: \<^verbatim>\<open>iface.go\<close> and \<^verbatim>\<open>key.go\<close> over a host (wgctrl, netlink, files), and the cryptokey routing
    table a configuration leaves.
  \<^item> \<open>Api_Base\<close>, \<open>Api_Handlers\<close>, \<open>Api_Accounts\<close>: the handlers, middlewares and routes of
    \<^verbatim>\<open>internal/server/api\<close>, each from its first check to its reply. \<open>Dataplane\<close>: the rebuild, and the
    contract between the database and the kernel (\<open>synced\<close>, \<open>consistent\<close>).
  \<^item> \<open>Api_Calls\<close>, \<open>Api_Plan\<close>, \<open>Api_Cascade\<close>: one call of a handler on the kernel, and what each
    database operation does to the zones and peers the database asks for. \<open>Api_Sync\<close>,
    \<open>Api_Sync_Zones\<close>, \<open>Api_Sync_Cascade\<close>: every handler keeps the kernel in step.
  \<^item> \<open>Api_Reachable\<close>: the server as a transition system and its invariant. \<open>Api_Tenants\<close>: what a
    request leaves alone. \<open>Api_Failures\<close>: what a failed request leaves behind. \<open>Control_Plane\<close>: the
    properties of the whole server, and a server to evaluate them on.
  \<^item> \<open>Server_Config\<close>: \<^verbatim>\<open>config.go\<close>, the sections of the configuration, its defaults and its validation.
    \<open>Status_Tracker\<close>: \<^verbatim>\<open>tracker.go\<close>, the snapshot of handshakes behind the online flag. \<open>Auth\<close>:
    \<^verbatim>\<open>password.go\<close> and \<^verbatim>\<open>jwt.go\<close>, which give the handlers their password and token functions.
    \<open>Server_Start\<close>: \<^verbatim>\<open>app.Run\<close> from the validation to the handlers, and that a server that starts serves
    the network of its database.
  \<^item> \<open>Go_Base64\<close>: \<^verbatim>\<open>encoding/base64\<close> and \<^verbatim>\<open>encoding/hex\<close>. \<open>Client_Profile\<close>: of the desktop client
    (\<^verbatim>\<open>internal/client\<close>) the setup record of \<^verbatim>\<open>state.go\<close>, \<^verbatim>\<open>tunnel/profile.go\<close> and the readers of
    \<^verbatim>\<open>tunnel/tunnel.go\<close>: the text that configures the WireGuard device, and what the documented
    interface of the device makes of it (\<open>uapi_set\<close>).
  \<^item> \<open>Netip_Text\<close>: the text of addresses and prefixes. \<open>Routesync\<close>: \<^verbatim>\<open>routesync.go\<close> and the reference
    aggregation it equals. \<open>Natctl\<close>: \<^verbatim>\<open>natctl.go\<close> and what its table does to a packet. \<open>Router_Engine\<close>:
    \<^verbatim>\<open>engine.go\<close>, and when the engine's memory is true to the kernel (\<open>coherent\<close>). \<open>Router_Daemon\<close>: the
    watch loop as a transition system, over the locale \<open>tunnel\<close> that the engine satisfies.
    \<open>Router_Reconcile\<close>: \<^verbatim>\<open>reconcile.go\<close>, \<open>reconcileAll\<close> and the announce commands of
    \<^verbatim>\<open>cmd/lanweave-routerd\<close>. \<open>Router_Server\<close>: the cycle against the handlers of the server, and the path
    of a packet from a member of a zone to a host behind an announcing router.
  \<^item> \<open>Base64_JS\<close>: module 67526 (base64-js) of the bundle \<^verbatim>\<open>api/docs/assets/swagger-ui-bundle.js\<close>.

  \<^bold>\<open>Proof structure.\<close> A component's theory proves what each of its operations does on every branch, and
  that it keeps the component's invariant; the invariants of the database are collected in
  \<open>ann_inv\<close>, those the kernel relies on in \<open>consistent\<close>. The nftables table and the device refine the
  abstract maps \<open>zone_map\<close> and \<open>tunnel_map\<close> (\<open>represents\<close>, \<open>carries\<close>); the handlers are proved against
  the maps, never against the rules. A handler is a tree of early replies: \<open>ends_with Q\<close> says that
  every branch ends in \<open>Q\<close>, and the collection \<open>branch_rules\<close> walks the tree, so that the same rules
  carry the synchronisation, the isolation of tenants and the absence of traces.

  \<^bold>\<open>What is a parameter.\<close> The netlink connection and the kernel behind it (\<open>nft\<close>, with the hypothesis
  \<open>nft_contract\<close>: a flush is atomic and follows nft's documentation; \<open>nft_faultless\<close> in addition never
  fails), the WireGuard device and links (\<open>host\<close>, \<open>wg_contract\<close>), argon2 and the JWT library
  (\<open>crypto_contract\<close>, \<open>jwt_contract\<close>), SHA-256, \<^verbatim>\<open>netip.ParsePrefix\<close> (\<open>cidr_agrees\<close> with
  \<^verbatim>\<open>net.ParseCIDR\<close>), \<^verbatim>\<open>time.ParseDuration\<close>, the certificate loader, the random source and the clock; for the router, its machine (netlink, wgctrl,
  name resolution: \<open>machine\<close> with \<open>machine_contract\<close>), the nftables library it uses (\<open>nat_lib\<close>,
  \<open>nat_contract\<close>) and the kernel's prefix translation (\<open>netmap_contract\<close>). Every statement of the database may fail:
  \<open>db_fault\<close> of the environment \<open>env\<close> decides, and \<open>quiet\<close> says that none does. Each contract is shown
  to hold of a concrete model (\<open>model_nft\<close>, \<open>model_host\<close>, \<open>demo_machine\<close>, \<open>model_nat\<close>, \<open>model_netmap\<close>, \<open>toy_crypto\<close>,
  \<open>toy_jwt\<close>, \<open>demo_platform\<close>).

  \<^bold>\<open>Bounds and fuel.\<close> Registering a node retries 100 times and creating an invite 5 times, as in the
  code: these are the code's bounds, not fuel, and running out of them is an error value. The
  allocation of a block recurs on the distance to the end of the pool. \<open>TrimSpace\<close> strips at most as
  many characters as the string has. Ids are unbounded integers (SQLite's are 63 bits wide).

  \<^bold>\<open>Not modelled.\<close> Interleaved requests: a request runs from its start to its reply before the next one
  (the exception is \<open>CreateNode\<close>, whose retry loop is there for interference and is proved under it).
  The commands of the router run beside its daemon; that the table lock keeps their changes apart is
  not shown. Request decoding, logging, the reading of the configuration file, the migrations of the
  database, the listener and the shutdown, the desktop client but for its profile, the listing and onboarding commands and the parsing of command lines. The tunnel is IPv4: a server whose \<^verbatim>\<open>wireguard.network\<close> is an IPv6 prefix stops
  at its start, and in the model so does one whose announce pool is written as an IPv6 prefix. The recovery from panics in \<^verbatim>\<open>middleware.go\<close> is left out with the logger.
\<close>

end
